(* ===== verification/Prelude.thy ===== *)
theory Prelude
  imports Main
begin

text \<open>
  Shared vocabulary of the development: JavaScript strings as lists of UTF-16 code units with
  the trimming, slicing, splitting and searching operations the sources use, decimal numbers as
  text, and the lemma collections the component theories use. Tables, application errors and the
  membership check are in \<^verbatim>\<open>Db.thy\<close>.
\<close>

named_theorems table_simps \<open>what a table operation returns after another one\<close>
named_theorems text_simps \<open>length and slicing facts about JavaScript strings\<close>

section \<open>JavaScript strings\<close>

text \<open>
  A JavaScript string is a sequence of UTF-16 code units; \<open>length\<close>, \<open>slice\<close>, \<open>indexOf\<close> and the
  offsets the sources store all count code units. ASCII literals are written \<open>asc ''...''\<close>,
  Korean literals as their code units. Identifiers, keys and other strings that the sources
  only compare or concatenate are HOL strings.
\<close>

type_synonym jstring = "nat list"
type_synonym time_ms = int

definition asc :: "string \<Rightarrow> jstring" where
  "asc s = map of_char s"

text \<open>WhiteSpace and LineTerminator of ECMA-262, the characters \<open>String.prototype.trim\<close> and the
  regular expression class \<open>\s\<close> accept.\<close>

definition is_js_space :: "nat \<Rightarrow> bool" where
  "is_js_space c \<longleftrightarrow>
     (9 \<le> c \<and> c \<le> 13) \<or> c = 32 \<or> c = 160 \<or> c = 5760 \<or> (8192 \<le> c \<and> c \<le> 8202) \<or>
     c = 8232 \<or> c = 8233 \<or> c = 8239 \<or> c = 8287 \<or> c = 12288 \<or> c = 65279"

definition is_digit_unit :: "nat \<Rightarrow> bool" where
  "is_digit_unit c \<longleftrightarrow> 48 \<le> c \<and> c \<le> 57"

definition js_trim_start :: "jstring \<Rightarrow> jstring" where
  "js_trim_start s = dropWhile is_js_space s"

definition js_trim_end :: "jstring \<Rightarrow> jstring" where
  "js_trim_end s = rev (dropWhile is_js_space (rev s))"

definition js_trim :: "jstring \<Rightarrow> jstring" where
  "js_trim s = js_trim_end (js_trim_start s)"

text \<open>\<open>s.slice(a, b)\<close> for \<open>a, b \<ge> 0\<close>: empty when \<open>b \<le> a\<close>, cut at the end of \<open>s\<close>.\<close>

definition js_slice :: "jstring \<Rightarrow> nat \<Rightarrow> nat \<Rightarrow> jstring" where
  "js_slice s a b = take (b - a) (drop a s)"

text \<open>\<open>s.indexOf(c, pos)\<close> for a one-unit needle; \<open>None\<close> is the code's \<open>-1\<close>.\<close>

fun index_of_from :: "nat \<Rightarrow> jstring \<Rightarrow> nat \<Rightarrow> nat option" where
  "index_of_from c [] pos = None"
| "index_of_from c (x # xs) pos = (if x = c then Some pos else index_of_from c xs (Suc pos))"

definition js_index_of :: "nat \<Rightarrow> jstring \<Rightarrow> nat \<Rightarrow> nat option" where
  "js_index_of c s pos = index_of_from c (drop pos s) pos"

lemma js_slice_length [text_simps]: "length (js_slice s a b) = min (b - a) (length s - a)"
  by (simp add: js_slice_def)

lemma js_slice_append [text_simps]:
  "a \<le> b \<Longrightarrow> b \<le> c \<Longrightarrow> js_slice s a b @ js_slice s b c = js_slice s a c"
proof -
  assume "a \<le> b" "b \<le> c"
  then have "take (c - a) (drop a s) = take ((b - a) + (c - b)) (drop a s)" by simp
  also have "\<dots> = take (b - a) (drop a s) @ take (c - b) (drop (b - a) (drop a s))"
    by (rule take_add)
  finally show ?thesis using \<open>a \<le> b\<close> by (simp add: js_slice_def)
qed

lemma js_slice_slice [text_simps]:
  "a + d \<le> b \<Longrightarrow> js_slice (js_slice s a b) c d = js_slice s (a + c) (a + d)"
  by (simp add: js_slice_def drop_take min_absorb1 add.commute)

lemma js_trim_start_length: "length (js_trim_start s) \<le> length s"
  by (simp add: js_trim_start_def length_dropWhile_le)

lemma js_trim_end_length: "length (js_trim_end s) \<le> length s"
  using length_dropWhile_le [of is_js_space "rev s"] by (simp add: js_trim_end_def)

lemma js_trim_start_drop: "js_trim_start s = drop (length s - length (js_trim_start s)) s"
proof -
  have "s = takeWhile is_js_space s @ js_trim_start s"
    by (simp add: js_trim_start_def)
  then have "drop (length (takeWhile is_js_space s)) s = js_trim_start s"
    by (metis append_eq_conv_conj)
  moreover have "length s - length (js_trim_start s) = length (takeWhile is_js_space s)"
    by (metis \<open>s = takeWhile is_js_space s @ js_trim_start s\<close> add_diff_cancel_right' length_append)
  ultimately show ?thesis by simp
qed

lemma js_trim_end_take: "js_trim_end s = take (length (js_trim_end s)) s"
proof -
  have "rev s = takeWhile is_js_space (rev s) @ dropWhile is_js_space (rev s)" by simp
  then have "s = rev (dropWhile is_js_space (rev s)) @ rev (takeWhile is_js_space (rev s))"
    by (metis rev_append rev_rev_ident)
  then have "s = js_trim_end s @ rev (takeWhile is_js_space (rev s))"
    by (simp add: js_trim_end_def)
  then show ?thesis by (metis append_eq_conv_conj)
qed

lemma js_trim_start_Nil: "js_trim_start s = [] \<longleftrightarrow> (\<forall>c \<in> set s. is_js_space c)"
  by (simp add: js_trim_start_def dropWhile_eq_Nil_conv)

lemma js_trim_end_Nil: "js_trim_end s = [] \<longleftrightarrow> (\<forall>c \<in> set s. is_js_space c)"
  by (simp add: js_trim_end_def dropWhile_eq_Nil_conv)

lemma set_js_trim_start: "set (js_trim_start s) \<subseteq> set s"
  by (auto simp: js_trim_start_def dest: set_dropWhileD)

lemma js_trim_Nil: "js_trim s = [] \<longleftrightarrow> (\<forall>c \<in> set s. is_js_space c)"
proof -
  have "(\<forall>c \<in> set (js_trim_start s). is_js_space c) \<longleftrightarrow> js_trim_start s = []"
    by (metis dropWhile_eq_Nil_conv dropWhile_idem js_trim_start_def)
  then show ?thesis by (simp add: js_trim_def js_trim_end_Nil js_trim_start_Nil)
qed

lemma index_of_from_Some:
  "index_of_from c xs pos = Some i \<Longrightarrow> pos \<le> i \<and> i < pos + length xs"
  by (induction c xs pos rule: index_of_from.induct) (auto split: if_splits)

lemma js_index_of_Some:
  "js_index_of c s pos = Some i \<Longrightarrow> pos \<le> i \<and> i < length s"
  by (drule index_of_from_Some [of c "drop pos s" pos i, unfolded js_index_of_def [symmetric]]) auto

text \<open>\<open>s.split(c)\<close> for a one-unit separator, and \<open>parts.join(c)\<close>.\<close>

fun split_on :: "nat \<Rightarrow> jstring \<Rightarrow> jstring list" where
  "split_on c [] = [[]]"
| "split_on c (x # xs) =
     (if x = c then [] # split_on c xs
      else (case split_on c xs of [] \<Rightarrow> [[x]] | p # ps \<Rightarrow> (x # p) # ps))"

fun join_with :: "nat \<Rightarrow> jstring list \<Rightarrow> jstring" where
  "join_with c [] = []"
| "join_with c [p] = p"
| "join_with c (p # q # ps) = p @ c # join_with c (q # ps)"

lemma split_on_not_Nil [simp]: "split_on c s \<noteq> []"
  by (cases s) (auto split: list.split)

lemma split_on_append: "split_on c (s @ c # t) = split_on c s @ split_on c t"
proof (induction s)
  case (Cons x s)
  obtain p ps where "split_on c s = p # ps" by (cases "split_on c s") auto
  with Cons show ?case by simp
qed simp

lemma split_on_no_sep: "c \<notin> set s \<Longrightarrow> split_on c s = [s]"
  by (induction s) auto

lemma split_join:
  "ps \<noteq> [] \<Longrightarrow> (\<forall>p \<in> set ps. c \<notin> set p) \<Longrightarrow> split_on c (join_with c ps) = ps"
  by (induction c ps rule: join_with.induct) (simp_all add: split_on_no_sep split_on_append)

text \<open>Decimal digits of a number, and \<open>padStart(n, "0")\<close>.\<close>

fun nat_str :: "nat \<Rightarrow> string" where
  "nat_str n = (if n < 10 then [char_of (48 + n)] else nat_str (n div 10) @ [char_of (48 + n mod 10)])"

declare nat_str.simps [simp del]

definition pad_start :: "nat \<Rightarrow> string \<Rightarrow> string" where
  "pad_start n s = replicate (n - length s) (CHR ''0'') @ s"

end
