(* ===== verification/CircuitBreaker.thy ===== *)
theory CircuitBreaker
  imports Prelude
begin

text \<open>
  The per-provider circuit breaker: the contract of
  \<^verbatim>\<open>src/src/domain/ai/circuit-breaker.ts\<close>, its process-local implementation
  (\<^verbatim>\<open>in-memory-circuit-breaker.ts\<close>) and its Redis implementation, whose state machine is
  the Lua scripts of \<^verbatim>\<open>redis-circuit-breaker-lua-scripts.ts\<close> run against a hash with an
  expiry. The contract is the locale \<open>circuit_breaker\<close>; both implementations interpret it, and a
  simulation relates them while the Redis key is alive.
\<close>

section \<open>The contract's data\<close>

datatype circuit_state = CLOSED | OPEN | HALF_OPEN

record call_token =
  allowed :: bool
  token_state :: circuit_state

record breaker_config =
  failureThreshold :: nat
  failureWindowSeconds :: nat
  openDurationSeconds :: nat
  probeTimeoutMs :: nat

definition CIRCUIT_BREAKER_CONFIG :: breaker_config where
  "CIRCUIT_BREAKER_CONFIG =
     \<lparr>failureThreshold = 5, failureWindowSeconds = 60, openDurationSeconds = 30,
      probeTimeoutMs = 30000\<rparr>"

definition openDurationMs :: "breaker_config \<Rightarrow> time_ms" where
  "openDurationMs cfg = int (openDurationSeconds cfg) * 1000"

definition failureWindowMs :: "breaker_config \<Rightarrow> time_ms" where
  "failureWindowMs cfg = int (failureWindowSeconds cfg) * 1000"

section \<open>The process-local breaker\<close>

text \<open>
  A JavaScript \<open>undefined\<close> field is \<open>None\<close>. \<open>entries\<close> is the \<open>Map\<close>; \<open>getEntry\<close> inserts a fresh
  entry when the key has none, so \<open>beforeCall\<close> changes the map even for a closed circuit.
\<close>

record breaker_entry =
  failures :: nat
  failureWindowStartedAt :: "time_ms option"
  openedAt :: "time_ms option"
  halfOpenProbeAt :: "time_ms option"

type_synonym mem_breaker = "string \<rightharpoonup> breaker_entry"

definition fresh_entry :: breaker_entry where
  "fresh_entry = \<lparr>failures = 0, failureWindowStartedAt = None, openedAt = None,
                  halfOpenProbeAt = None\<rparr>"

definition mem_getEntry :: "string \<Rightarrow> mem_breaker \<Rightarrow> breaker_entry \<times> mem_breaker" where
  "mem_getEntry key m =
     (case m key of
        Some e \<Rightarrow> (e, m)
      | None \<Rightarrow> (fresh_entry, m(key \<mapsto> fresh_entry)))"

definition mem_beforeCall ::
  "breaker_config \<Rightarrow> time_ms \<Rightarrow> string \<Rightarrow> mem_breaker \<Rightarrow> call_token \<times> mem_breaker" where
  "mem_beforeCall cfg now key m =
     (let (entry, m1) = mem_getEntry key m in
      case openedAt entry of
        None \<Rightarrow> (\<lparr>allowed = True, token_state = CLOSED\<rparr>, m1)
      | Some opened \<Rightarrow>
          if now - opened < openDurationMs cfg
          then (\<lparr>allowed = False, token_state = OPEN\<rparr>, m1)
          else if (case halfOpenProbeAt entry of
                     None \<Rightarrow> False
                   | Some probe \<Rightarrow> now - probe < int (probeTimeoutMs cfg))
          then (\<lparr>allowed = False, token_state = HALF_OPEN\<rparr>, m1)
          else (\<lparr>allowed = True, token_state = HALF_OPEN\<rparr>,
                m1(key \<mapsto> entry\<lparr>halfOpenProbeAt := Some now\<rparr>)))"

definition mem_onSuccess :: "string \<Rightarrow> mem_breaker \<Rightarrow> mem_breaker" where
  "mem_onSuccess key m = m(key := None)"

definition mem_onFailure ::
  "breaker_config \<Rightarrow> time_ms \<Rightarrow> string \<Rightarrow> mem_breaker \<Rightarrow> mem_breaker" where
  "mem_onFailure cfg now key m =
     (let (entry, m1) = mem_getEntry key m in
      case openedAt entry of
        Some _ \<Rightarrow> m1(key \<mapsto> entry\<lparr>openedAt := Some now, halfOpenProbeAt := None\<rparr>)
      | None \<Rightarrow>
          let windowed =
                (if (case failureWindowStartedAt entry of
                       None \<Rightarrow> True
                     | Some start \<Rightarrow> now - start > failureWindowMs cfg)
                 then entry\<lparr>failureWindowStartedAt := Some now, failures := 0\<rparr>
                 else entry);
              counted = windowed\<lparr>failures := failures windowed + 1\<rparr>
          in m1(key \<mapsto> (if failures counted \<ge> failureThreshold cfg
                         then counted\<lparr>openedAt := Some now\<rparr> else counted)))"

definition mem_getState ::
  "breaker_config \<Rightarrow> time_ms \<Rightarrow> string \<Rightarrow> mem_breaker \<Rightarrow> circuit_state" where
  "mem_getState cfg now key m =
     (case m key of
        None \<Rightarrow> CLOSED
      | Some entry \<Rightarrow>
          (case openedAt entry of
             None \<Rightarrow> CLOSED
           | Some opened \<Rightarrow> if now - opened < openDurationMs cfg then OPEN else HALF_OPEN))"

section \<open>The Redis breaker\<close>

text \<open>
  One Redis hash per provider: its three fields and the expiry set by \<open>EXPIRE\<close>. A key whose
  expiry lies strictly before the server clock reads as absent (\<open>rlive\<close>), and a write to an
  absent key creates it with no expiry. The application and the server read the same clock
  \<open>now\<close> (the scripts get the application's clock as an argument).
\<close>

record redis_hash =
  h_failures :: "nat option"
  h_openedAt :: "time_ms option"
  h_probeAt :: "time_ms option"
  h_expireAt :: "time_ms option"

type_synonym redis_breaker = "string \<rightharpoonup> redis_hash"

definition empty_hash :: redis_hash where
  "empty_hash = \<lparr>h_failures = None, h_openedAt = None, h_probeAt = None, h_expireAt = None\<rparr>"

definition hash_expired :: "time_ms \<Rightarrow> redis_hash \<Rightarrow> bool" where
  "hash_expired now h = (case h_expireAt h of None \<Rightarrow> False | Some t \<Rightarrow> now > t)"

definition rlive :: "time_ms \<Rightarrow> string \<Rightarrow> redis_breaker \<Rightarrow> redis_hash option" where
  "rlive now key r =
     (case r key of
        None \<Rightarrow> None
      | Some h \<Rightarrow> if hash_expired now h then None else Some h)"

definition rhash :: "time_ms \<Rightarrow> string \<Rightarrow> redis_breaker \<Rightarrow> redis_hash" where
  "rhash now key r = (case rlive now key r of None \<Rightarrow> empty_hash | Some h \<Rightarrow> h)"

definition expire_in :: "time_ms \<Rightarrow> nat \<Rightarrow> redis_hash \<Rightarrow> redis_hash" where
  "expire_in now seconds h = h\<lparr>h_expireAt := Some (now + int seconds * 1000)\<rparr>"

text \<open>\<open>math.ceil((openDurationMs + probeTimeoutMs) / 1000) + 60\<close>, in seconds.\<close>

definition probe_ttl_seconds :: "breaker_config \<Rightarrow> nat" where
  "probe_ttl_seconds cfg =
     (openDurationSeconds cfg * 1000 + probeTimeoutMs cfg + 999) div 1000 + 60"

definition CIRCUIT_BEFORE_CALL_SCRIPT ::
  "breaker_config \<Rightarrow> time_ms \<Rightarrow> string \<Rightarrow> redis_breaker \<Rightarrow> (nat \<times> circuit_state) \<times> redis_breaker"
where
  "CIRCUIT_BEFORE_CALL_SCRIPT cfg now key r =
     (case h_openedAt (rhash now key r) of
        None \<Rightarrow> ((1, CLOSED), r)
      | Some opened \<Rightarrow>
          if now - opened < openDurationMs cfg then ((0, OPEN), r)
          else if (case h_probeAt (rhash now key r) of
                     None \<Rightarrow> False
                   | Some probe \<Rightarrow> now - probe < int (probeTimeoutMs cfg))
          then ((0, HALF_OPEN), r)
          else ((1, HALF_OPEN),
                r(key \<mapsto> expire_in now (probe_ttl_seconds cfg)
                           ((rhash now key r)\<lparr>h_probeAt := Some now\<rparr>))))"

definition CIRCUIT_ON_SUCCESS_SCRIPT :: "string \<Rightarrow> redis_breaker \<Rightarrow> redis_breaker" where
  "CIRCUIT_ON_SUCCESS_SCRIPT key r = r(key := None)"

definition CIRCUIT_ON_FAILURE_SCRIPT ::
  "breaker_config \<Rightarrow> time_ms \<Rightarrow> string \<Rightarrow> redis_breaker \<Rightarrow> (nat \<times> circuit_state) \<times> redis_breaker"
where
  "CIRCUIT_ON_FAILURE_SCRIPT cfg now key r =
     (let h = rhash now key r in
      case h_openedAt h of
        Some _ \<Rightarrow>
          ((1, OPEN),
           r(key \<mapsto> expire_in now (openDurationSeconds cfg + 60)
                      (h\<lparr>h_openedAt := Some now, h_probeAt := None\<rparr>)))
      | None \<Rightarrow>
          let n = (case h_failures h of None \<Rightarrow> 0 | Some k \<Rightarrow> k) + 1;
              h1 = h\<lparr>h_failures := Some n\<rparr>;
              h2 = (if n = 1 then expire_in now (failureWindowSeconds cfg) h1 else h1)
          in if n \<ge> failureThreshold cfg
             then ((1, OPEN),
                   r(key \<mapsto> expire_in now (openDurationSeconds cfg + 60)
                              (h2\<lparr>h_openedAt := Some now\<rparr>)))
             else ((0, CLOSED), r(key \<mapsto> h2)))"

text \<open>The class \<open>RedisCircuitBreaker\<close> over the scripts.\<close>

definition redis_beforeCall ::
  "breaker_config \<Rightarrow> time_ms \<Rightarrow> string \<Rightarrow> redis_breaker \<Rightarrow> call_token \<times> redis_breaker" where
  "redis_beforeCall cfg now key r =
     (let ((ok, st), r') = CIRCUIT_BEFORE_CALL_SCRIPT cfg now key r
      in (\<lparr>allowed = (ok = 1), token_state = st\<rparr>, r'))"

definition redis_onSuccess :: "string \<Rightarrow> redis_breaker \<Rightarrow> redis_breaker" where
  "redis_onSuccess key r = CIRCUIT_ON_SUCCESS_SCRIPT key r"

definition redis_onFailure ::
  "breaker_config \<Rightarrow> time_ms \<Rightarrow> string \<Rightarrow> redis_breaker \<Rightarrow> redis_breaker" where
  "redis_onFailure cfg now key r = snd (CIRCUIT_ON_FAILURE_SCRIPT cfg now key r)"

definition redis_getState ::
  "breaker_config \<Rightarrow> time_ms \<Rightarrow> string \<Rightarrow> redis_breaker \<Rightarrow> circuit_state" where
  "redis_getState cfg now key r =
     (case h_openedAt (rhash now key r) of
        None \<Rightarrow> CLOSED
      | Some opened \<Rightarrow> if now - opened < openDurationMs cfg then OPEN else HALF_OPEN)"

section \<open>The contract\<close>

text \<open>The answers to a burst of calls, at the given times, with no outcome reported in between.\<close>

fun burst :: "(time_ms \<Rightarrow> 's \<Rightarrow> call_token \<times> 's) \<Rightarrow> time_ms list \<Rightarrow> 's \<Rightarrow> bool list \<times> 's" where
  "burst call [] s = ([], s)"
| "burst call (t # ts) s =
     (let (tok, s1) = call t s; (bs, s2) = burst call ts s1 in (allowed tok # bs, s2))"

text \<open>
  What a caller relies on, whatever the implementation: the read-only state decides whether a
  call is let through, a denied call changes nothing, a success closes the circuit, a failure
  of an open circuit starts the cooldown again, and providers do not disturb each other.
\<close>

locale circuit_breaker =
  fixes before_call :: "time_ms \<Rightarrow> string \<Rightarrow> 's \<Rightarrow> call_token \<times> 's"
    and on_success :: "string \<Rightarrow> 's \<Rightarrow> 's"
    and on_failure :: "time_ms \<Rightarrow> string \<Rightarrow> 's \<Rightarrow> 's"
    and state_of :: "time_ms \<Rightarrow> string \<Rightarrow> 's \<Rightarrow> circuit_state"
    and cooldown :: time_ms
    and probe_timeout :: time_ms
  assumes token_matches_state: "token_state (fst (before_call now k s)) = state_of now k s"
    and open_denies: "state_of now k s = OPEN \<Longrightarrow> \<not> allowed (fst (before_call now k s))"
    and closed_allows: "state_of now k s = CLOSED \<Longrightarrow> allowed (fst (before_call now k s))"
    and denied_unchanged:
      "\<not> allowed (fst (before_call now k s)) \<Longrightarrow> snd (before_call now k s) = s"
    and probe_exclusive:
      "allowed (fst (before_call now k s)) \<Longrightarrow> state_of now k s = HALF_OPEN \<Longrightarrow>
       now \<le> t \<Longrightarrow> t < now + probe_timeout \<Longrightarrow>
       \<not> allowed (fst (before_call t k (snd (before_call now k s))))"
    and success_closes: "state_of now k (on_success k s) = CLOSED"
    and failure_reopens:
      "state_of now k s \<noteq> CLOSED \<Longrightarrow> now \<le> t \<Longrightarrow> t < now + cooldown \<Longrightarrow>
       state_of t k (on_failure now k s) = OPEN"
    and frame_success: "k' \<noteq> k \<Longrightarrow> state_of t k' (on_success k s) = state_of t k' s"
    and frame_failure: "k' \<noteq> k \<Longrightarrow> state_of t k' (on_failure now k s) = state_of t k' s"
    and frame_before: "k' \<noteq> k \<Longrightarrow> state_of t k' (snd (before_call now k s)) = state_of t k' s"
begin

lemma denied_not_closed:
  "\<not> allowed (fst (before_call now k s)) \<Longrightarrow> state_of now k s \<noteq> CLOSED"
  using closed_allows by blast

lemma success_then_allowed: "allowed (fst (before_call now k (on_success k s)))"
  by (simp add: closed_allows success_closes)

lemma failure_then_denied:
  "state_of now k s \<noteq> CLOSED \<Longrightarrow> now \<le> t \<Longrightarrow> t < now + cooldown \<Longrightarrow>
   \<not> allowed (fst (before_call t k (on_failure now k s)))"
  by (simp add: open_denies failure_reopens)

text \<open>During the cooldown every call of a burst is denied; of a burst on a half-open circuit,
  shorter than the probe timeout, at most one is let through.\<close>

lemma burst_all_denied:
  "(\<And>t. t \<in> set ts \<Longrightarrow> \<not> allowed (fst (before_call t k s))) \<Longrightarrow>
   burst (\<lambda>t. before_call t k) ts s = (replicate (length ts) False, s)"
  by (induction ts) (auto simp: case_prod_beta Let_def denied_unchanged)

lemma burst_open_denied:
  "(\<And>t. t \<in> set ts \<Longrightarrow> state_of t k s = OPEN) \<Longrightarrow>
   burst (\<lambda>t. before_call t k) ts s = (replicate (length ts) False, s)"
  by (rule burst_all_denied) (simp add: open_denies)

lemma burst_one_probe:
  "(\<And>t. t \<in> set ts \<Longrightarrow> state_of t k s = HALF_OPEN) \<Longrightarrow> sorted ts \<Longrightarrow>
   (\<And>t u. t \<in> set ts \<Longrightarrow> u \<in> set ts \<Longrightarrow> u < t + probe_timeout) \<Longrightarrow>
   count_list (fst (burst (\<lambda>t. before_call t k) ts s)) True \<le> 1"
proof (induction ts)
  case Nil
  then show ?case by simp
next
  case (Cons t ts)
  show ?case
  proof (cases "allowed (fst (before_call t k s))")
    case False
    with Cons show ?thesis by (auto simp: case_prod_beta Let_def denied_unchanged)
  next
    case True
    have "burst (\<lambda>t. before_call t k) ts (snd (before_call t k s)) =
          (replicate (length ts) False, snd (before_call t k s))"
    proof (rule burst_all_denied)
      fix u assume "u \<in> set ts"
      with Cons.prems True show "\<not> allowed (fst (before_call u k (snd (before_call t k s))))"
        by (intro probe_exclusive) auto
    qed
    with True show ?thesis by (simp add: case_prod_beta Let_def count_list_0_iff)
  qed
qed

end

section \<open>Both implementations keep the contract\<close>

lemmas mem_breaker_defs =
  mem_beforeCall_def mem_onSuccess_def mem_onFailure_def mem_getState_def mem_getEntry_def
  fresh_entry_def Let_def

lemmas redis_breaker_defs =
  redis_beforeCall_def redis_onSuccess_def redis_onFailure_def redis_getState_def
  CIRCUIT_BEFORE_CALL_SCRIPT_def CIRCUIT_ON_SUCCESS_SCRIPT_def CIRCUIT_ON_FAILURE_SCRIPT_def
  Let_def

text \<open>Reading a key back after a write, without unfolding the expiry.\<close>

lemma rhash_upd [simp]:
  "rhash t k' (r(k \<mapsto> h)) =
     (if k' = k then (if hash_expired t h then empty_hash else h) else rhash t k' r)"
  by (simp add: rhash_def rlive_def)

lemma rhash_del [simp]:
  "rhash t k' (r(k := None)) = (if k' = k then empty_hash else rhash t k' r)"
  by (simp add: rhash_def rlive_def)

lemma empty_hash_sel [simp]:
  "h_failures empty_hash = None" "h_openedAt empty_hash = None" "h_probeAt empty_hash = None"
  "h_expireAt empty_hash = None"
  by (simp_all add: empty_hash_def)

lemma expire_in_sel [simp]:
  "h_failures (expire_in now n h) = h_failures h" "h_openedAt (expire_in now n h) = h_openedAt h"
  "h_probeAt (expire_in now n h) = h_probeAt h"
  "h_expireAt (expire_in now n h) = Some (now + int n * 1000)"
  by (simp_all add: expire_in_def)

lemma hash_expired_expire_in [simp]:
  "hash_expired t (expire_in now n h) \<longleftrightarrow> now + int n * 1000 < t"
  by (simp add: hash_expired_def)

lemma probe_ttl_bound:
  "openDurationMs cfg + int (probeTimeoutMs cfg) + 60000 \<le> int (probe_ttl_seconds cfg) * 1000"
  unfolding probe_ttl_seconds_def openDurationMs_def by (simp add: zdiv_int)

interpretation mem_cb: circuit_breaker
  "mem_beforeCall cfg" mem_onSuccess "mem_onFailure cfg" "mem_getState cfg" "openDurationMs cfg"
  "int (probeTimeoutMs cfg)"
  for cfg
proof unfold_locales
  fix now k s
  show "token_state (fst (mem_beforeCall cfg now k s)) = mem_getState cfg now k s"
    by (auto simp: mem_breaker_defs split: option.splits)
  show "mem_getState cfg now k s = OPEN \<Longrightarrow> \<not> allowed (fst (mem_beforeCall cfg now k s))"
    by (auto simp: mem_breaker_defs split: option.splits if_splits)
  show "mem_getState cfg now k s = CLOSED \<Longrightarrow> allowed (fst (mem_beforeCall cfg now k s))"
    by (auto simp: mem_breaker_defs split: option.splits if_splits)
  show "mem_getState cfg now k (mem_onSuccess k s) = CLOSED"
    by (simp add: mem_breaker_defs)
next
  fix now k s t k'
  show "\<not> allowed (fst (mem_beforeCall cfg now k s)) \<Longrightarrow> snd (mem_beforeCall cfg now k s) = s"
    by (auto simp: mem_breaker_defs split: option.splits if_splits)
  show "allowed (fst (mem_beforeCall cfg now k s)) \<Longrightarrow> mem_getState cfg now k s = HALF_OPEN \<Longrightarrow>
        now \<le> t \<Longrightarrow> t < now + int (probeTimeoutMs cfg) \<Longrightarrow>
        \<not> allowed (fst (mem_beforeCall cfg t k (snd (mem_beforeCall cfg now k s))))"
    by (auto simp: mem_breaker_defs split: option.splits if_splits)
  show "mem_getState cfg now k s \<noteq> CLOSED \<Longrightarrow> now \<le> t \<Longrightarrow> t < now + openDurationMs cfg \<Longrightarrow>
        mem_getState cfg t k (mem_onFailure cfg now k s) = OPEN"
    by (auto simp: mem_breaker_defs split: option.splits if_splits)
qed (auto simp: mem_breaker_defs split: option.splits if_splits)

interpretation redis_cb: circuit_breaker
  "redis_beforeCall cfg" redis_onSuccess "redis_onFailure cfg" "redis_getState cfg"
  "openDurationMs cfg" "int (probeTimeoutMs cfg)"
  for cfg
proof unfold_locales
  fix now k s
  show "token_state (fst (redis_beforeCall cfg now k s)) = redis_getState cfg now k s"
    by (auto simp: redis_breaker_defs split: option.splits)
  show "redis_getState cfg now k s = OPEN \<Longrightarrow> \<not> allowed (fst (redis_beforeCall cfg now k s))"
    by (auto simp: redis_breaker_defs split: option.splits if_splits)
  show "redis_getState cfg now k s = CLOSED \<Longrightarrow> allowed (fst (redis_beforeCall cfg now k s))"
    by (auto simp: redis_breaker_defs split: option.splits if_splits)
  show "redis_getState cfg now k (redis_onSuccess k s) = CLOSED"
    by (simp add: redis_breaker_defs)
next
  fix now k s t k'
  show "\<not> allowed (fst (redis_beforeCall cfg now k s)) \<Longrightarrow> snd (redis_beforeCall cfg now k s) = s"
    by (auto simp: redis_breaker_defs split: option.splits if_splits)
  show "allowed (fst (redis_beforeCall cfg now k s)) \<Longrightarrow> redis_getState cfg now k s = HALF_OPEN \<Longrightarrow>
        now \<le> t \<Longrightarrow> t < now + int (probeTimeoutMs cfg) \<Longrightarrow>
        \<not> allowed (fst (redis_beforeCall cfg t k (snd (redis_beforeCall cfg now k s))))"
    using probe_ttl_bound [of cfg]
    by (auto simp: redis_breaker_defs openDurationMs_def split: option.splits if_splits)
  show "redis_getState cfg now k s \<noteq> CLOSED \<Longrightarrow> now \<le> t \<Longrightarrow> t < now + openDurationMs cfg \<Longrightarrow>
        redis_getState cfg t k (redis_onFailure cfg now k s) = OPEN"
    by (auto simp: redis_breaker_defs openDurationMs_def split: option.splits if_splits)
qed (auto simp: redis_breaker_defs split: option.splits if_splits)

section \<open>The two implementations agree while the Redis key is alive\<close>

text \<open>
  \<open>agree\<close> relates the two states of one provider at a time; \<open>hash_slack\<close> says the hash of an open
  circuit will live another minute, which every operation re-establishes (each expiry of an
  open circuit is the cooldown, or the cooldown and the probe timeout, plus 60 seconds).
\<close>

definition mem_entry :: "string \<Rightarrow> mem_breaker \<Rightarrow> breaker_entry" where
  "mem_entry key m = (case m key of None \<Rightarrow> fresh_entry | Some e \<Rightarrow> e)"

definition agree :: "breaker_config \<Rightarrow> time_ms \<Rightarrow> breaker_entry \<Rightarrow> redis_hash \<Rightarrow> bool" where
  "agree cfg now e h \<longleftrightarrow>
     openedAt e = h_openedAt h \<and> halfOpenProbeAt e = h_probeAt h \<and>
     (case openedAt e of
        None \<Rightarrow>
          halfOpenProbeAt e = None \<and>
          (case failureWindowStartedAt e of
             None \<Rightarrow> h = empty_hash
           | Some start \<Rightarrow>
               if now - start > failureWindowMs cfg then h = empty_hash
               else h_failures h = Some (failures e) \<and> 0 < failures e \<and>
                    h_expireAt h = Some (start + failureWindowMs cfg))
      | Some opened \<Rightarrow>
          (\<exists>x. h_expireAt h = Some x \<and> opened + openDurationMs cfg + 60000 \<le> x \<and>
               (\<forall>probe. halfOpenProbeAt e = Some probe \<longrightarrow>
                         probe + int (probeTimeoutMs cfg) + 60000 \<le> x)))"

definition hash_slack :: "time_ms \<Rightarrow> breaker_entry \<Rightarrow> redis_hash \<Rightarrow> bool" where
  "hash_slack now e h \<longleftrightarrow>
     (openedAt e \<noteq> None \<longrightarrow> (\<exists>x. h_expireAt h = Some x \<and> now + 60000 \<le> x))"

datatype breaker_op = Call | Success | Failure

fun mem_step ::
  "breaker_config \<Rightarrow> string \<Rightarrow> time_ms \<times> breaker_op \<Rightarrow> mem_breaker \<Rightarrow> call_token option \<times> mem_breaker"
where
  "mem_step cfg key (now, Call) m = (let (tok, m') = mem_beforeCall cfg now key m in (Some tok, m'))"
| "mem_step cfg key (now, Success) m = (None, mem_onSuccess key m)"
| "mem_step cfg key (now, Failure) m = (None, mem_onFailure cfg now key m)"

fun redis_step ::
  "breaker_config \<Rightarrow> string \<Rightarrow> time_ms \<times> breaker_op \<Rightarrow> redis_breaker \<Rightarrow>
   call_token option \<times> redis_breaker"
where
  "redis_step cfg key (now, Call) r =
     (let (tok, r') = redis_beforeCall cfg now key r in (Some tok, r'))"
| "redis_step cfg key (now, Success) r = (None, redis_onSuccess key r)"
| "redis_step cfg key (now, Failure) r = (None, redis_onFailure cfg now key r)"

fun run_mem :: "breaker_config \<Rightarrow> string \<Rightarrow> (time_ms \<times> breaker_op) list \<Rightarrow> mem_breaker \<Rightarrow>
  call_token option list" where
  "run_mem cfg key [] m = []"
| "run_mem cfg key (x # xs) m =
     (let (t, m') = mem_step cfg key x m in t # run_mem cfg key xs m')"

fun run_redis :: "breaker_config \<Rightarrow> string \<Rightarrow> (time_ms \<times> breaker_op) list \<Rightarrow> redis_breaker \<Rightarrow>
  call_token option list" where
  "run_redis cfg key [] r = []"
| "run_redis cfg key (x # xs) r =
     (let (t, r') = redis_step cfg key x r in t # run_redis cfg key xs r')"

text \<open>Timestamps never go back, and at most \<open>gap\<close> passes between operations.\<close>

fun steady :: "time_ms \<Rightarrow> time_ms \<Rightarrow> (time_ms \<times> breaker_op) list \<Rightarrow> bool" where
  "steady gap prev [] = True"
| "steady gap prev ((t, _) # xs) = (prev \<le> t \<and> t \<le> prev + gap \<and> steady gap t xs)"

lemma mem_entry_upd [simp]: "mem_entry k (m(k \<mapsto> e)) = e"
  by (simp add: mem_entry_def)

lemma mem_entry_del [simp]: "mem_entry k (m(k := None)) = fresh_entry"
  by (simp add: mem_entry_def)

lemma mem_getEntry_entry [simp]:
  "fst (mem_getEntry k m) = mem_entry k m"
  "mem_entry k (snd (mem_getEntry k m)) = mem_entry k m"
  by (simp_all add: mem_getEntry_def mem_entry_def split: option.split)

lemma fresh_entry_sel [simp]:
  "failures fresh_entry = 0" "failureWindowStartedAt fresh_entry = None"
  "openedAt fresh_entry = None" "halfOpenProbeAt fresh_entry = None"
  by (simp_all add: fresh_entry_def)

lemma agree_fresh: "agree cfg now fresh_entry empty_hash"
  by (simp add: agree_def)

lemma agree_open:
  "openedAt e = Some opened \<Longrightarrow>
   agree cfg now e h \<longleftrightarrow>
     h_openedAt h = Some opened \<and> h_probeAt h = halfOpenProbeAt e \<and>
     (\<exists>x. h_expireAt h = Some x \<and> opened + openDurationMs cfg + 60000 \<le> x \<and>
          (\<forall>probe. halfOpenProbeAt e = Some probe \<longrightarrow>
                    probe + int (probeTimeoutMs cfg) + 60000 \<le> x))"
  by (auto simp: agree_def)

lemma rhash_cases:
  "rhash now key r = empty_hash \<or>
   (r key = Some (rhash now key r) \<and> \<not> hash_expired now (rhash now key r))"
  by (simp add: rhash_def rlive_def split: option.splits)

text \<open>Time passing keeps the agreement, as long as the hash of an open circuit has not expired.\<close>

lemma rhash_later:
  assumes "u \<le> now"
  shows "rhash now key r =
    (if hash_expired now (rhash u key r) then empty_hash else rhash u key r)"
  using assms
  by (auto simp: rhash_def rlive_def hash_expired_def split: option.splits if_splits)

lemma agree_advance:
  assumes "agree cfg u e (rhash u key r)" "hash_slack u e (rhash u key r)"
    and "u \<le> now" "now \<le> u + 60000"
  shows "agree cfg now e (rhash now key r)"
proof (cases "openedAt e")
  case None
  show ?thesis
  proof (cases "failureWindowStartedAt e")
    case None
    with assms(1,3) \<open>openedAt e = None\<close> show ?thesis
      by (auto simp: agree_def rhash_later [OF assms(3)] hash_expired_def)
  next
    case (Some start)
    with assms(1,3) \<open>openedAt e = None\<close> show ?thesis
      by (auto simp: agree_def rhash_later [OF assms(3)] hash_expired_def split: if_splits)
  qed
next
  case (Some opened)
  with assms show ?thesis
    by (auto simp: agree_open hash_slack_def rhash_later [OF assms(3)] hash_expired_def)
qed

text \<open>One operation at the same instant: the same token, and the agreement and the minute of
  slack hold again.\<close>

lemma call_agree:
  assumes "agree cfg now (mem_entry key m) (rhash now key r)"
  shows "fst (mem_beforeCall cfg now key m) = fst (redis_beforeCall cfg now key r)"
    and "agree cfg now (mem_entry key (snd (mem_beforeCall cfg now key m)))
           (rhash now key (snd (redis_beforeCall cfg now key r)))"
    and "hash_slack now (mem_entry key (snd (mem_beforeCall cfg now key m)))
           (rhash now key (snd (redis_beforeCall cfg now key r)))"
proof -
  let ?e = "mem_entry key m" and ?h = "rhash now key r"
  have "fst (mem_beforeCall cfg now key m) = fst (redis_beforeCall cfg now key r) \<and>
        agree cfg now (mem_entry key (snd (mem_beforeCall cfg now key m)))
           (rhash now key (snd (redis_beforeCall cfg now key r))) \<and>
        hash_slack now (mem_entry key (snd (mem_beforeCall cfg now key m)))
           (rhash now key (snd (redis_beforeCall cfg now key r)))"
  proof (cases "openedAt ?e")
    case None
    with assms have "h_openedAt ?h = None" by (simp add: agree_def)
    with None assms show ?thesis
      by (simp add: mem_beforeCall_def redis_beforeCall_def CIRCUIT_BEFORE_CALL_SCRIPT_def
          case_prod_beta hash_slack_def)
  next
    case (Some opened)
    with assms obtain x where h: "h_openedAt ?h = Some opened" "h_probeAt ?h = halfOpenProbeAt ?e"
      and x: "h_expireAt ?h = Some x" "opened + openDurationMs cfg + 60000 \<le> x"
        "\<forall>probe. halfOpenProbeAt ?e = Some probe \<longrightarrow>
           probe + int (probeTimeoutMs cfg) + 60000 \<le> x"
      by (auto simp: agree_open)
    have ttl: "openDurationMs cfg + int (probeTimeoutMs cfg) + 60000 \<le>
               int (probe_ttl_seconds cfg) * 1000" "0 \<le> openDurationMs cfg"
      by (rule probe_ttl_bound) (simp add: openDurationMs_def)
    consider (cool) "now - opened < openDurationMs cfg"
      | (held) probe where "\<not> now - opened < openDurationMs cfg"
          "halfOpenProbeAt ?e = Some probe" "now - probe < int (probeTimeoutMs cfg)"
      | (free) "\<not> now - opened < openDurationMs cfg"
          "\<not> (case halfOpenProbeAt ?e of None \<Rightarrow> False
             | Some probe \<Rightarrow> now - probe < int (probeTimeoutMs cfg))"
      by (cases "now - opened < openDurationMs cfg"; cases "halfOpenProbeAt ?e") auto
    then show ?thesis
    proof cases
      case cool
      with Some h x assms show ?thesis
        by (simp add: mem_beforeCall_def redis_beforeCall_def CIRCUIT_BEFORE_CALL_SCRIPT_def
            case_prod_beta hash_slack_def)
    next
      case held
      with Some h x assms show ?thesis
        by (simp add: mem_beforeCall_def redis_beforeCall_def CIRCUIT_BEFORE_CALL_SCRIPT_def
            case_prod_beta hash_slack_def)
    next
      case free
      with Some h x ttl show ?thesis
        by (simp add: mem_beforeCall_def redis_beforeCall_def CIRCUIT_BEFORE_CALL_SCRIPT_def
            case_prod_beta hash_slack_def agree_open)
    qed
  qed
  then show "fst (mem_beforeCall cfg now key m) = fst (redis_beforeCall cfg now key r)"
    and "agree cfg now (mem_entry key (snd (mem_beforeCall cfg now key m)))
           (rhash now key (snd (redis_beforeCall cfg now key r)))"
    and "hash_slack now (mem_entry key (snd (mem_beforeCall cfg now key m)))
           (rhash now key (snd (redis_beforeCall cfg now key r)))"
    by blast+
qed

lemma success_agree:
  "agree cfg now (mem_entry key (mem_onSuccess key m)) (rhash now key (redis_onSuccess key r))"
  "hash_slack now (mem_entry key (mem_onSuccess key m)) (rhash now key (redis_onSuccess key r))"
  by (simp_all add: mem_onSuccess_def redis_onSuccess_def CIRCUIT_ON_SUCCESS_SCRIPT_def
      agree_fresh hash_slack_def)


lemma failure_agree:
  assumes "agree cfg now (mem_entry key m) (rhash now key r)"
    and "0 < failureWindowSeconds cfg"
  shows "agree cfg now (mem_entry key (mem_onFailure cfg now key m))
           (rhash now key (redis_onFailure cfg now key r)) \<and>
         hash_slack now (mem_entry key (mem_onFailure cfg now key m))
           (rhash now key (redis_onFailure cfg now key r))"
proof (cases "openedAt (mem_entry key m)")
  case (Some opened)
  with assms show ?thesis
    by (simp add: agree_open mem_onFailure_def redis_onFailure_def CIRCUIT_ON_FAILURE_SCRIPT_def
        case_prod_beta Let_def hash_slack_def openDurationMs_def)
next
  case None
  note closed = None
  show ?thesis
  proof (cases "case failureWindowStartedAt (mem_entry key m) of None \<Rightarrow> True
      | Some start \<Rightarrow> now - start > failureWindowMs cfg")
    case True
    with assms(1) closed have "rhash now key r = empty_hash"
      by (auto simp: agree_def split: option.splits)
    with closed True assms show ?thesis
      by (simp add: agree_def mem_onFailure_def redis_onFailure_def
          CIRCUIT_ON_FAILURE_SCRIPT_def case_prod_beta Let_def hash_slack_def openDurationMs_def
          failureWindowMs_def)
  next
    case False
    then obtain start where start: "failureWindowStartedAt (mem_entry key m) = Some start"
      "\<not> now - start > failureWindowMs cfg" by (auto split: option.splits)
    with assms(1) closed have h: "h_failures (rhash now key r) = Some (failures (mem_entry key m))"
      "0 < failures (mem_entry key m)" "h_openedAt (rhash now key r) = None"
      "h_probeAt (rhash now key r) = None" "halfOpenProbeAt (mem_entry key m) = None"
      "h_expireAt (rhash now key r) = Some (start + failureWindowMs cfg)"
      by (auto simp: agree_def)
    with closed start show ?thesis
      by (simp add: agree_def mem_onFailure_def redis_onFailure_def
          CIRCUIT_ON_FAILURE_SCRIPT_def case_prod_beta Let_def hash_slack_def openDurationMs_def
          failureWindowMs_def hash_expired_def)
  qed
qed

lemma step_agree:
  assumes "agree cfg u (mem_entry key m) (rhash u key r)" "hash_slack u (mem_entry key m) (rhash u key r)"
    and "u \<le> now" "now \<le> u + 60000" "0 < failureWindowSeconds cfg"
  shows "fst (mem_step cfg key (now, op) m) = fst (redis_step cfg key (now, op) r)"
    and "agree cfg now (mem_entry key (snd (mem_step cfg key (now, op) m)))
           (rhash now key (snd (redis_step cfg key (now, op) r)))"
    and "hash_slack now (mem_entry key (snd (mem_step cfg key (now, op) m)))
           (rhash now key (snd (redis_step cfg key (now, op) r)))"
proof -
  have now: "agree cfg now (mem_entry key m) (rhash now key r)"
    using assms(1-4) by (rule agree_advance)
  show "fst (mem_step cfg key (now, op) m) = fst (redis_step cfg key (now, op) r)"
    using call_agree(1) [OF now] by (cases op) (simp_all add: case_prod_beta)
  show "agree cfg now (mem_entry key (snd (mem_step cfg key (now, op) m)))
           (rhash now key (snd (redis_step cfg key (now, op) r)))"
    using call_agree(2) [OF now] success_agree(1) failure_agree [OF now assms(5)]
    by (cases op) (simp_all add: case_prod_beta)
  show "hash_slack now (mem_entry key (snd (mem_step cfg key (now, op) m)))
           (rhash now key (snd (redis_step cfg key (now, op) r)))"
    using call_agree(3) [OF now] success_agree(2) failure_agree [OF now assms(5)]
    by (cases op) (simp_all add: case_prod_beta)
qed

lemma run_agree:
  assumes "agree cfg u (mem_entry key m) (rhash u key r)" "hash_slack u (mem_entry key m) (rhash u key r)"
    and "0 < failureWindowSeconds cfg" "steady 60000 u ops"
  shows "run_mem cfg key ops m = run_redis cfg key ops r"
  using assms
proof (induction ops arbitrary: u m r)
  case Nil
  then show ?case by simp
next
  case (Cons x ops)
  obtain now op where x: "x = (now, op)" by (cases x)
  with Cons.prems have t: "u \<le> now" "now \<le> u + 60000" "steady 60000 now ops" by auto
  note st = step_agree [OF Cons.prems(1,2) t(1,2) Cons.prems(3), of op]
  show ?case
    using Cons.IH [OF st(2,3) Cons.prems(3) t(3)] st(1) by (simp add: x case_prod_beta Let_def)
qed

section \<open>Properties\<close>

text \<open>The process-local breaker under a run of failures, one per listed time.\<close>

definition mem_fail_all :: "breaker_config \<Rightarrow> string \<Rightarrow> time_ms list \<Rightarrow> mem_breaker \<Rightarrow> mem_breaker" where
  "mem_fail_all cfg key ts m = fold (\<lambda>t. mem_onFailure cfg t key) ts m"

text \<open>The entry after a nonempty run of failures inside one window: closed and counted, or opened by
  the last one.\<close>

definition counted_entry :: "breaker_config \<Rightarrow> time_ms \<Rightarrow> nat \<Rightarrow> time_ms \<Rightarrow> breaker_entry \<Rightarrow> bool" where
  "counted_entry cfg start n latest e \<longleftrightarrow>
     (if n < failureThreshold cfg
      then e = \<lparr>failures = n, failureWindowStartedAt = Some start, openedAt = None,
                halfOpenProbeAt = None\<rparr>
      else openedAt e = Some latest)"

lemma counted_failure:
  assumes "m key = Some e" "counted_entry cfg start n prev e" "start \<le> t"
    and "t \<le> start + failureWindowMs cfg"
  shows "\<exists>e'. mem_onFailure cfg t key m key = Some e' \<and> counted_entry cfg start (Suc n) t e'"
proof (cases "n < failureThreshold cfg")
  case True
  with assms show ?thesis
    by (simp add: mem_onFailure_def mem_getEntry_def Let_def counted_entry_def)
next
  case False
  with assms show ?thesis
    by (simp add: mem_onFailure_def mem_getEntry_def Let_def counted_entry_def)
qed

lemma counted_fail_all:
  assumes "m key = Some e" "counted_entry cfg start n prev e"
    and "\<forall>t \<in> set ts. start \<le> t \<and> t \<le> start + failureWindowMs cfg"
  shows "\<exists>e'. mem_fail_all cfg key ts m key = Some e' \<and>
              counted_entry cfg start (n + length ts) (last (prev # ts)) e'"
  using assms
proof (induction ts arbitrary: m e n prev)
  case Nil
  then show ?case by (simp add: mem_fail_all_def)
next
  case (Cons t ts)
  then obtain e' where "mem_onFailure cfg t key m key = Some e'" "counted_entry cfg start (Suc n) t e'"
    using counted_failure [of m key e cfg start n prev t] by auto
  from Cons.IH [where m = "mem_onFailure cfg t key m", OF this] Cons.prems show ?case
    by (simp add: mem_fail_all_def)
qed

text \<open>Failures of one provider inside one failure window (the first at \<open>start\<close>) leave the
  process-local circuit closed as long as they are fewer than the threshold; from the failure
  that reaches the threshold on, the circuit is open until the cooldown has passed since the
  last failure, and half-open after that.\<close>

theorem breaker_opens_at_threshold:
  assumes "0 < failureThreshold cfg"
    and "\<forall>t \<in> set ts. start \<le> t \<and> t \<le> start + failureWindowMs cfg"
  shows "mem_getState cfg now key (mem_fail_all cfg key (start # ts) Map.empty) =
    (if length (start # ts) < failureThreshold cfg then CLOSED
     else if now - last (start # ts) < openDurationMs cfg then OPEN else HALF_OPEN)"
proof -
  have "\<exists>e. mem_onFailure cfg start key Map.empty key = Some e \<and> counted_entry cfg start 1 start e"
    using assms(1) by (auto simp: mem_breaker_defs counted_entry_def)
  then obtain e where "mem_onFailure cfg start key Map.empty key = Some e"
    "counted_entry cfg start 1 start e" by blast
  from counted_fail_all [where m = "mem_onFailure cfg start key Map.empty", OF this assms(2)] show ?thesis
    by (auto simp: mem_fail_all_def mem_getState_def counted_entry_def split: if_splits)
qed

theorem breaker_opens_at_threshold_witness:
  "mem_getState CIRCUIT_BREAKER_CONFIG 5000 ''p''
     (mem_fail_all CIRCUIT_BREAKER_CONFIG ''p'' [0, 1000, 2000, 3000, 4000] Map.empty) = OPEN"
  using breaker_opens_at_threshold
    [of CIRCUIT_BREAKER_CONFIG "[1000, 2000, 3000, 4000]" 0 5000 "''p''"]
  by (simp add: CIRCUIT_BREAKER_CONFIG_def failureWindowMs_def openDurationMs_def)

text \<open>C29: A half-open circuit lets at most one probe through: of any burst of calls made while it
  reads half-open, inside one probe timeout and with no outcome reported, at most one is
  allowed, by the process-local and by the Redis breaker.\<close>

theorem breaker_single_probe:
  assumes "sorted ts"
    and "\<forall>t \<in> set ts. \<forall>u \<in> set ts. u < t + int (probeTimeoutMs cfg)"
    and "\<forall>t \<in> set ts. mem_getState cfg t key m = HALF_OPEN"
    and "\<forall>t \<in> set ts. redis_getState cfg t key r = HALF_OPEN"
  shows "count_list (fst (burst (\<lambda>t. mem_beforeCall cfg t key) ts m)) True \<le> 1 \<and>
         count_list (fst (burst (\<lambda>t. redis_beforeCall cfg t key) ts r)) True \<le> 1"
  using assms by (intro conjI mem_cb.burst_one_probe redis_cb.burst_one_probe) auto

theorem breaker_single_probe_witness:
  "count_list (fst (burst (\<lambda>t. mem_beforeCall CIRCUIT_BREAKER_CONFIG t ''p'') [31000, 31500]
       [''p'' \<mapsto> fresh_entry\<lparr>openedAt := Some 0\<rparr>])) True \<le> 1 \<and>
   count_list (fst (burst (\<lambda>t. redis_beforeCall CIRCUIT_BREAKER_CONFIG t ''p'') [31000, 31500]
       [''p'' \<mapsto> expire_in 0 90 (empty_hash\<lparr>h_openedAt := Some 0\<rparr>)])) True \<le> 1"
  by (rule breaker_single_probe)
    (auto simp: mem_getState_def redis_getState_def CIRCUIT_BREAKER_CONFIG_def openDurationMs_def)

text \<open>C30: The two implementations answer every call alike: starting with no recorded failure, and as
  long as no more than a minute passes between two operations on a provider, any sequence of
  calls, successes and failures gets the same tokens from the in-process map and from the
  scripts run against the expiring Redis hash.\<close>

theorem breaker_backends_agree:
  assumes "0 < failureWindowSeconds cfg" and "steady 60000 start ops"
  shows "run_mem cfg key ops Map.empty = run_redis cfg key ops Map.empty"
  using assms
  by (intro run_agree [where u = start])
    (simp_all add: mem_entry_def rhash_def rlive_def agree_fresh hash_slack_def)

theorem breaker_backends_agree_witness:
  "run_mem CIRCUIT_BREAKER_CONFIG ''p'' [(0, Failure), (1000, Failure), (2000, Call), (9000, Success)]
     Map.empty =
   run_redis CIRCUIT_BREAKER_CONFIG ''p'' [(0, Failure), (1000, Failure), (2000, Call), (9000, Success)]
     Map.empty"
  by (rule breaker_backends_agree [where start = 0]) (simp_all add: CIRCUIT_BREAKER_CONFIG_def)

text \<open>The minute matters: a provider whose circuit is not closed fails, and nothing is called
  until more than the cooldown and 60 seconds later. Then the Redis hash has expired and its
  breaker lets two calls in a row through as for a healthy provider, where the in-process
  breaker, still half-open, lets a single probe through and denies the second call.\<close>

theorem breaker_idle_divergence:
  assumes "mem_getState cfg now key m \<noteq> CLOSED" and "redis_getState cfg now key r \<noteq> CLOSED"
    and "now + openDurationMs cfg + 60000 < t" and "0 < probeTimeoutMs cfg"
  shows "fst (burst (\<lambda>t. mem_beforeCall cfg t key) [t, t] (mem_onFailure cfg now key m)) = [True, False] \<and>
         fst (burst (\<lambda>t. redis_beforeCall cfg t key) [t, t] (redis_onFailure cfg now key r)) =
           [True, True]"
proof -
  from assms(1) obtain e opened where "m key = Some e" "openedAt e = Some opened"
    by (auto simp: mem_getState_def split: option.splits)
  moreover from assms(2) obtain o' where "h_openedAt (rhash now key r) = Some o'"
    by (auto simp: redis_getState_def split: option.splits)
  ultimately show ?thesis using assms(3,4)
    by (simp add: mem_breaker_defs redis_breaker_defs openDurationMs_def case_prod_beta)
qed

theorem breaker_idle_divergence_witness:
  "fst (burst (\<lambda>t. mem_beforeCall CIRCUIT_BREAKER_CONFIG t ''p'') [91000, 91000]
      (mem_onFailure CIRCUIT_BREAKER_CONFIG 0 ''p'' [''p'' \<mapsto> fresh_entry\<lparr>openedAt := Some (- 1)\<rparr>])) =
     [True, False] \<and>
   fst (burst (\<lambda>t. redis_beforeCall CIRCUIT_BREAKER_CONFIG t ''p'') [91000, 91000]
      (redis_onFailure CIRCUIT_BREAKER_CONFIG 0 ''p''
        [''p'' \<mapsto> expire_in 0 90 (empty_hash\<lparr>h_openedAt := Some (- 1)\<rparr>)])) = [True, True]"
  by (rule breaker_idle_divergence)
    (auto simp: mem_getState_def redis_getState_def CIRCUIT_BREAKER_CONFIG_def openDurationMs_def)

end
