(* ===== verification/Resilience.thy ===== *)
theory Resilience
  imports Complex_Main CircuitBreaker
begin

text \<open>
  How one AI provider call is made: the closed error vocabulary and its classification
  (\<^verbatim>\<open>domain/ai/provider-error.ts\<close>), the backoff (\<^verbatim>\<open>retry-policy.ts\<close>), the guard
  on paid calls, \<^verbatim>\<open>execute-with-resilience.ts\<close> (breaker gate, timeout, retries), the fallback
  provider and the canary routing and price estimate. The breaker is a parameter of
  \<open>executeWithResilience\<close>; its lemmas are proved once in the locale \<open>circuit_breaker\<close> and hold
  for both implementations.
\<close>

section \<open>Provider errors\<close>

datatype provider_error_code =
  PROVIDER_TIMEOUT | PROVIDER_RATE_LIMITED | PROVIDER_UNAVAILABLE | PROVIDER_AUTH_FAILED
  | PROVIDER_INVALID_REQUEST | PROVIDER_CONTENT_BLOCKED | PROVIDER_CONTEXT_TOO_LARGE
  | PROVIDER_RESPONSE_INVALID | PROVIDER_ABORTED | PROVIDER_UNKNOWN

fun isRetryableProviderErrorCode :: "provider_error_code \<Rightarrow> bool" where
  "isRetryableProviderErrorCode PROVIDER_TIMEOUT = True"
| "isRetryableProviderErrorCode PROVIDER_RATE_LIMITED = True"
| "isRetryableProviderErrorCode PROVIDER_UNAVAILABLE = True"
| "isRetryableProviderErrorCode _ = False"

fun isFallbackEligibleProviderErrorCode :: "provider_error_code \<Rightarrow> bool" where
  "isFallbackEligibleProviderErrorCode PROVIDER_TIMEOUT = True"
| "isFallbackEligibleProviderErrorCode PROVIDER_RATE_LIMITED = True"
| "isFallbackEligibleProviderErrorCode PROVIDER_UNAVAILABLE = True"
| "isFallbackEligibleProviderErrorCode _ = False"

record provider_error =
  errorCode :: provider_error_code
  errorProvider :: string
  httpStatus :: "nat option"
  retryable :: bool

definition ProviderError :: "provider_error_code \<Rightarrow> string \<Rightarrow> nat option \<Rightarrow> provider_error" where
  "ProviderError code provider status =
     \<lparr>errorCode = code, errorProvider = provider, httpStatus = status,
      retryable = isRetryableProviderErrorCode code\<rparr>"

definition classifyProviderHttpStatus :: "nat \<Rightarrow> provider_error_code" where
  "classifyProviderHttpStatus status =
     (if status = 401 \<or> status = 403 then PROVIDER_AUTH_FAILED
      else if status = 429 then PROVIDER_RATE_LIMITED
      else if status = 413 then PROVIDER_CONTEXT_TOO_LARGE
      else if status = 408 then PROVIDER_TIMEOUT
      else if status = 400 \<or> status = 404 \<or> status = 422 then PROVIDER_INVALID_REQUEST
      else if status = 502 \<or> status = 503 \<or> status = 504 then PROVIDER_UNAVAILABLE
      else if status \<ge> 500 then PROVIDER_UNAVAILABLE
      else PROVIDER_UNKNOWN)"

text \<open>What a provider call may throw: an error of its own class, an \<open>Error\<close> with a name and a
  message, or some other value.\<close>

datatype raw_error =
  Thrown_ProviderError provider_error
  | Thrown_Error (err_name: string) (err_message: string)
  | Thrown_Other

definition lower_ascii :: "char \<Rightarrow> nat" where
  "lower_ascii c = (let n = of_char c :: nat in if 65 \<le> n \<and> n \<le> 90 then n + 32 else n)"

fun has_prefix :: "nat list \<Rightarrow> nat list \<Rightarrow> bool" where
  "has_prefix [] _ = True"
| "has_prefix (_ # _) [] = False"
| "has_prefix (p # ps) (x # xs) = (p = x \<and> has_prefix ps xs)"

fun contains_units :: "nat list \<Rightarrow> nat list \<Rightarrow> bool" where
  "contains_units p [] = (p = [])"
| "contains_units p (x # xs) = (has_prefix p (x # xs) \<or> contains_units p xs)"

text \<open>The regular expression \<open>/timeout/i\<close>.\<close>

definition mentions_timeout :: "string \<Rightarrow> bool" where
  "mentions_timeout s = contains_units (asc ''timeout'') (map lower_ascii s)"

definition normalizeProviderError :: "raw_error \<Rightarrow> string \<Rightarrow> provider_error" where
  "normalizeProviderError error provider =
     (case error of
        Thrown_ProviderError e \<Rightarrow> e
      | Thrown_Error name msg \<Rightarrow>
          if name = ''AbortError'' then ProviderError PROVIDER_ABORTED provider None
          else if mentions_timeout msg then ProviderError PROVIDER_TIMEOUT provider None
          else ProviderError PROVIDER_UNKNOWN provider None
      | Thrown_Other \<Rightarrow> ProviderError PROVIDER_UNKNOWN provider None)"

text \<open>A \<open>ProviderError\<close> is only built by its constructor, which derives \<open>retryable\<close>.\<close>

definition well_built :: "provider_error \<Rightarrow> bool" where
  "well_built e \<longleftrightarrow> retryable e = isRetryableProviderErrorCode (errorCode e)"

fun raw_well_built :: "raw_error \<Rightarrow> bool" where
  "raw_well_built (Thrown_ProviderError e) = well_built e"
| "raw_well_built _ = True"

lemma ProviderError_sel [simp]:
  "errorCode (ProviderError c p s) = c" "errorProvider (ProviderError c p s) = p"
  "httpStatus (ProviderError c p s) = s"
  "retryable (ProviderError c p s) = isRetryableProviderErrorCode c"
  by (simp_all add: ProviderError_def)

lemma normalize_well_built: "raw_well_built e \<Longrightarrow> well_built (normalizeProviderError e p)"
  by (cases e) (simp_all add: normalizeProviderError_def well_built_def)

lemma fallback_eligible_retryable:
  "isFallbackEligibleProviderErrorCode c = isRetryableProviderErrorCode c"
  by (cases c) simp_all

section \<open>Backoff\<close>

record retry_policy =
  maxRetries :: nat
  baseDelayMs :: nat
  maxDelayMs :: nat

definition DEFAULT_RETRY_POLICY :: retry_policy where
  "DEFAULT_RETRY_POLICY = \<lparr>maxRetries = 2, baseDelayMs = 500, maxDelayMs = 4000\<rparr>"

text \<open>\<open>rnd\<close> is the value \<open>Math.random()\<close> returned; the floating-point product is taken exactly.\<close>

definition computeBackoffMs :: "nat \<Rightarrow> retry_policy \<Rightarrow> real \<Rightarrow> int" where
  "computeBackoffMs attemptIndex policy rnd =
     (let exponential = min (real (baseDelayMs policy * 3 ^ attemptIndex)) (real (maxDelayMs policy));
          jitterFactor = 1 / 2 + rnd * (1 / 2)
      in \<lfloor>exponential * jitterFactor\<rfloor>)"

lemma backoff_bounds:
  assumes "0 \<le> rnd" "rnd \<le> 1"
  shows "\<lfloor>min (real (baseDelayMs p * 3 ^ i)) (real (maxDelayMs p)) / 2\<rfloor> \<le> computeBackoffMs i p rnd"
    and "computeBackoffMs i p rnd \<le> int (maxDelayMs p)"
    and "0 \<le> computeBackoffMs i p rnd"
proof -
  let ?e = "min (real (baseDelayMs p * 3 ^ i)) (real (maxDelayMs p))"
  have e: "0 \<le> ?e" "?e \<le> real (maxDelayMs p)" by simp_all
  have j: "1 / 2 \<le> 1 / 2 + rnd * (1 / 2)" "1 / 2 + rnd * (1 / 2) \<le> 1" using assms by simp_all
  have up: "?e * (1 / 2 + rnd * (1 / 2)) \<le> ?e"
    using mult_left_mono [OF j(2) e(1)] by simp
  have low: "?e / 2 \<le> ?e * (1 / 2 + rnd * (1 / 2))"
    using mult_left_mono [OF j(1) e(1)] by simp
  show "\<lfloor>?e / 2\<rfloor> \<le> computeBackoffMs i p rnd"
    unfolding computeBackoffMs_def Let_def using low by (rule floor_mono)
  show "computeBackoffMs i p rnd \<le> int (maxDelayMs p)"
    unfolding computeBackoffMs_def Let_def using up e(2) by linarith
  show "0 \<le> computeBackoffMs i p rnd"
    unfolding computeBackoffMs_def Let_def using low e(1) by linarith
qed

section \<open>The paid-call guard\<close>

record process_env =
  NODE_ENV :: string
  TEST_REAL_AI_PROVIDER :: "string option"
  ALLOW_PAID_AI_CALLS :: "string option"

definition assertPaidProviderCallAllowed :: "process_env \<Rightarrow> bool" where
  "assertPaidProviderCallAllowed env \<longleftrightarrow>
     \<not> (NODE_ENV env = ''test'' \<and> TEST_REAL_AI_PROVIDER env \<noteq> Some ''true'')"

definition isPaidProviderCliApproved :: "process_env \<Rightarrow> bool \<Rightarrow> bool" where
  "isPaidProviderCliApproved env execute \<longleftrightarrow> execute \<or> ALLOW_PAID_AI_CALLS env = Some ''true''"

section \<open>One resilient call\<close>

text \<open>
  \<open>attempt i start fires\<close> stands for the provider's network attempt number \<open>i\<close>, begun at
  \<open>start\<close> with an \<open>AbortSignal\<close> that fires at \<open>fires\<close> (the timeout, or the caller's abort if that
  comes first): its outcome and the time it settles. \<open>abort_at\<close> is when the caller's own signal
  fires, if ever. Breaker operations take no time in the model.
\<close>

record 'a resilience_params =
  env :: process_env
  providerName :: string
  timeoutMs :: nat
  retryPolicy :: retry_policy
  abort_at :: "time_ms option"
  attempt :: "nat \<Rightarrow> time_ms \<Rightarrow> time_ms \<Rightarrow> (raw_error + 'a) \<times> time_ms"
  isRetryAllowed :: "nat \<Rightarrow> bool"
  random_at :: "nat \<Rightarrow> real"

record 's breaker_ops =
  op_beforeCall :: "time_ms \<Rightarrow> string \<Rightarrow> 's \<Rightarrow> call_token \<times> 's"
  op_onSuccess :: "string \<Rightarrow> 's \<Rightarrow> 's"
  op_onFailure :: "time_ms \<Rightarrow> string \<Rightarrow> 's \<Rightarrow> 's"

datatype call_error = PaidProviderCallBlocked | Provider provider_error

text \<open>What a call leaves behind: its result, the codes of the attempts that failed (one per
  \<open>recordProviderCall\<close> of a failed attempt), the number of attempts, the breaker, the clock.\<close>

record ('s, 'a) call_outcome =
  result :: "call_error + 'a"
  failed_codes :: "provider_error_code list"
  attempts :: nat
  breaker_after :: 's
  clock_after :: time_ms

definition aborted :: "'a resilience_params \<Rightarrow> time_ms \<Rightarrow> bool" where
  "aborted p now = (case abort_at p of None \<Rightarrow> False | Some t \<Rightarrow> t \<le> now)"

definition signal_fires :: "'a resilience_params \<Rightarrow> time_ms \<Rightarrow> time_ms" where
  "signal_fires p start =
     (case abort_at p of
        None \<Rightarrow> start + int (timeoutMs p)
      | Some t \<Rightarrow> min t (start + int (timeoutMs p)))"

text \<open>The \<open>for\<close> loop from \<open>attemptIndex\<close> on.\<close>

function attempt_loop ::
  "'s breaker_ops \<Rightarrow> 'a resilience_params \<Rightarrow> nat \<Rightarrow> provider_error option \<Rightarrow> time_ms \<Rightarrow> 's \<Rightarrow>
   ('s, 'a) call_outcome"
where
  "attempt_loop ops p attemptIndex lastError now s =
     (if attemptIndex \<le> maxRetries (retryPolicy p)
      then
        if aborted p now
        then \<lparr>result = Inl (Provider (ProviderError PROVIDER_ABORTED (providerName p) None)),
              failed_codes = [], attempts = 0, breaker_after = s, clock_after = now\<rparr>
        else
          (case attempt p attemptIndex now (signal_fires p now) of
             (Inr v, settled) \<Rightarrow>
               \<lparr>result = Inr v, failed_codes = [], attempts = 1,
                breaker_after = op_onSuccess ops (providerName p) s, clock_after = settled\<rparr>
           | (Inl rawError, settled) \<Rightarrow>
               let error = normalizeProviderError rawError (providerName p);
                   s1 = op_onFailure ops settled (providerName p) s;
                   canRetry = retryable error \<and> attemptIndex < maxRetries (retryPolicy p) \<and>
                     isRetryAllowed p attemptIndex \<and> \<not> aborted p settled
               in if \<not> canRetry
                  then \<lparr>result = Inl (Provider error), failed_codes = [errorCode error],
                        attempts = 1, breaker_after = s1, clock_after = settled\<rparr>
                  else
                    let delayMs = computeBackoffMs attemptIndex (retryPolicy p) (random_at p attemptIndex);
                        rest = attempt_loop ops p (Suc attemptIndex) (Some error) (settled + delayMs) s1
                    in rest\<lparr>failed_codes := errorCode error # failed_codes rest,
                            attempts := Suc (attempts rest)\<rparr>)
      else \<lparr>result = Inl (Provider (case lastError of Some e \<Rightarrow> e
                | None \<Rightarrow> ProviderError PROVIDER_UNKNOWN (providerName p) None)),
            failed_codes = [], attempts = 0, breaker_after = s, clock_after = now\<rparr>)"
  by pat_completeness auto
termination
  by (relation "measure (\<lambda>(ops, p, i, e, now, s). Suc (maxRetries (retryPolicy p)) - i)") auto

declare attempt_loop.simps [simp del]

definition executeWithResilience ::
  "'s breaker_ops \<Rightarrow> 'a resilience_params \<Rightarrow> time_ms \<Rightarrow> 's \<Rightarrow> ('s, 'a) call_outcome" where
  "executeWithResilience ops p now s =
     (if \<not> assertPaidProviderCallAllowed (env p)
      then \<lparr>result = Inl PaidProviderCallBlocked, failed_codes = [], attempts = 0,
            breaker_after = s, clock_after = now\<rparr>
      else
        let (token, s1) = op_beforeCall ops now (providerName p) s in
        if \<not> allowed token
        then \<lparr>result = Inl (Provider (ProviderError PROVIDER_UNAVAILABLE (providerName p) None)),
              failed_codes = [], attempts = 0, breaker_after = s1, clock_after = now\<rparr>
        else attempt_loop ops p 0 None now s1)"

text \<open>Assumptions on an attempt: it settles by the time its signal fires and not before it
  starts; it throws only constructed provider errors.\<close>

definition honours_signal :: "'a resilience_params \<Rightarrow> bool" where
  "honours_signal p \<longleftrightarrow>
     (\<forall>i start fires. start \<le> fires \<longrightarrow>
        start \<le> snd (attempt p i start fires) \<and> snd (attempt p i start fires) \<le> fires)"

definition throws_well_built :: "'a resilience_params \<Rightarrow> bool" where
  "throws_well_built p \<longleftrightarrow>
     (\<forall>i start fires e. fst (attempt p i start fires) = Inl e \<longrightarrow> raw_well_built e)"

text \<open>One unfolding of the loop, by what the attempt does.\<close>

lemma loop_aborted:
  "i \<le> maxRetries (retryPolicy p) \<Longrightarrow> aborted p now \<Longrightarrow>
   attempt_loop ops p i e now s =
     \<lparr>result = Inl (Provider (ProviderError PROVIDER_ABORTED (providerName p) None)),
      failed_codes = [], attempts = 0, breaker_after = s, clock_after = now\<rparr>"
  by (subst attempt_loop.simps) simp

lemma loop_exhausted:
  "\<not> i \<le> maxRetries (retryPolicy p) \<Longrightarrow> attempts (attempt_loop ops p i e now s) = 0 \<and>
   failed_codes (attempt_loop ops p i e now s) = [] \<and>
   clock_after (attempt_loop ops p i e now s) = now \<and>
   (\<exists>err. result (attempt_loop ops p i e now s) = Inl err)"
  by (subst attempt_loop.simps, subst attempt_loop.simps, subst attempt_loop.simps,
      subst attempt_loop.simps) simp

lemma loop_success:
  "i \<le> maxRetries (retryPolicy p) \<Longrightarrow> \<not> aborted p now \<Longrightarrow>
   attempt p i now (signal_fires p now) = (Inr v, t) \<Longrightarrow>
   attempt_loop ops p i e now s =
     \<lparr>result = Inr v, failed_codes = [], attempts = 1,
      breaker_after = op_onSuccess ops (providerName p) s, clock_after = t\<rparr>"
  by (subst attempt_loop.simps) simp

definition can_retry :: "'a resilience_params \<Rightarrow> nat \<Rightarrow> raw_error \<Rightarrow> time_ms \<Rightarrow> bool" where
  "can_retry p i err t \<longleftrightarrow>
     retryable (normalizeProviderError err (providerName p)) \<and> i < maxRetries (retryPolicy p) \<and>
     isRetryAllowed p i \<and> \<not> aborted p t"

lemma loop_failure_final:
  "i \<le> maxRetries (retryPolicy p) \<Longrightarrow> \<not> aborted p now \<Longrightarrow>
   attempt p i now (signal_fires p now) = (Inl err, t) \<Longrightarrow> \<not> can_retry p i err t \<Longrightarrow>
   attempt_loop ops p i e now s =
     \<lparr>result = Inl (Provider (normalizeProviderError err (providerName p))),
      failed_codes = [errorCode (normalizeProviderError err (providerName p))], attempts = 1,
      breaker_after = op_onFailure ops t (providerName p) s, clock_after = t\<rparr>"
  by (subst attempt_loop.simps) (simp add: can_retry_def Let_def)

lemma loop_failure_retry:
  "i \<le> maxRetries (retryPolicy p) \<Longrightarrow> \<not> aborted p now \<Longrightarrow>
   attempt p i now (signal_fires p now) = (Inl err, t) \<Longrightarrow> can_retry p i err t \<Longrightarrow>
   attempt_loop ops p i e now s =
     (let rest = attempt_loop ops p (Suc i) (Some (normalizeProviderError err (providerName p)))
                   (t + computeBackoffMs i (retryPolicy p) (random_at p i))
                   (op_onFailure ops t (providerName p) s)
      in rest\<lparr>failed_codes := errorCode (normalizeProviderError err (providerName p)) # failed_codes rest,
              attempts := Suc (attempts rest)\<rparr>)"
  by (subst attempt_loop.simps) (simp add: can_retry_def Let_def)

text \<open>Induction over the attempts, with one case per branch.\<close>

lemma attempt_loop_induct [case_names exhausted aborted success final retry]:
  assumes "\<And>i e now s. \<not> i \<le> maxRetries (retryPolicy p) \<Longrightarrow> P i e now s"
    and "\<And>i e now s. i \<le> maxRetries (retryPolicy p) \<Longrightarrow> aborted p now \<Longrightarrow> P i e now s"
    and "\<And>i e now s v t. i \<le> maxRetries (retryPolicy p) \<Longrightarrow> \<not> aborted p now \<Longrightarrow>
           attempt p i now (signal_fires p now) = (Inr v, t) \<Longrightarrow> P i e now s"
    and "\<And>i e now s err t. i \<le> maxRetries (retryPolicy p) \<Longrightarrow> \<not> aborted p now \<Longrightarrow>
           attempt p i now (signal_fires p now) = (Inl err, t) \<Longrightarrow> \<not> can_retry p i err t \<Longrightarrow> P i e now s"
    and "\<And>i e now s err t. i \<le> maxRetries (retryPolicy p) \<Longrightarrow> \<not> aborted p now \<Longrightarrow>
           attempt p i now (signal_fires p now) = (Inl err, t) \<Longrightarrow> can_retry p i err t \<Longrightarrow>
           P (Suc i) (Some (normalizeProviderError err (providerName p)))
             (t + computeBackoffMs i (retryPolicy p) (random_at p i))
             (op_onFailure ops t (providerName p) s) \<Longrightarrow> P i e now s"
  shows "P i e now s"
proof (induction "Suc (maxRetries (retryPolicy p)) - i" arbitrary: i e now s rule: less_induct)
  case less
  consider "\<not> i \<le> maxRetries (retryPolicy p)"
    | "i \<le> maxRetries (retryPolicy p)" "aborted p now"
    | v t where "i \<le> maxRetries (retryPolicy p)" "\<not> aborted p now"
        "attempt p i now (signal_fires p now) = (Inr v, t)"
    | err t where "i \<le> maxRetries (retryPolicy p)" "\<not> aborted p now"
        "attempt p i now (signal_fires p now) = (Inl err, t)" "\<not> can_retry p i err t"
    | err t where "i \<le> maxRetries (retryPolicy p)" "\<not> aborted p now"
        "attempt p i now (signal_fires p now) = (Inl err, t)" "can_retry p i err t"
    by (metis old.sum.exhaust surj_pair)
  then show ?case
  proof cases
    case (5 err t)
    show ?thesis
      by (rule assms(5) [OF 5], rule less) (use 5 in auto)
  qed (use assms(1-4) in blast)+
qed

lemma loop_attempts_le: "attempts (attempt_loop ops p i e now s) \<le> Suc (maxRetries (retryPolicy p)) - i"
  by (induction i e now s rule: attempt_loop_induct [of p _ ops])
    (simp_all add: loop_exhausted loop_aborted loop_success loop_failure_final loop_failure_retry Let_def
      can_retry_def, linarith)

lemma loop_failures_retryable:
  "throws_well_built p \<Longrightarrow>
   \<forall>c \<in> set (butlast (failed_codes (attempt_loop ops p i e now s))). isRetryableProviderErrorCode c"
proof (induction i e now s rule: attempt_loop_induct [of p _ ops])
  case (retry i e now s err t)
  from retry(3) \<open>throws_well_built p\<close> have "raw_well_built err"
    unfolding throws_well_built_def by (metis fst_conv)
  then have "isRetryableProviderErrorCode (errorCode (normalizeProviderError err (providerName p)))"
    using retry(4) normalize_well_built [of err "providerName p"]
    by (simp add: can_retry_def well_built_def)
  with retry show ?case by (simp add: loop_failure_retry Let_def)
qed (simp_all add: loop_exhausted loop_aborted loop_success loop_failure_final)

lemma loop_success_breaker:
  "result (attempt_loop ops p i e now s) = Inr v \<Longrightarrow>
   \<exists>s'. breaker_after (attempt_loop ops p i e now s) = op_onSuccess ops (providerName p) s'"
proof (induction i e now s rule: attempt_loop_induct [of p _ ops])
  case (exhausted i e now s)
  then show ?case using loop_exhausted [of i p ops e now s] by auto
qed (auto simp: loop_aborted loop_success loop_failure_final loop_failure_retry Let_def)

lemma signal_fires_bounds:
  "\<not> aborted p now \<Longrightarrow> now \<le> signal_fires p now \<and> signal_fires p now \<le> now + int (timeoutMs p)"
  by (auto simp: signal_fires_def aborted_def split: option.splits)

lemma loop_time:
  assumes "honours_signal p" "\<forall>i. 0 \<le> random_at p i \<and> random_at p i \<le> 1"
  shows "now \<le> clock_after (attempt_loop ops p i e now s) \<and>
    clock_after (attempt_loop ops p i e now s) \<le>
      now + int (Suc (maxRetries (retryPolicy p)) - i) * (int (timeoutMs p) + int (maxDelayMs (retryPolicy p)))"
proof (induction i e now s rule: attempt_loop_induct [of p _ ops])
  case (exhausted i e now s)
  then show ?case by (simp add: loop_exhausted)
next
  case (aborted i e now s)
  then show ?case by (simp add: loop_aborted)
next
  case (success i e now s v t)
  then have "now \<le> t" "t \<le> now + int (timeoutMs p)"
    using assms(1) signal_fires_bounds [of p now] unfolding honours_signal_def by (metis order_trans snd_conv)+
  moreover have "1 * (int (timeoutMs p) + int (maxDelayMs (retryPolicy p))) \<le>
      int (Suc (maxRetries (retryPolicy p)) - i) * (int (timeoutMs p) + int (maxDelayMs (retryPolicy p)))"
    using success(1) by (intro mult_right_mono) auto
  ultimately show ?case using success by (simp add: loop_success)
next
  case (final i e now s err t)
  then have "now \<le> t" "t \<le> now + int (timeoutMs p)"
    using assms(1) signal_fires_bounds [of p now] unfolding honours_signal_def by (metis order_trans snd_conv)+
  moreover have "1 * (int (timeoutMs p) + int (maxDelayMs (retryPolicy p))) \<le>
      int (Suc (maxRetries (retryPolicy p)) - i) * (int (timeoutMs p) + int (maxDelayMs (retryPolicy p)))"
    using final(1) by (intro mult_right_mono) auto
  ultimately show ?case using final by (simp add: loop_failure_final)
next
  case (retry i e now s err t)
  then have t: "now \<le> t" "t \<le> now + int (timeoutMs p)"
    using assms(1) signal_fires_bounds [of p now] unfolding honours_signal_def by (metis order_trans snd_conv)+
  let ?d = "computeBackoffMs i (retryPolicy p) (random_at p i)"
  have d: "0 \<le> ?d" "?d \<le> int (maxDelayMs (retryPolicy p))"
    using assms(2) by (auto intro: backoff_bounds)
  have "int (Suc (maxRetries (retryPolicy p)) - i) = 1 + int (Suc (maxRetries (retryPolicy p)) - Suc i)"
    using retry(1) by simp
  with retry t d show ?case
    by (simp add: loop_failure_retry Let_def algebra_simps)
qed

text \<open>What holds with any breaker that keeps the contract.\<close>

context circuit_breaker
begin

abbreviation breaker_of :: "'s breaker_ops" where
  "breaker_of \<equiv> \<lparr>op_beforeCall = before_call, op_onSuccess = on_success, op_onFailure = on_failure\<rparr>"

lemma execute_denied:
  assumes "assertPaidProviderCallAllowed (env p)"
    and "\<not> allowed (fst (before_call now (providerName p) s))"
  shows "executeWithResilience breaker_of p now s =
    \<lparr>result = Inl (Provider (ProviderError PROVIDER_UNAVAILABLE (providerName p) None)),
     failed_codes = [], attempts = 0, breaker_after = s, clock_after = now\<rparr>"
  using assms denied_unchanged [OF assms(2)] by (simp add: executeWithResilience_def case_prod_beta)

lemma execute_open:
  assumes "assertPaidProviderCallAllowed (env p)" "state_of now (providerName p) s = OPEN"
  shows "executeWithResilience breaker_of p now s =
    \<lparr>result = Inl (Provider (ProviderError PROVIDER_UNAVAILABLE (providerName p) None)),
     failed_codes = [], attempts = 0, breaker_after = s, clock_after = now\<rparr>"
  using assms by (intro execute_denied open_denies)

lemma execute_success_closes:
  assumes "result (executeWithResilience breaker_of p now s) = Inr v"
  shows "state_of t (providerName p) (breaker_after (executeWithResilience breaker_of p now s)) = CLOSED"
proof -
  from assms obtain s1 where e: "executeWithResilience breaker_of p now s = attempt_loop breaker_of p 0 None now s1"
    by (auto simp: executeWithResilience_def case_prod_beta Let_def split: if_splits)
  with assms obtain s' where "breaker_after (attempt_loop breaker_of p 0 None now s1) = on_success (providerName p) s'"
    using loop_success_breaker [of breaker_of p 0 None now s1 v] by auto
  with e show ?thesis by (simp add: success_closes)
qed

end

definition mem_ops :: "breaker_config \<Rightarrow> mem_breaker breaker_ops" where
  "mem_ops cfg = \<lparr>op_beforeCall = mem_beforeCall cfg, op_onSuccess = mem_onSuccess,
                  op_onFailure = mem_onFailure cfg\<rparr>"

definition redis_ops :: "breaker_config \<Rightarrow> redis_breaker breaker_ops" where
  "redis_ops cfg = \<lparr>op_beforeCall = redis_beforeCall cfg, op_onSuccess = redis_onSuccess,
                    op_onFailure = redis_onFailure cfg\<rparr>"

section \<open>The fallback provider\<close>

record completion =
  completion_text :: jstring
  promptTokens :: nat
  completionTokens :: nat
  servedBy :: "(string \<times> string) option"

datatype ai_stream_event =
  TextDelta jstring
  | Usage nat nat
  | ProviderRequestId string
  | Done "string option" "(string \<times> string) option"

text \<open>A provider is its names, what \<open>generateCompletion\<close> gives, and what its stream yields before
  it ends or throws.\<close>

record llm_provider =
  llm_name :: string
  llm_model :: string
  llm_completion :: "raw_error + completion"
  llm_stream :: "ai_stream_event list \<times> raw_error option"

definition peekEffectiveIdentity ::
  "circuit_state \<Rightarrow> llm_provider \<Rightarrow> llm_provider \<Rightarrow> string \<times> string" where
  "peekEffectiveIdentity st primary secondary =
     (if st = OPEN then (llm_name secondary, llm_model secondary)
      else (llm_name primary, llm_model primary))"

definition fallback_generateCompletion ::
  "llm_provider \<Rightarrow> llm_provider \<Rightarrow> raw_error + completion" where
  "fallback_generateCompletion primary secondary =
     (case llm_completion primary of
        Inr r \<Rightarrow> Inr r
      | Inl rawError \<Rightarrow>
          let error = normalizeProviderError rawError (llm_name primary) in
          if \<not> isFallbackEligibleProviderErrorCode (errorCode error)
          then Inl (Thrown_ProviderError error)
          else (case llm_completion secondary of
                  Inl e \<Rightarrow> Inl e
                | Inr r \<Rightarrow> Inr (r\<lparr>servedBy := Some (llm_name secondary, llm_model secondary)\<rparr>)))"

fun is_text_delta :: "ai_stream_event \<Rightarrow> bool" where
  "is_text_delta (TextDelta _) = True"
| "is_text_delta _ = False"

fun tag_done :: "llm_provider \<Rightarrow> ai_stream_event \<Rightarrow> ai_stream_event" where
  "tag_done secondary (Done reason _) = Done reason (Some (llm_name secondary, llm_model secondary))"
| "tag_done _ ev = ev"

definition fallback_stream ::
  "llm_provider \<Rightarrow> llm_provider \<Rightarrow> ai_stream_event list \<times> raw_error option" where
  "fallback_stream primary secondary =
     (let (events, failure) = llm_stream primary in
      case failure of
        None \<Rightarrow> (events, None)
      | Some rawError \<Rightarrow>
          if list_ex is_text_delta events then (events, Some rawError)
          else
            let error = normalizeProviderError rawError (llm_name primary) in
            if \<not> isFallbackEligibleProviderErrorCode (errorCode error)
            then (events, Some (Thrown_ProviderError error))
            else (events @ map (tag_done secondary) (fst (llm_stream secondary)),
                  snd (llm_stream secondary)))"

section \<open>Canary routing, shadow sampling, price estimate\<close>

text \<open>\<open>sha\<close> is \<open>createHash("sha256")...readUInt32BE(0)\<close> of an organization id.\<close>

definition computeCanaryBucket :: "(string \<Rightarrow> nat) \<Rightarrow> string \<Rightarrow> nat" where
  "computeCanaryBucket sha organizationId = sha organizationId mod 100"

definition isOrganizationInCanary :: "(string \<Rightarrow> nat) \<Rightarrow> string \<Rightarrow> real \<Rightarrow> bool" where
  "isOrganizationInCanary sha organizationId percentage =
     (if percentage \<le> 0 then False else if percentage \<ge> 100 then True
      else real (computeCanaryBucket sha organizationId) < percentage)"

datatype provider_group = Primary_Group | Canary_Group

definition selectProviderGroup ::
  "(string \<Rightarrow> nat) \<Rightarrow> string \<Rightarrow> bool \<Rightarrow> real \<Rightarrow> bool \<Rightarrow> provider_group" where
  "selectProviderGroup sha organizationId canaryEnabled canaryPercentage canaryProviderConfigured =
     (if \<not> canaryEnabled \<or> \<not> canaryProviderConfigured then Primary_Group
      else if isOrganizationInCanary sha organizationId canaryPercentage then Canary_Group
      else Primary_Group)"

definition shouldSampleForShadow :: "real \<Rightarrow> real \<Rightarrow> bool" where
  "shouldSampleForShadow sampleRate rnd =
     (if sampleRate \<le> 0 then False else if sampleRate \<ge> 1 then True else rnd < sampleRate)"

record model_pricing =
  inputCostPerMillionMinor :: nat
  outputCostPerMillionMinor :: "nat option"
  embeddingCostPerMillionMinor :: "nat option"

definition pricingKey :: "string \<Rightarrow> string \<Rightarrow> string" where
  "pricingKey provider model = provider @ ''/'' @ model"

definition CURRENT_PRICING_TABLE :: "string \<rightharpoonup> model_pricing" where
  "CURRENT_PRICING_TABLE = map_of
     [(pricingKey ''openai'' ''gpt-4.1-mini'', \<lparr>inputCostPerMillionMinor = 400000,
        outputCostPerMillionMinor = Some 1600000, embeddingCostPerMillionMinor = None\<rparr>),
      (pricingKey ''openai'' ''gpt-4.1'', \<lparr>inputCostPerMillionMinor = 2000000,
        outputCostPerMillionMinor = Some 8000000, embeddingCostPerMillionMinor = None\<rparr>),
      (pricingKey ''openai'' ''gpt-4o-mini'', \<lparr>inputCostPerMillionMinor = 150000,
        outputCostPerMillionMinor = Some 600000, embeddingCostPerMillionMinor = None\<rparr>),
      (pricingKey ''openai'' ''text-embedding-3-small'', \<lparr>inputCostPerMillionMinor = 20000,
        outputCostPerMillionMinor = None, embeddingCostPerMillionMinor = Some 20000\<rparr>),
      (pricingKey ''openai'' ''text-embedding-3-large'', \<lparr>inputCostPerMillionMinor = 130000,
        outputCostPerMillionMinor = None, embeddingCostPerMillionMinor = Some 130000\<rparr>),
      (pricingKey ''anthropic'' ''claude-sonnet-5'', \<lparr>inputCostPerMillionMinor = 3000000,
        outputCostPerMillionMinor = Some 15000000, embeddingCostPerMillionMinor = None\<rparr>),
      (pricingKey ''anthropic'' ''claude-haiku-4-5-20251001'', \<lparr>inputCostPerMillionMinor = 800000,
        outputCostPerMillionMinor = Some 4000000, embeddingCostPerMillionMinor = None\<rparr>),
      (pricingKey ''gemini'' ''gemini-2.0-flash'', \<lparr>inputCostPerMillionMinor = 100000,
        outputCostPerMillionMinor = Some 400000, embeddingCostPerMillionMinor = None\<rparr>)]"

text \<open>Absent token counts and prices are 0: the code skips both.\<close>

definition token_cost :: "nat \<Rightarrow> nat option \<Rightarrow> nat" where
  "token_cost tokens price =
     (case price of None \<Rightarrow> 0
      | Some c \<Rightarrow> if tokens = 0 \<or> c = 0 then 0 else tokens * c div 1000000)"

definition estimateAiCostMinor ::
  "(string \<rightharpoonup> model_pricing) \<Rightarrow> string \<Rightarrow> string \<Rightarrow> nat \<Rightarrow> nat \<Rightarrow> nat \<Rightarrow> nat option" where
  "estimateAiCostMinor table provider model inputTokens outputTokens embeddingTokens =
     (case table (pricingKey provider model) of
        None \<Rightarrow> None
      | Some pricing \<Rightarrow>
          Some (token_cost inputTokens (Some (inputCostPerMillionMinor pricing)) +
                token_cost outputTokens (outputCostPerMillionMinor pricing) +
                token_cost embeddingTokens (embeddingCostPerMillionMinor pricing)))"

lemma token_cost_alt:
  "token_cost n price = (case price of None \<Rightarrow> 0 | Some c \<Rightarrow> n * c div 1000000)"
  by (auto simp: token_cost_def split: option.split)

lemma div_split_bound:
  fixes a b :: nat
  shows "a div 1000000 + b div 1000000 \<le> (a + b) div 1000000"
    and "(a + b) div 1000000 \<le> a div 1000000 + b div 1000000 + 1"
proof -
  have e: "(a + b) div 1000000 = a div 1000000 + b div 1000000 +
      (a mod 1000000 + b mod 1000000) div 1000000"
    by (rule div_add1_eq)
  have "a mod 1000000 < 1000000" "b mod 1000000 < 1000000" by simp_all
  then have "(a mod 1000000 + b mod 1000000) div 1000000 < 2"
    by (intro less_mult_imp_div_less) linarith
  with e show "a div 1000000 + b div 1000000 \<le> (a + b) div 1000000"
    and "(a + b) div 1000000 \<le> a div 1000000 + b div 1000000 + 1"
    by linarith+
qed

lemma token_cost_mono: "m \<le> n \<Longrightarrow> token_cost m price \<le> token_cost n price"
  by (simp add: token_cost_alt div_le_mono split: option.split)

lemma token_cost_split:
  "token_cost m price + token_cost n price \<le> token_cost (m + n) price"
  "token_cost (m + n) price \<le> token_cost m price + token_cost n price + 1"
  using div_split_bound
  by (simp_all add: token_cost_alt add_mult_distrib split: option.split)

section \<open>Properties\<close>

text \<open>C31: Whatever the breaker, one resilient call makes at most \<open>maxRetries + 1\<close> network attempts,
  retries only after an error of a retryable class, and is back within that many timeouts and
  maximal backoffs.\<close>

theorem resilience_bounded:
  assumes "throws_well_built p" "honours_signal p" "\<forall>i. 0 \<le> random_at p i \<and> random_at p i \<le> 1"
  shows "attempts (executeWithResilience ops p now s) \<le> maxRetries (retryPolicy p) + 1 \<and>
    (\<forall>c \<in> set (butlast (failed_codes (executeWithResilience ops p now s))).
       isRetryableProviderErrorCode c) \<and>
    clock_after (executeWithResilience ops p now s) \<le>
      now + int (maxRetries (retryPolicy p) + 1) * (int (timeoutMs p) + int (maxDelayMs (retryPolicy p)))"
proof -
  note t = loop_time [OF assms(2,3), of now ops 0 None]
    and a = loop_attempts_le [of ops p 0 None now]
    and f = loop_failures_retryable [OF assms(1), of ops 0 None now]
  have "0 \<le> int (maxRetries (retryPolicy p) + 1) * (int (timeoutMs p) + int (maxDelayMs (retryPolicy p)))"
    by simp
  with t a f show ?thesis
    by (simp add: executeWithResilience_def case_prod_beta Let_def)
qed

definition demo_params :: "(nat \<Rightarrow> time_ms \<Rightarrow> time_ms \<Rightarrow> (raw_error + nat) \<times> time_ms) \<Rightarrow> nat resilience_params"
where
  "demo_params f =
     \<lparr>env = \<lparr>NODE_ENV = ''production'', TEST_REAL_AI_PROVIDER = None, ALLOW_PAID_AI_CALLS = None\<rparr>,
      providerName = ''openai'', timeoutMs = 30000, retryPolicy = DEFAULT_RETRY_POLICY,
      abort_at = None, attempt = f, isRetryAllowed = (\<lambda>_. True), random_at = (\<lambda>_. 0)\<rparr>"

text \<open>A provider that is unavailable on every attempt, 10 ms after it begins.\<close>

definition unavailable_attempt :: "nat \<Rightarrow> time_ms \<Rightarrow> time_ms \<Rightarrow> (raw_error + nat) \<times> time_ms" where
  "unavailable_attempt i start fires =
     (Inl (Thrown_ProviderError (ProviderError PROVIDER_UNAVAILABLE ''openai'' (Some 503))),
      min fires (start + 10))"

theorem resilience_bounded_witness:
  "attempts (executeWithResilience (mem_ops CIRCUIT_BREAKER_CONFIG) (demo_params unavailable_attempt) 0 Map.empty) \<le> 3 \<and>
   list_all isRetryableProviderErrorCode (butlast (failed_codes (executeWithResilience
      (mem_ops CIRCUIT_BREAKER_CONFIG) (demo_params unavailable_attempt) 0 Map.empty))) \<and>
   clock_after (executeWithResilience (mem_ops CIRCUIT_BREAKER_CONFIG) (demo_params unavailable_attempt) 0 Map.empty)
     \<le> 102000"
  using resilience_bounded [of "demo_params unavailable_attempt" "mem_ops CIRCUIT_BREAKER_CONFIG" 0 Map.empty]
  by (simp add: demo_params_def unavailable_attempt_def throws_well_built_def honours_signal_def
      well_built_def DEFAULT_RETRY_POLICY_def list_all_iff)

text \<open>While a provider's circuit reads open, in-process or in Redis, a call to it fails with
  \<open>PROVIDER_UNAVAILABLE\<close>, which is fallback-eligible, without a network attempt and without
  touching the breaker; and after any call that succeeded the circuit reads closed.\<close>

theorem resilience_breaker_gate:
  assumes "assertPaidProviderCallAllowed (env p)"
  shows "(mem_getState cfg now (providerName p) m = OPEN \<longrightarrow>
      executeWithResilience (mem_ops cfg) p now m =
        \<lparr>result = Inl (Provider (ProviderError PROVIDER_UNAVAILABLE (providerName p) None)),
         failed_codes = [], attempts = 0, breaker_after = m, clock_after = now\<rparr>) \<and>
    (redis_getState cfg now (providerName p) r = OPEN \<longrightarrow>
      executeWithResilience (redis_ops cfg) p now r =
        \<lparr>result = Inl (Provider (ProviderError PROVIDER_UNAVAILABLE (providerName p) None)),
         failed_codes = [], attempts = 0, breaker_after = r, clock_after = now\<rparr>) \<and>
    isFallbackEligibleProviderErrorCode PROVIDER_UNAVAILABLE \<and>
    (\<forall>v t. result (executeWithResilience (mem_ops cfg) p now m) = Inr v \<longrightarrow>
      mem_getState cfg t (providerName p)
        (breaker_after (executeWithResilience (mem_ops cfg) p now m)) = CLOSED) \<and>
    (\<forall>v t. result (executeWithResilience (redis_ops cfg) p now r) = Inr v \<longrightarrow>
      redis_getState cfg t (providerName p)
        (breaker_after (executeWithResilience (redis_ops cfg) p now r)) = CLOSED)"
  unfolding mem_ops_def redis_ops_def
  by (intro conjI impI allI mem_cb.execute_open [OF assms] redis_cb.execute_open [OF assms]; simp?)
    (auto intro: mem_cb.execute_success_closes redis_cb.execute_success_closes)

theorem resilience_breaker_gate_witness:
  "executeWithResilience (mem_ops CIRCUIT_BREAKER_CONFIG) (demo_params unavailable_attempt) 1000
      [''openai'' \<mapsto> fresh_entry\<lparr>openedAt := Some 0\<rparr>] =
    \<lparr>result = Inl (Provider (ProviderError PROVIDER_UNAVAILABLE ''openai'' None)),
     failed_codes = [], attempts = 0,
     breaker_after = [''openai'' \<mapsto> fresh_entry\<lparr>openedAt := Some 0\<rparr>], clock_after = 1000\<rparr>"
proof -
  have "assertPaidProviderCallAllowed (env (demo_params unavailable_attempt))"
    by (simp add: demo_params_def assertPaidProviderCallAllowed_def)
  from resilience_breaker_gate [OF this, of CIRCUIT_BREAKER_CONFIG 1000
      "[''openai'' \<mapsto> fresh_entry\<lparr>openedAt := Some 0\<rparr>]" Map.empty]
  show ?thesis
    by (simp add: mem_getState_def CIRCUIT_BREAKER_CONFIG_def openDurationMs_def demo_params_def)
qed

text \<open>A call that runs into its timeout is not retried and never falls back: the timer aborts
  the attempt's signal, the attempt rejects with an \<open>AbortError\<close>, and that is classified as
  \<open>PROVIDER_ABORTED\<close>. The circuit is charged one failure.\<close>

theorem resilience_timeout_is_abort:
  assumes "assertPaidProviderCallAllowed (env p)" "abort_at p = None"
    and "allowed (fst (op_beforeCall ops now (providerName p) s))"
    and "attempt p 0 now (now + int (timeoutMs p)) =
      (Inl (Thrown_Error ''AbortError'' msg), now + int (timeoutMs p))"
  shows "executeWithResilience ops p now s =
    \<lparr>result = Inl (Provider (ProviderError PROVIDER_ABORTED (providerName p) None)),
     failed_codes = [PROVIDER_ABORTED], attempts = 1,
     breaker_after = op_onFailure ops (now + int (timeoutMs p)) (providerName p)
       (snd (op_beforeCall ops now (providerName p) s)),
     clock_after = now + int (timeoutMs p)\<rparr> \<and>
    \<not> isRetryableProviderErrorCode PROVIDER_ABORTED \<and>
    \<not> isFallbackEligibleProviderErrorCode PROVIDER_ABORTED"
proof -
  let ?s = "snd (op_beforeCall ops now (providerName p) s)"
  have n: "normalizeProviderError (Thrown_Error ''AbortError'' msg) (providerName p) =
    ProviderError PROVIDER_ABORTED (providerName p) None"
    by (simp add: normalizeProviderError_def)
  have "attempt_loop ops p 0 None now ?s =
     \<lparr>result = Inl (Provider (normalizeProviderError (Thrown_Error ''AbortError'' msg) (providerName p))),
      failed_codes = [errorCode (normalizeProviderError (Thrown_Error ''AbortError'' msg) (providerName p))],
      attempts = 1,
      breaker_after = op_onFailure ops (now + int (timeoutMs p)) (providerName p) ?s,
      clock_after = now + int (timeoutMs p)\<rparr>"
    by (rule loop_failure_final) (use assms n in \<open>simp_all add: aborted_def signal_fires_def can_retry_def\<close>)
  with assms n show ?thesis by (simp add: executeWithResilience_def case_prod_beta)
qed

definition hanging_attempt :: "nat \<Rightarrow> time_ms \<Rightarrow> time_ms \<Rightarrow> (raw_error + nat) \<times> time_ms" where
  "hanging_attempt i start fires =
     (Inl (Thrown_Error ''AbortError'' ''This operation was aborted''), fires)"

theorem resilience_timeout_is_abort_witness:
  "attempts (executeWithResilience (mem_ops CIRCUIT_BREAKER_CONFIG) (demo_params hanging_attempt) 0 Map.empty) = 1 \<and>
   failed_codes (executeWithResilience (mem_ops CIRCUIT_BREAKER_CONFIG) (demo_params hanging_attempt) 0 Map.empty) =
     [PROVIDER_ABORTED]"
  using resilience_timeout_is_abort [of "demo_params hanging_attempt" "mem_ops CIRCUIT_BREAKER_CONFIG" 0 Map.empty
      "''This operation was aborted''"]
  by (simp add: demo_params_def hanging_attempt_def assertPaidProviderCallAllowed_def mem_ops_def
      mem_beforeCall_def mem_getEntry_def)

text \<open>The fallback stream never changes provider once text has reached the user: if the
  primary emitted any text, exactly its events and its failure come out. Otherwise a failed
  primary is replaced only for a fallback-eligible error, its non-text events stay in front, and
  every \<open>done\<close> event of the secondary names the secondary.\<close>

theorem fallback_stream_switch:
  "fallback_stream primary secondary =
    (case snd (llm_stream primary) of
       None \<Rightarrow> llm_stream primary
     | Some rawError \<Rightarrow>
         if list_ex is_text_delta (fst (llm_stream primary)) then llm_stream primary
         else if errorCode (normalizeProviderError rawError (llm_name primary))
                   \<in> {PROVIDER_TIMEOUT, PROVIDER_RATE_LIMITED, PROVIDER_UNAVAILABLE}
         then (fst (llm_stream primary) @ map (tag_done secondary) (fst (llm_stream secondary)),
               snd (llm_stream secondary))
         else (fst (llm_stream primary),
               Some (Thrown_ProviderError (normalizeProviderError rawError (llm_name primary))))) \<and>
   (\<forall>reason served. Done reason served \<in> set (map (tag_done secondary) (fst (llm_stream secondary))) \<longrightarrow>
      served = Some (llm_name secondary, llm_model secondary))"
proof
  have e: "isFallbackEligibleProviderErrorCode c \<longleftrightarrow>
      c \<in> {PROVIDER_TIMEOUT, PROVIDER_RATE_LIMITED, PROVIDER_UNAVAILABLE}" for c
    by (cases c) simp_all
  show "fallback_stream primary secondary =
    (case snd (llm_stream primary) of
       None \<Rightarrow> llm_stream primary
     | Some rawError \<Rightarrow>
         if list_ex is_text_delta (fst (llm_stream primary)) then llm_stream primary
         else if errorCode (normalizeProviderError rawError (llm_name primary))
                   \<in> {PROVIDER_TIMEOUT, PROVIDER_RATE_LIMITED, PROVIDER_UNAVAILABLE}
         then (fst (llm_stream primary) @ map (tag_done secondary) (fst (llm_stream secondary)),
               snd (llm_stream secondary))
         else (fst (llm_stream primary),
               Some (Thrown_ProviderError (normalizeProviderError rawError (llm_name primary)))))"
    unfolding fallback_stream_def Let_def e
    by (cases "llm_stream primary") (simp split: option.split)
  have "tag_done secondary ev = Done reason served \<Longrightarrow>
      served = Some (llm_name secondary, llm_model secondary)" for ev reason served
    by (cases ev) simp_all
  then show "\<forall>reason served. Done reason served \<in> set (map (tag_done secondary) (fst (llm_stream secondary))) \<longrightarrow>
      served = Some (llm_name secondary, llm_model secondary)"
    by (metis (no_types, lifting) image_iff list.set_map)
qed

definition demo_llm :: "string \<Rightarrow> ai_stream_event list \<Rightarrow> raw_error option \<Rightarrow> llm_provider" where
  "demo_llm name events failure =
     \<lparr>llm_name = name, llm_model = ''m'', llm_completion = Inl Thrown_Other,
      llm_stream = (events, failure)\<rparr>"

theorem fallback_stream_switch_witness:
  "fallback_stream
     (demo_llm ''a'' [ProviderRequestId ''r''] (Some (Thrown_Error ''Error'' ''Request Timeout'')))
     (demo_llm ''b'' [TextDelta (asc ''hi''), Done None None] None) =
     ([ProviderRequestId ''r'', TextDelta (asc ''hi''), Done None (Some (''b'', ''m''))], None) \<and>
   fallback_stream
     (demo_llm ''a'' [TextDelta (asc ''x'')] (Some (Thrown_Error ''Error'' ''Request Timeout'')))
     (demo_llm ''b'' [TextDelta (asc ''hi''), Done None None] None) =
     ([TextDelta (asc ''x'')], Some (Thrown_Error ''Error'' ''Request Timeout''))"
  using fallback_stream_switch
    [of "demo_llm ''a'' [ProviderRequestId ''r''] (Some (Thrown_Error ''Error'' ''Request Timeout''))"
      "demo_llm ''b'' [TextDelta (asc ''hi''), Done None None] None"]
    fallback_stream_switch
    [of "demo_llm ''a'' [TextDelta (asc ''x'')] (Some (Thrown_Error ''Error'' ''Request Timeout''))"
      "demo_llm ''b'' [TextDelta (asc ''hi''), Done None None] None"]
  by (simp add: demo_llm_def normalizeProviderError_def mentions_timeout_def asc_def lower_ascii_def Let_def)

text \<open>Raising the rollout percentage only adds organizations to the canary group, whatever the
  hash: an organization that is routed to the canary provider stays there at every higher
  percentage, and at 100 percent every organization is.\<close>

theorem canary_monotone:
  assumes "selectProviderGroup sha org enabled percentage configured = Canary_Group"
    and "percentage \<le> percentage'"
  shows "selectProviderGroup sha org enabled percentage' configured = Canary_Group \<and>
    selectProviderGroup sha other enabled 100 configured = Canary_Group"
  using assms by (auto simp: selectProviderGroup_def isOrganizationInCanary_def split: if_splits)

theorem canary_monotone_witness:
  "selectProviderGroup (\<lambda>_. 4294967213) ''org'' True 50 True = Canary_Group"
  using canary_monotone [of "\<lambda>_. 4294967213" "''org''" True 25 True 50]
  by (simp add: selectProviderGroup_def isOrganizationInCanary_def computeCanaryBucket_def)

text \<open>The price estimate is unknown exactly for a model that is not in the table, never 0 for
  that reason; it grows with every token count; and splitting the tokens of one call over two
  calls never costs more than the single call, and at most three minor units less, one per
  kind of token.\<close>

theorem price_estimate_additive:
  "(estimateAiCostMinor table provider model i out emb = None \<longleftrightarrow>
      table (pricingKey provider model) = None) \<and>
   (\<forall>a b c i' out' emb'.
      estimateAiCostMinor table provider model i out emb = Some a \<longrightarrow>
      estimateAiCostMinor table provider model i' out' emb' = Some b \<longrightarrow>
      estimateAiCostMinor table provider model (i + i') (out + out') (emb + emb') = Some c \<longrightarrow>
      a \<le> c \<and> a + b \<le> c \<and> c \<le> a + b + 3)"
proof (cases "table (pricingKey provider model)")
  case None
  then show ?thesis by (simp add: estimateAiCostMinor_def)
next
  case (Some pr)
  show ?thesis
  proof (intro conjI allI impI)
    fix a b c i' out' emb'
    assume "estimateAiCostMinor table provider model i out emb = Some a"
      and "estimateAiCostMinor table provider model i' out' emb' = Some b"
      and "estimateAiCostMinor table provider model (i + i') (out + out') (emb + emb') = Some c"
    note abc = this
    note lo = token_cost_split(1) [of i "Some (inputCostPerMillionMinor pr)" i']
      token_cost_split(1) [of out "outputCostPerMillionMinor pr" out']
      token_cost_split(1) [of emb "embeddingCostPerMillionMinor pr" emb']
    note hi = token_cost_split(2) [of i i' "Some (inputCostPerMillionMinor pr)"]
      token_cost_split(2) [of out out' "outputCostPerMillionMinor pr"]
      token_cost_split(2) [of emb emb' "embeddingCostPerMillionMinor pr"]
    from abc Some lo show "a + b \<le> c" by (simp add: estimateAiCostMinor_def)
    then show "a \<le> c" by simp
    from abc Some hi show "c \<le> a + b + 3" by (simp add: estimateAiCostMinor_def)
  qed (use Some in \<open>simp add: estimateAiCostMinor_def\<close>)
qed

theorem price_estimate_additive_witness:
  "estimateAiCostMinor CURRENT_PRICING_TABLE ''openai'' ''unknown'' 1 0 0 = None \<and>
   estimateAiCostMinor CURRENT_PRICING_TABLE ''openai'' ''gpt-4o-mini'' 5 1 0 = Some 0 \<and>
   estimateAiCostMinor CURRENT_PRICING_TABLE ''openai'' ''gpt-4o-mini'' 7 1 0 = Some 1 \<and>
   estimateAiCostMinor CURRENT_PRICING_TABLE ''openai'' ''gpt-4o-mini'' 12 2 0 = Some 2 \<and>
   0 + 1 \<le> (2 :: nat) \<and> 2 \<le> 0 + 1 + (3 :: nat)"
  using price_estimate_additive [of CURRENT_PRICING_TABLE "''openai''" "''unknown''" 1 0 0]
    price_estimate_additive [of CURRENT_PRICING_TABLE "''openai''" "''gpt-4o-mini''" 5 1 0]
  by (simp add: CURRENT_PRICING_TABLE_def pricingKey_def estimateAiCostMinor_def token_cost_def)

end
