(* ===== verification/RedisCounters.thy ===== *)
theory RedisCounters
  imports Prelude
begin

text \<open>
  The Redis commands on integer keys that the limiter scripts call: \<open>INCRBY\<close>, \<open>DECRBY\<close>, \<open>EXPIRE\<close>
  (\<open>PEXPIRE\<close>), \<open>PTTL\<close>, \<open>EXISTS\<close> and \<open>SET\<close>, as Redis documents them. A key is its integer and its
  expiry; it reads as absent once the server clock is past the expiry. \<open>INCRBY\<close> of an absent key
  starts from 0 with no expiry, and keeps the expiry of a present one; \<open>SET\<close> drops the expiry.
\<close>

type_synonym 'k redis_counters = "'k \<rightharpoonup> int \<times> time_ms option"

definition past :: "time_ms \<Rightarrow> time_ms option \<Rightarrow> bool" where
  "past now e = (case e of None \<Rightarrow> False | Some t \<Rightarrow> now > t)"

definition rc_entry :: "time_ms \<Rightarrow> 'k \<Rightarrow> 'k redis_counters \<Rightarrow> (int \<times> time_ms option) option" where
  "rc_entry now k r =
     (case r k of None \<Rightarrow> None | Some (v, e) \<Rightarrow> if past now e then None else Some (v, e))"

definition rc_value :: "time_ms \<Rightarrow> 'k \<Rightarrow> 'k redis_counters \<Rightarrow> int" where
  "rc_value now k r = (case rc_entry now k r of None \<Rightarrow> 0 | Some (v, _) \<Rightarrow> v)"

definition EXISTS :: "time_ms \<Rightarrow> 'k \<Rightarrow> 'k redis_counters \<Rightarrow> bool" where
  "EXISTS now k r \<longleftrightarrow> rc_entry now k r \<noteq> None"

definition INCRBY :: "time_ms \<Rightarrow> 'k \<Rightarrow> int \<Rightarrow> 'k redis_counters \<Rightarrow> int \<times> 'k redis_counters" where
  "INCRBY now k d r =
     (case rc_entry now k r of
        None \<Rightarrow> (d, r(k \<mapsto> (d, None)))
      | Some (v, e) \<Rightarrow> (v + d, r(k \<mapsto> (v + d, e))))"

definition DECRBY :: "time_ms \<Rightarrow> 'k \<Rightarrow> int \<Rightarrow> 'k redis_counters \<Rightarrow> int \<times> 'k redis_counters" where
  "DECRBY now k d r = INCRBY now k (- d) r"

definition PEXPIRE :: "time_ms \<Rightarrow> 'k \<Rightarrow> int \<Rightarrow> 'k redis_counters \<Rightarrow> 'k redis_counters" where
  "PEXPIRE now k ms r =
     (case rc_entry now k r of
        None \<Rightarrow> r
      | Some (v, _) \<Rightarrow> r(k \<mapsto> (v, Some (now + ms))))"

definition EXPIRE :: "time_ms \<Rightarrow> 'k \<Rightarrow> nat \<Rightarrow> 'k redis_counters \<Rightarrow> 'k redis_counters" where
  "EXPIRE now k seconds r = PEXPIRE now k (int seconds * 1000) r"

text \<open>\<open>-2\<close> for an absent key, \<open>-1\<close> for a key with no expiry.\<close>

definition PTTL :: "time_ms \<Rightarrow> 'k \<Rightarrow> 'k redis_counters \<Rightarrow> int" where
  "PTTL now k r =
     (case rc_entry now k r of
        None \<Rightarrow> - 2
      | Some (_, None) \<Rightarrow> - 1
      | Some (_, Some t) \<Rightarrow> t - now)"

definition SETINT :: "'k \<Rightarrow> int \<Rightarrow> 'k redis_counters \<Rightarrow> 'k redis_counters" where
  "SETINT k v r = r(k \<mapsto> (v, None))"

lemma past_simps [simp]: "\<not> past now None" "past now (Some t) \<longleftrightarrow> t < now"
  by (simp_all add: past_def)

lemma rc_entry_upd [simp]:
  "rc_entry now k (r(k' \<mapsto> (v, e))) =
     (if k = k' then (if past now e then None else Some (v, e)) else rc_entry now k r)"
  by (simp add: rc_entry_def)

lemma rc_entry_alive: "rc_entry now k r = Some (v, e) \<Longrightarrow> r k = Some (v, e) \<and> \<not> past now e"
  by (auto simp: rc_entry_def split: option.splits if_splits)

lemma rc_entry_later:
  "now \<le> t \<Longrightarrow> rc_entry t k r = None \<or> rc_entry t k r = rc_entry now k r"
  by (auto simp: rc_entry_def past_def split: option.split)

lemma rc_entry_later_alive:
  "rc_entry now k r = Some (v, Some e) \<Longrightarrow> now \<le> t \<Longrightarrow> t \<le> e \<Longrightarrow> rc_entry t k r = Some (v, Some e)"
  "rc_entry now k r = Some (v, None) \<Longrightarrow> rc_entry t k r = Some (v, None)"
  by (auto simp: rc_entry_def split: option.splits if_splits)

lemma rc_value_later:
  "now \<le> t \<Longrightarrow> rc_value t k r = 0 \<or> rc_value t k r = rc_value now k r"
  using rc_entry_later [of now t k r] by (auto simp: rc_value_def)

lemma INCRBY_value [simp]:
  "fst (INCRBY now k d r) = rc_value now k r + d"
  "rc_entry now k' (snd (INCRBY now k d r)) =
     (if k' = k then Some (rc_value now k r + d, case rc_entry now k r of None \<Rightarrow> None | Some (_, e) \<Rightarrow> e)
      else rc_entry now k' r)"
  by (auto simp: INCRBY_def rc_value_def dest: rc_entry_alive split: option.split)

lemma INCRBY_other: "k' \<noteq> k \<Longrightarrow> rc_entry t k' (snd (INCRBY now k d r)) = rc_entry t k' r"
  by (auto simp: INCRBY_def split: option.split)

lemma PEXPIRE_entry [simp]:
  "0 \<le> ms \<Longrightarrow> rc_entry now k' (PEXPIRE now k ms r) =
     (if k' = k then (case rc_entry now k r of None \<Rightarrow> None | Some (v, _) \<Rightarrow> Some (v, Some (now + ms)))
      else rc_entry now k' r)"
  by (auto simp: PEXPIRE_def split: option.split)

lemma PEXPIRE_other: "k' \<noteq> k \<Longrightarrow> rc_entry t k' (PEXPIRE now k ms r) = rc_entry t k' r"
  by (auto simp: PEXPIRE_def split: option.split)

lemma EXPIRE_entry [simp]:
  "rc_entry now k' (EXPIRE now k n r) =
     (if k' = k then (case rc_entry now k r of None \<Rightarrow> None | Some (v, _) \<Rightarrow> Some (v, Some (now + int n * 1000)))
      else rc_entry now k' r)"
  by (simp add: EXPIRE_def)

lemma EXPIRE_other: "k' \<noteq> k \<Longrightarrow> rc_entry t k' (EXPIRE now k n r) = rc_entry t k' r"
  by (simp add: EXPIRE_def PEXPIRE_other)

lemma SETINT_entry [simp]:
  "rc_entry now k' (SETINT k v r) = (if k' = k then Some (v, None) else rc_entry now k' r)"
  by (simp add: SETINT_def)

lemma rc_value_upd [simp]:
  "rc_value now k' (r(k \<mapsto> (v, e))) =
     (if k' = k then (if past now e then 0 else v) else rc_value now k' r)"
  by (simp add: rc_value_def)

text \<open>The scripts never leave a negative counter behind.\<close>

definition counters_nonneg :: "'k redis_counters \<Rightarrow> bool" where
  "counters_nonneg r \<longleftrightarrow> (\<forall>k v e. r k = Some (v, e) \<longrightarrow> 0 \<le> v)"

lemma counters_nonneg_value: "counters_nonneg r \<Longrightarrow> 0 \<le> rc_value now k r"
  by (auto simp: counters_nonneg_def rc_value_def dest!: rc_entry_alive split: option.split)

lemma counters_nonneg_upd:
  "counters_nonneg r \<Longrightarrow> 0 \<le> v \<Longrightarrow> counters_nonneg (r(k \<mapsto> (v, e)))"
  by (auto simp: counters_nonneg_def)

end
