(* ===== verification/RateLimit.thy ===== *)
theory RateLimit
  imports RedisCounters
begin

text \<open>
  Request throttling: the fixed-window limiter in memory (\<^verbatim>\<open>in-memory-rate-limiter.ts\<close>)
  and in Redis (\<^verbatim>\<open>redis-lua-scripts.ts\<close>, \<^verbatim>\<open>redis-rate-limiter.ts\<close>), the contract both keep
  (locale \<open>rate_limiter\<close>), the two enforcement functions of \<^verbatim>\<open>enforce-rate-limit.ts\<close>, and the
  keys: \<^verbatim>\<open>rate-limit-key.ts\<close> and the client address of \<^verbatim>\<open>client-ip.ts\<close>.
\<close>

section \<open>The limiter in memory\<close>

record consume_result =
  consume_allowed :: bool
  remaining :: int
  resetAt :: time_ms

record bucket =
  bucket_count :: nat
  windowStart :: time_ms

record 'k mem_limiter =
  buckets :: "'k \<rightharpoonup> bucket"
  lastSweep :: time_ms

definition SWEEP_INTERVAL_MS :: time_ms where
  "SWEEP_INTERVAL_MS = 60000"

definition sweepIfDue :: "time_ms \<Rightarrow> 'k mem_limiter \<Rightarrow> 'k mem_limiter" where
  "sweepIfDue now m =
     (if now - lastSweep m < SWEEP_INTERVAL_MS then m
      else m\<lparr>lastSweep := now,
             buckets := (\<lambda>k. case buckets m k of
                None \<Rightarrow> None
              | Some b \<Rightarrow> if now - windowStart b > 60 * 60 * 1000 then None else Some b)\<rparr>)"

definition mem_consume ::
  "time_ms \<Rightarrow> 'k \<Rightarrow> nat \<Rightarrow> nat \<Rightarrow> 'k mem_limiter \<Rightarrow> consume_result \<times> 'k mem_limiter" where
  "mem_consume now key limit windowSeconds m0 =
     (let m = sweepIfDue now m0;
          windowMs = int windowSeconds * 1000;
          fresh = (\<lparr>consume_allowed = True, remaining = int limit - 1, resetAt = now + windowMs\<rparr>,
                   m\<lparr>buckets := (buckets m)(key \<mapsto> \<lparr>bucket_count = 1, windowStart = now\<rparr>)\<rparr>)
      in case buckets m key of
           None \<Rightarrow> fresh
         | Some existing \<Rightarrow>
             if now - windowStart existing \<ge> windowMs then fresh
             else if bucket_count existing \<ge> limit
             then (\<lparr>consume_allowed = False, remaining = 0,
                    resetAt = windowStart existing + windowMs\<rparr>, m)
             else (\<lparr>consume_allowed = True,
                    remaining = int limit - int (bucket_count existing + 1),
                    resetAt = windowStart existing + windowMs\<rparr>,
                   m\<lparr>buckets := (buckets m)(key \<mapsto>
                      existing\<lparr>bucket_count := bucket_count existing + 1\<rparr>)\<rparr>))"

section \<open>The limiter in Redis\<close>

definition CONSUME_RATE_LIMIT_SCRIPT ::
  "time_ms \<Rightarrow> 'k \<Rightarrow> nat \<Rightarrow> nat \<Rightarrow> 'k redis_counters \<Rightarrow> (nat \<times> int \<times> int) \<times> 'k redis_counters" where
  "CONSUME_RATE_LIMIT_SCRIPT now key limit windowSeconds r =
     (let windowMs = int windowSeconds * 1000;
          (current, r1) = INCRBY now key 1 r;
          r2 = (if current = 1 then PEXPIRE now key windowMs r1 else r1);
          pttl = PTTL now key r2;
          (pttl', r3) = (if pttl < 0 then (windowMs, PEXPIRE now key windowMs r2) else (pttl, r2));
          ok = (if current > int limit then 0 else 1);
          rest = (if int limit - current < 0 then 0 else int limit - current)
      in ((ok, rest, pttl'), r3))"

definition redis_consume ::
  "time_ms \<Rightarrow> 'k \<Rightarrow> nat \<Rightarrow> nat \<Rightarrow> 'k redis_counters \<Rightarrow> consume_result \<times> 'k redis_counters" where
  "redis_consume now key limit windowSeconds r =
     (let ((ok, rest, pttlMs), r') = CONSUME_RATE_LIMIT_SCRIPT now key limit windowSeconds r
      in (\<lparr>consume_allowed = (ok = 1), remaining = rest, resetAt = now + pttlMs\<rparr>, r'))"

section \<open>The contract\<close>

text \<open>The answers to calls for one key at the given times.\<close>

fun consume_all ::
  "(time_ms \<Rightarrow> 's \<Rightarrow> consume_result \<times> 's) \<Rightarrow> time_ms list \<Rightarrow> 's \<Rightarrow> bool list" where
  "consume_all f [] s = []"
| "consume_all f (t # ts) s = (let (res, s') = f t s in consume_allowed res # consume_all f ts s')"

text \<open>
  \<open>used t k w s\<close> is how much of the budget of \<open>k\<close> the window running at \<open>t\<close> has used. A call is
  allowed when the budget is not used up; until the instant \<open>resetAt\<close> it returned, the budget
  stays used and later calls return the same instant; other keys are not touched. Limits and
  windows are positive, as \<open>parsePositiveInt\<close> makes them.
\<close>

locale rate_limiter =
  fixes consume :: "time_ms \<Rightarrow> 'k \<Rightarrow> nat \<Rightarrow> nat \<Rightarrow> 's \<Rightarrow> consume_result \<times> 's"
    and used :: "time_ms \<Rightarrow> 'k \<Rightarrow> nat \<Rightarrow> 's \<Rightarrow> nat"
    and window_ok :: "nat \<Rightarrow> bool"
    and valid :: "'s \<Rightarrow> bool"
  assumes valid_consume: "valid s \<Longrightarrow> 0 < w \<Longrightarrow> valid (snd (consume now k l w s))"
    and allowed_iff:
      "valid s \<Longrightarrow> window_ok w \<Longrightarrow> 0 < w \<Longrightarrow> 0 < l \<Longrightarrow>
       consume_allowed (fst (consume now k l w s)) \<longleftrightarrow> used now k w s < l"
    and used_allowed:
      "valid s \<Longrightarrow> window_ok w \<Longrightarrow> 0 < w \<Longrightarrow> 0 < l \<Longrightarrow> now \<le> t \<Longrightarrow>
       t < resetAt (fst (consume now k l w s)) \<Longrightarrow> used now k w s < l \<Longrightarrow>
       used t k w (snd (consume now k l w s)) = Suc (used now k w s)"
    and used_denied:
      "valid s \<Longrightarrow> window_ok w \<Longrightarrow> 0 < w \<Longrightarrow> 0 < l \<Longrightarrow> now \<le> t \<Longrightarrow>
       t < resetAt (fst (consume now k l w s)) \<Longrightarrow> l \<le> used now k w s \<Longrightarrow>
       l \<le> used t k w (snd (consume now k l w s))"
    and reset_stable:
      "valid s \<Longrightarrow> window_ok w \<Longrightarrow> 0 < w \<Longrightarrow> 0 < l \<Longrightarrow> now \<le> t \<Longrightarrow>
       t < resetAt (fst (consume now k l w s)) \<Longrightarrow>
       resetAt (fst (consume t k l w (snd (consume now k l w s)))) =
         resetAt (fst (consume now k l w s))"
    and frame_consume:
      "valid s \<Longrightarrow> window_ok w' \<Longrightarrow> k' \<noteq> k \<Longrightarrow> now \<le> t \<Longrightarrow>
       used t k' w' (snd (consume now k l w s)) = used t k' w' s"
begin

lemma window_exact:
  assumes "valid s" "window_ok w" "0 < w" "0 < l" "sorted (now # ts)"
    and "\<forall>t \<in> set (now # ts). t < resetAt (fst (consume now k l w s))"
  shows "count_list (consume_all (\<lambda>t. consume t k l w) (now # ts) s) True =
         min (length (now # ts)) (l - used now k w s)"
  using assms
proof (induction ts arbitrary: now s)
  case Nil
  then show ?case using allowed_iff [of s w l now k] by (auto simp: case_prod_beta Let_def)
next
  case (Cons t ts)
  let ?r = "consume now k l w s"
  have step: "now \<le> t" "t < resetAt (fst ?r)" using Cons.prems by auto
  note stable = reset_stable [OF Cons.prems(1-4) step]
  have IH: "count_list (consume_all (\<lambda>t. consume t k l w) (t # ts) (snd ?r)) True =
      min (length (t # ts)) (l - used t k w (snd ?r))"
    by (rule Cons.IH) (use Cons.prems valid_consume stable in auto)
  show ?case
  proof (cases "used now k w s < l")
    case True
    with IH used_allowed [OF Cons.prems(1-4) step True] allowed_iff [OF Cons.prems(1-4), of now k]
    show ?thesis by (simp add: case_prod_beta Let_def)
  next
    case False
    with IH used_denied [OF Cons.prems(1-4) step] allowed_iff [OF Cons.prems(1-4), of now k]
    show ?thesis by (simp add: case_prod_beta Let_def)
  qed
qed

end

section \<open>Both limiters keep the contract\<close>

definition mem_used :: "time_ms \<Rightarrow> 'k \<Rightarrow> nat \<Rightarrow> 'k mem_limiter \<Rightarrow> nat" where
  "mem_used t k w m =
     (case buckets m k of
        None \<Rightarrow> 0
      | Some b \<Rightarrow> if t - windowStart b \<ge> int w * 1000 then 0 else bucket_count b)"

text \<open>The hourly sweep forgets a bucket whose window is still running when windows are longer than
  an hour; up to an hour it changes nothing a caller can see.\<close>

lemma sweep_used:
  assumes "w \<le> 3600" "now \<le> t"
  shows "mem_used t k w (sweepIfDue now m) = mem_used t k w m"
proof -
  have "int w * 1000 \<le> 3600000" using assms(1) by simp
  with assms(2) show ?thesis by (auto simp: mem_used_def sweepIfDue_def split: option.split)
qed

lemma sweep_keeps_running:
  assumes "w \<le> 3600" "now - windowStart b < int w * 1000" "buckets m k = Some b"
  shows "buckets (sweepIfDue now m) k = Some b"
proof -
  have "int w * 1000 \<le> 3600000" using assms(1) by simp
  with assms(2,3) show ?thesis by (auto simp: sweepIfDue_def)
qed

lemma sweep_Some: "buckets (sweepIfDue now m) k = Some b \<Longrightarrow> buckets m k = Some b"
  by (auto simp: sweepIfDue_def split: if_splits option.splits)

lemma mem_used_upd [simp]:
  "mem_used t k w (m\<lparr>buckets := (buckets m)(k' \<mapsto> b)\<rparr>) =
     (if k = k' then (if t - windowStart b \<ge> int w * 1000 then 0 else bucket_count b)
      else mem_used t k w m)"
  by (simp add: mem_used_def)

text \<open>A call that starts a window, and a call in a running one.\<close>

lemma mem_consume_fresh:
  assumes "\<forall>b. buckets m k = Some b \<longrightarrow> \<not> now - windowStart b < int w * 1000"
  shows "mem_consume now k l w m =
    (\<lparr>consume_allowed = True, remaining = int l - 1, resetAt = now + int w * 1000\<rparr>,
     (sweepIfDue now m)\<lparr>buckets := (buckets (sweepIfDue now m))
        (k \<mapsto> \<lparr>bucket_count = 1, windowStart = now\<rparr>)\<rparr>)"
    and "mem_used now k w m = 0"
  using assms
  by (auto simp: mem_consume_def Let_def mem_used_def dest!: sweep_Some split: option.split)

lemma mem_consume_running:
  assumes "buckets m k = Some b" "now - windowStart b < int w * 1000" "w \<le> 3600"
  shows "mem_consume now k l w m =
    (if l \<le> bucket_count b
     then (\<lparr>consume_allowed = False, remaining = 0, resetAt = windowStart b + int w * 1000\<rparr>,
           sweepIfDue now m)
     else (\<lparr>consume_allowed = True, remaining = int l - int (bucket_count b + 1),
            resetAt = windowStart b + int w * 1000\<rparr>,
           (sweepIfDue now m)\<lparr>buckets := (buckets (sweepIfDue now m))
              (k \<mapsto> b\<lparr>bucket_count := bucket_count b + 1\<rparr>)\<rparr>))"
    and "mem_used now k w m = bucket_count b"
  using assms sweep_keeps_running [OF assms(3,2,1)]
  by (simp_all add: mem_consume_def Let_def mem_used_def)

lemma mem_consume_cases:
  obtains (fresh) "\<forall>b. buckets m k = Some b \<longrightarrow> \<not> now - windowStart b < int w * 1000"
    | (running) b where "buckets m k = Some b" "now - windowStart b < int w * 1000"
  by blast

interpretation mem_rl: rate_limiter mem_consume mem_used "\<lambda>w. w \<le> 3600" "\<lambda>_. True"
proof unfold_locales
  fix s :: "'a mem_limiter" and k now and w l :: nat
  assume a: "w \<le> 3600" "0 < w" "0 < l"
  show "consume_allowed (fst (mem_consume now k l w s)) \<longleftrightarrow> mem_used now k w s < l"
    by (rule mem_consume_cases [of s k now w])
      (use a in \<open>auto simp: mem_consume_fresh mem_consume_running\<close>)
  fix t
  assume t: "now \<le> t" "t < resetAt (fst (mem_consume now k l w s))"
  show "mem_used now k w s < l \<Longrightarrow>
      mem_used t k w (snd (mem_consume now k l w s)) = Suc (mem_used now k w s)"
    by (rule mem_consume_cases [of s k now w])
      (use a t in \<open>auto simp: mem_consume_fresh mem_consume_running sweep_used\<close>)
  show "l \<le> mem_used t k w (snd (mem_consume now k l w s))" if "l \<le> mem_used now k w s"
  proof (rule mem_consume_cases [of s k now w])
    assume "\<forall>b. buckets s k = Some b \<longrightarrow> \<not> now - windowStart b < int w * 1000"
    with that a show ?thesis by (simp add: mem_consume_fresh)
  next
    fix b assume "buckets s k = Some b" "now - windowStart b < int w * 1000"
    with that t a show ?thesis
      by (simp add: mem_consume_running sweep_used)
  qed
  show "resetAt (fst (mem_consume t k l w (snd (mem_consume now k l w s)))) =
      resetAt (fst (mem_consume now k l w s))"
  proof (rule mem_consume_cases [of s k now w])
    assume f: "\<forall>b. buckets s k = Some b \<longrightarrow> \<not> now - windowStart b < int w * 1000"
    then have t': "t < now + int w * 1000" using t(2) by (simp add: mem_consume_fresh)
    show ?thesis
      by (simp add: mem_consume_fresh(1) [OF f])
        (subst mem_consume_running(1) [where b = "\<lparr>bucket_count = 1, windowStart = now\<rparr>"],
          use a t' in auto)
  next
    fix b assume b: "buckets s k = Some b" "now - windowStart b < int w * 1000"
    then have t': "t - windowStart b < int w * 1000"
      using t(2) a(1) by (auto simp: mem_consume_running split: if_splits)
    show ?thesis
    proof (cases "l \<le> bucket_count b")
      case True
      with b a show ?thesis
        using mem_consume_running(1) [OF sweep_keeps_running [OF a(1) b(2,1)] t' a(1), of l]
        by (simp add: mem_consume_running(1))
    next
      case False
      with b a t' show ?thesis
        by (simp add: mem_consume_running(1))
    qed
  qed
next
  fix s :: "'a mem_limiter" and k k' :: 'a and now t :: time_ms and w w' l :: nat
  assume "w' \<le> 3600" "k' \<noteq> k" "now \<le> t"
  then show "mem_used t k' w' (snd (mem_consume now k l w s)) = mem_used t k' w' s"
    by (auto simp: mem_consume_def Let_def sweep_used split: option.split)
qed auto

definition redis_used :: "time_ms \<Rightarrow> 'k \<Rightarrow> nat \<Rightarrow> 'k redis_counters \<Rightarrow> nat" where
  "redis_used t k w r = nat (rc_value t k r)"

text \<open>Every counter key of the limiter was counted up from 1 and carries its window's expiry.\<close>

definition redis_rl_valid :: "'k redis_counters \<Rightarrow> bool" where
  "redis_rl_valid r \<longleftrightarrow> (\<forall>k v e. r k = Some (v, e) \<longrightarrow> 0 < v \<and> e \<noteq> None)"

lemma redis_rl_entry:
  "redis_rl_valid r \<Longrightarrow> rc_entry now k r = Some (v, e) \<Longrightarrow> 0 < v \<and> (\<exists>t. e = Some t \<and> now \<le> t)"
  by (drule rc_entry_alive, cases e) (auto simp: redis_rl_valid_def)

lemma redis_consume_start:
  assumes "rc_entry now k r = None" "0 < w"
  shows "redis_consume now k l w r =
    (\<lparr>consume_allowed = (1 \<le> l), remaining = (if l = 0 then 0 else int l - 1), resetAt = now + int w * 1000\<rparr>,
     r(k \<mapsto> (1, Some (now + int w * 1000))))"
  using assms
  by (simp add: redis_consume_def CONSUME_RATE_LIMIT_SCRIPT_def Let_def INCRBY_def PEXPIRE_def PTTL_def)

lemma redis_consume_running:
  assumes "rc_entry now k r = Some (v, Some e)" "0 < v" "now \<le> e"
  shows "redis_consume now k l w r =
    (\<lparr>consume_allowed = (v + 1 \<le> int l), remaining = (if int l < v + 1 then 0 else int l - (v + 1)),
      resetAt = e\<rparr>,
     r(k \<mapsto> (v + 1, Some e)))"
  using assms
  by (simp add: redis_consume_def CONSUME_RATE_LIMIT_SCRIPT_def Let_def INCRBY_def PEXPIRE_def PTTL_def)

lemma redis_consume_cases:
  assumes "redis_rl_valid r"
  obtains (start) "rc_entry now k r = None"
    | (running) v e where "rc_entry now k r = Some (v, Some e)" "0 < v" "now \<le> e"
  using redis_rl_entry [OF assms, of now k] by (cases "rc_entry now k r") auto

interpretation redis_rl: rate_limiter redis_consume redis_used "\<lambda>_. True" redis_rl_valid
proof unfold_locales
  fix r :: "'a redis_counters" and w l :: nat and now and k :: 'a
  assume v: "redis_rl_valid r" and w: "0 < w"
  show "redis_rl_valid (snd (redis_consume now k l w r))"
    by (rule redis_consume_cases [OF v, of now k])
      (use v w in \<open>auto simp: redis_consume_start redis_consume_running redis_rl_valid_def\<close>)
  assume l: "0 < l"
  show "consume_allowed (fst (redis_consume now k l w r)) \<longleftrightarrow> redis_used now k w r < l"
    by (rule redis_consume_cases [OF v, of now k])
      (use l w in \<open>auto simp: redis_consume_start redis_consume_running redis_used_def rc_value_def\<close>)
  fix t
  assume t: "now \<le> t" "t < resetAt (fst (redis_consume now k l w r))"
  show "redis_used t k w (snd (redis_consume now k l w r)) = Suc (redis_used now k w r)"
    by (rule redis_consume_cases [OF v, of now k])
      (use t w in \<open>auto simp: redis_consume_start redis_consume_running redis_used_def rc_value_def\<close>)
  show "l \<le> redis_used now k w r \<Longrightarrow> l \<le> redis_used t k w (snd (redis_consume now k l w r))"
    by (rule redis_consume_cases [OF v, of now k])
      (use t w in \<open>auto simp: redis_consume_start redis_consume_running redis_used_def rc_value_def\<close>)
  show "resetAt (fst (redis_consume t k l w (snd (redis_consume now k l w r)))) =
      resetAt (fst (redis_consume now k l w r))"
  proof (rule redis_consume_cases [OF v, of now k])
    assume "rc_entry now k r = None"
    with t w show ?thesis
      by (simp add: redis_consume_start) (subst redis_consume_running, auto)
  next
    fix v e assume "rc_entry now k r = Some (v, Some e)" "0 < v" "now \<le> e"
    with t show ?thesis
      by (simp add: redis_consume_running)
  qed
next
  fix r :: "'a redis_counters" and w w' l :: nat and now t and k k' :: 'a
  assume "redis_rl_valid r" "k' \<noteq> k"
  then show "redis_used t k' w' (snd (redis_consume now k l w r)) = redis_used t k' w' r"
    by (auto simp: redis_consume_def CONSUME_RATE_LIMIT_SCRIPT_def Let_def case_prod_beta
        redis_used_def rc_value_def INCRBY_other PEXPIRE_other)
qed

section \<open>Keys and client addresses\<close>

text \<open>\<open>sha\<close> is the SHA-256 hex digest and \<open>lower\<close> is \<open>toLowerCase\<close>, both of the runtime.\<close>

definition buildRateLimitKey ::
  "(jstring \<Rightarrow> jstring) \<Rightarrow> (jstring \<Rightarrow> jstring) \<Rightarrow> jstring \<Rightarrow> jstring \<Rightarrow> jstring \<Rightarrow> jstring" where
  "buildRateLimitKey sha lower purpose identifier ipPrefix =
     (let normalizedIdentifier = lower (js_trim identifier)
      in sha (purpose @ asc '':'' @ normalizedIdentifier @ asc '':'' @ ipPrefix))"

definition is_octet :: "jstring \<Rightarrow> bool" where
  "is_octet p \<longleftrightarrow> 1 \<le> length p \<and> length p \<le> 3 \<and> list_all is_digit_unit p"

definition toIpPrefix :: "jstring \<Rightarrow> jstring" where
  "toIpPrefix ip =
     (let trimmed = js_trim ip in
      if trimmed = [] then asc ''unknown''
      else if 58 \<in> set trimmed
      then let groups = filter (\<lambda>part. length part > 0) (split_on 58 trimmed)
           in if length groups \<ge> 4 then join_with 58 (take 4 groups) @ asc ''::'' else asc ''unknown''
      else let octets = split_on 46 trimmed
           in if length octets = 4 \<and> list_all is_octet octets
              then octets ! 0 @ asc ''.'' @ octets ! 1 @ asc ''.'' @ octets ! 2 @ asc ''.0/24''
              else asc ''unknown'')"

text \<open>The request headers and the two proxy settings; \<open>hops\<close> is the parsed
  \<open>TRUSTED_PROXY_HOPS\<close>. An absent and an empty header are both falsy.\<close>

record ip_request =
  TRUST_PROXY :: "string option"
  hops :: nat
  forwardedFor :: "jstring option"
  realIp :: "jstring option"

definition forwarded_chain :: "jstring option \<Rightarrow> jstring list" where
  "forwarded_chain header =
     (case header of
        None \<Rightarrow> []
      | Some f \<Rightarrow> if f = [] then []
                  else filter (\<lambda>part. length part > 0) (map js_trim (split_on 44 f)))"

definition getClientIpPrefix :: "ip_request \<Rightarrow> jstring" where
  "getClientIpPrefix req =
     (if TRUST_PROXY req \<noteq> Some ''true'' then asc ''unknown''
      else
        let chain = forwarded_chain (forwardedFor req);
            picked = (if hops req \<le> length chain \<and> length chain - hops req < length chain
                      then Some (chain ! (length chain - hops req)) else None);
            ip = (case picked of
                    Some p \<Rightarrow> p
                  | None \<Rightarrow> (case realIp req of
                               None \<Rightarrow> asc ''unknown''
                             | Some x \<Rightarrow> if x = [] then asc ''unknown'' else x))
        in toIpPrefix ip)"

section \<open>Enforcement\<close>

text \<open>
  \<open>consume\<close> is the limiter in use; \<open>None\<close> is a limiter that threw. \<open>Inl\<close> is a thrown
  \<open>RateLimitError\<close> with its reset time and, when it carries them, limit and remaining.
\<close>

record rate_budget =
  budget_limit :: nat
  budget_window :: nat

datatype rate_limit_error = RateLimitError (err_reset: time_ms) (err_budget: "(nat \<times> int) option")

definition RATE_LIMITER_UNAVAILABLE_RETRY_SECONDS :: int where
  "RATE_LIMITER_UNAVAILABLE_RETRY_SECONDS = 30"

definition handleRateLimiterUnavailable :: "bool \<Rightarrow> time_ms \<Rightarrow> rate_limit_error + unit" where
  "handleRateLimiterUnavailable failOpen now =
     (if failOpen then Inr ()
      else Inl (RateLimitError (now + RATE_LIMITER_UNAVAILABLE_RETRY_SECONDS * 1000) None))"

type_synonym 's limiter_call =
  "time_ms \<Rightarrow> jstring \<Rightarrow> nat \<Rightarrow> nat \<Rightarrow> 's \<Rightarrow> consume_result option \<times> 's"

definition enforceRateLimit ::
  "'s limiter_call \<Rightarrow> bool \<Rightarrow> time_ms \<Rightarrow> rate_budget \<Rightarrow> jstring \<Rightarrow> 's \<Rightarrow> (rate_limit_error + unit) \<times> 's"
where
  "enforceRateLimit consume failOpen now budget key s =
     (case consume now key (budget_limit budget) (budget_window budget) s of
        (None, s') \<Rightarrow> (handleRateLimiterUnavailable failOpen now, s')
      | (Some r, s') \<Rightarrow>
          if \<not> consume_allowed r
          then (Inl (RateLimitError (resetAt r) (Some (budget_limit budget, remaining r))), s')
          else (Inr (), s'))"

text \<open>\<open>Promise.all\<close> over the axes: every call is issued, in order, whatever the others answer; the
  whole rejects when one of them does.\<close>

fun consume_axes ::
  "'s limiter_call \<Rightarrow> time_ms \<Rightarrow> (jstring \<times> rate_budget) list \<Rightarrow> 's \<Rightarrow> consume_result option list \<times> 's"
where
  "consume_axes consume now [] s = ([], s)"
| "consume_axes consume now ((key, b) # axes) s =
     (let (r, s1) = consume now key (budget_limit b) (budget_window b) s;
          (rs, s2) = consume_axes consume now axes s1
      in (r # rs, s2))"

definition later_entry ::
  "consume_result \<times> rate_budget \<Rightarrow> consume_result \<times> rate_budget \<Rightarrow> consume_result \<times> rate_budget" where
  "later_entry acc e = (if resetAt (fst e) > resetAt (fst acc) then e else acc)"

definition enforceLoginRateLimit ::
  "'s limiter_call \<Rightarrow> bool \<Rightarrow> time_ms \<Rightarrow> (jstring \<times> rate_budget) list \<Rightarrow> 's \<Rightarrow>
   (rate_limit_error + unit) \<times> 's"
where
  "enforceLoginRateLimit consume failOpen now axes s =
     (let (results, s') = consume_axes consume now axes s in
      if None \<in> set results then (handleRateLimiterUnavailable failOpen now, s')
      else
        let blocked = filter (\<lambda>(r, _). \<not> consume_allowed r) (zip (map the results) (map snd axes))
        in case blocked of
             [] \<Rightarrow> (Inr (), s')
           | worst # _ \<Rightarrow>
               let latest = foldl later_entry worst blocked
               in (Inl (RateLimitError (resetAt (fst latest))
                     (Some (budget_limit (snd latest), remaining (fst latest)))), s'))"

text \<open>The three axes of \<open>enforceLoginRateLimit\<close> for an email and an address prefix.\<close>

definition login_axes ::
  "(jstring \<Rightarrow> jstring) \<Rightarrow> (jstring \<Rightarrow> jstring) \<Rightarrow> rate_budget \<Rightarrow> rate_budget \<Rightarrow> rate_budget \<Rightarrow>
   jstring \<Rightarrow> jstring \<Rightarrow> (jstring \<times> rate_budget) list"
where
  "login_axes sha lower byIdentifier byIp combined email ipPrefix =
     [(buildRateLimitKey sha lower (asc ''login:identifier'') email (asc ''-''), byIdentifier),
      (buildRateLimitKey sha lower (asc ''login:ip'') ipPrefix (asc ''-''), byIp),
      (buildRateLimitKey sha lower (asc ''login'') email ipPrefix, combined)]"

lemma foldl_later:
  "resetAt (fst (foldl later_entry acc es)) \<ge> resetAt (fst acc) \<and>
   (\<forall>e \<in> set es. resetAt (fst e) \<le> resetAt (fst (foldl later_entry acc es))) \<and>
   foldl later_entry acc es \<in> set (acc # es)"
proof (induction es arbitrary: acc)
  case (Cons e es)
  from Cons.IH [of "later_entry acc e"] show ?case by (auto simp: later_entry_def split: if_splits)
qed simp

section \<open>Properties\<close>

text \<open>One window, exactly: of any number of requests for one key, the first starting a window
  and all before the reset time it announced, the limiter lets exactly the first \<open>limit\<close>
  through, in memory (for windows of up to an hour) and in Redis alike.\<close>

theorem rate_window_exact:
  assumes "0 < limit" "0 < w" "sorted (t0 # ts)" "\<forall>t \<in> set ts. t < t0 + int w * 1000"
  shows "(w \<le> 3600 \<longrightarrow>
      count_list (consume_all (\<lambda>t. mem_consume t k limit w) (t0 # ts)
        \<lparr>buckets = Map.empty, lastSweep = s0\<rparr>) True = min (length (t0 # ts)) limit) \<and>
    count_list (consume_all (\<lambda>t. redis_consume t k limit w) (t0 # ts) Map.empty) True =
      min (length (t0 # ts)) limit"
proof (intro conjI impI)
  let ?m = "\<lparr>buckets = Map.empty, lastSweep = s0\<rparr> :: 'a mem_limiter"
  assume w: "w \<le> 3600"
  have "resetAt (fst (mem_consume t0 k limit w ?m)) = t0 + int w * 1000" "mem_used t0 k w ?m = 0"
    by (simp_all add: mem_consume_fresh mem_used_def)
  then show "count_list (consume_all (\<lambda>t. mem_consume t k limit w) (t0 # ts) ?m) True =
      min (length (t0 # ts)) limit"
    using mem_rl.window_exact [where s = ?m and w = w and l = limit and now = t0 and ts = ts and k = k] assms w
    by simp
next
  have "resetAt (fst (redis_consume t0 k limit w Map.empty)) = t0 + int w * 1000"
    "redis_used t0 k w Map.empty = 0" "redis_rl_valid (Map.empty :: 'a redis_counters)"
    using assms(2) by (simp_all add: redis_consume_start rc_entry_def redis_used_def rc_value_def
        redis_rl_valid_def)
  then show "count_list (consume_all (\<lambda>t. redis_consume t k limit w) (t0 # ts) Map.empty) True =
      min (length (t0 # ts)) limit"
    using redis_rl.window_exact [where s = Map.empty and w = w and l = limit and now = t0 and ts = ts and k = k]
      assms
    by simp
qed

theorem rate_window_exact_witness:
  "count_list (consume_all (\<lambda>t. mem_consume t ''k'' 2 60) [0, 10, 59999]
     \<lparr>buckets = Map.empty, lastSweep = 0\<rparr>) True = 2 \<and>
   count_list (consume_all (\<lambda>t. redis_consume t ''k'' 2 60) [0, 10, 59999] Map.empty) True = 2"
  using rate_window_exact [of 2 60 0 "[10, 59999]" "''k''" 0] by simp

text \<open>C32: A client cannot choose its rate-limit address: whatever it puts in front of the entries
  that the trusted proxies appended to \<open>X-Forwarded-For\<close>, the prefix is that of the entry the
  outermost trusted proxy recorded.\<close>

theorem client_ip_spoof_resistant:
  assumes "real \<noteq> []" "\<forall>p \<in> set real. 44 \<notin> set p \<and> js_trim p \<noteq> []"
    and "TRUST_PROXY req = Some ''true''" "hops req = length real"
    and "forwardedFor req = Some (spoofed @ asc '','' @ join_with 44 real)"
  shows "getClientIpPrefix req = toIpPrefix (js_trim (hd real))"
proof -
  define pre where "pre = filter (\<lambda>part. length part > 0) (map js_trim (split_on 44 spoofed))"
  have c: "asc '','' = [44]" by (simp add: asc_def)
  have "split_on 44 (spoofed @ [44] @ join_with 44 real) = split_on 44 spoofed @ real"
    using assms(1,2) by (simp add: split_on_append split_join)
  moreover have "filter (\<lambda>part. length part > 0) (map js_trim real) = map js_trim real"
    using assms(2) by (intro filter_True) auto
  ultimately have chain: "forwarded_chain (forwardedFor req) = pre @ map js_trim real"
    unfolding assms(5) c forwarded_chain_def pre_def
    by (simp only: option.case if_False append_is_Nil_conv list.distinct simp_thms map_append filter_append)
  have "(pre @ map js_trim real) ! (length (pre @ map js_trim real) - length real) = js_trim (hd real)"
    using assms(1) by (simp add: nth_append hd_conv_nth)
  then show ?thesis
    using assms(1,3,4) by (simp add: getClientIpPrefix_def chain Let_def)
qed

definition demo_request :: ip_request where
  "demo_request = \<lparr>TRUST_PROXY = Some ''true'', hops = 1,
     forwardedFor = Some (asc ''1.1.1.1, x,203.0.113.7''), realIp = None\<rparr>"

theorem client_ip_spoof_resistant_witness:
  "getClientIpPrefix demo_request = asc ''203.0.113.0/24''"
proof -
  have "getClientIpPrefix demo_request = toIpPrefix (js_trim (hd [asc ''203.0.113.7'']))"
    by (rule client_ip_spoof_resistant [where spoofed = "asc ''1.1.1.1, x''"])
      (simp_all add: demo_request_def asc_def js_trim_def js_trim_start_def js_trim_end_def is_js_space_def)
  then show ?thesis
    by (simp add: toIpPrefix_def asc_def js_trim_def js_trim_start_def js_trim_end_def is_js_space_def
        is_octet_def is_digit_unit_def Let_def)
qed

text \<open>A failed login is charged to all three axes (email, address, both) whatever any of them
  answers, and the user is turned away exactly when some axis is exhausted, until the latest
  reset time among the exhausted ones.\<close>

theorem login_axes_all_charged:
  assumes "consume_axes consume now axes s = (map Some results, s')"
  shows "snd (enforceLoginRateLimit consume failOpen now axes s) = s' \<and>
    (fst (enforceLoginRateLimit consume failOpen now axes s) = Inr () \<longleftrightarrow>
       (\<forall>r \<in> set results. consume_allowed r)) \<and>
    (\<forall>err. fst (enforceLoginRateLimit consume failOpen now axes s) = Inl err \<longrightarrow>
       (\<exists>r \<in> set results. \<not> consume_allowed r \<and> err_reset err = resetAt r) \<and>
       (\<forall>r \<in> set results. \<not> consume_allowed r \<longrightarrow> resetAt r \<le> err_reset err))"
proof -
  have len: "length (fst (consume_axes consume now axes s)) = length axes"
    by (induction axes arbitrary: s) (auto simp: case_prod_beta Let_def)
  then have l: "length results = length axes" using assms by simp
  define blocked where
    "blocked = filter (\<lambda>(r, _). \<not> consume_allowed r) (zip results (map snd axes))"
  have sub: "fst e \<in> set results \<and> \<not> consume_allowed (fst e)" if "e \<in> set blocked" for e
    using that by (auto simp: blocked_def dest: set_zip_leftD)
  have sup: "\<exists>b. (r, b) \<in> set blocked" if "r \<in> set results" "\<not> consume_allowed r" for r
  proof -
    from that(1) obtain i where "i < length results" "results ! i = r" by (auto simp: in_set_conv_nth)
    with l have "(r, map snd axes ! i) \<in> set (zip results (map snd axes))"
      by (auto simp: in_set_zip)
    with that(2) show ?thesis by (auto simp: blocked_def)
  qed
  have run: "enforceLoginRateLimit consume failOpen now axes s =
      (case blocked of [] \<Rightarrow> (Inr (), s')
       | worst # _ \<Rightarrow> (Inl (RateLimitError (resetAt (fst (foldl later_entry worst blocked)))
           (Some (budget_limit (snd (foldl later_entry worst blocked)),
                  remaining (fst (foldl later_entry worst blocked))))), s'))"
    using assms
    by (auto simp: enforceLoginRateLimit_def blocked_def [symmetric] Let_def o_def split: list.split)
  show ?thesis
  proof (cases blocked)
    case Nil
    with run sup show ?thesis by fastforce
  next
    case (Cons w ws)
    define latest where "latest = foldl later_entry w blocked"
    note fl = foldl_later [of w blocked, folded latest_def]
    have latest: "latest \<in> set blocked" using fl Cons by auto
    have r: "enforceLoginRateLimit consume failOpen now axes s =
        (Inl (RateLimitError (resetAt (fst latest))
           (Some (budget_limit (snd latest), remaining (fst latest)))), s')"
      using run Cons by (simp add: latest_def)
    have "resetAt q \<le> resetAt (fst latest)" if "q \<in> set results" "\<not> consume_allowed q" for q
      using sup [OF that] fl by force
    with sub [OF latest] show ?thesis by (auto simp: r)
  qed
qed

definition denied_until :: "time_ms \<Rightarrow> consume_result" where
  "denied_until t = \<lparr>consume_allowed = False, remaining = 0, resetAt = t\<rparr>"

text \<open>A limiter for the witness: it denies every key until 500, except the key \<open>[1]\<close>.\<close>

definition demo_consume :: "nat limiter_call" where
  "demo_consume now k l w n =
     (Some (if k = [1] then \<lparr>consume_allowed = True, remaining = 1, resetAt = 900\<rparr>
            else denied_until (500 + int n)), Suc n)"

theorem login_axes_all_charged_witness:
  "enforceLoginRateLimit demo_consume False 0
     [([1], \<lparr>budget_limit = 10, budget_window = 300\<rparr>), ([2], \<lparr>budget_limit = 30, budget_window = 300\<rparr>),
      ([3], \<lparr>budget_limit = 10, budget_window = 300\<rparr>)] 0 =
   (Inl (RateLimitError 502 (Some (10, 0))), 3) \<and>
   snd (enforceLoginRateLimit demo_consume False 0
     [([1], \<lparr>budget_limit = 10, budget_window = 300\<rparr>), ([2], \<lparr>budget_limit = 30, budget_window = 300\<rparr>),
      ([3], \<lparr>budget_limit = 10, budget_window = 300\<rparr>)] 0) = 3"
  using login_axes_all_charged [of demo_consume 0
      "[([1], \<lparr>budget_limit = 10, budget_window = 300\<rparr>), ([2], \<lparr>budget_limit = 30, budget_window = 300\<rparr>),
        ([3], \<lparr>budget_limit = 10, budget_window = 300\<rparr>)]" 0
      "[\<lparr>consume_allowed = True, remaining = 1, resetAt = 900\<rparr>, denied_until 501, denied_until 502]" 3 False]
  by (simp add: demo_consume_def denied_until_def enforceLoginRateLimit_def later_entry_def)

end
