(* ===== verification/Concurrency.thy ===== *)
theory Concurrency
  imports RedisCounters
begin

text \<open>
  The semaphore on AI requests in flight: in memory (\<^verbatim>\<open>in-memory-concurrency-limiter.ts\<close>), in
  Redis (\<^verbatim>\<open>redis-concurrency-lua-scripts.ts\<close>), the contract both keep (locale
  \<open>concurrency_limiter\<close>) and its client \<^verbatim>\<open>enforce-ai-concurrency.ts\<close>, which holds a slot on
  the user and on the organization axis or on neither.
\<close>

section \<open>The two limiters\<close>

record acquire_result =
  acquired :: bool
  currentCount :: int

type_synonym 'k mem_slots = "'k \<rightharpoonup> nat"

definition mem_slot_count :: "'k \<Rightarrow> 'k mem_slots \<Rightarrow> nat" where
  "mem_slot_count key m = (case m key of None \<Rightarrow> 0 | Some n \<Rightarrow> n)"

definition mem_acquire ::
  "time_ms \<Rightarrow> 'k \<Rightarrow> nat \<Rightarrow> nat \<Rightarrow> 'k mem_slots \<Rightarrow> acquire_result \<times> 'k mem_slots" where
  "mem_acquire now key maxConcurrent leaseSeconds m =
     (let current = mem_slot_count key m in
      if current \<ge> maxConcurrent then (\<lparr>acquired = False, currentCount = int current\<rparr>, m)
      else (\<lparr>acquired = True, currentCount = int (current + 1)\<rparr>, m(key \<mapsto> current + 1)))"

definition mem_release :: "time_ms \<Rightarrow> 'k \<Rightarrow> 'k mem_slots \<Rightarrow> 'k mem_slots" where
  "mem_release now key m =
     (let current = mem_slot_count key m in
      if current \<le> 1 then m(key := None) else m(key \<mapsto> current - 1))"

definition ACQUIRE_CONCURRENCY_SLOT_SCRIPT ::
  "time_ms \<Rightarrow> 'k \<Rightarrow> nat \<Rightarrow> nat \<Rightarrow> 'k redis_counters \<Rightarrow> (nat \<times> int) \<times> 'k redis_counters" where
  "ACQUIRE_CONCURRENCY_SLOT_SCRIPT now key maxSlots lease r =
     (let (current, r1) = INCRBY now key 1 r;
          r2 = EXPIRE now key lease r1
      in if current > int maxSlots
         then let (rolledBack, r3) = DECRBY now key 1 r2;
                  r4 = (if rolledBack < 0 then SETINT key 0 r3 else r3)
              in ((0, current - 1), r4)
         else ((1, current), r2))"

definition RELEASE_CONCURRENCY_SLOT_SCRIPT ::
  "time_ms \<Rightarrow> 'k \<Rightarrow> 'k redis_counters \<Rightarrow> int \<times> 'k redis_counters" where
  "RELEASE_CONCURRENCY_SLOT_SCRIPT now key r =
     (let (current, r1) = DECRBY now key 1 r
      in if current < 0 then (0, SETINT key 0 r1) else (current, r1))"

definition redis_acquire ::
  "time_ms \<Rightarrow> 'k \<Rightarrow> nat \<Rightarrow> nat \<Rightarrow> 'k redis_counters \<Rightarrow> acquire_result \<times> 'k redis_counters" where
  "redis_acquire now key maxConcurrent leaseSeconds r =
     (let ((ok, n), r') = ACQUIRE_CONCURRENCY_SLOT_SCRIPT now key maxConcurrent leaseSeconds r
      in (\<lparr>acquired = (ok = 1), currentCount = n\<rparr>, r'))"

definition redis_release :: "time_ms \<Rightarrow> 'k \<Rightarrow> 'k redis_counters \<Rightarrow> 'k redis_counters" where
  "redis_release now key r = snd (RELEASE_CONCURRENCY_SLOT_SCRIPT now key r)"

section \<open>The client\<close>

record slot_limits =
  perUser :: nat
  perOrganization :: nat
  leaseSeconds :: nat

text \<open>The defaults of \<open>AI_CONCURRENCY_LIMITS\<close>.\<close>

definition AI_CONCURRENCY_LIMITS :: slot_limits where
  "AI_CONCURRENCY_LIMITS = \<lparr>perUser = 3, perOrganization = 10, leaseSeconds = 120\<rparr>"

definition userConcurrencyKey :: "string \<Rightarrow> string" where
  "userConcurrencyKey userId = ''ai:user:'' @ userId"

definition organizationConcurrencyKey :: "string \<Rightarrow> string" where
  "organizationConcurrencyKey organizationId = ''ai:org:'' @ organizationId"

text \<open>\<open>Inl limit\<close> is a thrown \<open>ConcurrencyLimitError\<close>. Each limiter call has its own time.\<close>

definition acquireAiConcurrencySlots ::
  "(time_ms \<Rightarrow> string \<Rightarrow> nat \<Rightarrow> nat \<Rightarrow> 's \<Rightarrow> acquire_result \<times> 's) \<Rightarrow>
   (time_ms \<Rightarrow> string \<Rightarrow> 's \<Rightarrow> 's) \<Rightarrow> slot_limits \<Rightarrow> time_ms \<Rightarrow> string \<Rightarrow> string \<Rightarrow> 's \<Rightarrow>
   (nat + string \<times> string) \<times> 's"
where
  "acquireAiConcurrencySlots acquire release limits now userId organizationId s =
     (let (userResult, s1) =
            acquire now (userConcurrencyKey userId) (perUser limits) (leaseSeconds limits) s
      in if \<not> acquired userResult then (Inl (perUser limits), s1)
         else
           let (orgResult, s2) =
                 acquire now (organizationConcurrencyKey organizationId) (perOrganization limits)
                   (leaseSeconds limits) s1
           in if \<not> acquired orgResult
              then (Inl (perOrganization limits), release now (userConcurrencyKey userId) s2)
              else (Inr (userId, organizationId), s2))"

definition releaseAiConcurrencySlots ::
  "(time_ms \<Rightarrow> string \<Rightarrow> 's \<Rightarrow> 's) \<Rightarrow> time_ms \<Rightarrow> string \<times> string \<Rightarrow> 's \<Rightarrow> 's" where
  "releaseAiConcurrencySlots release now slots s =
     release now (organizationConcurrencyKey (snd slots))
       (release now (userConcurrencyKey (fst slots)) s)"

lemma axis_keys_differ [simp]:
  "userConcurrencyKey u \<noteq> organizationConcurrencyKey v"
  "organizationConcurrencyKey v \<noteq> userConcurrencyKey u"
  by (simp_all add: userConcurrencyKey_def organizationConcurrencyKey_def)

section \<open>The contract\<close>

text \<open>
  \<open>held t k s\<close> is the number of slots of \<open>k\<close> the limiter counts at \<open>t\<close>. Time passing keeps it or
  drops it to 0 (a lease that ran out).
\<close>

datatype slot_op = Acquire nat | Release

fun run_slots ::
  "(time_ms \<Rightarrow> 's \<Rightarrow> 's) \<Rightarrow> (nat \<Rightarrow> time_ms \<Rightarrow> 's \<Rightarrow> 's) \<Rightarrow> (time_ms \<times> slot_op) list \<Rightarrow> 's \<Rightarrow> 's"
where
  "run_slots rel acq [] s = s"
| "run_slots rel acq ((t, Acquire lease) # ops) s = run_slots rel acq ops (acq lease t s)"
| "run_slots rel acq ((t, Release) # ops) s = run_slots rel acq ops (rel t s)"

locale concurrency_limiter =
  fixes acquire :: "time_ms \<Rightarrow> string \<Rightarrow> nat \<Rightarrow> nat \<Rightarrow> 's \<Rightarrow> acquire_result \<times> 's"
    and release :: "time_ms \<Rightarrow> string \<Rightarrow> 's \<Rightarrow> 's"
    and held :: "time_ms \<Rightarrow> string \<Rightarrow> 's \<Rightarrow> nat"
    and valid :: "time_ms \<Rightarrow> 's \<Rightarrow> bool"
  assumes valid_later: "valid now s \<Longrightarrow> now \<le> t \<Longrightarrow> valid t s"
    and held_later: "valid now s \<Longrightarrow> now \<le> t \<Longrightarrow> held t k s = held now k s \<or> held t k s = 0"
    and valid_acquire: "valid now s \<Longrightarrow> valid now (snd (acquire now k m lease s))"
    and valid_release: "valid now s \<Longrightarrow> valid now (release now k s)"
    and acquired_iff:
      "valid now s \<Longrightarrow> acquired (fst (acquire now k m lease s)) \<longleftrightarrow> held now k s < m"
    and held_acquire:
      "valid now s \<Longrightarrow> held now k' (snd (acquire now k m lease s)) =
         (if k' = k \<and> held now k s < m then held now k s + 1 else held now k' s)"
    and held_release:
      "valid now s \<Longrightarrow> held now k' (release now k s) =
         (if k' = k then held now k s - 1 else held now k' s)"
begin

lemma never_exceeded:
  "valid now s \<Longrightarrow> held now k s \<le> m \<Longrightarrow> sorted (now # map fst ops @ [t]) \<Longrightarrow>
   held t k (run_slots (\<lambda>t. release t k) (\<lambda>lease t s. snd (acquire t k m lease s)) ops s) \<le> m"
proof (induction ops arbitrary: now s)
  case Nil
  then show ?case using held_later [of now s t k] by auto
next
  case (Cons x ops)
  obtain u op where x: "x = (u, op)" by (cases x)
  have u: "now \<le> u" "sorted (u # map fst ops @ [t])" using Cons.prems(3) by (auto simp: x)
  have v: "valid u s" using valid_later Cons.prems(1) u(1) by blast
  have h: "held u k s \<le> m" using held_later [OF Cons.prems(1) u(1), of k] Cons.prems(2) by auto
  show ?case
  proof (cases op)
    case (Acquire lease)
    have "held u k (snd (acquire u k m lease s)) \<le> m" using h held_acquire [OF v] by auto
    with Cons.IH [OF valid_acquire [OF v] _ u(2)] show ?thesis by (simp add: x Acquire)
  next
    case Release
    have "held u k (release u k s) \<le> m" using h held_release [OF v] by auto
    with Cons.IH [OF valid_release [OF v] _ u(2)] show ?thesis by (simp add: x Release)
  qed
qed

lemma both_or_none:
  assumes "valid now s"
  shows "case acquireAiConcurrencySlots acquire release limits now u v s of
      (Inl _, s') \<Rightarrow> \<forall>k. held now k s' = held now k s
    | (Inr slots, s') \<Rightarrow> slots = (u, v) \<and>
        held now (userConcurrencyKey u) s' = held now (userConcurrencyKey u) s + 1 \<and>
        held now (organizationConcurrencyKey v) s' = held now (organizationConcurrencyKey v) s + 1 \<and>
        held now (userConcurrencyKey u) s' \<le> perUser limits \<and>
        held now (organizationConcurrencyKey v) s' \<le> perOrganization limits \<and>
        (\<forall>k. k \<noteq> userConcurrencyKey u \<longrightarrow> k \<noteq> organizationConcurrencyKey v \<longrightarrow>
             held now k s' = held now k s) \<and>
        (\<forall>k. held now k (releaseAiConcurrencySlots release now slots s') = held now k s)"
proof -
  let ?a = "acquire now (userConcurrencyKey u) (perUser limits) (leaseSeconds limits) s"
  let ?b = "acquire now (organizationConcurrencyKey v) (perOrganization limits) (leaseSeconds limits) (snd ?a)"
  have v1: "valid now (snd ?a)" and v2: "valid now (snd ?b)"
    using assms by (simp_all add: valid_acquire)
  note facts = acquired_iff [OF assms] acquired_iff [OF v1] held_acquire [OF assms] held_acquire [OF v1]
    held_release [OF v2] held_release [OF valid_release [OF v2]]
  consider "held now (userConcurrencyKey u) s \<ge> perUser limits"
    | "held now (userConcurrencyKey u) s < perUser limits"
      "held now (organizationConcurrencyKey v) s \<ge> perOrganization limits"
    | "held now (userConcurrencyKey u) s < perUser limits"
      "held now (organizationConcurrencyKey v) s < perOrganization limits"
    by linarith
  then show ?thesis
    by cases (simp_all add: acquireAiConcurrencySlots_def releaseAiConcurrencySlots_def
        case_prod_beta facts)
qed

end

section \<open>Both limiters keep the contract\<close>

definition redis_held :: "time_ms \<Rightarrow> 'k \<Rightarrow> 'k redis_counters \<Rightarrow> nat" where
  "redis_held t k r = nat (rc_value t k r)"

text \<open>What the scripts leave of the key, in one equation each; the lease is positive.\<close>

lemma redis_acquire_alt:
  assumes "counters_nonneg r"
  shows "redis_acquire now k m lease r =
    (if rc_value now k r < int m
     then (\<lparr>acquired = True, currentCount = rc_value now k r + 1\<rparr>,
           r(k \<mapsto> (rc_value now k r + 1, Some (now + int lease * 1000))))
     else (\<lparr>acquired = False, currentCount = rc_value now k r\<rparr>,
           r(k \<mapsto> (rc_value now k r, Some (now + int lease * 1000)))))"
  using counters_nonneg_value [OF assms, of now k]
  by (auto simp: redis_acquire_def ACQUIRE_CONCURRENCY_SLOT_SCRIPT_def INCRBY_def DECRBY_def
      EXPIRE_def PEXPIRE_def Let_def rc_value_def dest: rc_entry_alive split: option.splits)

lemma redis_release_alt:
  assumes "counters_nonneg r"
  shows "redis_release now k r =
    r(k \<mapsto> (if rc_value now k r = 0 then (0, None)
             else (rc_value now k r - 1, case rc_entry now k r of None \<Rightarrow> None | Some (_, e) \<Rightarrow> e)))"
  using counters_nonneg_value [OF assms, of now k]
  by (auto simp: redis_release_def RELEASE_CONCURRENCY_SLOT_SCRIPT_def INCRBY_def DECRBY_def
      SETINT_def Let_def rc_value_def split: option.splits)

interpretation mem_slots: concurrency_limiter mem_acquire mem_release "\<lambda>_. mem_slot_count" "\<lambda>_ _. True"
  by unfold_locales (auto simp: mem_acquire_def mem_release_def Let_def mem_slot_count_def split: option.split)

interpretation redis_slots: concurrency_limiter redis_acquire redis_release redis_held
  "\<lambda>_. counters_nonneg"
proof unfold_locales
  fix now t :: time_ms and r :: "string redis_counters" and k k' :: string and m lease :: nat
  assume v: "counters_nonneg r"
  note nn = counters_nonneg_value [OF v]
  show "counters_nonneg r" by (rule v)
  show "now \<le> t \<Longrightarrow> redis_held t k r = redis_held now k r \<or> redis_held t k r = 0"
    using rc_value_later [of now t k r] by (auto simp: redis_held_def)
  show "counters_nonneg (snd (redis_acquire now k m lease r))"
    using v nn [of now k] by (simp add: redis_acquire_alt counters_nonneg_upd)
  show "counters_nonneg (redis_release now k r)"
    using v nn [of now k] by (simp add: redis_release_alt counters_nonneg_upd)
  show "acquired (fst (redis_acquire now k m lease r)) \<longleftrightarrow> redis_held now k r < m"
    using nn [of now k] by (auto simp: redis_acquire_alt [OF v] redis_held_def)
  show "redis_held now k' (snd (redis_acquire now k m lease r)) =
      (if k' = k \<and> redis_held now k r < m then redis_held now k r + 1 else redis_held now k' r)"
    using nn [of now k] by (auto simp: redis_acquire_alt [OF v] redis_held_def nat_add_distrib)
  show "redis_held now k' (redis_release now k r) =
      (if k' = k then redis_held now k r - 1 else redis_held now k' r)"
    using nn [of now k]
    by (auto simp: redis_release_alt [OF v] redis_held_def rc_value_def dest!: rc_entry_alive split: option.splits)
qed

section \<open>Properties\<close>

text \<open>C33: The semaphore never counts more than its limit: after any sequence of acquisitions of a
  key and releases (of slots held or not), at any times, the number of slots the limiter counts
  is at most the limit, in memory and in Redis, whatever leases ran out in between.\<close>

theorem slots_never_exceeded:
  fixes k :: string
  assumes "sorted (map fst ops @ [t])"
  shows "mem_slot_count k (run_slots (\<lambda>t. mem_release t k)
      (\<lambda>lease t s. snd (mem_acquire t k m lease s)) ops Map.empty) \<le> m \<and>
    redis_held t k (run_slots (\<lambda>t. redis_release t k)
      (\<lambda>lease t s. snd (redis_acquire t k m lease s)) ops Map.empty) \<le> m"
proof -
  define t0 where "t0 = hd (map fst ops @ [t])"
  have "sorted (t0 # map fst ops @ [t])"
    using assms by (cases ops) (auto simp: t0_def)
  then show ?thesis
    using mem_slots.never_exceeded [where now = t0 and s = Map.empty and k = k and m = m and ops = ops and t = t]
      redis_slots.never_exceeded [where now = t0 and s = Map.empty and k = k and m = m and ops = ops and t = t]
    by (simp add: mem_slot_count_def redis_held_def rc_value_def rc_entry_def counters_nonneg_def)
qed

theorem slots_never_exceeded_witness:
  "mem_slot_count ''k'' (run_slots (\<lambda>t. mem_release t ''k'')
      (\<lambda>lease t s. snd (mem_acquire t ''k'' 1 lease s)) [(0, Acquire 120), (5, Acquire 120)] Map.empty) \<le> 1 \<and>
   redis_held 7 ''k'' (run_slots (\<lambda>t. redis_release t ''k'')
      (\<lambda>lease t s. snd (redis_acquire t ''k'' 1 lease s)) [(0, Acquire 120), (5, Acquire 120)] Map.empty) \<le> 1"
  by (rule slots_never_exceeded) simp

text \<open>An AI request holds a slot on both axes or on none: a rejected acquisition leaves every
  count as it was (the user's slot is given back when the organization is full), a granted one
  raises exactly the two counts by one, within their limits, and releasing it restores every
  count. In Redis.\<close>

theorem slots_both_or_none:
  assumes "counters_nonneg r"
  shows "case acquireAiConcurrencySlots redis_acquire redis_release limits now u v r of
      (Inl _, r') \<Rightarrow> \<forall>k. redis_held now k r' = redis_held now k r
    | (Inr slots, r') \<Rightarrow> slots = (u, v) \<and>
        redis_held now (userConcurrencyKey u) r' = redis_held now (userConcurrencyKey u) r + 1 \<and>
        redis_held now (organizationConcurrencyKey v) r' =
          redis_held now (organizationConcurrencyKey v) r + 1 \<and>
        redis_held now (userConcurrencyKey u) r' \<le> perUser limits \<and>
        redis_held now (organizationConcurrencyKey v) r' \<le> perOrganization limits \<and>
        (\<forall>k. k \<noteq> userConcurrencyKey u \<longrightarrow> k \<noteq> organizationConcurrencyKey v \<longrightarrow>
             redis_held now k r' = redis_held now k r) \<and>
        (\<forall>k. redis_held now k (releaseAiConcurrencySlots redis_release now slots r') = redis_held now k r)"
  using assms by (rule redis_slots.both_or_none)

theorem slots_both_or_none_witness:
  "\<exists>r'. acquireAiConcurrencySlots redis_acquire redis_release AI_CONCURRENCY_LIMITS 0 ''u'' ''o''
       [''ai:org:o'' \<mapsto> (10, Some 120000)] = (Inl 10, r') \<and>
     (\<forall>k. redis_held 0 k r' = redis_held 0 k [''ai:org:o'' \<mapsto> (10, Some 120000)])"
proof -
  have v: "counters_nonneg [''ai:org:o'' \<mapsto> (10, Some 120000)]" by (simp add: counters_nonneg_def)
  obtain r' where r': "acquireAiConcurrencySlots redis_acquire redis_release AI_CONCURRENCY_LIMITS 0 ''u'' ''o''
       [''ai:org:o'' \<mapsto> (10, Some 120000)] = (Inl 10, r')"
    by (simp add: acquireAiConcurrencySlots_def AI_CONCURRENCY_LIMITS_def redis_acquire_alt [OF v]
        userConcurrencyKey_def organizationConcurrencyKey_def redis_acquire_alt counters_nonneg_def
        rc_value_def rc_entry_def)
  with slots_both_or_none [OF v, where limits = AI_CONCURRENCY_LIMITS and now = 0 and u = "''u''" and v = "''o''"] show ?thesis by simp
qed

text \<open>The answers to acquisition attempts of one key.\<close>

fun attempts_all :: "'k \<Rightarrow> nat \<Rightarrow> nat \<Rightarrow> time_ms list \<Rightarrow> 'k redis_counters \<Rightarrow> bool list" where
  "attempts_all k m lease [] r = []"
| "attempts_all k m lease (t # ts) r =
     (let (res, r') = redis_acquire t k m lease r in acquired res # attempts_all k m lease ts r')"

text \<open>Each time at most \<open>gap\<close> after the one before.\<close>

fun within_gap :: "time_ms \<Rightarrow> time_ms \<Rightarrow> time_ms list \<Rightarrow> bool" where
  "within_gap gap prev [] = True"
| "within_gap gap prev (t # ts) = (prev \<le> t \<and> t \<le> prev + gap \<and> within_gap gap t ts)"

text \<open>The lease does not free leaked slots of a busy key: once all slots of a Redis key are held
  by processes that will never release them, attempts that follow one another within the lease
  are all rejected, however long they go on, since each rejected attempt renews the expiry.\<close>

theorem leaked_slots_never_expire:
  assumes "counters_nonneg r" "redis_held since k r = m" "0 < m"
    and "rc_entry since k r = Some (v, Some (since + int lease * 1000))"
    and "within_gap (int lease * 1000) since ts"
  shows "attempts_all k m lease ts r = replicate (length ts) False"
  using assms
proof (induction ts arbitrary: since r)
  case Nil
  then show ?case by simp
next
  case (Cons t ts)
  have v: "v = int m"
    using Cons.prems(2,4) counters_nonneg_value [OF Cons.prems(1), of since k]
    by (simp add: redis_held_def rc_value_def)
  have "rc_entry t k r = Some (v, Some (since + int lease * 1000))"
    using Cons.prems(4,5) by (auto intro: rc_entry_later_alive(1))
  with v have run: "redis_acquire t k m lease r =
      (\<lparr>acquired = False, currentCount = int m\<rparr>, r(k \<mapsto> (int m, Some (t + int lease * 1000))))"
    by (simp add: redis_acquire_alt [OF Cons.prems(1)] rc_value_def)
  let ?r = "r(k \<mapsto> (int m, Some (t + int lease * 1000)))"
  have next_state: "counters_nonneg ?r" "redis_held t k ?r = m"
    "rc_entry t k ?r = Some (int m, Some (t + int lease * 1000))"
    using Cons.prems(1) by (simp_all add: counters_nonneg_upd redis_held_def)
  have "attempts_all k m lease ts ?r = replicate (length ts) False"
  proof (rule Cons.IH [OF next_state(1,2) Cons.prems(3)])
    show "rc_entry t k ?r = Some (v, Some (t + int lease * 1000))"
      unfolding v by (rule next_state(3))
    show "within_gap (int lease * 1000) t ts" using Cons.prems(5) by simp
  qed
  with run show ?case by simp
qed

theorem leaked_slots_never_expire_witness:
  "attempts_all ''k'' 3 120 [60000, 150000, 240000, 330000] [''k'' \<mapsto> (3, Some 120000)] =
     replicate (length [60000 :: int, 150000, 240000, 330000]) False"
  by (rule leaked_slots_never_expire [where since = 0 and v = 3])
    (simp_all add: counters_nonneg_def redis_held_def rc_value_def rc_entry_def)

end
