(* ===== verification/Budget.thy ===== *)
theory Budget
  imports RedisCounters
begin

text \<open>
  The AI budget of an organization: the reservation counter in memory
  (\<^verbatim>\<open>in-memory-budget-counter.ts\<close>) and in Redis (\<^verbatim>\<open>redis-budget-lua-scripts.ts\<close>), the
  contract both keep (locale \<open>budget_counter\<close>), and the client \<^verbatim>\<open>reserve-ai-budget.ts\<close>,
  which reserves cost, monthly and daily request counts together or not at all.
\<close>

section \<open>The two counters\<close>

record counter_entry =
  counter_value :: int
  expiresAt :: time_ms

type_synonym mem_counters = "string \<rightharpoonup> counter_entry"

definition mem_getValue :: "time_ms \<Rightarrow> string \<Rightarrow> mem_counters \<Rightarrow> int" where
  "mem_getValue now key m =
     (case m key of
        None \<Rightarrow> 0
      | Some entry \<Rightarrow> if expiresAt entry < now then 0 else counter_value entry)"

definition mem_setValue ::
  "time_ms \<Rightarrow> string \<Rightarrow> int \<Rightarrow> nat \<Rightarrow> mem_counters \<Rightarrow> mem_counters" where
  "mem_setValue now key v ttlSeconds m =
     (let fresh = now + int ttlSeconds * 1000;
          expires = (case m key of
             None \<Rightarrow> fresh
           | Some existing \<Rightarrow> if expiresAt existing \<ge> now then expiresAt existing else fresh)
      in m(key \<mapsto> \<lparr>counter_value = v, expiresAt = expires\<rparr>))"

definition mem_reserve ::
  "time_ms \<Rightarrow> string \<Rightarrow> int \<Rightarrow> int \<Rightarrow> nat \<Rightarrow> mem_counters \<Rightarrow> (bool \<times> int) \<times> mem_counters" where
  "mem_reserve now key amount limit ttlSeconds m =
     (let current = mem_getValue now key m + amount in
      if current > limit
      then ((False, current - amount), mem_setValue now key (current - amount) ttlSeconds m)
      else ((True, current), mem_setValue now key current ttlSeconds m))"

definition FORTY_DAYS_SECONDS :: nat where
  "FORTY_DAYS_SECONDS = 60 * 60 * 24 * 40"

definition mem_adjust :: "time_ms \<Rightarrow> string \<Rightarrow> int \<Rightarrow> mem_counters \<Rightarrow> mem_counters" where
  "mem_adjust now key deltaAmount m =
     (let next_value = max 0 (mem_getValue now key m + deltaAmount)
      in mem_setValue now key next_value FORTY_DAYS_SECONDS m)"

definition mem_budget_release :: "time_ms \<Rightarrow> string \<Rightarrow> int \<Rightarrow> mem_counters \<Rightarrow> mem_counters" where
  "mem_budget_release now key amount m =
     (let next_value = max 0 (mem_getValue now key m - amount)
      in mem_setValue now key next_value FORTY_DAYS_SECONDS m)"

definition BUDGET_RESERVE_SCRIPT ::
  "time_ms \<Rightarrow> string \<Rightarrow> int \<Rightarrow> int \<Rightarrow> nat \<Rightarrow> string redis_counters \<Rightarrow>
   (nat \<times> int) \<times> string redis_counters"
where
  "BUDGET_RESERVE_SCRIPT now key amount limit ttlSeconds r =
     (let existed = EXISTS now key r;
          (current, r1) = INCRBY now key amount r;
          r2 = (if \<not> existed then EXPIRE now key ttlSeconds r1 else r1)
      in if current > limit
         then ((0, current - amount), snd (DECRBY now key amount r2))
         else ((1, current), r2))"

definition BUDGET_ADJUST_SCRIPT ::
  "time_ms \<Rightarrow> string \<Rightarrow> int \<Rightarrow> string redis_counters \<Rightarrow> int \<times> string redis_counters" where
  "BUDGET_ADJUST_SCRIPT now key delta r =
     (let (current, r1) = INCRBY now key delta r
      in if current < 0 then (0, SETINT key 0 r1) else (current, r1))"

definition BUDGET_RELEASE_SCRIPT ::
  "time_ms \<Rightarrow> string \<Rightarrow> int \<Rightarrow> string redis_counters \<Rightarrow> int \<times> string redis_counters" where
  "BUDGET_RELEASE_SCRIPT now key amount r =
     (let (current, r1) = DECRBY now key amount r
      in if current < 0 then (0, SETINT key 0 r1) else (current, r1))"

definition redis_reserve ::
  "time_ms \<Rightarrow> string \<Rightarrow> int \<Rightarrow> int \<Rightarrow> nat \<Rightarrow> string redis_counters \<Rightarrow> (bool \<times> int) \<times> string redis_counters"
where
  "redis_reserve now key amount limit ttlSeconds r =
     (let ((ok, current), r') = BUDGET_RESERVE_SCRIPT now key amount limit ttlSeconds r
      in ((ok = 1, current), r'))"

definition redis_adjust :: "time_ms \<Rightarrow> string \<Rightarrow> int \<Rightarrow> string redis_counters \<Rightarrow> string redis_counters" where
  "redis_adjust now key deltaAmount r = snd (BUDGET_ADJUST_SCRIPT now key deltaAmount r)"

definition redis_budget_release ::
  "time_ms \<Rightarrow> string \<Rightarrow> int \<Rightarrow> string redis_counters \<Rightarrow> string redis_counters" where
  "redis_budget_release now key amount r = snd (BUDGET_RELEASE_SCRIPT now key amount r)"

section \<open>The client\<close>

definition MONTH_TTL_SECONDS :: nat where
  "MONTH_TTL_SECONDS = 32 * 24 * 60 * 60"

definition DAY_TTL_SECONDS :: nat where
  "DAY_TTL_SECONDS = 25 * 60 * 60"

text \<open>The instant of a call and its UTC calendar day.\<close>

record utc_instant =
  at_ms :: time_ms
  utcFullYear :: nat
  utcMonth :: nat
  utcDate :: nat

definition year_month :: "utc_instant \<Rightarrow> string" where
  "year_month now = nat_str (utcFullYear now) @ ''-'' @ pad_start 2 (nat_str (utcMonth now))"

definition monthKey :: "string \<Rightarrow> utc_instant \<Rightarrow> string" where
  "monthKey organizationId now = ''cost:'' @ organizationId @ '':'' @ year_month now"

definition requestMonthKey :: "string \<Rightarrow> utc_instant \<Rightarrow> string" where
  "requestMonthKey organizationId now = ''req-month:'' @ organizationId @ '':'' @ year_month now"

definition requestDayKey :: "string \<Rightarrow> utc_instant \<Rightarrow> string" where
  "requestDayKey organizationId now =
     ''req-day:'' @ organizationId @ '':'' @ year_month now @ ''-'' @ pad_start 2 (nat_str (utcDate now))"

text \<open>\<open>None\<close> is the thrown \<open>Error\<close> on an amount beyond \<open>Number.MAX_SAFE_INTEGER\<close>.\<close>

definition toSafeAmount :: "nat \<Rightarrow> int option" where
  "toSafeAmount minor = (if minor > 2 ^ 53 - 1 then None else Some (int minor))"

record ai_limits =
  monthlyAiBudgetMinor :: "nat option"
  monthlyAiRequestLimit :: "nat option"
  dailyAiRequestLimit :: "nat option"

record ai_reservation =
  res_organizationId :: string
  res_cost :: "(string \<times> int) option"
  res_requestMonthKey :: "string option"
  res_requestDayKey :: "string option"

record 's counter_ops =
  c_reserve :: "time_ms \<Rightarrow> string \<Rightarrow> int \<Rightarrow> int \<Rightarrow> nat \<Rightarrow> 's \<Rightarrow> (bool \<times> int) \<times> 's"
  c_adjust :: "time_ms \<Rightarrow> string \<Rightarrow> int \<Rightarrow> 's \<Rightarrow> 's"
  c_release :: "time_ms \<Rightarrow> string \<Rightarrow> int \<Rightarrow> 's \<Rightarrow> 's"

datatype reserve_outcome = Reserved ai_reservation | BudgetRejected | UnsafeAmount

text \<open>The three conditional releases that \<open>rollbackAndReject\<close> and \<open>releaseAiBudget\<close> share.
  An amount of 0 is falsy: nothing is released for it.\<close>

definition release_parts :: "'s counter_ops \<Rightarrow> time_ms \<Rightarrow> ai_reservation \<Rightarrow> 's \<Rightarrow> 's" where
  "release_parts ops t reservation s =
     (let s1 = (case res_cost reservation of
                  None \<Rightarrow> s
                | Some (key, amount) \<Rightarrow> if amount = 0 then s else c_release ops t key amount s);
          s2 = (case res_requestMonthKey reservation of
                  None \<Rightarrow> s1 | Some key \<Rightarrow> c_release ops t key 1 s1)
      in (case res_requestDayKey reservation of
            None \<Rightarrow> s2 | Some key \<Rightarrow> c_release ops t key 1 s2))"

definition rollbackAndReject ::
  "'s counter_ops \<Rightarrow> time_ms \<Rightarrow> ai_reservation \<Rightarrow> 's \<Rightarrow> reserve_outcome \<times> 's" where
  "rollbackAndReject ops t reservation s = (BudgetRejected, release_parts ops t reservation s)"

definition reserve_day ::
  "'s counter_ops \<Rightarrow> utc_instant \<Rightarrow> string \<Rightarrow> ai_limits \<Rightarrow> ai_reservation \<Rightarrow> 's \<Rightarrow> reserve_outcome \<times> 's" where
  "reserve_day ops now organizationId org reservation s =
     (case dailyAiRequestLimit org of
        None \<Rightarrow> (Reserved reservation, s)
      | Some limit \<Rightarrow>
          let key = requestDayKey organizationId now;
              ((reserved, _), s') = c_reserve ops (at_ms now) key 1 (int limit) DAY_TTL_SECONDS s
          in if \<not> reserved then rollbackAndReject ops (at_ms now) reservation s'
             else (Reserved (reservation\<lparr>res_requestDayKey := Some key\<rparr>), s'))"

definition reserve_month ::
  "'s counter_ops \<Rightarrow> utc_instant \<Rightarrow> string \<Rightarrow> ai_limits \<Rightarrow> ai_reservation \<Rightarrow> 's \<Rightarrow> reserve_outcome \<times> 's" where
  "reserve_month ops now organizationId org reservation s =
     (case monthlyAiRequestLimit org of
        None \<Rightarrow> reserve_day ops now organizationId org reservation s
      | Some limit \<Rightarrow>
          let key = requestMonthKey organizationId now;
              ((reserved, _), s') = c_reserve ops (at_ms now) key 1 (int limit) MONTH_TTL_SECONDS s
          in if \<not> reserved then rollbackAndReject ops (at_ms now) reservation s'
             else reserve_day ops now organizationId org
                    (reservation\<lparr>res_requestMonthKey := Some key\<rparr>) s')"

definition reserveAiBudget ::
  "'s counter_ops \<Rightarrow> utc_instant \<Rightarrow> string \<Rightarrow> ai_limits \<Rightarrow> nat \<Rightarrow> 's \<Rightarrow> reserve_outcome \<times> 's" where
  "reserveAiBudget ops now organizationId org maxEstimatedCostMinor s =
     (let reservation = \<lparr>res_organizationId = organizationId, res_cost = None,
                         res_requestMonthKey = None, res_requestDayKey = None\<rparr>
      in case monthlyAiBudgetMinor org of
           None \<Rightarrow> reserve_month ops now organizationId org reservation s
         | Some budget \<Rightarrow>
             (case (toSafeAmount maxEstimatedCostMinor, toSafeAmount budget) of
                (Some amount, Some limit) \<Rightarrow>
                  let key = monthKey organizationId now;
                      ((reserved, _), s') = c_reserve ops (at_ms now) key amount limit MONTH_TTL_SECONDS s
                  in if \<not> reserved then rollbackAndReject ops (at_ms now) reservation s'
                     else reserve_month ops now organizationId org
                            (reservation\<lparr>res_cost := Some (key, amount)\<rparr>) s'
              | _ \<Rightarrow> (UnsafeAmount, s)))"

definition settleAiBudget ::
  "'s counter_ops \<Rightarrow> time_ms \<Rightarrow> ai_reservation \<Rightarrow> nat option \<Rightarrow> 's \<Rightarrow> 's option" where
  "settleAiBudget ops t reservation actualCostMinor s =
     (case res_cost reservation of
        None \<Rightarrow> Some s
      | Some (key, reservedCostMinor) \<Rightarrow>
          (case (case actualCostMinor of None \<Rightarrow> Some 0 | Some c \<Rightarrow> toSafeAmount c) of
             None \<Rightarrow> None
           | Some actual \<Rightarrow>
               let delta = actual - reservedCostMinor
               in Some (if delta \<noteq> 0 then c_adjust ops t key delta s else s)))"

definition releaseAiBudget :: "'s counter_ops \<Rightarrow> time_ms \<Rightarrow> ai_reservation \<Rightarrow> 's \<Rightarrow> 's" where
  "releaseAiBudget ops t reservation s = release_parts ops t reservation s"

lemma budget_keys_differ [simp]:
  "monthKey o1 t1 \<noteq> requestMonthKey o2 t2" "requestMonthKey o2 t2 \<noteq> monthKey o1 t1"
  "monthKey o1 t1 \<noteq> requestDayKey o2 t2" "requestDayKey o2 t2 \<noteq> monthKey o1 t1"
  "requestMonthKey o1 t1 \<noteq> requestDayKey o2 t2" "requestDayKey o2 t2 \<noteq> requestMonthKey o1 t1"
  by (simp_all add: monthKey_def requestMonthKey_def requestDayKey_def)

section \<open>The contract\<close>

datatype counter_op = ReserveOp int nat | AdjustOp int | ReleaseOp int

fun run_counter ::
  "'s counter_ops \<Rightarrow> string \<Rightarrow> int \<Rightarrow> (time_ms \<times> counter_op) list \<Rightarrow> 's \<Rightarrow> 's" where
  "run_counter ops k limit [] s = s"
| "run_counter ops k limit ((t, ReserveOp amount ttl) # xs) s =
     run_counter ops k limit xs (snd (c_reserve ops t k amount limit ttl s))"
| "run_counter ops k limit ((t, AdjustOp d) # xs) s = run_counter ops k limit xs (c_adjust ops t k d s)"
| "run_counter ops k limit ((t, ReleaseOp a) # xs) s = run_counter ops k limit xs (c_release ops t k a s)"

text \<open>Operations as the clients make them, with corrections that only lower the estimate.\<close>

fun lowering :: "counter_op \<Rightarrow> bool" where
  "lowering (ReserveOp amount _) = (0 \<le> amount)"
| "lowering (AdjustOp d) = (d \<le> 0)"
| "lowering (ReleaseOp a) = (0 \<le> a)"

text \<open>\<open>booked\<close> is what a reservation holds on a key; a reservation in the making is undone by the
  release of its parts.\<close>

definition booked :: "ai_reservation \<Rightarrow> string \<Rightarrow> int" where
  "booked res k =
     (case res_cost res of Some (key, a) \<Rightarrow> if key = k then a else 0 | None \<Rightarrow> 0) +
     (if res_requestMonthKey res = Some k then 1 else 0) +
     (if res_requestDayKey res = Some k then 1 else 0)"

definition own_keys :: "utc_instant \<Rightarrow> string \<Rightarrow> ai_reservation \<Rightarrow> bool" where
  "own_keys now org res \<longleftrightarrow>
     (\<forall>key a. res_cost res = Some (key, a) \<longrightarrow> key = monthKey org now \<and> 0 \<le> a) \<and>
     (\<forall>key. res_requestMonthKey res = Some key \<longrightarrow> key = requestMonthKey org now) \<and>
     (\<forall>key. res_requestDayKey res = Some key \<longrightarrow> key = requestDayKey org now)"

text \<open>The reservation a successful call returns.\<close>

definition full_reservation :: "utc_instant \<Rightarrow> string \<Rightarrow> ai_limits \<Rightarrow> nat \<Rightarrow> ai_reservation" where
  "full_reservation now org lim cost =
     \<lparr>res_organizationId = org,
      res_cost = map_option (\<lambda>_. (monthKey org now, int cost)) (monthlyAiBudgetMinor lim),
      res_requestMonthKey = map_option (\<lambda>_. requestMonthKey org now) (monthlyAiRequestLimit lim),
      res_requestDayKey = map_option (\<lambda>_. requestDayKey org now) (dailyAiRequestLimit lim)\<rparr>"

locale budget_counter =
  fixes ops :: "'s counter_ops"
    and value_of :: "time_ms \<Rightarrow> string \<Rightarrow> 's \<Rightarrow> int"
    and valid :: "'s \<Rightarrow> bool"
  assumes value_nonneg: "valid s \<Longrightarrow> 0 \<le> value_of t k s"
    and value_later:
      "valid s \<Longrightarrow> now \<le> t \<Longrightarrow> value_of t k s = value_of now k s \<or> value_of t k s = 0"
    and valid_reserve: "valid s \<Longrightarrow> 0 \<le> a \<Longrightarrow> valid (snd (c_reserve ops now k a l ttl s))"
    and valid_adjust: "valid s \<Longrightarrow> valid (c_adjust ops now k d s)"
    and valid_release: "valid s \<Longrightarrow> 0 \<le> a \<Longrightarrow> valid (c_release ops now k a s)"
    and reserved_iff:
      "valid s \<Longrightarrow> 0 \<le> a \<Longrightarrow>
       fst (fst (c_reserve ops now k a l ttl s)) \<longleftrightarrow> value_of now k s + a \<le> l"
    and value_reserve:
      "valid s \<Longrightarrow> 0 \<le> a \<Longrightarrow> value_of now k' (snd (c_reserve ops now k a l ttl s)) =
         (if k' = k \<and> value_of now k s + a \<le> l then value_of now k s + a else value_of now k' s)"
    and value_adjust:
      "valid s \<Longrightarrow> value_of now k' (c_adjust ops now k d s) =
         (if k' = k then max 0 (value_of now k s + d) else value_of now k' s)"
    and value_release:
      "valid s \<Longrightarrow> 0 \<le> a \<Longrightarrow> value_of now k' (c_release ops now k a s) =
         (if k' = k then max 0 (value_of now k s - a) else value_of now k' s)"
begin

lemma cap_kept:
  "valid s \<Longrightarrow> value_of now k s \<le> l \<Longrightarrow> 0 \<le> l \<Longrightarrow> sorted (now # map fst xs @ [t]) \<Longrightarrow>
   (\<forall>x \<in> set xs. lowering (snd x)) \<Longrightarrow> value_of t k (run_counter ops k l xs s) \<le> l"
proof (induction xs arbitrary: now s)
  case Nil
  then show ?case using value_later [of s now t k] by auto
next
  case (Cons x xs)
  obtain u op where x: "x = (u, op)" by (cases x)
  have u: "now \<le> u" "sorted (u # map fst xs @ [t])" using Cons.prems(4) by (auto simp: x)
  have h: "value_of u k s \<le> l"
    using value_later [OF Cons.prems(1) u(1), of k] Cons.prems(2,3) by auto
  note v = Cons.prems(1)
  show ?case
  proof (cases op)
    case (ReserveOp a ttl)
    with Cons.prems(5) x have a: "0 \<le> a" by simp
    have "value_of u k (snd (c_reserve ops u k a l ttl s)) \<le> l"
      using h value_reserve [OF v a] by simp
    with Cons.IH [OF valid_reserve [OF v a] _ Cons.prems(3) u(2)] Cons.prems(5) x
    show ?thesis by (simp add: ReserveOp)
  next
    case (AdjustOp d)
    with Cons.prems(5) x have "d \<le> 0" by simp
    then have "value_of u k (c_adjust ops u k d s) \<le> l"
      using h Cons.prems(3) value_adjust [OF v] by simp
    with Cons.IH [OF valid_adjust [OF v] _ Cons.prems(3) u(2)] Cons.prems(5) x
    show ?thesis by (simp add: AdjustOp)
  next
    case (ReleaseOp a)
    with Cons.prems(5) x have a: "0 \<le> a" by simp
    have "value_of u k (c_release ops u k a s) \<le> l"
      using h Cons.prems(3) value_release [OF v a] a by simp
    with Cons.IH [OF valid_release [OF v a] _ Cons.prems(3) u(2)] Cons.prems(5) x
    show ?thesis by (simp add: ReleaseOp)
  qed
qed

lemma release_parts_value:
  assumes "valid s" "own_keys now org res" "\<forall>k. booked res k \<le> value_of t k s"
  shows "value_of t k (release_parts ops t res s) = value_of t k s - booked res k"
    and "valid (release_parts ops t res s)"
proof -
  have "value_of t k (release_parts ops t res s) = value_of t k s - booked res k \<and>
        valid (release_parts ops t res s)"
  proof -
    define s1 where "s1 = (case res_cost res of None \<Rightarrow> s
      | Some (key, a) \<Rightarrow> if a = 0 then s else c_release ops t key a s)"
    have s1: "valid s1 \<and> (\<forall>k. value_of t k s1 = value_of t k s -
        (case res_cost res of Some (key, a) \<Rightarrow> if key = k then a else 0 | None \<Rightarrow> 0))"
    proof (cases "res_cost res")
      case (Some ka)
      obtain key a where ka: "ka = (key, a)" by (cases ka)
      with assms(2) Some have k: "key = monthKey org now" "0 \<le> a" by (auto simp: own_keys_def)
      have "a \<le> value_of t key s"
        using assms(3) [rule_format, of key] assms(2) Some ka k
        by (auto simp: booked_def own_keys_def split: if_splits)
      with Some ka k assms(1) show ?thesis
        by (auto simp: s1_def value_release valid_release)
    qed (use assms(1) in \<open>simp add: s1_def\<close>)
    define s2 where "s2 = (case res_requestMonthKey res of None \<Rightarrow> s1
      | Some key \<Rightarrow> c_release ops t key 1 s1)"
    have s2: "valid s2 \<and> (\<forall>k. value_of t k s2 = value_of t k s1 -
        (if res_requestMonthKey res = Some k then 1 else 0))"
    proof (cases "res_requestMonthKey res")
      case (Some key)
      with assms(2) have k: "key = requestMonthKey org now" by (auto simp: own_keys_def)
      have "1 \<le> value_of t key s1"
        using assms(3) [rule_format, of key] assms(2) Some k s1
        by (auto simp: booked_def own_keys_def split: if_splits option.splits)
      with Some s1 show ?thesis by (auto simp: s2_def value_release valid_release)
    qed (use s1 in \<open>simp add: s2_def\<close>)
    show ?thesis
    proof (cases "res_requestDayKey res")
      case (Some key)
      with assms(2) have k: "key = requestDayKey org now" by (auto simp: own_keys_def)
      have "1 \<le> value_of t key s2"
        using assms(3) [rule_format, of key] assms(2) Some k s1 s2
        by (auto simp: booked_def own_keys_def split: if_splits option.splits)
      with Some s1 s2 show ?thesis
        by (auto simp: release_parts_def Let_def s1_def [symmetric] s2_def [symmetric] value_release
            valid_release booked_def)
    next
      case None
      with s1 s2 show ?thesis
        by (simp add: release_parts_def Let_def s1_def [symmetric] s2_def [symmetric] booked_def)
    qed
  qed
  then show "value_of t k (release_parts ops t res s) = value_of t k s - booked res k"
    and "valid (release_parts ops t res s)" by auto
qed

text \<open>A reservation in the making: what the counters hold beyond the start is what it booked.\<close>

definition booked_since :: "'s \<Rightarrow> utc_instant \<Rightarrow> string \<Rightarrow> ai_reservation \<Rightarrow> 's \<Rightarrow> bool" where
  "booked_since s0 now org res s \<longleftrightarrow>
     valid s0 \<and> valid s \<and> own_keys now org res \<and>
     (\<forall>k. value_of (at_ms now) k s = value_of (at_ms now) k s0 + booked res k)"

lemma rollback_undoes:
  assumes "booked_since s0 now org res s"
  shows "\<exists>s'. rollbackAndReject ops (at_ms now) res s = (BudgetRejected, s') \<and> valid s' \<and>
    (\<forall>k. value_of (at_ms now) k s' = value_of (at_ms now) k s0)"
proof -
  note b = assms [unfolded booked_since_def]
  have "\<forall>k. booked res k \<le> value_of (at_ms now) k s"
    using b value_nonneg by (metis add.commute add_left_mono add_0_right)
  then show ?thesis
    using b release_parts_value [of s now org res "at_ms now"] by (simp add: rollbackAndReject_def)
qed

lemma failed_reserve_keeps:
  assumes "booked_since s0 now org res s" "0 \<le> a"
    and "\<not> value_of (at_ms now) key s + a \<le> l"
  shows "booked_since s0 now org res (snd (c_reserve ops (at_ms now) key a l ttl s))"
  using assms by (auto simp: booked_since_def value_reserve valid_reserve)

lemma booked_day: "own_keys now org res \<Longrightarrow> res_requestDayKey res = None \<Longrightarrow>
    booked res (requestDayKey org now) = 0"
  by (auto simp: booked_def own_keys_def split: option.splits)

lemma booked_month: "own_keys now org res \<Longrightarrow> res_requestMonthKey res = None \<Longrightarrow>
    booked res (requestMonthKey org now) = 0"
  by (auto simp: booked_def own_keys_def split: option.splits)

text \<open>What a step of the reservation may give, started when \<open>s0\<close> was the state: a reservation \<open>res\<close>
  that booked what it says, or the values of \<open>s0\<close> again.\<close>

definition step_spec ::
  "'s \<Rightarrow> utc_instant \<Rightarrow> string \<Rightarrow> ai_reservation \<Rightarrow> bool \<Rightarrow> reserve_outcome \<times> 's \<Rightarrow> bool" where
  "step_spec s0 now org res fits out =
     (case out of
        (Reserved res', s') \<Rightarrow> booked_since s0 now org res' s' \<and> res' = res \<and> fits
      | (BudgetRejected, s') \<Rightarrow> valid s' \<and> (\<forall>k. value_of (at_ms now) k s' = value_of (at_ms now) k s0)
      | (UnsafeAmount, s') \<Rightarrow> False)"

definition fits_one :: "utc_instant \<Rightarrow> string \<Rightarrow> int \<Rightarrow> nat option \<Rightarrow> 's \<Rightarrow> bool" where
  "fits_one now key a limit s0 =
     (case limit of None \<Rightarrow> True | Some l \<Rightarrow> value_of (at_ms now) key s0 + a \<le> int l)"

lemma reserve_day_spec:
  assumes "booked_since s0 now org res s" "res_requestDayKey res = None"
  shows "step_spec s0 now org
    (res\<lparr>res_requestDayKey := map_option (\<lambda>_. requestDayKey org now) (dailyAiRequestLimit lim)\<rparr>)
    (fits_one now (requestDayKey org now) 1 (dailyAiRequestLimit lim) s0)
    (reserve_day ops now org lim res s)"
proof (cases "dailyAiRequestLimit lim")
  case None
  with assms show ?thesis by (simp add: reserve_day_def step_spec_def fits_one_def)
next
  case (Some l)
  let ?key = "requestDayKey org now"
  let ?r = "c_reserve ops (at_ms now) ?key 1 (int l) DAY_TTL_SECONDS s"
  have v: "valid s" and same: "value_of (at_ms now) ?key s = value_of (at_ms now) ?key s0"
    using assms booked_day [of now org res] by (simp_all add: booked_since_def)
  show ?thesis
  proof (cases "value_of (at_ms now) ?key s + 1 \<le> int l")
    case True
    then have "fst (fst ?r)" using reserved_iff [OF v, of 1] by simp
    with True assms Some same show ?thesis
      by (auto simp: reserve_day_def case_prod_beta Let_def booked_since_def value_reserve valid_reserve
          booked_def own_keys_def fits_one_def step_spec_def)
  next
    case False
    then have "\<not> fst (fst ?r)" using reserved_iff [OF v, of 1] by simp
    with rollback_undoes [OF failed_reserve_keeps [OF assms(1) _ False, of DAY_TTL_SECONDS]] Some
    show ?thesis by (auto simp: reserve_day_def case_prod_beta Let_def step_spec_def)
  qed
qed

lemma step_spec_mono:
  "step_spec s0 now org res P out \<Longrightarrow> (P \<Longrightarrow> Q) \<Longrightarrow> step_spec s0 now org res Q out"
  by (auto simp: step_spec_def split: prod.splits reserve_outcome.splits)

lemma reserve_month_spec:
  assumes "booked_since s0 now org res s" "res_requestDayKey res = None" "res_requestMonthKey res = None"
  shows "step_spec s0 now org
    (res\<lparr>res_requestMonthKey := map_option (\<lambda>_. requestMonthKey org now) (monthlyAiRequestLimit lim),
         res_requestDayKey := map_option (\<lambda>_. requestDayKey org now) (dailyAiRequestLimit lim)\<rparr>)
    (fits_one now (requestMonthKey org now) 1 (monthlyAiRequestLimit lim) s0 \<and>
     fits_one now (requestDayKey org now) 1 (dailyAiRequestLimit lim) s0)
    (reserve_month ops now org lim res s)"
proof (cases "monthlyAiRequestLimit lim")
  case None
  with assms reserve_day_spec [OF assms(1,2), of lim] show ?thesis
    by (cases res) (simp add: reserve_month_def fits_one_def)
next
  case (Some l)
  let ?key = "requestMonthKey org now" and ?res = "res\<lparr>res_requestMonthKey := Some (requestMonthKey org now)\<rparr>"
  let ?r = "c_reserve ops (at_ms now) ?key 1 (int l) MONTH_TTL_SECONDS s"
  have v: "valid s" and same: "value_of (at_ms now) ?key s = value_of (at_ms now) ?key s0"
    using assms booked_month [of now org res] by (simp_all add: booked_since_def)
  show ?thesis
  proof (cases "value_of (at_ms now) ?key s + 1 \<le> int l")
    case True
    then have ok: "fst (fst ?r)" using reserved_iff [OF v, of 1] by simp
    have fits: "fits_one now ?key 1 (monthlyAiRequestLimit lim) s0"
      using True same Some by (simp add: fits_one_def)
    have "booked_since s0 now org ?res (snd ?r)"
      using True assms
      by (auto simp: booked_since_def value_reserve valid_reserve booked_def own_keys_def)
    from reserve_day_spec [OF this, of lim] assms(2) ok Some fits show ?thesis
      by (auto simp: reserve_month_def case_prod_beta Let_def intro: step_spec_mono)
  next
    case False
    then have "\<not> fst (fst ?r)" using reserved_iff [OF v, of 1] by simp
    with rollback_undoes [OF failed_reserve_keeps [OF assms(1) _ False, of MONTH_TTL_SECONDS]] Some
    show ?thesis by (auto simp: reserve_month_def case_prod_beta Let_def step_spec_def)
  qed
qed

lemma reserve_spec:
  assumes v: "valid s"
    and safe: "cost \<le> 2 ^ 53 - 1" "\<forall>b. monthlyAiBudgetMinor lim = Some b \<longrightarrow> b \<le> 2 ^ 53 - 1"
  shows "step_spec s now org (full_reservation now org lim cost)
    (fits_one now (monthKey org now) (int cost) (monthlyAiBudgetMinor lim) s \<and>
     fits_one now (requestMonthKey org now) 1 (monthlyAiRequestLimit lim) s \<and>
     fits_one now (requestDayKey org now) 1 (dailyAiRequestLimit lim) s)
    (reserveAiBudget ops now org lim cost s)"
proof -
  let ?res = "\<lparr>res_organizationId = org, res_cost = None, res_requestMonthKey = None,
               res_requestDayKey = None\<rparr>"
  have start: "booked_since s now org ?res s"
    using v by (simp add: booked_since_def own_keys_def booked_def)
  show ?thesis
  proof (cases "monthlyAiBudgetMinor lim")
    case None
    with reserve_month_spec [OF start, of lim] show ?thesis
      by (simp add: reserveAiBudget_def full_reservation_def fits_one_def)
  next
    case (Some b)
    let ?key = "monthKey org now" and ?res' = "?res\<lparr>res_cost := Some (monthKey org now, int cost)\<rparr>"
    let ?r = "c_reserve ops (at_ms now) ?key (int cost) (int b) MONTH_TTL_SECONDS s"
    have amounts: "toSafeAmount cost = Some (int cost)" "toSafeAmount b = Some (int b)"
      using safe Some by (simp_all add: toSafeAmount_def)
    show ?thesis
    proof (cases "value_of (at_ms now) ?key s + int cost \<le> int b")
      case True
      then have ok: "fst (fst ?r)" using reserved_iff [OF v, of "int cost"] by simp
      have fits: "fits_one now ?key (int cost) (monthlyAiBudgetMinor lim) s"
        using True Some by (simp add: fits_one_def)
      have "booked_since s now org ?res' (snd ?r)"
        using True v by (auto simp: booked_since_def value_reserve valid_reserve booked_def own_keys_def)
      from reserve_month_spec [OF this, of lim] ok Some amounts fits show ?thesis
        by (auto simp: reserveAiBudget_def case_prod_beta Let_def full_reservation_def intro: step_spec_mono)
    next
      case False
      then have "\<not> fst (fst ?r)" using reserved_iff [OF v, of "int cost"] by simp
      with rollback_undoes [OF failed_reserve_keeps [OF start _ False, of MONTH_TTL_SECONDS]] Some amounts
      show ?thesis by (auto simp: reserveAiBudget_def case_prod_beta Let_def step_spec_def)
    qed
  qed
qed

lemma all_or_nothing:
  assumes "valid s" "cost \<le> 2 ^ 53 - 1" "\<forall>b. monthlyAiBudgetMinor lim = Some b \<longrightarrow> b \<le> 2 ^ 53 - 1"
  shows "(\<exists>s'. reserveAiBudget ops now org lim cost s = (BudgetRejected, s') \<and>
            (\<forall>k. value_of (at_ms now) k s' = value_of (at_ms now) k s)) \<or>
         (\<exists>s'. reserveAiBudget ops now org lim cost s = (Reserved (full_reservation now org lim cost), s') \<and>
            (\<forall>k. value_of (at_ms now) k s' =
                 value_of (at_ms now) k s + booked (full_reservation now org lim cost) k) \<and>
            fits_one now (monthKey org now) (int cost) (monthlyAiBudgetMinor lim) s \<and>
            fits_one now (requestMonthKey org now) 1 (monthlyAiRequestLimit lim) s \<and>
            fits_one now (requestDayKey org now) 1 (dailyAiRequestLimit lim) s)"
  using reserve_spec [OF assms, of now org]
  by (auto simp: step_spec_def booked_since_def split: prod.splits reserve_outcome.splits)

text \<open>After a reservation: settling with the actual cost leaves exactly that cost and the requests
  booked; releasing it leaves nothing booked.\<close>

lemma settle_and_release:
  assumes v: "valid s" and safe: "cost \<le> 2 ^ 53 - 1" "\<forall>b. monthlyAiBudgetMinor lim = Some b \<longrightarrow> b \<le> 2 ^ 53 - 1"
    and r: "reserveAiBudget ops now org lim cost s = (Reserved res, s')"
  shows "value_of (at_ms now) k (releaseAiBudget ops (at_ms now) res s') = value_of (at_ms now) k s"
    and "actual \<le> 2 ^ 53 - 1 \<Longrightarrow> \<exists>s''. settleAiBudget ops (at_ms now) res (Some actual) s' = Some s'' \<and>
      (\<forall>k. value_of (at_ms now) k s'' =
           value_of (at_ms now) k s + booked (full_reservation now org lim actual) k)"
proof -
  have b: "booked_since s now org res s'" "res = full_reservation now org lim cost"
    using reserve_spec [OF v safe, of now org] r by (auto simp: step_spec_def)
  have le: "\<forall>k. booked res k \<le> value_of (at_ms now) k s'"
    using b(1) value_nonneg by (metis add.commute add_left_mono add_0_right booked_since_def)
  show "value_of (at_ms now) k (releaseAiBudget ops (at_ms now) res s') = value_of (at_ms now) k s"
    using b(1) release_parts_value(1) [of s' now org res "at_ms now" k] le
    by (simp add: booked_since_def releaseAiBudget_def)
  assume a: "actual \<le> 2 ^ 53 - 1"
  have s': "valid s'" "\<And>k. value_of (at_ms now) k s' = value_of (at_ms now) k s + booked res k"
    "\<And>k. 0 \<le> value_of (at_ms now) k s"
    using b(1) value_nonneg by (simp_all add: booked_since_def)
  show "\<exists>s''. settleAiBudget ops (at_ms now) res (Some actual) s' = Some s'' \<and>
      (\<forall>k. value_of (at_ms now) k s'' =
           value_of (at_ms now) k s + booked (full_reservation now org lim actual) k)"
  proof (cases "monthlyAiBudgetMinor lim")
    case None
    with b(2) s' show ?thesis by (simp add: settleAiBudget_def full_reservation_def booked_def)
  next
    case (Some budget)
    let ?key = "monthKey org now"
    have bk: "booked (full_reservation now org lim n) ?key = int n"
      "k \<noteq> ?key \<Longrightarrow> booked (full_reservation now org lim n) k = booked (full_reservation now org lim 0) k" for n k
      using Some by (simp_all add: booked_def full_reservation_def)
    from a have "toSafeAmount actual = Some (int actual)" by (simp add: toSafeAmount_def)
    with Some b(2) have settle: "settleAiBudget ops (at_ms now) res (Some actual) s' =
        Some (if int actual - int cost \<noteq> 0 then c_adjust ops (at_ms now) ?key (int actual - int cost) s' else s')"
      by (simp add: settleAiBudget_def full_reservation_def Let_def)
    have "value_of (at_ms now) k' (if int actual - int cost \<noteq> 0
          then c_adjust ops (at_ms now) ?key (int actual - int cost) s' else s') =
        value_of (at_ms now) k' s + booked (full_reservation now org lim actual) k'" for k'
      using s'(3) [of k'] s'(2) [of k'] bk(1) bk(2) [of k' cost] bk(2) [of k' actual] b(2)
      by (cases "k' = ?key") (auto simp: value_adjust [OF s'(1)] s'(2))
    with settle show ?thesis by blast
  qed
qed

end

section \<open>Both counters keep the contract\<close>

definition mem_counter_ops :: "mem_counters counter_ops" where
  "mem_counter_ops = \<lparr>c_reserve = mem_reserve, c_adjust = mem_adjust, c_release = mem_budget_release\<rparr>"

definition redis_counter_ops :: "string redis_counters counter_ops" where
  "redis_counter_ops =
     \<lparr>c_reserve = redis_reserve, c_adjust = redis_adjust, c_release = redis_budget_release\<rparr>"

definition mem_counters_nonneg :: "mem_counters \<Rightarrow> bool" where
  "mem_counters_nonneg m \<longleftrightarrow> (\<forall>k e. m k = Some e \<longrightarrow> 0 \<le> counter_value e)"

lemma mem_getValue_set [simp]:
  "mem_getValue now k' (mem_setValue now k v ttl m) = (if k' = k then v else mem_getValue now k' m)"
  by (auto simp: mem_getValue_def mem_setValue_def Let_def split: option.split)

lemma mem_nonneg_set: "mem_counters_nonneg m \<Longrightarrow> 0 \<le> v \<Longrightarrow> mem_counters_nonneg (mem_setValue now k v ttl m)"
  by (auto simp: mem_counters_nonneg_def mem_setValue_def Let_def)

lemma mem_getValue_nonneg: "mem_counters_nonneg m \<Longrightarrow> 0 \<le> mem_getValue now k m"
  by (auto simp: mem_counters_nonneg_def mem_getValue_def split: option.split)

interpretation mem_budget: budget_counter mem_counter_ops mem_getValue mem_counters_nonneg
proof unfold_locales
  fix m :: mem_counters and now t :: time_ms and k
  show "mem_counters_nonneg m \<Longrightarrow> now \<le> t \<Longrightarrow> mem_getValue t k m = mem_getValue now k m \<or> mem_getValue t k m = 0"
    by (auto simp: mem_getValue_def split: option.split)
qed (auto simp: mem_counter_ops_def mem_reserve_def mem_adjust_def mem_budget_release_def Let_def
    mem_nonneg_set mem_getValue_nonneg)

lemma redis_reserve_alt:
  assumes "counters_nonneg r"
  shows "\<exists>e. redis_reserve now k a l ttl r =
    (if rc_value now k r + a \<le> l then ((True, rc_value now k r + a), r(k \<mapsto> (rc_value now k r + a, e)))
     else ((False, rc_value now k r), r(k \<mapsto> (rc_value now k r, e)))) \<and> \<not> past now e"
proof (cases "rc_entry now k r")
  case None
  then show ?thesis
    by (intro exI [where x = "Some (now + int ttl * 1000)"])
      (auto simp: redis_reserve_def BUDGET_RESERVE_SCRIPT_def EXISTS_def INCRBY_def DECRBY_def EXPIRE_def
        PEXPIRE_def rc_value_def Let_def)
next
  case (Some ve)
  obtain v e where ve: "ve = (v, e)" by (cases ve)
  with Some rc_entry_alive [of now k r v e] show ?thesis
    by (intro exI [where x = e])
      (auto simp: redis_reserve_def BUDGET_RESERVE_SCRIPT_def EXISTS_def INCRBY_def DECRBY_def
        rc_value_def Let_def)
qed

lemma redis_add_alt:
  assumes "counters_nonneg r"
  shows "\<exists>e. redis_adjust now k d r = r(k \<mapsto> (max 0 (rc_value now k r + d), e)) \<and> \<not> past now e"
    and "\<exists>e. redis_budget_release now k d r = r(k \<mapsto> (max 0 (rc_value now k r - d), e)) \<and> \<not> past now e"
proof -
  have "\<exists>e. redis_adjust now k d r = r(k \<mapsto> (max 0 (rc_value now k r + d), e)) \<and> \<not> past now e" for d
  proof (cases "rc_value now k r + d < 0")
    case True
    then show ?thesis
      by (intro exI [where x = None])
        (auto simp: redis_adjust_def BUDGET_ADJUST_SCRIPT_def INCRBY_def SETINT_def rc_value_def Let_def
          split: option.splits)
  next
    case False
    then show ?thesis
      by (intro exI [where x = "case rc_entry now k r of None \<Rightarrow> None | Some (_, e) \<Rightarrow> e"])
        (auto simp: redis_adjust_def BUDGET_ADJUST_SCRIPT_def INCRBY_def rc_value_def Let_def
          dest: rc_entry_alive split: option.splits)
  qed
  note adjust = this
  from adjust [of d] show "\<exists>e. redis_adjust now k d r = r(k \<mapsto> (max 0 (rc_value now k r + d), e)) \<and> \<not> past now e" .
  have "redis_budget_release now k d r = redis_adjust now k (- d) r"
    by (simp add: redis_budget_release_def redis_adjust_def BUDGET_ADJUST_SCRIPT_def BUDGET_RELEASE_SCRIPT_def
        DECRBY_def)
  with adjust [of "- d"]
  show "\<exists>e. redis_budget_release now k d r = r(k \<mapsto> (max 0 (rc_value now k r - d), e)) \<and> \<not> past now e"
    by simp
qed

interpretation redis_budget: budget_counter redis_counter_ops rc_value counters_nonneg
proof unfold_locales
  fix r :: "string redis_counters" and now t :: time_ms and k k' :: string and a l d :: int and ttl
  assume v: "counters_nonneg r"
  note nn = counters_nonneg_value [OF v, of now k]
  show "0 \<le> rc_value t k r" using v by (rule counters_nonneg_value)
  show "now \<le> t \<Longrightarrow> rc_value t k r = rc_value now k r \<or> rc_value t k r = 0"
    using rc_value_later [of now t k r] by auto
  obtain e1 where e1: "redis_reserve now k a l ttl r =
    (if rc_value now k r + a \<le> l then ((True, rc_value now k r + a), r(k \<mapsto> (rc_value now k r + a, e1)))
     else ((False, rc_value now k r), r(k \<mapsto> (rc_value now k r, e1))))" "\<not> past now e1"
    using redis_reserve_alt [OF v] by blast
  obtain e2 where e2: "redis_adjust now k d r = r(k \<mapsto> (max 0 (rc_value now k r + d), e2))" "\<not> past now e2"
    using redis_add_alt(1) [OF v] by blast
  obtain e3 where e3: "redis_budget_release now k a r = r(k \<mapsto> (max 0 (rc_value now k r - a), e3))" "\<not> past now e3"
    using redis_add_alt(2) [OF v] by blast
  show "counters_nonneg (c_adjust redis_counter_ops now k d r)"
    using v by (simp add: redis_counter_ops_def e2 counters_nonneg_upd)
  show "rc_value now k' (c_adjust redis_counter_ops now k d r) =
      (if k' = k then max 0 (rc_value now k r + d) else rc_value now k' r)"
    using e2(2) by (simp add: redis_counter_ops_def e2)
  assume a: "0 \<le> a"
  show "counters_nonneg (snd (c_reserve redis_counter_ops now k a l ttl r))"
    using v a nn by (simp add: redis_counter_ops_def e1 counters_nonneg_upd)
  show "counters_nonneg (c_release redis_counter_ops now k a r)"
    using v by (simp add: redis_counter_ops_def e3 counters_nonneg_upd)
  show "fst (fst (c_reserve redis_counter_ops now k a l ttl r)) \<longleftrightarrow> rc_value now k r + a \<le> l"
    by (simp add: redis_counter_ops_def e1)
  show "rc_value now k' (snd (c_reserve redis_counter_ops now k a l ttl r)) =
      (if k' = k \<and> rc_value now k r + a \<le> l then rc_value now k r + a else rc_value now k' r)"
    using e1(2) by (simp add: redis_counter_ops_def e1)
  show "rc_value now k' (c_release redis_counter_ops now k a r) =
      (if k' = k then max 0 (rc_value now k r - a) else rc_value now k' r)"
    using e3(2) by (simp add: redis_counter_ops_def e3)
qed

section \<open>Properties\<close>

text \<open>C34: Reserving an AI budget is all or nothing: a rejected reservation leaves every counter as it
  was, whatever was booked before the rejection; a granted one raises the configured counters by
  the worst-case cost and one request each, all of which fitted under their limits, and no other
  counter. In Redis.\<close>

theorem budget_all_or_nothing:
  assumes "counters_nonneg r" "cost \<le> 2 ^ 53 - 1"
    and "\<forall>b. monthlyAiBudgetMinor lim = Some b \<longrightarrow> b \<le> 2 ^ 53 - 1"
  shows "(\<exists>r'. reserveAiBudget redis_counter_ops now org lim cost r = (BudgetRejected, r') \<and>
            (\<forall>k. rc_value (at_ms now) k r' = rc_value (at_ms now) k r)) \<or>
         (\<exists>r'. reserveAiBudget redis_counter_ops now org lim cost r =
              (Reserved (full_reservation now org lim cost), r') \<and>
            (\<forall>k. rc_value (at_ms now) k r' =
                 rc_value (at_ms now) k r + booked (full_reservation now org lim cost) k) \<and>
            (\<forall>b. monthlyAiBudgetMinor lim = Some b \<longrightarrow>
                 rc_value (at_ms now) (monthKey org now) r' \<le> int b) \<and>
            (\<forall>l. monthlyAiRequestLimit lim = Some l \<longrightarrow>
                 rc_value (at_ms now) (requestMonthKey org now) r' \<le> int l) \<and>
            (\<forall>l. dailyAiRequestLimit lim = Some l \<longrightarrow>
                 rc_value (at_ms now) (requestDayKey org now) r' \<le> int l))"
proof -
  have bk: "monthlyAiBudgetMinor lim = Some b \<Longrightarrow>
        booked (full_reservation now org lim cost) (monthKey org now) = int cost"
    "monthlyAiRequestLimit lim = Some l \<Longrightarrow>
        booked (full_reservation now org lim cost) (requestMonthKey org now) = 1"
    "dailyAiRequestLimit lim = Some l \<Longrightarrow>
        booked (full_reservation now org lim cost) (requestDayKey org now) = 1" for b l
    by (auto simp: booked_def full_reservation_def split: option.splits)
  from redis_budget.all_or_nothing [OF assms, of now org] bk show ?thesis
    unfolding redis_budget.fits_one_def by (elim disjE exE conjE) auto
qed

definition demo_instant :: utc_instant where
  "demo_instant = \<lparr>at_ms = 1000, utcFullYear = 2026, utcMonth = 8, utcDate = 6\<rparr>"

definition demo_limits :: ai_limits where
  "demo_limits = \<lparr>monthlyAiBudgetMinor = Some 500, monthlyAiRequestLimit = None,
                  dailyAiRequestLimit = Some 0\<rparr>"

theorem budget_all_or_nothing_witness:
  "\<exists>r'. reserveAiBudget redis_counter_ops demo_instant ''o'' demo_limits 200 Map.empty = (BudgetRejected, r') \<and>
     (\<forall>k. rc_value 1000 k r' = 0)"
proof -
  have v: "counters_nonneg (Map.empty :: string redis_counters)" by (simp add: counters_nonneg_def)
  have z: "rc_value t k Map.empty = 0" for t k by (simp add: rc_value_def rc_entry_def)
  have d: "booked (full_reservation demo_instant ''o'' demo_limits 200) (requestDayKey ''o'' demo_instant) = 1"
    by (simp add: booked_def full_reservation_def demo_limits_def)
  have t: "at_ms demo_instant = 1000" "monthlyAiBudgetMinor demo_limits = Some 500"
    "dailyAiRequestLimit demo_limits = Some 0"
    by (simp_all add: demo_instant_def demo_limits_def)
  show ?thesis
    using budget_all_or_nothing [OF v, where cost = 200 and lim = demo_limits and now = demo_instant and org = "''o''"]
    by (auto simp: z t d)
qed

text \<open>A reservation is settled exactly: reserving and then settling with the actual cost leaves
  the organization charged with that cost, not with the worst-case estimate, and one request per
  configured count; reserving and then releasing leaves every counter as it was. In memory.\<close>

theorem budget_settle_exact:
  assumes "mem_counters_nonneg m" "cost \<le> 2 ^ 53 - 1" "actual \<le> 2 ^ 53 - 1"
    and "\<forall>b. monthlyAiBudgetMinor lim = Some b \<longrightarrow> b \<le> 2 ^ 53 - 1"
    and "reserveAiBudget mem_counter_ops now org lim cost m = (Reserved res, m')"
  shows "(\<exists>m''. settleAiBudget mem_counter_ops (at_ms now) res (Some actual) m' = Some m'' \<and>
      (\<forall>k. mem_getValue (at_ms now) k m'' =
           mem_getValue (at_ms now) k m + booked (full_reservation now org lim actual) k)) \<and>
    (\<forall>k. mem_getValue (at_ms now) k (releaseAiBudget mem_counter_ops (at_ms now) res m') =
         mem_getValue (at_ms now) k m)"
  using mem_budget.settle_and_release [OF assms(1,2,4,5)] assms(3) by blast

theorem budget_settle_exact_witness:
  "\<exists>m'. reserveAiBudget mem_counter_ops demo_instant ''o''
        (demo_limits\<lparr>dailyAiRequestLimit := None\<rparr>) 200 Map.empty =
        (Reserved (full_reservation demo_instant ''o'' (demo_limits\<lparr>dailyAiRequestLimit := None\<rparr>) 200), m') \<and>
     (\<forall>k. mem_getValue 1000 k (releaseAiBudget mem_counter_ops 1000
        (full_reservation demo_instant ''o'' (demo_limits\<lparr>dailyAiRequestLimit := None\<rparr>) 200) m') = 0)"
proof -
  let ?lim = "demo_limits\<lparr>dailyAiRequestLimit := None\<rparr>"
  obtain m' where r: "reserveAiBudget mem_counter_ops demo_instant ''o'' ?lim 200 Map.empty =
      (Reserved (full_reservation demo_instant ''o'' ?lim 200), m')"
    by (simp add: reserveAiBudget_def demo_limits_def toSafeAmount_def mem_counter_ops_def mem_reserve_def
        mem_getValue_def Let_def reserve_month_def reserve_day_def full_reservation_def)
  from budget_settle_exact [OF _ _ _ _ r, of 100]
  have "\<forall>k. mem_getValue (at_ms demo_instant) k (releaseAiBudget mem_counter_ops (at_ms demo_instant)
      (full_reservation demo_instant ''o'' ?lim 200) m') = mem_getValue (at_ms demo_instant) k Map.empty"
    by (simp add: mem_counters_nonneg_def demo_limits_def)
  then show ?thesis using r by (simp add: demo_instant_def mem_getValue_def)
qed

text \<open>The cap holds over time: a counter under its limit stays there through any sequence of
  reservations, releases and corrections that lower an estimate, at any later times, in memory
  and in Redis. (A correction that raises an estimate may exceed it.)\<close>

theorem budget_cap_kept:
  assumes "0 \<le> limit" "sorted (map fst xs @ [t])" "\<forall>x \<in> set xs. lowering (snd x)"
  shows "mem_getValue t k (run_counter mem_counter_ops k limit xs Map.empty) \<le> limit \<and>
         rc_value t k (run_counter redis_counter_ops k limit xs Map.empty) \<le> limit"
proof -
  define since where "since = hd (map fst xs @ [t])"
  have "sorted (since # map fst xs @ [t])"
    using assms(2) by (cases xs) (auto simp: since_def)
  then show ?thesis
    using mem_budget.cap_kept [where now = since and s = Map.empty and k = k and l = limit and xs = xs and t = t]
      redis_budget.cap_kept [where now = since and s = Map.empty and k = k and l = limit and xs = xs and t = t]
      assms(1,3)
    by (simp add: mem_getValue_def rc_value_def rc_entry_def counters_nonneg_def mem_counters_nonneg_def)
qed

theorem budget_cap_kept_witness:
  "mem_getValue 9 ''k'' (run_counter mem_counter_ops ''k'' 10
      [(0, ReserveOp 7 60), (1, ReserveOp 7 60), (2, AdjustOp (- 3)), (3, ReserveOp 6 60)] Map.empty) \<le> 10 \<and>
   rc_value 9 ''k'' (run_counter redis_counter_ops ''k'' 10
      [(0, ReserveOp 7 60), (1, ReserveOp 7 60), (2, AdjustOp (- 3)), (3, ReserveOp 6 60)] Map.empty) \<le> 10"
  by (rule budget_cap_kept) simp_all

end
