(* ===== verification/Db.thy ===== *)
theory Db
  imports Complex_Main Prelude
begin

text \<open>
  What the server operations share: the application errors of
  \<^verbatim>\<open>lib/errors/app-error.ts\<close>, JSON values, tables as lists of rows with the operations the
  repositories use, the membership and audit tables, and the membership check of
  \<^verbatim>\<open>lib/permissions/verify-membership.ts\<close>. An operation is a function from the database to its
  result (\<open>Inl\<close> a thrown error) and the new database; a transaction that throws leaves the
  database as it was. Rows carry the columns the sources read; an audit entry leaves out its
  metadata object, which nothing reads back.
\<close>

section \<open>Errors\<close>

text \<open>User-facing messages are left out; where one error class is thrown for several reasons the
  reason is a tag. \<open>UnexpectedError\<close> is any value thrown that is not an \<open>AppError\<close>, such as the
  database client's; \<^verbatim>\<open>lib/http/error-response.ts\<close> answers it with status 500.\<close>

datatype app_error =
  NotFoundError
  | ForbiddenError
  | ValidationError string
  | NotImplementedError
  | UnauthorizedError
  | ConflictError string
  | UnexpectedError

fun errorResponse_status :: "app_error \<Rightarrow> nat" where
  "errorResponse_status NotFoundError = 404"
| "errorResponse_status ForbiddenError = 403"
| "errorResponse_status (ValidationError _) = 422"
| "errorResponse_status NotImplementedError = 501"
| "errorResponse_status UnauthorizedError = 401"
| "errorResponse_status (ConflictError _) = 409"
| "errorResponse_status UnexpectedError = 500"

section \<open>JSON values\<close>

text \<open>\<open>JUndefined\<close> is JavaScript's \<open>undefined\<close>, what an absent property reads as.\<close>

datatype json =
  JUndefined
  | JNull
  | JBool bool
  | JNum real
  | JStr jstring
  | JArr "json list"
  | JObj "(string \<times> json) list"

fun json_get :: "json \<Rightarrow> string \<Rightarrow> json" where
  "json_get (JObj ps) k = (case map_of ps k of None \<Rightarrow> JUndefined | Some v \<Rightarrow> v)"
| "json_get _ _ = JUndefined"

section \<open>Tables\<close>

text \<open>\<open>findFirst\<close>/\<open>findUnique\<close>, \<open>updateMany\<close> and \<open>deleteMany\<close> over a list of rows.\<close>

definition find_row :: "('r \<Rightarrow> bool) \<Rightarrow> 'r list \<Rightarrow> 'r option" where
  "find_row P rows = List.find P rows"

definition update_rows :: "('r \<Rightarrow> bool) \<Rightarrow> ('r \<Rightarrow> 'r) \<Rightarrow> 'r list \<Rightarrow> 'r list" where
  "update_rows P f rows = map (\<lambda>r. if P r then f r else r) rows"

definition delete_rows :: "('r \<Rightarrow> bool) \<Rightarrow> 'r list \<Rightarrow> 'r list" where
  "delete_rows P rows = filter (\<lambda>r. \<not> P r) rows"

definition count_rows :: "('r \<Rightarrow> bool) \<Rightarrow> 'r list \<Rightarrow> nat" where
  "count_rows P rows = length (filter P rows)"

text \<open>The first row with the least key among those satisfying \<open>P\<close> (\<open>ORDER BY key ASC LIMIT 1\<close>).\<close>

fun oldest_row :: "('r \<Rightarrow> bool) \<Rightarrow> ('r \<Rightarrow> time_ms) \<Rightarrow> 'r list \<Rightarrow> 'r option" where
  "oldest_row P key [] = None"
| "oldest_row P key (r # rs) =
     (case oldest_row P key rs of
        None \<Rightarrow> if P r then Some r else None
      | Some q \<Rightarrow> if P r \<and> key r \<le> key q then Some r else Some q)"

lemma find_row_Some: "find_row P rows = Some r \<Longrightarrow> r \<in> set rows \<and> P r"
  by (auto simp: find_row_def find_Some_iff)

lemma find_row_None: "find_row P rows = None \<longleftrightarrow> (\<forall>r \<in> set rows. \<not> P r)"
  by (auto simp: find_row_def find_None_iff)

lemma find_row_Cons: "find_row P (r # rs) = (if P r then Some r else find_row P rs)"
  by (simp add: find_row_def)

lemma find_row_Nil: "find_row P [] = None"
  by (simp add: find_row_def)

lemma find_row_append [table_simps]:
  "find_row P (xs @ ys) = (case find_row P xs of Some r \<Rightarrow> Some r | None \<Rightarrow> find_row P ys)"
  by (induction xs) (simp_all add: find_row_Cons find_row_Nil)

lemma set_update_rows: "set (update_rows P f rows) = (\<lambda>r. if P r then f r else r) ` set rows"
  by (simp add: update_rows_def)

lemma map_update_rows [table_simps]:
  "(\<And>r. g (f r) = g r) \<Longrightarrow> map g (update_rows P f rows) = map g rows"
  by (simp add: update_rows_def)

lemma update_rows_id [table_simps]:
  "(\<And>r. r \<in> set rows \<Longrightarrow> \<not> P r) \<Longrightarrow> update_rows P f rows = rows"
  by (simp add: update_rows_def map_idI)

lemma find_row_update:
  "(\<And>r. Q (f r) = Q r) \<Longrightarrow>
   find_row Q (update_rows P f rows) = map_option (\<lambda>r. if P r then f r else r) (find_row Q rows)"
  by (induction rows) (auto simp: find_row_def update_rows_def)

lemma count_rows_append [table_simps]: "count_rows P (xs @ ys) = count_rows P xs + count_rows P ys"
  by (simp add: count_rows_def)

lemma count_rows_simps [simp]:
  "count_rows P [] = 0" "count_rows P (r # rs) = (if P r then 1 else 0) + count_rows P rs"
  by (simp_all add: count_rows_def)

lemma count_rows_pos: "0 < count_rows P rows \<longleftrightarrow> (\<exists>r \<in> set rows. P r)"
  by (auto simp: count_rows_def filter_empty_conv)

lemma oldest_row_None: "oldest_row P key rs = None \<longleftrightarrow> (\<forall>r \<in> set rs. \<not> P r)"
  by (induction rs) (auto split: option.splits)

lemma oldest_row_Some:
  "oldest_row P key rs = Some r \<Longrightarrow> r \<in> set rs \<and> P r \<and> (\<forall>q \<in> set rs. P q \<longrightarrow> key r \<le> key q)"
proof (induction rs arbitrary: r)
  case (Cons a rs)
  show ?case
  proof (cases "oldest_row P key rs")
    case None
    with Cons.prems show ?thesis by (auto simp: oldest_row_None split: if_splits)
  next
    case (Some q)
    from Cons.IH [OF this] Cons.prems Some show ?thesis by (auto split: if_splits)
  qed
qed simp

section \<open>Members and audit entries\<close>

datatype membership_role = OWNER | MEMBER

record membership =
  m_id :: string
  m_userId :: string
  m_organizationId :: string
  m_role :: membership_role

record audit_entry =
  au_organizationId :: string
  au_userId :: "string option"
  au_entityType :: string
  au_entityId :: string
  au_action :: string

record core_db =
  memberships :: "membership list"
  auditLog :: "audit_entry list"

definition audit ::
  "string \<Rightarrow> string option \<Rightarrow> string \<Rightarrow> string \<Rightarrow> string \<Rightarrow> 'x core_db_scheme \<Rightarrow> 'x core_db_scheme" where
  "audit org user entityType entityId action db =
     db\<lparr>auditLog := auditLog db @ [\<lparr>au_organizationId = org, au_userId = user,
         au_entityType = entityType, au_entityId = entityId, au_action = action\<rparr>]\<rparr>"

record auth_context =
  ac_userId :: string
  ac_organizationId :: string
  ac_role :: membership_role

definition verifyOrganizationMembership ::
  "string \<Rightarrow> string \<Rightarrow> 'x core_db_scheme \<Rightarrow> app_error + auth_context" where
  "verifyOrganizationMembership userId organizationId db =
     (case find_row (\<lambda>m. m_userId m = userId \<and> m_organizationId m = organizationId) (memberships db) of
        None \<Rightarrow> Inl ForbiddenError
      | Some m \<Rightarrow> Inr \<lparr>ac_userId = userId, ac_organizationId = organizationId, ac_role = m_role m\<rparr>)"

definition hasRequiredRole :: "membership_role \<Rightarrow> membership_role list \<Rightarrow> bool" where
  "hasRequiredRole role allowedRoles \<longleftrightarrow> role \<in> set allowedRoles"

definition verifyOrganizationRole ::
  "string \<Rightarrow> string \<Rightarrow> membership_role list \<Rightarrow> 'x core_db_scheme \<Rightarrow> app_error + auth_context" where
  "verifyOrganizationRole userId organizationId allowedRoles db =
     (case verifyOrganizationMembership userId organizationId db of
        Inl e \<Rightarrow> Inl e
      | Inr ctx \<Rightarrow> if \<not> hasRequiredRole (ac_role ctx) allowedRoles then Inl ForbiddenError else Inr ctx)"

lemma memberships_audit [simp]: "memberships (audit o' u et ei a db) = memberships db"
  by (simp add: audit_def)

lemma auditLog_audit:
  "auditLog (audit o' u et ei a db) = auditLog db @ [\<lparr>au_organizationId = o', au_userId = u,
     au_entityType = et, au_entityId = ei, au_action = a\<rparr>]"
  by (simp add: audit_def)

lemma verify_membership_Inr:
  "verifyOrganizationMembership u org db = Inr ctx \<longleftrightarrow>
   (\<exists>m. find_row (\<lambda>m. m_userId m = u \<and> m_organizationId m = org) (memberships db) = Some m \<and>
        ctx = \<lparr>ac_userId = u, ac_organizationId = org, ac_role = m_role m\<rparr>)"
  by (auto simp: verifyOrganizationMembership_def split: option.splits)

lemma verify_membership_Inl:
  "verifyOrganizationMembership u org db = Inl e \<Longrightarrow> e = ForbiddenError"
  by (auto simp: verifyOrganizationMembership_def split: option.splits)

lemma verify_membership_member:
  "verifyOrganizationMembership u org db = Inr ctx \<Longrightarrow>
   \<exists>m \<in> set (memberships db). m_userId m = u \<and> m_organizationId m = org"
  by (auto simp: verify_membership_Inr dest: find_row_Some)

lemma verify_role_Inr:
  "verifyOrganizationRole u org roles db = Inr ctx \<Longrightarrow>
   ac_userId ctx = u \<and> ac_organizationId ctx = org \<and> ac_role ctx \<in> set roles \<and>
   (\<exists>m \<in> set (memberships db). m_userId m = u \<and> m_organizationId m = org \<and> m_role m = ac_role ctx)"
  by (auto simp: verifyOrganizationRole_def hasRequiredRole_def verify_membership_Inr
      split: sum.splits if_splits dest: find_row_Some)

section \<open>Bounded retries\<close>

text \<open>
  The contract of a job table whose rows carry an attempt counter: whatever the operations do, a
  claimable job has attempts left, only a claim raises the counter, by one, and no operation
  removes a job or lowers its counter. \<open>job_at\<close> reads the counter, its maximum and whether the
  job is claimable; \<open>step\<close> performs one operation and names the job it claimed, if any.
\<close>

fun run_jobs :: "('op \<Rightarrow> 's \<Rightarrow> string option \<times> 's) \<Rightarrow> 'op list \<Rightarrow> 's \<Rightarrow> string list \<times> 's" where
  "run_jobs step [] s = ([], s)"
| "run_jobs step (x # xs) s =
     (let (claimed, s1) = step x s; (ids, s2) = run_jobs step xs s1
      in (case claimed of None \<Rightarrow> ids | Some i \<Rightarrow> i # ids, s2))"

locale bounded_retry =
  fixes step :: "'op \<Rightarrow> 's \<Rightarrow> string option \<times> 's"
    and job_at :: "'s \<Rightarrow> string \<Rightarrow> (nat \<times> nat \<times> bool) option"
    and valid :: "'s \<Rightarrow> bool"
  assumes valid_step: "valid s \<Longrightarrow> valid (snd (step x s))"
    and valid_bound:
      "valid s \<Longrightarrow> job_at s i = Some (attempt, most, claimable) \<Longrightarrow>
       attempt \<le> most \<and> (claimable \<longrightarrow> attempt < most)"
    and step_job:
      "valid s \<Longrightarrow> job_at s i = Some (attempt, most, claimable) \<Longrightarrow>
       \<exists>claimable'. job_at (snd (step x s)) i =
         Some (if fst (step x s) = Some i then attempt + 1 else attempt, most, claimable')"
begin

lemma claims_counted:
  "valid s \<Longrightarrow> job_at s i = Some (attempt, most, claimable) \<Longrightarrow>
   valid (snd (run_jobs step xs s)) \<and>
   (\<exists>claimable'. job_at (snd (run_jobs step xs s)) i =
      Some (attempt + count_list (fst (run_jobs step xs s)) i, most, claimable'))"
proof (induction xs arbitrary: s attempt claimable)
  case Nil
  then show ?case by simp
next
  case (Cons x xs)
  obtain c where "job_at (snd (step x s)) i =
      Some (if fst (step x s) = Some i then attempt + 1 else attempt, most, c)"
    using step_job [OF Cons.prems, of x] by blast
  from Cons.IH [OF valid_step [OF Cons.prems(1)] this] show ?case
    by (auto simp: case_prod_beta Let_def split: option.split)
qed

lemma claims_bounded:
  assumes "valid s" "job_at s i = Some (attempt, most, claimable)"
  shows "attempt + count_list (fst (run_jobs step xs s)) i \<le> most"
  using claims_counted [OF assms, of xs] valid_bound by blast

end

end
