(* ===== verification/FieldExtraction.thy ===== *)
theory FieldExtraction
  imports Db "HOL-Library.List_Lexorder" "HOL-Library.Char_ord"
begin

text \<open>
  Contract field extraction: the job state machine and its policies
  (\<^verbatim>\<open>domain/extraction/\<close>), the job and suggestion repositories, and the operations of
  \<^verbatim>\<open>features/extraction/server/\<close>: creating or retrying a job, the worker, recovery of stale
  jobs, reviewing a suggestion and applying the approved ones to the contract. File storage, text
  extraction, the field extraction service and the contract form's schema are parameters.
\<close>

section \<open>Policies\<close>

datatype extraction_status = PENDING | PROCESSING | REVIEW_REQUIRED | COMPLETED | FAILED | CANCELLED

fun ALLOWED_TRANSITIONS :: "extraction_status \<Rightarrow> extraction_status list" where
  "ALLOWED_TRANSITIONS PENDING = [PROCESSING, CANCELLED]"
| "ALLOWED_TRANSITIONS PROCESSING = [REVIEW_REQUIRED, FAILED]"
| "ALLOWED_TRANSITIONS REVIEW_REQUIRED = [COMPLETED, PROCESSING]"
| "ALLOWED_TRANSITIONS FAILED = [PENDING, CANCELLED]"
| "ALLOWED_TRANSITIONS COMPLETED = []"
| "ALLOWED_TRANSITIONS CANCELLED = []"

definition canTransitionExtractionJobStatus :: "extraction_status \<Rightarrow> extraction_status \<Rightarrow> bool" where
  "canTransitionExtractionJobStatus a b \<longleftrightarrow> b \<in> set (ALLOWED_TRANSITIONS a)"

definition NON_RETRYABLE_ERROR_CODES :: "string set" where
  "NON_RETRYABLE_ERROR_CODES =
     {''CHECKSUM_MISMATCH'', ''UNSUPPORTED_FORMAT'', ''OCR_REQUIRED'', ''MAX_ATTEMPTS_REACHED''}"

definition isRetryableExtractionError :: "string \<Rightarrow> nat \<Rightarrow> nat \<Rightarrow> bool" where
  "isRetryableExtractionError errorCode attempt maxAttempts =
     (if attempt \<ge> maxAttempts then False else errorCode \<notin> NON_RETRYABLE_ERROR_CODES)"

definition isExtractionJobStale :: "time_ms option \<Rightarrow> time_ms \<Rightarrow> nat \<Rightarrow> bool" where
  "isExtractionJobStale lockedAt now staleMinutes =
     (case lockedAt of None \<Rightarrow> False | Some t \<Rightarrow> now - t \<ge> int staleMinutes * 60 * 1000)"

definition hasContractChangedSinceExtraction :: "time_ms \<Rightarrow> time_ms option \<Rightarrow> bool" where
  "hasContractChangedSinceExtraction updatedAt snapshot =
     (case snapshot of None \<Rightarrow> False | Some t \<Rightarrow> updatedAt \<noteq> t)"

definition CONTRACT_EXTRACTABLE_FIELDS :: "string list" where
  "CONTRACT_EXTRACTABLE_FIELDS =
     [''title'', ''contractNumber'', ''contractType'', ''startDate'', ''endDate'', ''signedDate'',
      ''autoRenewal'', ''noticePeriodDays'', ''amount'', ''currency'', ''governingLaw'',
      ''jurisdiction'', ''counterpartyName'']"

definition isContractExtractableField :: "string \<Rightarrow> bool" where
  "isContractExtractableField f \<longleftrightarrow> f \<in> set CONTRACT_EXTRACTABLE_FIELDS"

subsection \<open>The shape of a suggestion value\<close>

definition contract_types :: "jstring list" where
  "contract_types = map asc
     [''NDA'', ''SERVICE'', ''SUPPLY'', ''EMPLOYMENT'', ''LICENSE'', ''INVESTMENT'', ''SHAREHOLDER'',
      ''LEASE'', ''PARTNERSHIP'', ''OTHER'']"

text \<open>The regular expressions \<open>\d{4}-\d{2}-\d{2}\<close>, \<open>\d{1,12}(\.\d{1,2})?\<close> and \<open>[A-Z]{3}\<close>, anchored.\<close>

definition matches_date :: "jstring \<Rightarrow> bool" where
  "matches_date v \<longleftrightarrow>
     length v = 10 \<and> v ! 4 = 45 \<and> v ! 7 = 45 \<and>
     list_all (\<lambda>i. is_digit_unit (v ! i)) [0, 1, 2, 3, 5, 6, 8, 9]"

definition matches_amount :: "jstring \<Rightarrow> bool" where
  "matches_amount v \<longleftrightarrow>
     (let whole = takeWhile is_digit_unit v; rest = dropWhile is_digit_unit v
      in 1 \<le> length whole \<and> length whole \<le> 12 \<and>
         (rest = [] \<or> (hd rest = 46 \<and> list_all is_digit_unit (tl rest) \<and>
                       1 \<le> length (tl rest) \<and> length (tl rest) \<le> 2)))"

definition matches_currency :: "jstring \<Rightarrow> bool" where
  "matches_currency v \<longleftrightarrow> length v = 3 \<and> list_all (\<lambda>c. 65 \<le> c \<and> c \<le> 90) v"

fun is_object :: "json \<Rightarrow> bool" where
  "is_object (JObj _) = True"
| "is_object (JArr _) = True"
| "is_object _ = False"

fun on_string :: "(jstring \<Rightarrow> bool) \<Rightarrow> json \<Rightarrow> bool" where
  "on_string P (JStr s) = P s"
| "on_string P _ = False"

fun is_bool :: "json \<Rightarrow> bool" where
  "is_bool (JBool _) = True"
| "is_bool _ = False"

fun is_notice_days :: "json \<Rightarrow> bool" where
  "is_notice_days (JNum v) = (of_int \<lfloor>v\<rfloor> = v \<and> 0 \<le> v \<and> v \<le> 3650)"
| "is_notice_days _ = False"

definition isValidNormalizedSuggestionValue :: "string \<Rightarrow> json \<Rightarrow> bool" where
  "isValidNormalizedSuggestionValue fieldKey normalizedValue =
     (if \<not> is_object normalizedValue then False
      else
        let v = json_get normalizedValue ''value'' in
        if fieldKey \<in> {''startDate'', ''endDate'', ''signedDate''} then on_string matches_date v
        else if fieldKey = ''amount'' then on_string matches_amount v
        else if fieldKey = ''currency'' then on_string matches_currency v
        else if fieldKey = ''autoRenewal'' then is_bool v
        else if fieldKey = ''noticePeriodDays'' then is_notice_days v
        else if fieldKey = ''contractType'' then on_string (\<lambda>s. s \<in> set contract_types) v
        else if fieldKey \<in> {''title'', ''contractNumber'', ''governingLaw'', ''jurisdiction''}
        then on_string (\<lambda>s. length (js_trim s) > 0 \<and> length s \<le> 500) v
        else if fieldKey = ''counterpartyName''
        then on_string (\<lambda>s. length (js_trim s) > 0) (json_get normalizedValue ''name'')
        else False)"

section \<open>Tables\<close>

datatype extraction_stage = FILE_TEXT_EXTRACTION | CONTRACT_FIELD_EXTRACTION | READY_FOR_REVIEW

record extraction_job =
  ej_id :: string
  ej_organizationId :: string
  ej_contractId :: string
  ej_contractFileId :: string
  ej_status :: extraction_status
  ej_stage :: "extraction_stage option"
  ej_attempt :: nat
  ej_maxAttempts :: nat
  ej_extractorVersion :: string
  ej_inputChecksum :: string
  ej_lockedAt :: "time_ms option"
  ej_lockedBy :: "string option"
  ej_startedAt :: "time_ms option"
  ej_completedAt :: "time_ms option"
  ej_failedAt :: "time_ms option"
  ej_errorCode :: "string option"
  ej_warnings :: "string list"
  ej_contractUpdatedAtSnapshot :: "time_ms option"
  ej_createdById :: string
  ej_createdAt :: time_ms

datatype review_status = Review_PENDING | Review_ACCEPTED | Review_REJECTED | Review_EDITED

record field_suggestion =
  fs_id :: string
  fs_extractionJobId :: string
  fs_organizationId :: string
  fs_contractId :: string
  fs_fieldKey :: string
  fs_rawValue :: "jstring option"
  fs_normalizedValue :: json
  fs_confidence :: "real option"
  fs_sourceText :: "jstring option"
  fs_sourcePage :: "nat option"
  fs_reviewStatus :: review_status
  fs_reviewedValue :: json
  fs_reviewedById :: "string option"
  fs_reviewedAt :: "time_ms option"

record extracted_document =
  xd_id :: string
  xd_extractionJobId :: string
  xd_organizationId :: string
  xd_contractId :: string
  xd_contractFileId :: string
  xd_text :: jstring
  xd_characterCount :: nat
  xd_pageCount :: "nat option"
  xd_language :: "string option"
  xd_extractionMethod :: string
  xd_contentChecksum :: string

text \<open>A contract row: its keys, its time stamps, and its other columns by name.\<close>

record contract_row =
  ct_id :: string
  ct_organizationId :: string
  ct_deletedAt :: "time_ms option"
  ct_updatedAt :: time_ms
  ct_columns :: "string \<Rightarrow> json"

record contract_file =
  cf_id :: string
  cf_contractId :: string
  cf_organizationId :: string
  cf_deletedAt :: "time_ms option"
  cf_checksum :: string
  cf_storageProvider :: string
  cf_storageKey :: string
  cf_originalName :: string
  cf_mimeType :: string

record extraction_db = core_db +
  contracts :: "contract_row list"
  contract_files :: "contract_file list"
  counterparties :: "(string \<times> string) list"
  extraction_jobs :: "extraction_job list"
  field_suggestions :: "field_suggestion list"
  extracted_documents :: "extracted_document list"

section \<open>Repositories\<close>

definition findContractById :: "string \<Rightarrow> string \<Rightarrow> 'x extraction_db_scheme \<Rightarrow> contract_row option" where
  "findContractById org contractId db =
     find_row (\<lambda>c. ct_id c = contractId \<and> ct_organizationId c = org \<and> ct_deletedAt c = None) (contracts db)"

definition findContractFileById ::
  "string \<Rightarrow> string \<Rightarrow> string \<Rightarrow> 'x extraction_db_scheme \<Rightarrow> contract_file option" where
  "findContractFileById org contractId fileId db =
     find_row (\<lambda>f. cf_id f = fileId \<and> cf_contractId f = contractId \<and> cf_organizationId f = org \<and>
                   cf_deletedAt f = None) (contract_files db)"

definition findExtractionJobById ::
  "string \<Rightarrow> string \<Rightarrow> string \<Rightarrow> 'x extraction_db_scheme \<Rightarrow> extraction_job option" where
  "findExtractionJobById org contractId jobId db =
     find_row (\<lambda>j. ej_id j = jobId \<and> ej_contractId j = contractId \<and> ej_organizationId j = org)
       (extraction_jobs db)"

definition dedup_key :: "extraction_job \<Rightarrow> string \<times> string \<times> string" where
  "dedup_key j = (ej_contractFileId j, ej_inputChecksum j, ej_extractorVersion j)"

definition findExtractionJobByDedupKey ::
  "string \<Rightarrow> string \<Rightarrow> string \<Rightarrow> string \<Rightarrow> 'x extraction_db_scheme \<Rightarrow> extraction_job option" where
  "findExtractionJobByDedupKey org fileId checksum version db =
     (case find_row (\<lambda>j. dedup_key j = (fileId, checksum, version)) (extraction_jobs db) of
        None \<Rightarrow> None
      | Some row \<Rightarrow> if ej_organizationId row = org then Some row else None)"

text \<open>Inserting a job violates the unique index when the deduplication key exists (\<open>None\<close>).\<close>

definition insertExtractionJob ::
  "extraction_job \<Rightarrow> 'x extraction_db_scheme \<Rightarrow> 'x extraction_db_scheme option" where
  "insertExtractionJob job db =
     (if \<exists>j \<in> set (extraction_jobs db). dedup_key j = dedup_key job \<or> ej_id j = ej_id job then None
      else Some (db\<lparr>extraction_jobs := extraction_jobs db @ [job]\<rparr>))"

text \<open>\<open>update({ where: { id } })\<close> throws when there is no such row (\<open>None\<close>).\<close>

definition updateExtractionJob ::
  "string \<Rightarrow> (extraction_job \<Rightarrow> extraction_job) \<Rightarrow> 'x extraction_db_scheme \<Rightarrow> 'x extraction_db_scheme option"
where
  "updateExtractionJob jobId f db =
     (if \<exists>j \<in> set (extraction_jobs db). ej_id j = jobId
      then Some (db\<lparr>extraction_jobs := update_rows (\<lambda>j. ej_id j = jobId) f (extraction_jobs db)\<rparr>)
      else None)"

definition reset_to_pending :: "extraction_job \<Rightarrow> extraction_job" where
  "reset_to_pending j =
     j\<lparr>ej_status := PENDING, ej_stage := None, ej_errorCode := None, ej_failedAt := None,
       ej_lockedAt := None, ej_lockedBy := None\<rparr>"

definition resetExtractionJobToPending ::
  "string \<Rightarrow> 'x extraction_db_scheme \<Rightarrow> 'x extraction_db_scheme option" where
  "resetExtractionJobToPending jobId db = updateExtractionJob jobId reset_to_pending db"

definition claim_job :: "string \<Rightarrow> time_ms \<Rightarrow> extraction_job \<Rightarrow> extraction_job" where
  "claim_job workerId now j =
     j\<lparr>ej_status := PROCESSING, ej_stage := Some FILE_TEXT_EXTRACTION, ej_startedAt := Some now,
       ej_attempt := ej_attempt j + 1, ej_lockedAt := Some now, ej_lockedBy := Some workerId\<rparr>"

definition claimNextPendingJob ::
  "string \<Rightarrow> time_ms \<Rightarrow> 'x extraction_db_scheme \<Rightarrow> extraction_job option \<times> 'x extraction_db_scheme" where
  "claimNextPendingJob workerId now db =
     (case oldest_row (\<lambda>j. ej_status j = PENDING) ej_createdAt (extraction_jobs db) of
        None \<Rightarrow> (None, db)
      | Some j \<Rightarrow>
          (Some (claim_job workerId now j),
           db\<lparr>extraction_jobs :=
                update_rows (\<lambda>q. ej_id q = ej_id j) (claim_job workerId now) (extraction_jobs db)\<rparr>))"

definition findStaleProcessingJobs :: "time_ms \<Rightarrow> 'x extraction_db_scheme \<Rightarrow> extraction_job list" where
  "findStaleProcessingJobs staleBefore db =
     filter (\<lambda>j. ej_status j = PROCESSING \<and>
       (case ej_lockedAt j of None \<Rightarrow> False | Some t \<Rightarrow> t \<le> staleBefore)) (extraction_jobs db)"

definition deleteSuggestionsByJobId :: "string \<Rightarrow> 'x extraction_db_scheme \<Rightarrow> 'x extraction_db_scheme" where
  "deleteSuggestionsByJobId jobId db =
     db\<lparr>field_suggestions := delete_rows (\<lambda>s. fs_extractionJobId s = jobId) (field_suggestions db)\<rparr>"

text \<open>\<open>createMany\<close> violates the unique index on job and field when a field occurs twice (\<open>None\<close>).\<close>

definition createFieldSuggestions ::
  "field_suggestion list \<Rightarrow> 'x extraction_db_scheme \<Rightarrow> 'x extraction_db_scheme option" where
  "createFieldSuggestions rows db =
     (let key = (\<lambda>s. (fs_extractionJobId s, fs_fieldKey s)) in
      if distinct (map key rows) \<and> set (map key rows) \<inter> set (map key (field_suggestions db)) = {}
      then Some (db\<lparr>field_suggestions := field_suggestions db @ rows\<rparr>)
      else None)"

definition findSuggestionsByJobId ::
  "string \<Rightarrow> string \<Rightarrow> 'x extraction_db_scheme \<Rightarrow> field_suggestion list" where
  "findSuggestionsByJobId org jobId db =
     sort_key fs_fieldKey
       (filter (\<lambda>s. fs_extractionJobId s = jobId \<and> fs_organizationId s = org) (field_suggestions db))"

definition findSuggestionById ::
  "string \<Rightarrow> string \<Rightarrow> string \<Rightarrow> 'x extraction_db_scheme \<Rightarrow> field_suggestion option" where
  "findSuggestionById org jobId suggestionId db =
     find_row (\<lambda>s. fs_id s = suggestionId \<and> fs_extractionJobId s = jobId \<and> fs_organizationId s = org)
       (field_suggestions db)"

definition assertCounterpartyBelongsToOrganization ::
  "string \<Rightarrow> string \<Rightarrow> 'x extraction_db_scheme \<Rightarrow> bool" where
  "assertCounterpartyBelongsToOrganization counterpartyId org db \<longleftrightarrow>
     (counterpartyId, org) \<in> set (counterparties db)"

section \<open>Requesting an extraction\<close>

definition EXTRACTOR_VERSION :: string where
  "EXTRACTOR_VERSION = ''v1''"

definition audit_job ::
  "string option \<Rightarrow> string \<Rightarrow> extraction_job \<Rightarrow> 'x core_db_scheme \<Rightarrow> 'x core_db_scheme" where
  "audit_job user action j db =
     audit (ej_organizationId j) user ''ContractExtractionJob'' (ej_id j) action db"

text \<open>\<open>parsed\<close> is what \<open>createExtractionJobSchema\<close> made of the input (the file id); \<open>newId\<close> is the
  id the database generates for a created row.\<close>

definition createExtractionJob ::
  "nat \<Rightarrow> string \<Rightarrow> time_ms \<Rightarrow> string \<Rightarrow> string \<Rightarrow> string \<Rightarrow> string option \<Rightarrow> 'x extraction_db_scheme \<Rightarrow>
   (app_error + string) \<times> 'x extraction_db_scheme"
where
  "createExtractionJob maxAttempts newId now userId organizationId contractId parsed db =
     (case verifyOrganizationMembership userId organizationId db of
        Inl e \<Rightarrow> (Inl e, db)
      | Inr ctx \<Rightarrow>
     (case parsed of
        None \<Rightarrow> (Inl (ValidationError ''input''), db)
      | Some fileId \<Rightarrow>
     (case findContractById (ac_organizationId ctx) contractId db of
        None \<Rightarrow> (Inl NotFoundError, db)
      | Some contract \<Rightarrow>
     (case findContractFileById (ac_organizationId ctx) (ct_id contract) fileId db of
        None \<Rightarrow> (Inl NotFoundError, db)
      | Some file \<Rightarrow>
     (case findExtractionJobByDedupKey (ac_organizationId ctx) (cf_id file) (cf_checksum file)
             EXTRACTOR_VERSION db of
        None \<Rightarrow>
          let job = \<lparr>ej_id = newId, ej_organizationId = ac_organizationId ctx,
                     ej_contractId = ct_id contract, ej_contractFileId = cf_id file,
                     ej_status = PENDING, ej_stage = None, ej_attempt = 0,
                     ej_maxAttempts = maxAttempts, ej_extractorVersion = EXTRACTOR_VERSION,
                     ej_inputChecksum = cf_checksum file, ej_lockedAt = None, ej_lockedBy = None,
                     ej_startedAt = None, ej_completedAt = None, ej_failedAt = None,
                     ej_errorCode = None, ej_warnings = [], ej_contractUpdatedAtSnapshot = None,
                     ej_createdById = ac_userId ctx, ej_createdAt = now\<rparr>
          in (case insertExtractionJob job db of
                None \<Rightarrow> (Inl UnexpectedError, db)
              | Some db' \<Rightarrow>
                  (Inr newId, audit_job (Some (ac_userId ctx)) ''EXTRACTION_JOB_CREATED'' job db'))
      | Some existing \<Rightarrow>
          (case ej_status existing of
             PENDING \<Rightarrow> (Inl (ConflictError ''in progress''), db)
           | PROCESSING \<Rightarrow> (Inl (ConflictError ''in progress''), db)
           | REVIEW_REQUIRED \<Rightarrow> (Inl (ConflictError ''in progress''), db)
           | COMPLETED \<Rightarrow> (Inl (ConflictError ''completed''), db)
           | CANCELLED \<Rightarrow> (Inl (ConflictError ''cancelled''), db)
           | FAILED \<Rightarrow>
               if \<not> isRetryableExtractionError
                     (case ej_errorCode existing of None \<Rightarrow> '''' | Some c \<Rightarrow> c)
                     (ej_attempt existing) (ej_maxAttempts existing)
               then (Inl (ConflictError ''not retryable''), db)
               else (case resetExtractionJobToPending (ej_id existing) db of
                       None \<Rightarrow> (Inl UnexpectedError, db)
                     | Some db' \<Rightarrow>
                         (Inr (ej_id existing),
                          audit_job (Some (ac_userId ctx)) ''EXTRACTION_RETRY_REQUESTED'' existing db'))))))))"

section \<open>The worker\<close>

type_synonym bytes = "nat list"

record extracted_text =
  et_text :: jstring
  et_pageCount :: "nat option"
  et_language :: "string option"
  et_method :: string
  et_warnings :: "string list"

datatype extract_outcome =
  Ocr_Required | Unsupported_Format | Extractor_Throws | Extracted extracted_text

record extracted_field =
  xf_fieldKey :: string
  xf_rawValue :: "jstring option"
  xf_normalizedValue :: json
  xf_confidence :: "real option"
  xf_sourceText :: "jstring option"
  xf_sourcePage :: "nat option"

text \<open>What the field service gives after \<open>contractFieldExtractionResultSchema\<close>.\<close>

datatype service_outcome =
  Service_Throws | Invalid_Response | Field_Result "extracted_field list" "string list"

text \<open>The collaborators: \<open>w_getBuffer\<close> reads a storage key (\<open>None\<close> when it throws), \<open>w_checksum\<close> is
  the SHA-256 digest, \<open>w_utf8\<close> encodes a text, \<open>w_cuid\<close> gives the ids of created rows.\<close>

record worker_env =
  w_getBuffer :: "string \<Rightarrow> string \<Rightarrow> bytes option"
  w_checksum :: "bytes \<Rightarrow> string"
  w_utf8 :: "jstring \<Rightarrow> bytes"
  w_extract :: "bytes \<Rightarrow> string \<Rightarrow> string \<Rightarrow> extract_outcome"
  w_fields :: "jstring \<Rightarrow> service_outcome"
  w_cuid :: "nat \<Rightarrow> string"

definition fail_job :: "string \<Rightarrow> time_ms \<Rightarrow> extraction_job \<Rightarrow> extraction_job" where
  "fail_job errorCode now j =
     j\<lparr>ej_status := FAILED, ej_failedAt := Some now, ej_errorCode := Some errorCode,
       ej_lockedAt := None, ej_lockedBy := None\<rparr>"

text \<open>The Boolean says whether the operation returned (\<open>False\<close>: it threw).\<close>

definition failJob ::
  "time_ms \<Rightarrow> string \<Rightarrow> string \<Rightarrow> 'x extraction_db_scheme \<Rightarrow> bool \<times> 'x extraction_db_scheme" where
  "failJob now jobId errorCode db =
     (case updateExtractionJob jobId (fail_job errorCode now) db of
        None \<Rightarrow> (False, db)
      | Some db1 \<Rightarrow>
          (case find_row (\<lambda>j. ej_id j = jobId) (extraction_jobs db1) of
             None \<Rightarrow> (False, db1)
           | Some job \<Rightarrow> (True, audit_job None ''EXTRACTION_JOB_FAILED'' job db1)))"

text \<open>\<open>confidence.toFixed(2)\<close>: the nearest hundredth, the larger one when two are as near.\<close>

definition to_fixed2 :: "real \<Rightarrow> real" where
  "to_fixed2 x = of_int \<lfloor>x * 100 + 1 / 2\<rfloor> / 100"

definition suggestion_row :: "worker_env \<Rightarrow> extraction_job \<Rightarrow> nat \<Rightarrow> extracted_field \<Rightarrow> field_suggestion" where
  "suggestion_row env job i field =
     \<lparr>fs_id = w_cuid env i, fs_extractionJobId = ej_id job,
      fs_organizationId = ej_organizationId job, fs_contractId = ej_contractId job,
      fs_fieldKey = xf_fieldKey field, fs_rawValue = xf_rawValue field,
      fs_normalizedValue = xf_normalizedValue field,
      fs_confidence = map_option to_fixed2 (xf_confidence field),
      fs_sourceText = xf_sourceText field, fs_sourcePage = xf_sourcePage field,
      fs_reviewStatus = Review_PENDING, fs_reviewedValue = JNull, fs_reviewedById = None,
      fs_reviewedAt = None\<rparr>"

definition suggestion_rows :: "worker_env \<Rightarrow> extraction_job \<Rightarrow> extracted_field list \<Rightarrow> field_suggestion list" where
  "suggestion_rows env job xfields =
     (let kept = filter (\<lambda>f. isValidNormalizedSuggestionValue (xf_fieldKey f) (xf_normalizedValue f)) xfields
      in map (\<lambda>(i, f). suggestion_row env job i f) (enumerate 1 kept))"

definition review_job ::
  "time_ms \<Rightarrow> time_ms \<Rightarrow> string list \<Rightarrow> extraction_job \<Rightarrow> extraction_job" where
  "review_job now contractUpdatedAt warnings j =
     j\<lparr>ej_status := REVIEW_REQUIRED, ej_stage := Some READY_FOR_REVIEW, ej_completedAt := Some now,
       ej_contractUpdatedAtSnapshot := Some contractUpdatedAt, ej_warnings := warnings,
       ej_lockedAt := None, ej_lockedBy := None\<rparr>"

text \<open>The closing transaction; \<open>None\<close> when one of its statements throws and all are rolled back.\<close>

definition storeExtraction ::
  "worker_env \<Rightarrow> time_ms \<Rightarrow> extraction_job \<Rightarrow> contract_row \<Rightarrow> extracted_text \<Rightarrow> extracted_field list \<Rightarrow>
   string list \<Rightarrow> 'x extraction_db_scheme \<Rightarrow> 'x extraction_db_scheme option"
where
  "storeExtraction env now job contract extracted xfields warnings db =
     (let db1 = deleteSuggestionsByJobId (ej_id job) db;
          db2 = db1\<lparr>extracted_documents :=
                  delete_rows (\<lambda>d. xd_extractionJobId d = ej_id job) (extracted_documents db1)\<rparr>;
          document = \<lparr>xd_id = w_cuid env 0, xd_extractionJobId = ej_id job,
             xd_organizationId = ej_organizationId job, xd_contractId = ej_contractId job,
             xd_contractFileId = ej_contractFileId job, xd_text = et_text extracted,
             xd_characterCount = length (et_text extracted), xd_pageCount = et_pageCount extracted,
             xd_language = et_language extracted, xd_extractionMethod = et_method extracted,
             xd_contentChecksum = w_checksum env (w_utf8 env (et_text extracted))\<rparr>;
          db3 = db2\<lparr>extracted_documents := extracted_documents db2 @ [document]\<rparr>
      in case createFieldSuggestions (suggestion_rows env job xfields) db3 of
           None \<Rightarrow> None
         | Some db4 \<Rightarrow>
             (case updateExtractionJob (ej_id job)
                     (review_job now (ct_updatedAt contract) (et_warnings extracted @ warnings)) db4 of
                None \<Rightarrow> None
              | Some db5 \<Rightarrow> Some (audit_job None ''EXTRACTION_REVIEW_REQUIRED'' job db5)))"

definition set_stage :: "extraction_stage \<Rightarrow> extraction_job \<Rightarrow> extraction_job" where
  "set_stage st j = j\<lparr>ej_stage := Some st\<rparr>"

definition runClaimedJob ::
  "worker_env \<Rightarrow> time_ms \<Rightarrow> extraction_job \<Rightarrow> 'x extraction_db_scheme \<Rightarrow> bool \<times> 'x extraction_db_scheme" where
  "runClaimedJob env now job db =
     (let contract = findContractById (ej_organizationId job) (ej_contractId job) db;
          file = (case contract of None \<Rightarrow> None
                  | Some _ \<Rightarrow> findContractFileById (ej_organizationId job) (ej_contractId job)
                                (ej_contractFileId job) db)
      in case (contract, file) of
           (Some ct, Some f) \<Rightarrow>
             (case w_getBuffer env (cf_storageProvider f) (cf_storageKey f) of
                None \<Rightarrow> failJob now (ej_id job) ''FILE_NOT_FOUND'' db
              | Some buffer \<Rightarrow>
                  if w_checksum env buffer \<noteq> ej_inputChecksum job
                  then failJob now (ej_id job) ''CHECKSUM_MISMATCH'' db
                  else
                    (case w_extract env buffer (cf_originalName f) (cf_mimeType f) of
                       Ocr_Required \<Rightarrow> failJob now (ej_id job) ''OCR_REQUIRED'' db
                     | Unsupported_Format \<Rightarrow> failJob now (ej_id job) ''UNSUPPORTED_FORMAT'' db
                     | Extractor_Throws \<Rightarrow> failJob now (ej_id job) ''TEXT_EXTRACTION_FAILED'' db
                     | Extracted extracted \<Rightarrow>
                         (case updateExtractionJob (ej_id job) (set_stage CONTRACT_FIELD_EXTRACTION) db of
                            None \<Rightarrow> (False, db)
                          | Some db1 \<Rightarrow>
                              (case w_fields env (et_text extracted) of
                                 Service_Throws \<Rightarrow> failJob now (ej_id job) ''FIELD_EXTRACTION_FAILED'' db1
                               | Invalid_Response \<Rightarrow> failJob now (ej_id job) ''INVALID_PROVIDER_RESPONSE'' db1
                               | Field_Result xfields warnings \<Rightarrow>
                                   (case storeExtraction env now job ct extracted xfields warnings db1 of
                                      None \<Rightarrow> (False, db1)
                                    | Some db2 \<Rightarrow> (True, db2))))))
         | _ \<Rightarrow> failJob now (ej_id job) ''FILE_NOT_FOUND'' db)"

text \<open>The result is the job processed, if any; \<open>Inl\<close> is a throw.\<close>

definition processNextExtractionJob ::
  "worker_env \<Rightarrow> string \<Rightarrow> time_ms \<Rightarrow> 'x extraction_db_scheme \<Rightarrow>
   (app_error + string option) \<times> 'x extraction_db_scheme"
where
  "processNextExtractionJob env workerId now db =
     (case claimNextPendingJob workerId now db of
        (None, db1) \<Rightarrow> (Inr None, db1)
      | (Some job, db1) \<Rightarrow>
          (let (returned, db2) = runClaimedJob env now job db1
           in (if returned then Inr (Some (ej_id job)) else Inl UnexpectedError, db2)))"

section \<open>Recovery of stale jobs\<close>

definition recoverStaleJob ::
  "time_ms \<Rightarrow> extraction_job \<Rightarrow> 'x extraction_db_scheme \<Rightarrow> 'x extraction_db_scheme option" where
  "recoverStaleJob now job db =
     (if isRetryableExtractionError '''' (ej_attempt job) (ej_maxAttempts job)
      then map_option (audit_job None ''EXTRACTION_RETRY_REQUESTED'' job)
             (resetExtractionJobToPending (ej_id job) db)
      else map_option (audit_job None ''EXTRACTION_JOB_FAILED'' job)
             (updateExtractionJob (ej_id job) (fail_job ''MAX_ATTEMPTS_REACHED'' now) db))"

text \<open>The loop over the stale jobs read at the start. The counts are recovered and failed; a throw
  stops the loop and keeps the transactions already committed.\<close>

fun recover_loop ::
  "time_ms \<Rightarrow> extraction_job list \<Rightarrow> nat \<Rightarrow> nat \<Rightarrow> 'x extraction_db_scheme \<Rightarrow>
   (app_error + nat \<times> nat) \<times> 'x extraction_db_scheme"
where
  "recover_loop now [] recovered failed db = (Inr (recovered, failed), db)"
| "recover_loop now (job # jobs) recovered failed db =
     (case recoverStaleJob now job db of
        None \<Rightarrow> (Inl UnexpectedError, db)
      | Some db' \<Rightarrow>
          if isRetryableExtractionError '''' (ej_attempt job) (ej_maxAttempts job)
          then recover_loop now jobs (recovered + 1) failed db'
          else recover_loop now jobs recovered (failed + 1) db')"

definition recoverStaleExtractionJobs ::
  "nat \<Rightarrow> time_ms \<Rightarrow> 'x extraction_db_scheme \<Rightarrow>
   (app_error + nat \<times> nat \<times> nat) \<times> 'x extraction_db_scheme"
where
  "recoverStaleExtractionJobs staleMinutes now db =
     (let staleBefore = now - int staleMinutes * 60 * 1000;
          staleJobs = findStaleProcessingJobs staleBefore db;
          (r, db') = recover_loop now staleJobs 0 0 db
      in (case r of Inl e \<Rightarrow> Inl e | Inr (recovered, failed) \<Rightarrow> Inr (length staleJobs, recovered, failed),
          db'))"

section \<open>Reviewing a suggestion\<close>

datatype review_action = ACCEPT | REJECT | EDIT

definition updateSuggestionReview ::
  "string \<Rightarrow> string \<Rightarrow> review_status \<Rightarrow> json \<Rightarrow> string \<Rightarrow> time_ms \<Rightarrow> 'x extraction_db_scheme \<Rightarrow>
   field_suggestion option \<times> 'x extraction_db_scheme"
where
  "updateSuggestionReview org suggestionId status reviewedValue userId now db =
     (let match = (\<lambda>s. fs_id s = suggestionId \<and> fs_organizationId s = org);
          db' = db\<lparr>field_suggestions := update_rows match
             (\<lambda>s. s\<lparr>fs_reviewStatus := status, fs_reviewedValue := reviewedValue,
                     fs_reviewedById := Some userId, fs_reviewedAt := Some now\<rparr>) (field_suggestions db)\<rparr>
      in if count_rows match (field_suggestions db) = 0 then (None, db)
         else (find_row (\<lambda>s. fs_id s = suggestionId) (field_suggestions db'), db'))"

fun string_property :: "json \<Rightarrow> jstring option" where
  "string_property (JStr s) = Some s"
| "string_property _ = None"

text \<open>The review status and value to store, or the error the guards throw. A counterparty id is
  compared with the ids of the organization's counterparties as a string.\<close>

definition review_decision ::
  "(jstring \<Rightarrow> string) \<Rightarrow> string \<Rightarrow> review_action \<Rightarrow> json \<Rightarrow> field_suggestion \<Rightarrow> 'x extraction_db_scheme \<Rightarrow>
   app_error + review_status \<times> json"
where
  "review_decision id_of org act reviewedValue suggestion db =
     (if fs_fieldKey suggestion = ''counterpartyName''
      then (case act of
              ACCEPT \<Rightarrow> Inl (ValidationError ''counterparty cannot be accepted'')
            | REJECT \<Rightarrow> Inr (Review_REJECTED, JNull)
            | EDIT \<Rightarrow>
                (case string_property (json_get reviewedValue ''counterpartyId'') of
                   None \<Rightarrow> Inl (ValidationError ''choose a counterparty'')
                 | Some cid \<Rightarrow>
                     if cid = [] then Inl (ValidationError ''choose a counterparty'')
                     else if \<not> assertCounterpartyBelongsToOrganization (id_of cid) org db
                     then Inl (ValidationError ''counterparty not found'')
                     else Inr (Review_EDITED, JObj [(''counterpartyId'', JStr cid)])))
      else (case act of
              ACCEPT \<Rightarrow> Inr (Review_ACCEPTED, JNull)
            | REJECT \<Rightarrow> Inr (Review_REJECTED, JNull)
            | EDIT \<Rightarrow>
                if \<not> isValidNormalizedSuggestionValue (fs_fieldKey suggestion) reviewedValue
                then Inl (ValidationError ''value shape'')
                else Inr (Review_EDITED, reviewedValue)))"

definition reviewSuggestion ::
  "(jstring \<Rightarrow> string) \<Rightarrow> time_ms \<Rightarrow> string \<Rightarrow> string \<Rightarrow> string \<Rightarrow> string \<Rightarrow> string \<Rightarrow>
   (review_action \<times> json) option \<Rightarrow> 'x extraction_db_scheme \<Rightarrow> (app_error + unit) \<times> 'x extraction_db_scheme"
where
  "reviewSuggestion id_of now userId organizationId contractId jobId suggestionId parsed db =
     (case verifyOrganizationMembership userId organizationId db of
        Inl e \<Rightarrow> (Inl e, db)
      | Inr ctx \<Rightarrow>
     (case parsed of
        None \<Rightarrow> (Inl (ValidationError ''input''), db)
      | Some (act, reviewedValue) \<Rightarrow>
     (case findExtractionJobById (ac_organizationId ctx) contractId jobId db of
        None \<Rightarrow> (Inl NotFoundError, db)
      | Some job \<Rightarrow>
     if ej_status job \<noteq> REVIEW_REQUIRED then (Inl (ConflictError ''not in review''), db)
     else
     (case findSuggestionById (ac_organizationId ctx) (ej_id job) suggestionId db of
        None \<Rightarrow> (Inl NotFoundError, db)
      | Some suggestion \<Rightarrow>
     (case review_decision id_of (ac_organizationId ctx) act reviewedValue suggestion db of
        Inl e \<Rightarrow> (Inl e, db)
      | Inr (status, value) \<Rightarrow>
     (case updateSuggestionReview (ac_organizationId ctx) (fs_id suggestion) status value
             (ac_userId ctx) now db of
        (None, _) \<Rightarrow> (Inl NotFoundError, db)
      | (Some updated, db') \<Rightarrow>
          (Inr (), audit (ac_organizationId ctx) (Some (ac_userId ctx)) ''ContractFieldSuggestion''
                     (fs_id updated) ''EXTRACTION_SUGGESTION_REVIEWED'' db')))))))"

section \<open>Applying the approved suggestions\<close>

definition extractSuggestionValue :: "field_suggestion \<Rightarrow> json" where
  "extractSuggestionValue s =
     (if fs_reviewStatus s = Review_EDITED then fs_reviewedValue s else fs_normalizedValue s)"

definition or_default :: "json \<Rightarrow> json \<Rightarrow> json" where
  "or_default v d = (if v = JNull \<or> v = JUndefined then d else v)"

definition contract_payload :: "contract_row \<Rightarrow> string \<Rightarrow> json" where
  "contract_payload contract k =
     (if k \<in> {''title'', ''contractType'', ''status'', ''autoRenewal''} then ct_columns contract k
      else if k \<in> {''contractNumber'', ''startDate'', ''endDate'', ''signedDate'',
                   ''noticePeriodDays'', ''amount'', ''governingLaw'', ''jurisdiction'',
                   ''description'', ''counterpartyId''}
      then or_default (ct_columns contract k) (JStr [])
      else if k = ''currency'' then or_default (ct_columns contract k) (JStr (asc ''KRW''))
      else JUndefined)"

definition applicable_fields :: "string set" where
  "applicable_fields =
     {''title'', ''contractNumber'', ''contractType'', ''startDate'', ''endDate'', ''signedDate'',
      ''autoRenewal'', ''noticePeriodDays'', ''amount'', ''currency'', ''governingLaw'', ''jurisdiction''}"

fun merge_suggestions ::
  "(jstring \<Rightarrow> string) \<Rightarrow> string \<Rightarrow> 'x extraction_db_scheme \<Rightarrow> field_suggestion list \<Rightarrow>
   (string \<Rightarrow> json) \<Rightarrow> string list \<Rightarrow> app_error + (string \<Rightarrow> json) \<times> string list"
where
  "merge_suggestions id_of org db [] payload keys = Inr (payload, keys)"
| "merge_suggestions id_of org db (s # ss) payload keys =
     (let v = extractSuggestionValue s in
      if fs_fieldKey s = ''counterpartyName''
      then (case json_get v ''counterpartyId'' of
              JStr cid \<Rightarrow>
                if \<not> assertCounterpartyBelongsToOrganization (id_of cid) org db
                then Inl (ValidationError ''counterparty not found'')
                else merge_suggestions id_of org db ss (payload(''counterpartyId'' := JStr cid))
                       (keys @ [''counterpartyId''])
            | _ \<Rightarrow> merge_suggestions id_of org db ss payload keys)
      else if json_get v ''value'' = JUndefined then merge_suggestions id_of org db ss payload keys
      else if fs_fieldKey s \<in> applicable_fields
      then merge_suggestions id_of org db ss (payload(fs_fieldKey s := json_get v ''value''))
             (keys @ [fs_fieldKey s])
      else merge_suggestions id_of org db ss payload keys)"

text \<open>The columns the transaction writes from the schema's output (\<open>undefined\<close> is \<open>JUndefined\<close>).\<close>

definition contract_update :: "(string \<Rightarrow> json) \<Rightarrow> (string \<Rightarrow> json) \<Rightarrow> string \<Rightarrow> json" where
  "contract_update data old k =
     (if k \<in> {''title'', ''contractType'', ''status'', ''autoRenewal'', ''currency''} then data k
      else if k \<in> {''contractNumber'', ''startDate'', ''endDate'', ''signedDate'',
                   ''noticePeriodDays'', ''governingLaw'', ''jurisdiction'', ''description'',
                   ''counterpartyId''}
      then or_default (data k) JNull
      else if k = ''amount''
      then (if data k = JStr [] then JNull else or_default (data k) JNull)
      else old k)"

definition updateContract ::
  "time_ms \<Rightarrow> string \<Rightarrow> string \<Rightarrow> (string \<Rightarrow> json) \<Rightarrow> 'x extraction_db_scheme \<Rightarrow> 'x extraction_db_scheme option"
where
  "updateContract now org contractId data db =
     (let match = (\<lambda>c. ct_id c = contractId \<and> ct_organizationId c = org \<and> ct_deletedAt c = None) in
      if count_rows match (contracts db) = 0 then None
      else Some (db\<lparr>contracts := update_rows match
             (\<lambda>c. c\<lparr>ct_updatedAt := now, ct_columns := contract_update data (ct_columns c)\<rparr>)
             (contracts db)\<rparr>))"

definition complete_job :: "time_ms \<Rightarrow> extraction_job \<Rightarrow> extraction_job" where
  "complete_job now j = j\<lparr>ej_status := COMPLETED, ej_completedAt := Some now\<rparr>"

text \<open>\<open>schema\<close> is \<open>updateContractSchema.safeParse\<close>, the schema of the contract form.\<close>

definition applyApprovedSuggestions ::
  "((string \<Rightarrow> json) \<Rightarrow> (string \<Rightarrow> json) option) \<Rightarrow> (jstring \<Rightarrow> string) \<Rightarrow> time_ms \<Rightarrow> string \<Rightarrow> string \<Rightarrow>
   string \<Rightarrow> string \<Rightarrow> 'x extraction_db_scheme \<Rightarrow> (app_error + nat) \<times> 'x extraction_db_scheme"
where
  "applyApprovedSuggestions schema id_of now userId organizationId contractId jobId db =
     (case verifyOrganizationMembership userId organizationId db of
        Inl e \<Rightarrow> (Inl e, db)
      | Inr ctx \<Rightarrow>
     (case findExtractionJobById (ac_organizationId ctx) contractId jobId db of
        None \<Rightarrow> (Inl NotFoundError, db)
      | Some job \<Rightarrow>
     if ej_status job \<noteq> REVIEW_REQUIRED then (Inl (ConflictError ''not in review''), db)
     else
     (case findContractById (ac_organizationId ctx) (ej_contractId job) db of
        None \<Rightarrow> (Inl NotFoundError, db)
      | Some contract \<Rightarrow>
     if hasContractChangedSinceExtraction (ct_updatedAt contract) (ej_contractUpdatedAtSnapshot job)
     then (Inl (ConflictError ''contract changed''), db)
     else
       let suggestions = findSuggestionsByJobId (ac_organizationId ctx) (ej_id job) db;
           applicable = filter (\<lambda>s. fs_reviewStatus s = Review_ACCEPTED \<or> fs_reviewStatus s = Review_EDITED)
             suggestions
       in (case merge_suggestions id_of (ac_organizationId ctx) db applicable
                  (contract_payload contract) [] of
             Inl e \<Rightarrow> (Inl e, db)
           | Inr (payload, keys) \<Rightarrow>
               if keys = [] then (Inl (ValidationError ''nothing to apply''), db)
               else
                 (case schema payload of
                    None \<Rightarrow> (Inl (ValidationError ''contract schema''), db)
                  | Some data \<Rightarrow>
                      (case updateContract now (ac_organizationId ctx) (ct_id contract) data db of
                         None \<Rightarrow> (Inl NotFoundError, db)
                       | Some db1 \<Rightarrow>
                           (case updateExtractionJob (ej_id job) (complete_job now) db1 of
                              None \<Rightarrow> (Inl UnexpectedError, db)
                            | Some db2 \<Rightarrow>
                                (Inr (length keys),
                                 audit (ac_organizationId ctx) (Some (ac_userId ctx)) ''Contract''
                                   (ct_id contract) ''EXTRACTION_APPLIED'' db2))))))))"

section \<open>How the operations move the jobs\<close>

text \<open>Every operation keeps a job's identity, its attempts (a claim apart) and its limit; \<open>moves ok\<close>
  says its status stayed or took a step of \<open>ok\<close>, and that it only became claimable again with
  attempts left.\<close>

definition keeps_job :: "extraction_job \<Rightarrow> extraction_job \<Rightarrow> bool" where
  "keeps_job j j' \<longleftrightarrow>
     ej_id j' = ej_id j \<and> dedup_key j' = dedup_key j \<and> ej_organizationId j' = ej_organizationId j \<and>
     ej_maxAttempts j' = ej_maxAttempts j \<and> ej_attempt j' = ej_attempt j"

definition moves ::
  "(extraction_status \<Rightarrow> extraction_status \<Rightarrow> bool) \<Rightarrow> extraction_job \<Rightarrow> extraction_job \<Rightarrow> bool" where
  "moves ok j j' \<longleftrightarrow>
     keeps_job j j' \<and>
     (ej_status j' = ej_status j \<or>
      ok (ej_status j) (ej_status j') \<and>
      (ej_status j' = PENDING \<longrightarrow> ej_attempt j < ej_maxAttempts j))"

definition jobs_ok :: "extraction_job list \<Rightarrow> bool" where
  "jobs_ok js \<longleftrightarrow>
     distinct (map ej_id js) \<and> distinct (map dedup_key js) \<and>
     (\<forall>j \<in> set js. ej_attempt j \<le> ej_maxAttempts j \<and>
        (ej_status j = PENDING \<longrightarrow> ej_attempt j < ej_maxAttempts j))"

text \<open>The transitions of the table, and the one that recovery makes beyond it.\<close>

definition recovery_transition :: "extraction_status \<Rightarrow> extraction_status \<Rightarrow> bool" where
  "recovery_transition a b \<longleftrightarrow> a = PROCESSING \<and> b \<in> {PENDING, FAILED}"

lemma moves_refl [simp]: "moves ok j j"
  by (simp add: moves_def keeps_job_def)

lemma all2_moves_refl [simp]: "list_all2 (moves ok) js js"
  by (rule list_all2_refl) simp

lemma all2_moves_update:
  "(\<And>j. j \<in> set js \<Longrightarrow> P j \<Longrightarrow> moves ok j (f j)) \<Longrightarrow> list_all2 (moves ok) js (update_rows P f js)"
  by (induction js) (simp_all add: update_rows_def)

lemma all2_map_eq: "list_all2 R xs ys \<Longrightarrow> (\<And>x y. R x y \<Longrightarrow> g y = g x) \<Longrightarrow> map g ys = map g xs"
  by (induction rule: list_all2_induct) auto

lemma moves_jobs_ok:
  assumes "list_all2 (moves ok) js js'" "jobs_ok js"
  shows "jobs_ok js'"
proof -
  have "map ej_id js' = map ej_id js" "map dedup_key js' = map dedup_key js"
    using assms(1) by (auto intro!: all2_map_eq simp: moves_def keeps_job_def)
  moreover have "ej_attempt j' \<le> ej_maxAttempts j' \<and> (ej_status j' = PENDING \<longrightarrow> ej_attempt j' < ej_maxAttempts j')"
    if j': "j' \<in> set js'" for j'
  proof -
    from assms(1) j' obtain j where "j \<in> set js" "moves ok j j'"
      by (metis list_all2_conv_all_nth in_set_conv_nth)
    with assms(2) show ?thesis by (auto simp: jobs_ok_def moves_def keeps_job_def)
  qed
  ultimately show ?thesis using assms(2) by (auto simp: jobs_ok_def)
qed

lemma find_moves:
  "list_all2 (moves ok) js js' \<Longrightarrow> find_row (\<lambda>j. ej_id j = i) js = Some j \<Longrightarrow>
   \<exists>j'. find_row (\<lambda>j. ej_id j = i) js' = Some j' \<and> moves ok j j'"
  by (induction rule: list_all2_induct) (auto simp: find_row_Cons moves_def keeps_job_def split: if_splits)

lemma all2_moves_mono:
  "list_all2 (moves ok) js js' \<Longrightarrow> (\<And>a b. ok a b \<Longrightarrow> ok' a b) \<Longrightarrow> list_all2 (moves ok') js js'"
  by (erule list_all2_mono) (auto simp: moves_def)

lemma update_rows_compose:
  "(\<And>r. P (g r) = P r) \<Longrightarrow> update_rows P f (update_rows P g rows) = update_rows P (\<lambda>r. f (g r)) rows"
  by (simp add: update_rows_def)

lemma keeps_changes [simp]:
  "keeps_job j (fail_job code now j)" "keeps_job j (set_stage st j)" "keeps_job j (reset_to_pending j)"
  "keeps_job j (review_job now t ws j)" "keeps_job j (complete_job now j)" "keeps_job j j"
  "keeps_job j (fail_job code now (set_stage st j))" "keeps_job j (review_job now t ws (set_stage st j))"
  by (simp_all add: keeps_job_def fail_job_def set_stage_def reset_to_pending_def review_job_def
      complete_job_def dedup_key_def)

lemma status_changes [simp]:
  "ej_status (fail_job code now j) = FAILED" "ej_status (set_stage st j) = ej_status j"
  "ej_status (reset_to_pending j) = PENDING" "ej_status (review_job now t ws j) = REVIEW_REQUIRED"
  "ej_status (complete_job now j) = COMPLETED" "ej_id (set_stage st j) = ej_id j"
  by (simp_all add: fail_job_def set_stage_def reset_to_pending_def review_job_def complete_job_def)

lemma jobs_audit [simp]:
  "extraction_jobs (audit o' u et ei a db) = extraction_jobs db"
  "extraction_jobs (audit_job u a j db) = extraction_jobs db"
  "contracts (audit o' u et ei a db) = contracts db" "contracts (audit_job u a j db) = contracts db"
  "field_suggestions (audit o' u et ei a db) = field_suggestions db"
  "field_suggestions (audit_job u a j db) = field_suggestions db"
  "extracted_documents (audit_job u a j db) = extracted_documents db"
  by (simp_all add: audit_def audit_job_def)

lemma updateExtractionJob_Some:
  "updateExtractionJob i f db = Some db' \<longleftrightarrow>
   (\<exists>j \<in> set (extraction_jobs db). ej_id j = i) \<and>
   db' = db\<lparr>extraction_jobs := update_rows (\<lambda>j. ej_id j = i) f (extraction_jobs db)\<rparr>"
  by (auto simp: updateExtractionJob_def)

lemma failJob_jobs:
  "\<exists>f \<in> {\<lambda>j. j, fail_job code now}.
     extraction_jobs (snd (failJob now i code db)) =
       update_rows (\<lambda>j. ej_id j = i) f (extraction_jobs db)"
  by (auto simp: failJob_def updateExtractionJob_def update_rows_def split: option.split)

lemma createFieldSuggestions_jobs:
  "createFieldSuggestions rows db = Some db' \<Longrightarrow> extraction_jobs db' = extraction_jobs db"
  by (auto simp: createFieldSuggestions_def Let_def split: if_splits)

lemma storeExtraction_jobs:
  "storeExtraction env now job ct et fs ws db = Some db' \<Longrightarrow>
   extraction_jobs db' = update_rows (\<lambda>j. ej_id j = ej_id job)
     (review_job now (ct_updatedAt ct) (et_warnings et @ ws)) (extraction_jobs db)"
  by (auto simp: storeExtraction_def Let_def updateExtractionJob_Some deleteSuggestionsByJobId_def
      dest!: createFieldSuggestions_jobs split: option.splits)

text \<open>A run of the worker changes one row, its own job's, and ends it where it was, failed, or up for
  review.\<close>

definition own_row_run ::
  "extraction_job \<Rightarrow> extraction_job list \<Rightarrow> extraction_job list \<Rightarrow> bool" where
  "own_row_run job js js' \<longleftrightarrow>
     (\<exists>f. js' = update_rows (\<lambda>j. ej_id j = ej_id job) f js \<and>
          (\<forall>j. keeps_job j (f j) \<and> ej_status (f j) \<in> {ej_status j, FAILED, REVIEW_REQUIRED}))"

lemma own_row_runI:
  "(\<And>j. keeps_job j (f j) \<and> ej_status (f j) \<in> {ej_status j, FAILED, REVIEW_REQUIRED}) \<Longrightarrow>
   own_row_run job js (update_rows (\<lambda>j. ej_id j = ej_id job) f js)"
  by (auto simp: own_row_run_def)

lemma own_row_run_refl: "own_row_run job js js"
  using own_row_runI [of "\<lambda>j. j" job js] by (simp add: update_rows_def)

lemma own_row_run_fail: "own_row_run job (extraction_jobs db) (extraction_jobs (snd (failJob now (ej_id job) code db)))"
proof -
  obtain f where f: "f \<in> {\<lambda>j. j, fail_job code now}"
    "extraction_jobs (snd (failJob now (ej_id job) code db)) =
       update_rows (\<lambda>j. ej_id j = ej_id job) f (extraction_jobs db)"
    using failJob_jobs by blast
  show ?thesis unfolding f(2) by (rule own_row_runI) (use f(1) in auto)
qed

lemma own_row_run_staged:
  assumes "own_row_run job (update_rows (\<lambda>j. ej_id j = ej_id job) (set_stage st) js) js'"
  shows "own_row_run job js js'"
proof -
  obtain f where f: "js' = update_rows (\<lambda>j. ej_id j = ej_id job) (\<lambda>j. f (set_stage st j)) js"
    "\<forall>j. keeps_job j (f j) \<and> ej_status (f j) \<in> {ej_status j, FAILED, REVIEW_REQUIRED}"
    using assms by (auto simp: own_row_run_def update_rows_compose)
  show ?thesis unfolding f(1)
  proof (rule own_row_runI)
    fix j
    from f(2) [rule_format, of "set_stage st j"]
    show "keeps_job j (f (set_stage st j)) \<and> ej_status (f (set_stage st j)) \<in> {ej_status j, FAILED, REVIEW_REQUIRED}"
      by (auto simp: keeps_job_def set_stage_def dedup_key_def)
  qed
qed

lemma own_row_run_store:
  "storeExtraction env now job ct et fs ws db = Some db' \<Longrightarrow>
   own_row_run job (extraction_jobs db) (extraction_jobs db')"
  by (simp only: storeExtraction_jobs, rule own_row_runI) simp

lemma runClaimedJob_jobs:
  "own_row_run job (extraction_jobs db) (extraction_jobs (snd (runClaimedJob env now job db)))"
proof -
  let ?db1 = "db\<lparr>extraction_jobs := update_rows (\<lambda>j. ej_id j = ej_id job)
      (set_stage CONTRACT_FIELD_EXTRACTION) (extraction_jobs db)\<rparr>"
  have staged: "own_row_run job (extraction_jobs db) js'" if "own_row_run job (extraction_jobs ?db1) js'" for js'
    by (rule own_row_run_staged [of job CONTRACT_FIELD_EXTRACTION]) (use that in simp)
  have stage: "own_row_run job (extraction_jobs db) (extraction_jobs ?db1)"
    by (rule staged) (rule own_row_run_refl)
  have stored: "own_row_run job (extraction_jobs db) (extraction_jobs db2)"
    if "storeExtraction env now job ct et fs ws ?db1 = Some db2" for ct et fs ws db2
    by (rule staged) (rule own_row_run_store [OF that])
  have failed: "own_row_run job (extraction_jobs db) (extraction_jobs (snd (failJob now (ej_id job) code ?db1)))"
    for code
    by (rule staged) (rule own_row_run_fail)
  have present: "own_row_run job (extraction_jobs db) (extraction_jobs (snd
      (case updateExtractionJob (ej_id job) (set_stage CONTRACT_FIELD_EXTRACTION) db of
         None \<Rightarrow> (False, db)
       | Some db1 \<Rightarrow>
           (case w_fields env (et_text et) of
              Service_Throws \<Rightarrow> failJob now (ej_id job) ''FIELD_EXTRACTION_FAILED'' db1
            | Invalid_Response \<Rightarrow> failJob now (ej_id job) ''INVALID_PROVIDER_RESPONSE'' db1
            | Field_Result xfields warnings \<Rightarrow>
                (case storeExtraction env now job ct et xfields warnings db1 of
                   None \<Rightarrow> (False, db1) | Some db2 \<Rightarrow> (True, db2))))))" for et ct
  proof (cases "updateExtractionJob (ej_id job) (set_stage CONTRACT_FIELD_EXTRACTION) db")
    case None
    then show ?thesis by (simp add: own_row_run_refl)
  next
    case (Some db1)
    then have db1: "db1 = ?db1" by (simp add: updateExtractionJob_Some)
    show ?thesis
    proof (cases "w_fields env (et_text et)")
      case (Field_Result xfields warnings)
      with Some stored [of ct et xfields warnings] stage show ?thesis
        by (cases "storeExtraction env now job ct et xfields warnings db1") (simp_all add: db1)
    qed (use Some failed in \<open>simp_all add: db1\<close>)
  qed
  show ?thesis
  proof (cases "findContractById (ej_organizationId job) (ej_contractId job) db")
    case None
    then show ?thesis by (simp add: runClaimedJob_def own_row_run_fail)
  next
    case (Some ct)
    note ct = this
    show ?thesis
    proof (cases "findContractFileById (ej_organizationId job) (ej_contractId job) (ej_contractFileId job) db")
      case None
      with ct show ?thesis by (simp add: runClaimedJob_def own_row_run_fail)
    next
      case (Some f)
      show ?thesis
      proof (cases "w_getBuffer env (cf_storageProvider f) (cf_storageKey f)")
        case None
        with ct Some show ?thesis by (simp add: runClaimedJob_def own_row_run_fail)
      next
        case (Some buffer)
        with ct \<open>findContractFileById _ _ _ db = Some f\<close> show ?thesis
          by (cases "w_extract env buffer (cf_originalName f) (cf_mimeType f)")
            (simp_all add: runClaimedJob_def own_row_run_fail present)
      qed
    qed
  qed
qed

lemma jobs_ok_same: "jobs_ok js \<Longrightarrow> j \<in> set js \<Longrightarrow> q \<in> set js \<Longrightarrow> ej_id j = ej_id q \<Longrightarrow> j = q"
  by (auto simp: jobs_ok_def distinct_map inj_on_def)

lemma own_row_run_moves:
  assumes "jobs_ok js" "\<forall>j \<in> set js. ej_id j = ej_id job \<longrightarrow> ej_status j = PROCESSING" "own_row_run job js js'"
  shows "list_all2 (moves canTransitionExtractionJobStatus) js js'"
proof -
  obtain f where f: "js' = update_rows (\<lambda>j. ej_id j = ej_id job) f js"
    "\<forall>j. keeps_job j (f j) \<and> ej_status (f j) \<in> {ej_status j, FAILED, REVIEW_REQUIRED}"
    using assms(3) by (auto simp: own_row_run_def)
  show ?thesis unfolding f(1)
  proof (rule all2_moves_update)
    fix j assume "j \<in> set js" "ej_id j = ej_id job"
    with assms(2) f(2) [rule_format, of j]
    show "moves canTransitionExtractionJobStatus j (f j)"
      by (auto simp: moves_def canTransitionExtractionJobStatus_def)
  qed
qed

lemma claim_jobs:
  assumes "claimNextPendingJob w now db = (Some job, db')"
  shows "\<exists>j \<in> set (extraction_jobs db). ej_status j = PENDING \<and> job = claim_job w now j \<and>
    (\<forall>q \<in> set (extraction_jobs db). ej_status q = PENDING \<longrightarrow> ej_createdAt j \<le> ej_createdAt q) \<and>
    extraction_jobs db' = update_rows (\<lambda>q. ej_id q = ej_id job) (claim_job w now) (extraction_jobs db)"
  using assms
  by (auto simp: claimNextPendingJob_def claim_job_def dest!: oldest_row_Some split: option.splits)

lemma claim_none: "claimNextPendingJob w now db = (None, db') \<Longrightarrow> db' = db"
  by (auto simp: claimNextPendingJob_def split: option.splits)

text \<open>Creating or retrying a job.\<close>

lemma retryable_attempts: "isRetryableExtractionError c a m \<Longrightarrow> a < m"
  by (auto simp: isRetryableExtractionError_def split: if_splits)

lemma createExtractionJob_jobs:
  assumes "jobs_ok (extraction_jobs db)" "0 < most"
  shows "list_all2 (moves canTransitionExtractionJobStatus) (extraction_jobs db)
      (extraction_jobs (snd (createExtractionJob most newId now u org c parsed db))) \<or>
    (\<exists>new. extraction_jobs (snd (createExtractionJob most newId now u org c parsed db)) =
        extraction_jobs db @ [new] \<and> jobs_ok (extraction_jobs db @ [new]) \<and>
      ej_status new = PENDING \<and> ej_attempt new = 0)"
proof -
  have reset: "list_all2 (moves canTransitionExtractionJobStatus) (extraction_jobs db)
      (update_rows (\<lambda>j. ej_id j = ej_id e) reset_to_pending (extraction_jobs db))"
    if "e \<in> set (extraction_jobs db)" "ej_status e = FAILED" "ej_attempt e < ej_maxAttempts e" for e
  proof (rule all2_moves_update)
    fix j assume "j \<in> set (extraction_jobs db)" "ej_id j = ej_id e"
    with jobs_ok_same [OF assms(1)] that have "j = e" by blast
    with that show "moves canTransitionExtractionJobStatus j (reset_to_pending j)"
      by (simp add: moves_def canTransitionExtractionJobStatus_def)
  qed
  show ?thesis
    using assms(1,2) reset
    by (auto simp: createExtractionJob_def findExtractionJobByDedupKey_def resetExtractionJobToPending_def
        updateExtractionJob_def insertExtractionJob_def jobs_ok_def Let_def
        dest!: find_row_Some retryable_attempts split: sum.splits option.splits extraction_status.splits if_splits)
qed

lemma applyApprovedSuggestions_jobs:
  assumes "jobs_ok (extraction_jobs db)"
  shows "list_all2 (moves canTransitionExtractionJobStatus) (extraction_jobs db)
      (extraction_jobs (snd (applyApprovedSuggestions schema id_of now u org c i db)))"
proof -
  have complete: "list_all2 (moves canTransitionExtractionJobStatus) (extraction_jobs db)
      (update_rows (\<lambda>j. ej_id j = ej_id e) (complete_job now) (extraction_jobs db))"
    if "e \<in> set (extraction_jobs db)" "ej_status e = REVIEW_REQUIRED" for e
  proof (rule all2_moves_update)
    fix j assume "j \<in> set (extraction_jobs db)" "ej_id j = ej_id e"
    with jobs_ok_same [OF assms] that have "j = e" by blast
    with that show "moves canTransitionExtractionJobStatus j (complete_job now j)"
      by (simp add: moves_def canTransitionExtractionJobStatus_def)
  qed
  have "extraction_jobs db1 = extraction_jobs db" if "updateContract n o' ci d db = Some db1" for n o' ci d db1
    using that by (auto simp: updateContract_def Let_def split: if_splits)
  with complete show ?thesis
    by (auto simp: applyApprovedSuggestions_def findExtractionJobById_def updateExtractionJob_def Let_def
        dest!: find_row_Some split: sum.splits option.splits if_splits)
qed

lemma reviewSuggestion_jobs:
  "extraction_jobs (snd (reviewSuggestion id_of now u org c i si parsed db)) = extraction_jobs db"
  by (auto simp: reviewSuggestion_def updateSuggestionReview_def Let_def
      split: sum.splits option.splits if_splits prod.splits)

text \<open>Recovery: each stale row moves once, by \<open>recovery_transition\<close>.\<close>

lemma recoverStaleJob_jobs:
  assumes "recoverStaleJob now job db = Some db'" "jobs_ok (extraction_jobs db)"
    and "job \<in> set (extraction_jobs db)" "ej_status job = PROCESSING"
  shows "list_all2 (moves recovery_transition) (extraction_jobs db) (extraction_jobs db')"
    and "\<forall>q \<in> set (extraction_jobs db). ej_id q \<noteq> ej_id job \<longrightarrow> q \<in> set (extraction_jobs db')"
proof -
  obtain f where f: "extraction_jobs db' = update_rows (\<lambda>j. ej_id j = ej_id job) f (extraction_jobs db)"
    "moves recovery_transition job (f job)"
  proof (cases "isRetryableExtractionError '''' (ej_attempt job) (ej_maxAttempts job)")
    case True
    with assms that [of reset_to_pending] show thesis
      by (auto simp: recoverStaleJob_def resetExtractionJobToPending_def updateExtractionJob_Some
          moves_def recovery_transition_def dest: retryable_attempts)
  next
    case False
    with assms that [of "fail_job ''MAX_ATTEMPTS_REACHED'' now"] show thesis
      by (auto simp: recoverStaleJob_def updateExtractionJob_Some moves_def recovery_transition_def)
  qed
  show "list_all2 (moves recovery_transition) (extraction_jobs db) (extraction_jobs db')"
    unfolding f(1)
  proof (rule all2_moves_update)
    fix j assume "j \<in> set (extraction_jobs db)" "ej_id j = ej_id job"
    with jobs_ok_same [OF assms(2)] assms(3) have "j = job" by blast
    with f(2) show "moves recovery_transition j (f j)" by simp
  qed
  show "\<forall>q \<in> set (extraction_jobs db). ej_id q \<noteq> ej_id job \<longrightarrow> q \<in> set (extraction_jobs db')"
    unfolding f(1) set_update_rows by (auto intro!: image_eqI)
qed

text \<open>Recovery moves of one list of jobs compose: a row moves at most once.\<close>

lemma all2_recovery_trans:
  "list_all2 (moves recovery_transition) a b \<Longrightarrow> list_all2 (moves recovery_transition) b c \<Longrightarrow>
   list_all2 (moves recovery_transition) a c"
  by (rule list_all2_trans [of "moves recovery_transition" "moves recovery_transition"])
    (auto simp: moves_def keeps_job_def recovery_transition_def)

lemma recover_loop_jobs:
  "jobs_ok (extraction_jobs db) \<Longrightarrow> distinct (map ej_id jobs) \<Longrightarrow>
   (\<forall>j \<in> set jobs. j \<in> set (extraction_jobs db) \<and> ej_status j = PROCESSING) \<Longrightarrow>
   list_all2 (moves recovery_transition) (extraction_jobs db)
     (extraction_jobs (snd (recover_loop now jobs r f db)))"
proof (induction jobs arbitrary: r f db)
  case (Cons job jobs)
  show ?case
  proof (cases "recoverStaleJob now job db")
    case None
    then show ?thesis by simp
  next
    case (Some db')
    from Cons.prems have job: "job \<in> set (extraction_jobs db)" "ej_status job = PROCESSING" by auto
    note step = recoverStaleJob_jobs [OF Some Cons.prems(1) job]
    have "list_all2 (moves recovery_transition) (extraction_jobs db')
        (extraction_jobs (snd (recover_loop now jobs r' f' db')))" for r' f'
    proof (rule Cons.IH)
      show "jobs_ok (extraction_jobs db')" using moves_jobs_ok [OF step(1) Cons.prems(1)] .
      show "distinct (map ej_id jobs)" using Cons.prems(2) by simp
      show "\<forall>j \<in> set jobs. j \<in> set (extraction_jobs db') \<and> ej_status j = PROCESSING"
      proof
        fix j assume j: "j \<in> set jobs"
        then have "ej_id j \<noteq> ej_id job" using Cons.prems(2) by (auto simp: image_iff)
        with j Cons.prems(3) step(2) show "j \<in> set (extraction_jobs db') \<and> ej_status j = PROCESSING" by auto
      qed
    qed
    with step(1) Some show ?thesis by (auto intro: all2_recovery_trans)
  qed
qed simp

lemma recoverStale_jobs:
  assumes "jobs_ok (extraction_jobs db)"
  shows "list_all2 (moves recovery_transition) (extraction_jobs db)
    (extraction_jobs (snd (recoverStaleExtractionJobs mins now db)))"
proof -
  have "list_all2 (moves recovery_transition) (extraction_jobs db)
    (extraction_jobs (snd (recover_loop now (findStaleProcessingJobs (now - int mins * 60 * 1000) db) 0 0 db)))"
    by (rule recover_loop_jobs [OF assms])
      (use assms in \<open>auto simp: findStaleProcessingJobs_def jobs_ok_def distinct_map_filter\<close>)
  then show ?thesis by (simp add: recoverStaleExtractionJobs_def case_prod_beta Let_def)
qed

section \<open>Every job is claimed a bounded number of times\<close>

text \<open>The variable's value read by \<open>Number\<close>; \<open>None\<close> when it is not set or not an integer.\<close>

definition parsePositiveInt :: "int option \<Rightarrow> nat \<Rightarrow> nat" where
  "parsePositiveInt parsed fallback =
     (case parsed of None \<Rightarrow> fallback | Some n \<Rightarrow> if n \<le> 0 then fallback else nat n)"

definition EXTRACTION_MAX_ATTEMPTS :: "int option \<Rightarrow> nat" where
  "EXTRACTION_MAX_ATTEMPTS parsed = parsePositiveInt parsed 3"

text \<open>One call of an operation, with its inputs and collaborators.\<close>

datatype extraction_op =
  Op_Create "int option" string time_ms string string string "string option"
  | Op_Process worker_env string time_ms
  | Op_Recover nat time_ms
  | Op_Review "jstring \<Rightarrow> string" time_ms string string string string string "(review_action \<times> json) option"
  | Op_Apply "(string \<Rightarrow> json) \<Rightarrow> (string \<Rightarrow> json) option" "jstring \<Rightarrow> string" time_ms string string string string

fun extraction_step :: "extraction_op \<Rightarrow> extraction_db \<Rightarrow> string option \<times> extraction_db" where
  "extraction_step (Op_Create raw newId now u org c parsed) db =
     (None, snd (createExtractionJob (EXTRACTION_MAX_ATTEMPTS raw) newId now u org c parsed db))"
| "extraction_step (Op_Process env w now) db =
     (map_option ej_id (fst (claimNextPendingJob w now db)), snd (processNextExtractionJob env w now db))"
| "extraction_step (Op_Recover mins now) db = (None, snd (recoverStaleExtractionJobs mins now db))"
| "extraction_step (Op_Review id_of now u org c i si parsed) db =
     (None, snd (reviewSuggestion id_of now u org c i si parsed db))"
| "extraction_step (Op_Apply schema id_of now u org c i) db =
     (None, snd (applyApprovedSuggestions schema id_of now u org c i db))"

definition extraction_job_at :: "extraction_db \<Rightarrow> string \<Rightarrow> (nat \<times> nat \<times> bool) option" where
  "extraction_job_at db i =
     map_option (\<lambda>j. (ej_attempt j, ej_maxAttempts j, ej_status j = PENDING))
       (find_row (\<lambda>j. ej_id j = i) (extraction_jobs db))"

definition extraction_valid :: "extraction_db \<Rightarrow> bool" where
  "extraction_valid db \<longleftrightarrow> jobs_ok (extraction_jobs db)"

lemma job_at_moves:
  assumes "list_all2 (moves ok) (extraction_jobs db) (extraction_jobs db')"
    and "extraction_job_at db i = Some (a, m, c)"
  shows "\<exists>c'. extraction_job_at db' i = Some (a, m, c')"
  using assms(2) find_moves [OF assms(1), of i]
  by (auto simp: extraction_job_at_def moves_def keeps_job_def)

lemma claim_ok:
  assumes "jobs_ok js" "j \<in> set js" "ej_status j = PENDING"
  shows "jobs_ok (update_rows (\<lambda>q. ej_id q = ej_id j) (claim_job w now) js)"
proof -
  have "map ej_id (update_rows (\<lambda>q. ej_id q = ej_id j) (claim_job w now) js) = map ej_id js"
    "map dedup_key (update_rows (\<lambda>q. ej_id q = ej_id j) (claim_job w now) js) = map dedup_key js"
    by (simp_all add: update_rows_def claim_job_def dedup_key_def)
  moreover have "ej_attempt q \<le> ej_maxAttempts q \<and> (ej_status q = PENDING \<longrightarrow> ej_attempt q < ej_maxAttempts q)"
    if "q \<in> set (update_rows (\<lambda>q. ej_id q = ej_id j) (claim_job w now) js)" for q
  proof -
    from that obtain p where p: "p \<in> set js" "q = (if ej_id p = ej_id j then claim_job w now p else p)"
      by (auto simp: set_update_rows)
    show ?thesis
    proof (cases "ej_id p = ej_id j")
      case True
      with jobs_ok_same [OF assms(1) p(1) assms(2)] have "p = j" by simp
      with p(2) assms show ?thesis by (auto simp: jobs_ok_def claim_job_def)
    next
      case False
      with p assms(1) show ?thesis by (auto simp: jobs_ok_def)
    qed
  qed
  ultimately show ?thesis using assms(1) by (simp add: jobs_ok_def)
qed

lemma process_jobs:
  assumes "jobs_ok (extraction_jobs db)" "claimNextPendingJob w now db = (Some job, db1)"
  shows "jobs_ok (extraction_jobs db1)"
    and "list_all2 (moves canTransitionExtractionJobStatus) (extraction_jobs db1)
           (extraction_jobs (snd (processNextExtractionJob env w now db)))"
proof -
  from claim_jobs [OF assms(2)] obtain j where j: "j \<in> set (extraction_jobs db)" "ej_status j = PENDING"
    "job = claim_job w now j"
    "extraction_jobs db1 = update_rows (\<lambda>q. ej_id q = ej_id job) (claim_job w now) (extraction_jobs db)"
    by blast
  have id: "ej_id job = ej_id j" by (simp add: j(3) claim_job_def)
  show ok: "jobs_ok (extraction_jobs db1)"
    unfolding j(4) id by (rule claim_ok [OF assms(1) j(1,2)])
  have processing: "\<forall>q \<in> set (extraction_jobs db1). ej_id q = ej_id job \<longrightarrow> ej_status q = PROCESSING"
    unfolding j(4) id by (auto simp: set_update_rows claim_job_def)
  show "list_all2 (moves canTransitionExtractionJobStatus) (extraction_jobs db1)
           (extraction_jobs (snd (processNextExtractionJob env w now db)))"
    using own_row_run_moves [OF ok processing runClaimedJob_jobs, of env now]
    by (simp add: processNextExtractionJob_def assms(2) case_prod_beta Let_def)
qed

interpretation extraction_retry: bounded_retry extraction_step extraction_job_at extraction_valid
proof unfold_locales
  fix db x
  assume v: "extraction_valid db"
  note ok = v [unfolded extraction_valid_def]
  have pos: "0 < EXTRACTION_MAX_ATTEMPTS raw" for raw
    by (auto simp: EXTRACTION_MAX_ATTEMPTS_def parsePositiveInt_def split: option.split)
  have moved: "(\<exists>ok'. list_all2 (moves ok') (extraction_jobs db) (extraction_jobs (snd (extraction_step x db)))) \<and>
      fst (extraction_step x db) = None"
    if "\<And>env w now. x \<noteq> Op_Process env w now" "\<And>raw n t u o' c p. x \<noteq> Op_Create raw n t u o' c p"
    using that recoverStale_jobs [OF ok] applyApprovedSuggestions_jobs [OF ok]
    by (cases x) (force simp: reviewSuggestion_jobs)+
  show "extraction_valid (snd (extraction_step x db))"
  proof (cases x)
    case (Op_Create raw n t u o' c p)
    with createExtractionJob_jobs [OF ok pos, of raw n t u o' c p] moves_jobs_ok [OF _ ok]
    show ?thesis by (auto simp: extraction_valid_def)
  next
    case (Op_Process env w now)
    show ?thesis
    proof (cases "claimNextPendingJob w now db")
      case (Pair j db1)
      show ?thesis
      proof (cases j)
        case None
        with Pair v claim_none [of w now db db1] show ?thesis
          by (simp add: Op_Process processNextExtractionJob_def)
      next
        case (Some job)
        from moves_jobs_ok [OF process_jobs(2,1) [OF ok]] Pair Some show ?thesis
          by (auto simp: Op_Process extraction_valid_def)
      qed
    qed
  qed (use moved moves_jobs_ok ok in \<open>fastforce simp: extraction_valid_def\<close>)+
  fix i a m c
  assume at: "extraction_job_at db i = Some (a, m, c)"
  show "\<exists>c'. extraction_job_at (snd (extraction_step x db)) i =
      Some (if fst (extraction_step x db) = Some i then a + 1 else a, m, c')"
  proof (cases x)
    case (Op_Create raw n t u o' cc p)
    from createExtractionJob_jobs [OF ok pos, of raw n t u o' cc p] show ?thesis
    proof
      assume "list_all2 (moves canTransitionExtractionJobStatus) (extraction_jobs db)
        (extraction_jobs (snd (createExtractionJob (EXTRACTION_MAX_ATTEMPTS raw) n t u o' cc p db)))"
      from job_at_moves [OF this at] show ?thesis by (simp add: Op_Create)
    next
      assume "\<exists>new. extraction_jobs (snd (createExtractionJob (EXTRACTION_MAX_ATTEMPTS raw) n t u o' cc p db)) =
        extraction_jobs db @ [new] \<and> jobs_ok (extraction_jobs db @ [new]) \<and>
        ej_status new = PENDING \<and> ej_attempt new = 0"
      with at show ?thesis
        by (auto simp: Op_Create extraction_job_at_def table_simps split: option.splits)
    qed
  next
    case (Op_Process env w now)
    show ?thesis
    proof (cases "claimNextPendingJob w now db")
      case (Pair jo db1)
      show ?thesis
      proof (cases jo)
        case None
        with Pair at claim_none [of w now db db1] show ?thesis
          by (simp add: Op_Process processNextExtractionJob_def)
      next
        case (Some job)
        from claim_jobs Pair Some obtain j where j: "j \<in> set (extraction_jobs db)" "job = claim_job w now j"
          "extraction_jobs db1 = update_rows (\<lambda>q. ej_id q = ej_id job) (claim_job w now) (extraction_jobs db)"
          by blast
        have "\<exists>c'. extraction_job_at db1 i = Some (if ej_id job = i then a + 1 else a, m, c')"
        proof -
          from at obtain z where z: "find_row (\<lambda>j. ej_id j = i) (extraction_jobs db) = Some z"
            "a = ej_attempt z" "m = ej_maxAttempts z" by (auto simp: extraction_job_at_def)
          then have "ej_id z = i" by (auto dest: find_row_Some)
          moreover have "find_row (\<lambda>j. ej_id j = i) (extraction_jobs db1) =
              Some (if ej_id z = ej_id job then claim_job w now z else z)"
            unfolding j(3) by (subst find_row_update) (simp_all add: z(1) claim_job_def)
          ultimately show ?thesis using z(2,3) by (simp add: extraction_job_at_def claim_job_def)
        qed
        then obtain c' where "extraction_job_at db1 i = Some (if ej_id job = i then a + 1 else a, m, c')" ..
        from job_at_moves [OF process_jobs(2) [OF ok] this, of w now job] Pair Some show ?thesis
          by (simp add: Op_Process)
      qed
    qed
  qed (use moved job_at_moves [OF _ at] in fastforce)+
next
  fix db i attempt most claimable
  assume "extraction_valid db" "extraction_job_at db i = Some (attempt, most, claimable)"
  then show "attempt \<le> most \<and> (claimable \<longrightarrow> attempt < most)"
    by (auto simp: extraction_valid_def extraction_job_at_def jobs_ok_def dest: find_row_Some)
qed

section \<open>Properties\<close>

text \<open>Whatever sequence of operations runs (jobs requested and retried, workers with any
  collaborators, stale recovery, reviews, applications), a job is claimed by workers at most
  \<open>maxAttempts\<close> times in all: the attempts it has used and the claims to come stay within its
  limit.\<close>

theorem extraction_claims_bounded:
  assumes "extraction_valid db" "extraction_job_at db jobId = Some (attempt, most, claimable)"
  shows "attempt + count_list (fst (run_jobs extraction_step ops db)) jobId \<le> most"
  using assms by (rule extraction_retry.claims_bounded)

definition demo_job :: "extraction_status \<Rightarrow> nat \<Rightarrow> extraction_job" where
  "demo_job st n =
     \<lparr>ej_id = ''j'', ej_organizationId = ''o'', ej_contractId = ''c'', ej_contractFileId = ''f'',
      ej_status = st, ej_stage = None, ej_attempt = n, ej_maxAttempts = 3, ej_extractorVersion = ''v1'',
      ej_inputChecksum = ''sum'', ej_lockedAt = Some 0, ej_lockedBy = None, ej_startedAt = None,
      ej_completedAt = None, ej_failedAt = None, ej_errorCode = None, ej_warnings = [],
      ej_contractUpdatedAtSnapshot = Some 5, ej_createdById = ''u'', ej_createdAt = 0\<rparr>"

definition demo_columns :: "string \<Rightarrow> json" where
  "demo_columns k = (if k = ''title'' then JStr (asc ''old'') else JNull)"

definition demo_db :: "extraction_job list \<Rightarrow> field_suggestion list \<Rightarrow> extraction_db" where
  "demo_db js ss =
     \<lparr>memberships = [\<lparr>m_id = ''m'', m_userId = ''u'', m_organizationId = ''o'', m_role = MEMBER\<rparr>],
      auditLog = [],
      contracts = [\<lparr>ct_id = ''c'', ct_organizationId = ''o'', ct_deletedAt = None, ct_updatedAt = 5,
                    ct_columns = demo_columns\<rparr>],
      contract_files = [\<lparr>cf_id = ''f'', cf_contractId = ''c'', cf_organizationId = ''o'',
                         cf_deletedAt = None, cf_checksum = ''sum'', cf_storageProvider = ''local'',
                         cf_storageKey = ''k'', cf_originalName = ''a.txt'', cf_mimeType = ''text/plain''\<rparr>],
      counterparties = [], extraction_jobs = js, field_suggestions = ss, extracted_documents = []\<rparr>"

lemma demo_valid: "n < 3 \<or> (n = 3 \<and> st \<noteq> PENDING) \<Longrightarrow> extraction_valid (demo_db [demo_job st n] ss)"
  by (auto simp: extraction_valid_def demo_db_def jobs_ok_def demo_job_def)

theorem extraction_claims_bounded_witness:
  "\<forall>ops. 1 + count_list (fst (run_jobs extraction_step ops (demo_db [demo_job PENDING 1] []))) ''j'' \<le> 3"
  by (intro allI, rule extraction_claims_bounded [OF demo_valid, where claimable = True])
    (simp_all add: extraction_job_at_def demo_db_def find_row_Cons demo_job_def)

text \<open>Every job is still there, in its state or in one that \<open>ok\<close> allows.\<close>

definition transitions_ok ::
  "(extraction_status \<Rightarrow> extraction_status \<Rightarrow> bool) \<Rightarrow> extraction_job list \<Rightarrow> extraction_job list \<Rightarrow> bool" where
  "transitions_ok ok js js' \<longleftrightarrow>
     (\<forall>j \<in> set js. \<exists>j' \<in> set js'. ej_id j' = ej_id j \<and>
        (ej_status j' = ej_status j \<or> ok (ej_status j) (ej_status j')))"

lemma moves_transitions: "list_all2 (moves ok) js js' \<Longrightarrow> transitions_ok ok js js'"
  by (fastforce simp: transitions_ok_def list_all2_conv_all_nth in_set_conv_nth moves_def keeps_job_def)

lemma transitions_mono: "transitions_ok ok js js' \<Longrightarrow> (\<And>a b. ok a b \<Longrightarrow> ok' a b) \<Longrightarrow> transitions_ok ok' js js'"
  unfolding transitions_ok_def by blast

lemma claim_transitions:
  assumes "jobs_ok (extraction_jobs db)" "claimNextPendingJob w now db = (Some job, db1)"
  shows "transitions_ok canTransitionExtractionJobStatus (extraction_jobs db) (extraction_jobs db1)"
proof -
  from claim_jobs [OF assms(2)] obtain j where j: "j \<in> set (extraction_jobs db)" "ej_status j = PENDING"
    "job = claim_job w now j"
    "extraction_jobs db1 = update_rows (\<lambda>q. ej_id q = ej_id job) (claim_job w now) (extraction_jobs db)"
    by blast
  show ?thesis unfolding transitions_ok_def
  proof
    fix q assume q: "q \<in> set (extraction_jobs db)"
    let ?q = "if ej_id q = ej_id job then claim_job w now q else q"
    have "?q \<in> set (extraction_jobs db1)" unfolding j(4) set_update_rows using q by (rule imageI)
    moreover have "ej_id q = ej_id job \<Longrightarrow> q = j"
      using jobs_ok_same [OF assms(1) q j(1)] by (simp add: j(3) claim_job_def)
    ultimately show "\<exists>q' \<in> set (extraction_jobs db1). ej_id q' = ej_id q \<and>
        (ej_status q' = ej_status q \<or> canTransitionExtractionJobStatus (ej_status q) (ej_status q'))"
      using j(2) by (intro bexI [where x = ?q]) (auto simp: claim_job_def canTransitionExtractionJobStatus_def)
  qed
qed

text \<open>C35: The operations keep to the job state machine: requesting and retrying, claiming, processing
  (whatever the collaborators do), reviewing and applying move every job only along
  \<open>ALLOWED_TRANSITIONS\<close>. Recovery of stale jobs is the one exception: it moves jobs from
  \<open>PROCESSING\<close> to \<open>FAILED\<close> or to \<open>PENDING\<close>, and the latter is not in the table.\<close>

theorem extraction_follows_state_machine:
  assumes "extraction_valid db"
  shows "transitions_ok canTransitionExtractionJobStatus (extraction_jobs db)
      (extraction_jobs (snd (createExtractionJob (EXTRACTION_MAX_ATTEMPTS raw) newId now u org c parsed db))) \<and>
    (\<forall>job db1. claimNextPendingJob w now db = (Some job, db1) \<longrightarrow>
      transitions_ok canTransitionExtractionJobStatus (extraction_jobs db) (extraction_jobs db1) \<and>
      transitions_ok canTransitionExtractionJobStatus (extraction_jobs db1)
        (extraction_jobs (snd (processNextExtractionJob wenv w now db)))) \<and>
    extraction_jobs (snd (reviewSuggestion id_of now u org c i si act db)) = extraction_jobs db \<and>
    transitions_ok canTransitionExtractionJobStatus (extraction_jobs db)
      (extraction_jobs (snd (applyApprovedSuggestions schema id_of now u org c i db))) \<and>
    transitions_ok (\<lambda>a b. a = PROCESSING \<and> b \<in> {PENDING, FAILED}) (extraction_jobs db)
      (extraction_jobs (snd (recoverStaleExtractionJobs mins now db))) \<and>
    \<not> canTransitionExtractionJobStatus PROCESSING PENDING"
proof (intro conjI allI impI)
  note ok = assms [unfolded extraction_valid_def]
  have pos: "0 < EXTRACTION_MAX_ATTEMPTS raw"
    by (auto simp: EXTRACTION_MAX_ATTEMPTS_def parsePositiveInt_def split: option.split)
  have self: "transitions_ok P js (js @ [x])" for P js x by (auto simp: transitions_ok_def)
  show "transitions_ok canTransitionExtractionJobStatus (extraction_jobs db)
      (extraction_jobs (snd (createExtractionJob (EXTRACTION_MAX_ATTEMPTS raw) newId now u org c parsed db)))"
    using createExtractionJob_jobs [OF ok pos, of newId now u org c parsed] moves_transitions self by auto
  show "extraction_jobs (snd (reviewSuggestion id_of now u org c i si act db)) = extraction_jobs db"
    by (rule reviewSuggestion_jobs)
  show "transitions_ok canTransitionExtractionJobStatus (extraction_jobs db)
      (extraction_jobs (snd (applyApprovedSuggestions schema id_of now u org c i db)))"
    by (rule moves_transitions [OF applyApprovedSuggestions_jobs [OF ok]])
  show "transitions_ok (\<lambda>a b. a = PROCESSING \<and> b \<in> {PENDING, FAILED}) (extraction_jobs db)
      (extraction_jobs (snd (recoverStaleExtractionJobs mins now db)))"
    by (rule transitions_mono [OF moves_transitions [OF recoverStale_jobs [OF ok]]])
      (simp add: recovery_transition_def)
  show "\<not> canTransitionExtractionJobStatus PROCESSING PENDING"
    by (simp add: canTransitionExtractionJobStatus_def)
  fix job db1 assume c: "claimNextPendingJob w now db = (Some job, db1)"
  show "transitions_ok canTransitionExtractionJobStatus (extraction_jobs db) (extraction_jobs db1)"
    by (rule claim_transitions [OF ok c])
  show "transitions_ok canTransitionExtractionJobStatus (extraction_jobs db1)
      (extraction_jobs (snd (processNextExtractionJob wenv w now db)))"
    by (rule moves_transitions [OF process_jobs(2) [OF ok c]])
qed

theorem extraction_follows_state_machine_witness:
  "transitions_ok (\<lambda>a b. a = PROCESSING \<and> b \<in> {PENDING, FAILED}) [demo_job PROCESSING 1]
     (extraction_jobs (snd (recoverStaleExtractionJobs 15 900000 (demo_db [demo_job PROCESSING 1] [])))) \<and>
   map ej_status (extraction_jobs (snd (recoverStaleExtractionJobs 15 900000
     (demo_db [demo_job PROCESSING 1] [])))) = [PENDING]"
proof
  have v: "extraction_valid (demo_db [demo_job PROCESSING 1] [])" by (rule demo_valid) simp
  have "extraction_jobs (demo_db [demo_job PROCESSING 1] []) = [demo_job PROCESSING 1]"
    by (simp add: demo_db_def)
  then show "transitions_ok (\<lambda>a b. a = PROCESSING \<and> b \<in> {PENDING, FAILED}) [demo_job PROCESSING 1]
     (extraction_jobs (snd (recoverStaleExtractionJobs 15 900000 (demo_db [demo_job PROCESSING 1] []))))"
    using extraction_follows_state_machine [OF v] by metis
  show "map ej_status (extraction_jobs (snd (recoverStaleExtractionJobs 15 900000
     (demo_db [demo_job PROCESSING 1] [])))) = [PENDING]"
    by (simp add: recoverStaleExtractionJobs_def findStaleProcessingJobs_def demo_db_def demo_job_def
        recoverStaleJob_def isRetryableExtractionError_def NON_RETRYABLE_ERROR_CODES_def
        resetExtractionJobToPending_def updateExtractionJob_def update_rows_def reset_to_pending_def)
qed

lemma merge_sound:
  "merge_suggestions id_of org db ss payload keys = Inr (payload', keys') \<Longrightarrow>
   payload' k = payload k \<or>
   (\<exists>s \<in> set ss. fs_fieldKey s = k \<and> k \<in> applicable_fields \<and>
      payload' k = json_get (extractSuggestionValue s) ''value'') \<or>
   (\<exists>s \<in> set ss. fs_fieldKey s = ''counterpartyName'' \<and> k = ''counterpartyId'' \<and>
      (\<exists>cid. payload' k = JStr cid \<and> json_get (extractSuggestionValue s) ''counterpartyId'' = JStr cid \<and>
             assertCounterpartyBelongsToOrganization (id_of cid) org db))"
proof (induction ss arbitrary: payload keys)
  case (Cons s ss)
  from Cons.prems show ?case
    by (auto simp: Let_def split: if_splits json.splits dest!: Cons.IH)
qed simp

text \<open>A payload value that an approved suggestion of the job put there.\<close>

definition approved_value ::
  "(jstring \<Rightarrow> string) \<Rightarrow> string \<Rightarrow> string \<Rightarrow> 'x extraction_db_scheme \<Rightarrow> string \<Rightarrow> json \<Rightarrow> bool" where
  "approved_value id_of org jobId db k v \<longleftrightarrow>
     (\<exists>s \<in> set (field_suggestions db). fs_extractionJobId s = jobId \<and> fs_organizationId s = org \<and>
        fs_reviewStatus s \<in> {Review_ACCEPTED, Review_EDITED} \<and>
        (fs_fieldKey s = k \<and> k \<in> applicable_fields \<and> v = json_get (extractSuggestionValue s) ''value'' \<or>
         fs_fieldKey s = ''counterpartyName'' \<and> k = ''counterpartyId'' \<and>
           (\<exists>cid. v = JStr cid \<and> assertCounterpartyBelongsToOrganization (id_of cid) org db)))"

lemma merge_approved:
  assumes "merge_suggestions id_of org db
      (filter (\<lambda>s. fs_reviewStatus s = Review_ACCEPTED \<or> fs_reviewStatus s = Review_EDITED)
        (findSuggestionsByJobId org jobId db)) payload [] = Inr (payload', ks)"
  shows "payload' k = payload k \<or> approved_value id_of org jobId db k (payload' k)"
  using merge_sound [OF assms, of k] by (auto simp: approved_value_def findSuggestionsByJobId_def)

text \<open>What the successful application went through, guard by guard.\<close>

lemma apply_success:
  assumes "applyApprovedSuggestions schema id_of now u org c i db = (Inr n, db')"
  obtains ctx job contract payload ks data db1 where
    "verifyOrganizationMembership u org db = Inr ctx"
    "findExtractionJobById org c i db = Some job" "ej_status job = REVIEW_REQUIRED"
    "findContractById org c db = Some contract"
    "\<not> hasContractChangedSinceExtraction (ct_updatedAt contract) (ej_contractUpdatedAtSnapshot job)"
    "merge_suggestions id_of org db
      (filter (\<lambda>s. fs_reviewStatus s = Review_ACCEPTED \<or> fs_reviewStatus s = Review_EDITED)
        (findSuggestionsByJobId org i db)) (contract_payload contract) [] = Inr (payload, ks)"
    "ks \<noteq> []" "n = length ks" "schema payload = Some data"
    "updateContract now org (ct_id contract) data db = Some db1" "contracts db' = contracts db1"
proof -
  obtain ctx where ctx: "verifyOrganizationMembership u org db = Inr ctx"
    using assms by (auto simp: applyApprovedSuggestions_def split: sum.splits)
  have o: "ac_organizationId ctx = org" using ctx by (auto simp: verify_membership_Inr)
  obtain job where job: "findExtractionJobById org c i db = Some job" "ej_status job = REVIEW_REQUIRED"
    using assms ctx by (auto simp: applyApprovedSuggestions_def o split: option.splits if_splits)
  have keys: "ej_id job = i" "ej_contractId job = c"
    using job(1) by (auto simp: findExtractionJobById_def dest!: find_row_Some)
  obtain contract where contract: "findContractById org c db = Some contract"
    "\<not> hasContractChangedSinceExtraction (ct_updatedAt contract) (ej_contractUpdatedAtSnapshot job)"
    using assms ctx job keys by (auto simp: applyApprovedSuggestions_def o split: option.splits if_splits)
  from assms ctx job keys contract that [OF ctx job contract] show thesis
    by (auto simp: applyApprovedSuggestions_def o Let_def updateExtractionJob_Some
        split: sum.splits option.splits if_splits prod.splits)
qed

text \<open>C10: Extraction results reach a contract only through approval: a successful application came
  from a member, for a job in review, on a contract unchanged since the suggestions were made; it
  applied at least one suggestion; the payload it wrote went through the contract form's schema
  and differs from the contract's own values only where an accepted or edited suggestion of that
  job says so; only that contract changed. A failed application changes nothing.\<close>

theorem apply_only_approved:
  assumes "applyApprovedSuggestions schema id_of now u org c i db = (res, db')"
  shows "(\<forall>e. res = Inl e \<longrightarrow> db' = db) \<and>
    (\<forall>n. res = Inr n \<longrightarrow> 0 < n \<and>
      (\<exists>m \<in> set (memberships db). m_userId m = u \<and> m_organizationId m = org) \<and>
      (\<exists>job contract payload data.
         findExtractionJobById org c i db = Some job \<and> ej_status job = REVIEW_REQUIRED \<and>
         findContractById org c db = Some contract \<and>
         ej_contractUpdatedAtSnapshot job \<in> {None, Some (ct_updatedAt contract)} \<and>
         (\<forall>k. payload k = contract_payload contract k \<or> approved_value id_of org i db k (payload k)) \<and>
         schema payload = Some data \<and>
         contracts db' = update_rows (\<lambda>ct. ct_id ct = ct_id contract \<and> ct_organizationId ct = org \<and>
             ct_deletedAt ct = None)
           (\<lambda>ct. ct\<lparr>ct_updatedAt := now, ct_columns := contract_update data (ct_columns ct)\<rparr>) (contracts db)))"
proof (intro conjI allI impI)
  fix e assume "res = Inl e"
  with assms show "db' = db"
    by (auto simp: applyApprovedSuggestions_def Let_def split: sum.splits option.splits if_splits prod.splits)
next
  fix n assume "res = Inr n"
  with assms have run: "applyApprovedSuggestions schema id_of now u org c i db = (Inr n, db')" by simp
  show "0 < n" by (rule apply_success [OF run]) simp
  show "\<exists>m \<in> set (memberships db). m_userId m = u \<and> m_organizationId m = org"
    by (rule apply_success [OF run]) (rule verify_membership_member)
  show "\<exists>job contract payload data.
         findExtractionJobById org c i db = Some job \<and> ej_status job = REVIEW_REQUIRED \<and>
         findContractById org c db = Some contract \<and>
         ej_contractUpdatedAtSnapshot job \<in> {None, Some (ct_updatedAt contract)} \<and>
         (\<forall>k. payload k = contract_payload contract k \<or> approved_value id_of org i db k (payload k)) \<and>
         schema payload = Some data \<and>
         contracts db' = update_rows (\<lambda>ct. ct_id ct = ct_id contract \<and> ct_organizationId ct = org \<and>
             ct_deletedAt ct = None)
           (\<lambda>ct. ct\<lparr>ct_updatedAt := now, ct_columns := contract_update data (ct_columns ct)\<rparr>) (contracts db)"
    by (rule apply_success [OF run], intro exI conjI, assumption+)
      (auto simp: hasContractChangedSinceExtraction_def updateContract_def Let_def merge_approved
        split: option.splits if_splits)
qed

definition demo_suggestion :: "string \<Rightarrow> json \<Rightarrow> field_suggestion" where
  "demo_suggestion field v =
     \<lparr>fs_id = ''s'', fs_extractionJobId = ''j'', fs_organizationId = ''o'', fs_contractId = ''c'',
      fs_fieldKey = field, fs_rawValue = None, fs_normalizedValue = v, fs_confidence = None,
      fs_sourceText = None, fs_sourcePage = None, fs_reviewStatus = Review_ACCEPTED,
      fs_reviewedValue = JNull, fs_reviewedById = None, fs_reviewedAt = None\<rparr>"

theorem apply_only_approved_witness:
  "\<exists>db'. applyApprovedSuggestions Some (\<lambda>_. ''x'') 7 ''u'' ''o'' ''c'' ''j''
      (demo_db [demo_job REVIEW_REQUIRED 1]
        [demo_suggestion ''title'' (JObj [(''value'', JStr (asc ''new''))])]) = (Inr 1, db') \<and>
    (\<exists>contract payload. findContractById ''o'' ''c'' (demo_db [demo_job REVIEW_REQUIRED 1]
        [demo_suggestion ''title'' (JObj [(''value'', JStr (asc ''new''))])]) = Some contract \<and>
      (\<forall>k. payload k = contract_payload contract k \<or> approved_value (\<lambda>_. ''x'') ''o'' ''j''
        (demo_db [demo_job REVIEW_REQUIRED 1]
          [demo_suggestion ''title'' (JObj [(''value'', JStr (asc ''new''))])]) k (payload k)))"
proof -
  let ?db = "demo_db [demo_job REVIEW_REQUIRED 1]
      [demo_suggestion ''title'' (JObj [(''value'', JStr (asc ''new''))])]"
  have "fst (applyApprovedSuggestions Some (\<lambda>_. ''x'') 7 ''u'' ''o'' ''c'' ''j'' ?db) = Inr 1"
    by (simp add: applyApprovedSuggestions_def demo_db_def demo_job_def demo_suggestion_def find_row_Cons
        verifyOrganizationMembership_def findExtractionJobById_def findContractById_def
        hasContractChangedSinceExtraction_def findSuggestionsByJobId_def extractSuggestionValue_def
        applicable_fields_def updateContract_def updateExtractionJob_def)
  then obtain db' where run: "applyApprovedSuggestions Some (\<lambda>_. ''x'') 7 ''u'' ''o'' ''c'' ''j'' ?db = (Inr 1, db')"
    by (metis prod.collapse)
  with apply_only_approved [OF run] show ?thesis by blast
qed

lemma suggestion_row_keys:
  "map (\<lambda>s. (fs_extractionJobId s, fs_fieldKey s))
     (map (\<lambda>(i, f). suggestion_row env job i f) (enumerate n xs)) =
   map (Pair (ej_id job)) (map xf_fieldKey xs)"
  by (induction xs arbitrary: n) (simp_all add: suggestion_row_def)

lemma suggestion_rows_distinct:
  "distinct (map (\<lambda>s. (fs_extractionJobId s, fs_fieldKey s)) (suggestion_rows env job xs)) \<longleftrightarrow>
   distinct (map xf_fieldKey
     (filter (\<lambda>x. isValidNormalizedSuggestionValue (xf_fieldKey x) (xf_normalizedValue x)) xs))"
  unfolding suggestion_rows_def Let_def suggestion_row_keys
  by (simp only: distinct_map) (simp add: inj_on_def)

text \<open>A provider that reports the same field twice strands the job: when the text was read and the
  field service answered with a valid response in which two fields that survive the shape check
  share a key, the worker throws (the unique index on job and field), the closing transaction is
  rolled back, and the job stays in \<open>PROCESSING\<close>, locked, for stale recovery to find.\<close>

theorem duplicate_field_strands_job:
  assumes "claimNextPendingJob w now db = (Some job, db1)"
    and "findContractById (ej_organizationId job) (ej_contractId job) db1 = Some ct"
    and "findContractFileById (ej_organizationId job) (ej_contractId job) (ej_contractFileId job) db1 = Some f"
    and "w_getBuffer wenv (cf_storageProvider f) (cf_storageKey f) = Some buffer"
    and "w_checksum wenv buffer = ej_inputChecksum job"
    and "w_extract wenv buffer (cf_originalName f) (cf_mimeType f) = Extracted et"
    and "w_fields wenv (et_text et) = Field_Result fs ws"
    and "\<not> distinct (map xf_fieldKey
      (filter (\<lambda>x. isValidNormalizedSuggestionValue (xf_fieldKey x) (xf_normalizedValue x)) fs))"
  shows "fst (processNextExtractionJob wenv w now db) = Inl UnexpectedError \<and>
    (\<exists>j \<in> set (extraction_jobs (snd (processNextExtractionJob wenv w now db))).
       ej_id j = ej_id job \<and> ej_status j = PROCESSING \<and> ej_lockedAt j = Some now \<and> ej_lockedBy j = Some w) \<and>
    field_suggestions (snd (processNextExtractionJob wenv w now db)) = field_suggestions db"
proof -
  from claim_jobs [OF assms(1)] obtain j where j: "j \<in> set (extraction_jobs db)" "job = claim_job w now j"
    "extraction_jobs db1 = update_rows (\<lambda>q. ej_id q = ej_id job) (claim_job w now) (extraction_jobs db)"
    by blast
  have row: "job \<in> set (extraction_jobs db1)"
    unfolding j(3) set_update_rows using j(1,2) by (auto simp: claim_job_def intro!: image_eqI [where x = j])
  let ?db2 = "db1\<lparr>extraction_jobs := update_rows (\<lambda>q. ej_id q = ej_id job)
      (set_stage CONTRACT_FIELD_EXTRACTION) (extraction_jobs db1)\<rparr>"
  have stage: "updateExtractionJob (ej_id job) (set_stage CONTRACT_FIELD_EXTRACTION) db1 = Some ?db2"
    using row by (auto simp: updateExtractionJob_Some)
  have "\<not> distinct (map (\<lambda>s. (fs_extractionJobId s, fs_fieldKey s)) (suggestion_rows wenv job fs))"
    using assms(8) by (simp add: suggestion_rows_distinct)
  then have "storeExtraction wenv now job ct et fs ws ?db2 = None"
    by (simp add: storeExtraction_def createFieldSuggestions_def Let_def)
  with assms(2-7) stage have run: "runClaimedJob wenv now job db1 = (False, ?db2)"
    by (simp add: runClaimedJob_def)
  have "set_stage CONTRACT_FIELD_EXTRACTION job \<in> set (extraction_jobs ?db2)"
    using row by (auto simp: set_update_rows intro!: image_eqI [where x = job])
  moreover have "field_suggestions db1 = field_suggestions db"
    using assms(1) by (auto simp: claimNextPendingJob_def split: option.splits)
  moreover have "processNextExtractionJob wenv w now db = (Inl UnexpectedError, ?db2)"
    using run assms(1) by (simp add: processNextExtractionJob_def)
  moreover have "ej_id (set_stage CONTRACT_FIELD_EXTRACTION job) = ej_id job"
    "ej_status (set_stage CONTRACT_FIELD_EXTRACTION job) = PROCESSING"
    "ej_lockedAt (set_stage CONTRACT_FIELD_EXTRACTION job) = Some now"
    "ej_lockedBy (set_stage CONTRACT_FIELD_EXTRACTION job) = Some w"
    by (simp_all add: j(2) set_stage_def claim_job_def)
  ultimately show ?thesis by (simp, blast)
qed

definition demo_field :: extracted_field where
  "demo_field = \<lparr>xf_fieldKey = ''title'', xf_rawValue = None,
     xf_normalizedValue = JObj [(''value'', JStr (asc ''NDA''))], xf_confidence = None,
     xf_sourceText = None, xf_sourcePage = None\<rparr>"

text \<open>A worker whose field service answers every text with \<open>fs\<close>.\<close>

definition demo_env :: "extracted_field list \<Rightarrow> worker_env" where
  "demo_env fs = \<lparr>w_getBuffer = \<lambda>_ _. Some [], w_checksum = \<lambda>_. ''sum'', w_utf8 = \<lambda>_. [],
     w_extract = \<lambda>_ _ _. Extracted \<lparr>et_text = asc ''text'', et_pageCount = None, et_language = None,
       et_method = ''plain'', et_warnings = []\<rparr>,
     w_fields = \<lambda>_. Field_Result fs [], w_cuid = nat_str\<rparr>"

theorem duplicate_field_strands_job_witness:
  "fst (processNextExtractionJob (demo_env [demo_field, demo_field]) ''w1'' 60
      (demo_db [demo_job PENDING 0] [])) = Inl UnexpectedError \<and>
   map ej_status (extraction_jobs (snd (processNextExtractionJob (demo_env [demo_field]) ''w1'' 60
      (demo_db [demo_job PENDING 0] [])))) = [REVIEW_REQUIRED]"
proof
  have shape: "isValidNormalizedSuggestionValue ''title'' (JObj [(''value'', JStr (asc ''NDA''))])"
    by (simp add: isValidNormalizedSuggestionValue_def asc_def js_trim_def js_trim_end_def
        js_trim_start_def is_js_space_def)
  let ?db = "demo_db [demo_job PENDING 0] []"
  have claim: "claimNextPendingJob ''w1'' 60 ?db =
      (Some (claim_job ''w1'' 60 (demo_job PENDING 0)),
       ?db\<lparr>extraction_jobs := [claim_job ''w1'' 60 (demo_job PENDING 0)]\<rparr>)"
    by (simp add: claimNextPendingJob_def demo_db_def demo_job_def update_rows_def)
  show "fst (processNextExtractionJob (demo_env [demo_field, demo_field]) ''w1'' 60 ?db) =
      Inl UnexpectedError"
    by (rule conjunct1 [OF duplicate_field_strands_job [OF claim, where fs = "[demo_field, demo_field]"]])
      (simp_all add: demo_db_def demo_job_def claim_job_def findContractById_def find_row_Cons
        findContractFileById_def demo_env_def demo_field_def shape)
  show "map ej_status (extraction_jobs (snd (processNextExtractionJob (demo_env [demo_field]) ''w1'' 60
      ?db))) = [REVIEW_REQUIRED]"
    unfolding processNextExtractionJob_def claim
    by (simp add: runClaimedJob_def demo_db_def demo_job_def
        claim_job_def findContractById_def find_row_Cons findContractFileById_def demo_env_def
        updateExtractionJob_def update_rows_def set_stage_def storeExtraction_def Let_def
        deleteSuggestionsByJobId_def delete_rows_def suggestion_rows_def demo_field_def shape
        suggestion_row_def createFieldSuggestions_def review_job_def audit_job_def audit_def)
qed

end
