(* ===== verification/Mail.thy ===== *)
theory Mail
  imports Db
begin

text \<open>
  Tracked mail delivery: the error codes, back-off and idempotency keys of
  \<^verbatim>\<open>domain/email/\<close>, the outbox table of \<^verbatim>\<open>server/repositories/mail-delivery-repository.ts\<close>,
  the inline sender (\<^verbatim>\<open>server/services/email/send-tracked-mail.ts\<close>), and the worker and
  the stale recovery of \<^verbatim>\<open>features/mail/server/\<close>. What a mailer answers is a parameter.
\<close>

section \<open>Error codes, back-off, keys\<close>

datatype mail_error_code =
  PROVIDER_TIMEOUT | PROVIDER_RATE_LIMITED | PROVIDER_UNAVAILABLE | INVALID_RECIPIENT
  | SENDER_NOT_VERIFIED | PROVIDER_AUTH_FAILED | MAX_ATTEMPTS_REACHED | TOKEN_REISSUE_REQUIRED

definition NON_RETRYABLE_MAIL_ERROR_CODES :: "mail_error_code set" where
  "NON_RETRYABLE_MAIL_ERROR_CODES =
     {INVALID_RECIPIENT, SENDER_NOT_VERIFIED, PROVIDER_AUTH_FAILED, MAX_ATTEMPTS_REACHED,
      TOKEN_REISSUE_REQUIRED}"

text \<open>\<open>None\<close> stands for the empty string the recovery passes when no code is stored.\<close>

definition isRetryableMailError :: "mail_error_code option \<Rightarrow> nat \<Rightarrow> nat \<Rightarrow> bool" where
  "isRetryableMailError errorCode attempt maxAttempts =
     (if attempt \<ge> maxAttempts then False
      else (case errorCode of None \<Rightarrow> True | Some c \<Rightarrow> c \<notin> NON_RETRYABLE_MAIL_ERROR_CODES))"

definition BASE_BACKOFF_MS_BY_ATTEMPT :: "nat \<Rightarrow> int option" where
  "BASE_BACKOFF_MS_BY_ATTEMPT = [1 \<mapsto> 60 * 1000, 2 \<mapsto> 5 * 60 * 1000, 3 \<mapsto> 30 * 60 * 1000]"

definition backoff_base :: "nat \<Rightarrow> int" where
  "backoff_base attempt =
     (case BASE_BACKOFF_MS_BY_ATTEMPT attempt of None \<Rightarrow> 30 * 60 * 1000 | Some b \<Rightarrow> b)"

text \<open>\<open>r\<close> is what \<open>Math.random\<close> gave, at least 0 and below 1; \<open>Math.round\<close> is the floor after adding a
  half.\<close>

definition computeMailRetryBackoffMs :: "nat \<Rightarrow> real \<Rightarrow> int" where
  "computeMailRetryBackoffMs attempt r =
     (let jitterFraction = (r * 2 - 1) * (2 / 10);
          withJitter = of_int (backoff_base attempt) * (1 + jitterFraction)
      in max 1000 \<lfloor>withJitter + 1 / 2\<rfloor>)"

definition classifyPostmarkError :: "nat option \<Rightarrow> nat option \<Rightarrow> bool \<Rightarrow> mail_error_code" where
  "classifyPostmarkError httpStatus errorCode isTimeout =
     (if isTimeout then PROVIDER_TIMEOUT
      else if httpStatus = Some 401 then PROVIDER_AUTH_FAILED
      else if httpStatus = Some 429 then PROVIDER_RATE_LIMITED
      else if (case httpStatus of None \<Rightarrow> False | Some s \<Rightarrow> s \<ge> 500) then PROVIDER_UNAVAILABLE
      else if errorCode = Some 300 \<or> errorCode = Some 406 then INVALID_RECIPIENT
      else if errorCode = Some 400 then SENDER_NOT_VERIFIED
      else PROVIDER_UNAVAILABLE)"

text \<open>What a mailer answers: the provider's message id, if any, or a thrown value, which carries a
  code when it is a \<open>MailProviderError\<close>.\<close>

datatype send_result = Send_Ok "string option" | Send_Throws "mail_error_code option"

definition classifyMailSendError :: "mail_error_code option \<Rightarrow> mail_error_code" where
  "classifyMailSendError thrown = (case thrown of Some c \<Rightarrow> c | None \<Rightarrow> PROVIDER_UNAVAILABLE)"

definition ORGANIZATION_INVITATION :: string where
  "ORGANIZATION_INVITATION = ''ORGANIZATION_INVITATION''"
definition EMAIL_VERIFICATION :: string where
  "EMAIL_VERIFICATION = ''EMAIL_VERIFICATION''"
definition PASSWORD_RESET :: string where
  "PASSWORD_RESET = ''PASSWORD_RESET''"
definition PASSWORD_CHANGED :: string where
  "PASSWORD_CHANGED = ''PASSWORD_CHANGED''"

definition WORKER_HANDLED_MESSAGE_TYPES :: "string list" where
  "WORKER_HANDLED_MESSAGE_TYPES = [PASSWORD_CHANGED]"

definition TOKEN_MAIL_MESSAGE_TYPES :: "string list" where
  "TOKEN_MAIL_MESSAGE_TYPES = [ORGANIZATION_INVITATION, EMAIL_VERIFICATION, PASSWORD_RESET]"

definition isTokenMailMessageType :: "string \<Rightarrow> bool" where
  "isTokenMailMessageType t \<longleftrightarrow> t \<in> set TOKEN_MAIL_MESSAGE_TYPES"

definition buildInvitationIdempotencyKey :: "string \<Rightarrow> string" where
  "buildInvitationIdempotencyKey invitationId = ''organization-invitation:'' @ invitationId"

definition buildInvitationResendIdempotencyKey :: "string \<Rightarrow> nat \<Rightarrow> string" where
  "buildInvitationResendIdempotencyKey invitationId resendCount =
     ''organization-invitation:'' @ invitationId @ '':resend:'' @ nat_str resendCount"

definition buildEmailVerificationIdempotencyKey :: "string \<Rightarrow> string" where
  "buildEmailVerificationIdempotencyKey tokenId = ''email-verification:'' @ tokenId"

definition buildPasswordResetIdempotencyKey :: "string \<Rightarrow> string" where
  "buildPasswordResetIdempotencyKey tokenId = ''password-reset:'' @ tokenId"

definition buildPasswordChangedIdempotencyKey :: "string \<Rightarrow> nat \<Rightarrow> string" where
  "buildPasswordChangedIdempotencyKey userId sessionVersion =
     ''password-changed:'' @ userId @ '':'' @ nat_str sessionVersion"

text \<open>The text between the first and the second colon, if it is not empty.\<close>

definition parseTokenMailEntityId :: "string \<Rightarrow> string option" where
  "parseTokenMailEntityId key =
     (case dropWhile (\<lambda>c. c \<noteq> CHR '':'') key of
        [] \<Rightarrow> None
      | _ # rest \<Rightarrow>
          (let segment = takeWhile (\<lambda>c. c \<noteq> CHR '':'') rest
           in if segment = [] then None else Some segment))"

section \<open>The delivery table\<close>

datatype mail_status = Mail_PENDING | Mail_SENDING | Mail_SENT | Mail_FAILED | Mail_CANCELLED

record mail_delivery =
  md_id :: string
  md_organizationId :: "string option"
  md_userId :: "string option"
  md_messageType :: string
  md_recipientHash :: string
  md_idempotencyKey :: string
  md_status :: mail_status
  md_attempt :: nat
  md_maxAttempts :: nat
  md_provider :: "string option"
  md_providerMessageId :: "string option"
  md_scheduledFor :: time_ms
  md_lockedAt :: "time_ms option"
  md_lockedBy :: "string option"
  md_sentAt :: "time_ms option"
  md_failedAt :: "time_ms option"
  md_errorCode :: "mail_error_code option"
  md_createdAt :: time_ms

record user_row =
  us_id :: string
  us_name :: string
  us_email :: string
  us_passwordHash :: string
  us_emailVerifiedAt :: "time_ms option"

record mail_db = core_db +
  users :: "user_row list"
  mail_deliveries :: "mail_delivery list"

text \<open>A row with the same key (or id) makes the insertion a no-op that gives \<open>None\<close>.\<close>

definition enqueuePendingMailDelivery ::
  "string \<Rightarrow> time_ms \<Rightarrow> string option \<Rightarrow> string option \<Rightarrow> string \<Rightarrow> string \<Rightarrow> string \<Rightarrow>
   'x mail_db_scheme \<Rightarrow> string option \<times> 'x mail_db_scheme"
where
  "enqueuePendingMailDelivery newId now org userId messageType recipientHash key db =
     (if \<exists>d \<in> set (mail_deliveries db). md_idempotencyKey d = key \<or> md_id d = newId then (None, db)
      else (Some newId, db\<lparr>mail_deliveries := mail_deliveries db @
        [\<lparr>md_id = newId, md_organizationId = org, md_userId = userId, md_messageType = messageType,
          md_recipientHash = recipientHash, md_idempotencyKey = key, md_status = Mail_PENDING,
          md_attempt = 0, md_maxAttempts = 3, md_provider = None, md_providerMessageId = None,
          md_scheduledFor = now, md_lockedAt = None, md_lockedBy = None, md_sentAt = None,
          md_failedAt = None, md_errorCode = None, md_createdAt = now\<rparr>]\<rparr>))"

definition updateMail ::
  "string \<Rightarrow> (mail_delivery \<Rightarrow> mail_delivery) \<Rightarrow> 'x mail_db_scheme \<Rightarrow> 'x mail_db_scheme option" where
  "updateMail i f db =
     (if \<exists>d \<in> set (mail_deliveries db). md_id d = i
      then Some (db\<lparr>mail_deliveries := update_rows (\<lambda>d. md_id d = i) f (mail_deliveries db)\<rparr>)
      else None)"

definition claim_mail :: "string \<Rightarrow> time_ms \<Rightarrow> mail_delivery \<Rightarrow> mail_delivery" where
  "claim_mail workerId now d =
     d\<lparr>md_status := Mail_SENDING, md_attempt := md_attempt d + 1, md_lockedAt := Some now,
       md_lockedBy := Some workerId\<rparr>"

definition claimable_mail :: "time_ms \<Rightarrow> mail_delivery \<Rightarrow> bool" where
  "claimable_mail now d \<longleftrightarrow>
     md_status d = Mail_PENDING \<and> md_scheduledFor d \<le> now \<and>
     md_messageType d \<in> set WORKER_HANDLED_MESSAGE_TYPES"

definition claimNextPendingMailDelivery ::
  "string \<Rightarrow> time_ms \<Rightarrow> 'x mail_db_scheme \<Rightarrow> mail_delivery option \<times> 'x mail_db_scheme" where
  "claimNextPendingMailDelivery workerId now db =
     (case oldest_row (claimable_mail now) md_scheduledFor (mail_deliveries db) of
        None \<Rightarrow> (None, db)
      | Some d \<Rightarrow>
          (Some (claim_mail workerId now d),
           db\<lparr>mail_deliveries :=
                update_rows (\<lambda>q. md_id q = md_id d) (claim_mail workerId now) (mail_deliveries db)\<rparr>))"

definition mail_sending :: "mail_delivery \<Rightarrow> mail_delivery" where
  "mail_sending d = d\<lparr>md_status := Mail_SENDING, md_attempt := md_attempt d + 1\<rparr>"

definition mail_sent :: "time_ms \<Rightarrow> string option \<Rightarrow> string \<Rightarrow> mail_delivery \<Rightarrow> mail_delivery" where
  "mail_sent now providerMessageId provider d =
     d\<lparr>md_status := Mail_SENT, md_sentAt := Some now,
       md_providerMessageId :=
         (case providerMessageId of None \<Rightarrow> md_providerMessageId d | Some m \<Rightarrow> Some m),
       md_provider := Some provider, md_lockedAt := None, md_lockedBy := None\<rparr>"

definition mail_retrying :: "time_ms \<Rightarrow> mail_error_code \<Rightarrow> string \<Rightarrow> mail_delivery \<Rightarrow> mail_delivery" where
  "mail_retrying scheduledFor errorCode provider d =
     d\<lparr>md_status := Mail_PENDING, md_scheduledFor := scheduledFor, md_errorCode := Some errorCode,
       md_provider := Some provider, md_lockedAt := None, md_lockedBy := None\<rparr>"

definition mail_failed :: "time_ms \<Rightarrow> mail_error_code \<Rightarrow> string option \<Rightarrow> mail_delivery \<Rightarrow> mail_delivery" where
  "mail_failed now errorCode provider d =
     d\<lparr>md_status := Mail_FAILED, md_failedAt := Some now, md_errorCode := Some errorCode,
       md_provider := (case provider of None \<Rightarrow> md_provider d | Some p \<Rightarrow> Some p),
       md_lockedAt := None, md_lockedBy := None\<rparr>"

definition mail_reset :: "time_ms \<Rightarrow> mail_delivery \<Rightarrow> mail_delivery" where
  "mail_reset now d =
     d\<lparr>md_status := Mail_PENDING, md_scheduledFor := now, md_lockedAt := None, md_lockedBy := None\<rparr>"

definition markMailDeliverySending :: "string \<Rightarrow> 'x mail_db_scheme \<Rightarrow> 'x mail_db_scheme option" where
  "markMailDeliverySending i db = updateMail i mail_sending db"

definition markMailDeliverySent ::
  "string \<Rightarrow> time_ms \<Rightarrow> string option \<Rightarrow> string \<Rightarrow> 'x mail_db_scheme \<Rightarrow> 'x mail_db_scheme option" where
  "markMailDeliverySent i now messageId provider db = updateMail i (mail_sent now messageId provider) db"

definition markMailDeliveryRetrying ::
  "string \<Rightarrow> time_ms \<Rightarrow> mail_error_code \<Rightarrow> string \<Rightarrow> 'x mail_db_scheme \<Rightarrow> 'x mail_db_scheme option" where
  "markMailDeliveryRetrying i scheduledFor errorCode provider db =
     updateMail i (mail_retrying scheduledFor errorCode provider) db"

definition markMailDeliveryFailed ::
  "string \<Rightarrow> time_ms \<Rightarrow> mail_error_code \<Rightarrow> string option \<Rightarrow> 'x mail_db_scheme \<Rightarrow> 'x mail_db_scheme option" where
  "markMailDeliveryFailed i now errorCode provider db = updateMail i (mail_failed now errorCode provider) db"

definition resetMailDeliveryToPending :: "string \<Rightarrow> time_ms \<Rightarrow> 'x mail_db_scheme \<Rightarrow> 'x mail_db_scheme option" where
  "resetMailDeliveryToPending i now db = updateMail i (mail_reset now) db"

definition findStaleSendingMailDeliveries :: "time_ms \<Rightarrow> 'x mail_db_scheme \<Rightarrow> mail_delivery list" where
  "findStaleSendingMailDeliveries staleBefore db =
     filter (\<lambda>d. md_status d = Mail_SENDING \<and>
       (case md_lockedAt d of None \<Rightarrow> False | Some t \<Rightarrow> t < staleBefore) \<and>
       md_messageType d \<in> set WORKER_HANDLED_MESSAGE_TYPES) (mail_deliveries db)"

definition findStalePendingTokenDeliveries :: "time_ms \<Rightarrow> 'x mail_db_scheme \<Rightarrow> mail_delivery list" where
  "findStalePendingTokenDeliveries staleBefore db =
     sort_key md_createdAt (filter (\<lambda>d. md_status d = Mail_PENDING \<and> md_createdAt d < staleBefore \<and>
       md_messageType d \<in> set TOKEN_MAIL_MESSAGE_TYPES) (mail_deliveries db))"

definition markMailDeliveryCancelledIfPending ::
  "string \<Rightarrow> time_ms \<Rightarrow> mail_error_code \<Rightarrow> 'x mail_db_scheme \<Rightarrow> bool \<times> 'x mail_db_scheme" where
  "markMailDeliveryCancelledIfPending i now errorCode db =
     (let match = (\<lambda>d. md_id d = i \<and> md_status d = Mail_PENDING) in
      (count_rows match (mail_deliveries db) > 0,
       db\<lparr>mail_deliveries := update_rows match
         (\<lambda>d. d\<lparr>md_status := Mail_CANCELLED, md_failedAt := Some now, md_errorCode := Some errorCode,
                 md_lockedAt := None, md_lockedBy := None\<rparr>) (mail_deliveries db)\<rparr>))"

section \<open>The inline sender\<close>

text \<open>The result is \<open>Inl\<close> when the operation throws, what the sender threw included.\<close>

definition sendTrackedMail ::
  "string \<Rightarrow> string \<Rightarrow> send_result \<Rightarrow> time_ms \<Rightarrow> 'x mail_db_scheme \<Rightarrow> (app_error + unit) \<times> 'x mail_db_scheme"
where
  "sendTrackedMail i provider sent now db =
     (case markMailDeliverySending i db of
        None \<Rightarrow> (Inl UnexpectedError, db)
      | Some db1 \<Rightarrow>
          (case sent of
             Send_Ok messageId \<Rightarrow>
               (case markMailDeliverySent i now messageId provider db1 of
                  None \<Rightarrow> (Inl UnexpectedError, db1)
                | Some db2 \<Rightarrow> (Inr (), db2))
           | Send_Throws thrown \<Rightarrow>
               (case markMailDeliveryFailed i now (classifyMailSendError thrown) (Some provider) db1 of
                  None \<Rightarrow> (Inl UnexpectedError, db1)
                | Some db2 \<Rightarrow> (Inl UnexpectedError, db2))))"

section \<open>The worker\<close>

datatype mail_outcome = Outcome_sent | Outcome_retrying | Outcome_failed

text \<open>\<open>mailer\<close> answers for an address and an idempotency key.\<close>

definition sendPasswordChangedNotice ::
  "(string \<Rightarrow> string \<Rightarrow> send_result) \<Rightarrow> string option \<Rightarrow> string \<Rightarrow> 'x mail_db_scheme \<Rightarrow> send_result" where
  "sendPasswordChangedNotice mailer userId key db =
     (case userId of
        None \<Rightarrow> Send_Throws (Some INVALID_RECIPIENT)
      | Some u \<Rightarrow>
          (case find_row (\<lambda>r. us_id r = u) (users db) of
             None \<Rightarrow> Send_Throws (Some INVALID_RECIPIENT)
           | Some user \<Rightarrow> mailer (us_email user) key))"

text \<open>The failure branch of the worker: retry later or fail for good.\<close>

definition record_send_failure ::
  "real \<Rightarrow> time_ms \<Rightarrow> string \<Rightarrow> mail_delivery \<Rightarrow> mail_error_code option \<Rightarrow> 'x mail_db_scheme \<Rightarrow>
   mail_outcome \<times> 'x mail_db_scheme option"
where
  "record_send_failure r later provider claimed thrown db =
     (let errorCode = classifyMailSendError thrown in
      if isRetryableMailError (Some errorCode) (md_attempt claimed) (md_maxAttempts claimed)
      then (Outcome_retrying,
            markMailDeliveryRetrying (md_id claimed)
              (later + computeMailRetryBackoffMs (md_attempt claimed) r) errorCode provider db)
      else (Outcome_failed,
            markMailDeliveryFailed (md_id claimed) later
              (if md_attempt claimed \<ge> md_maxAttempts claimed then MAX_ATTEMPTS_REACHED else errorCode)
              (Some provider) db))"

text \<open>\<open>now\<close> is the time of the claim, \<open>later\<close> the time the mailer has answered, \<open>r\<close> the random number
  of the back-off. The result names the delivery processed, if any, and what became of it.\<close>

definition processNextMailDelivery ::
  "(string \<Rightarrow> string \<Rightarrow> send_result) \<Rightarrow> string \<Rightarrow> real \<Rightarrow> string \<Rightarrow> time_ms \<Rightarrow> time_ms \<Rightarrow>
   'x mail_db_scheme \<Rightarrow> (app_error + (string \<times> mail_outcome) option) \<times> 'x mail_db_scheme"
where
  "processNextMailDelivery mailer provider r workerId now later db =
     (case claimNextPendingMailDelivery workerId now db of
        (None, db1) \<Rightarrow> (Inr None, db1)
      | (Some claimed, db1) \<Rightarrow>
          (let (outcome, written) =
             (if md_messageType claimed = PASSWORD_CHANGED
              then (case sendPasswordChangedNotice mailer (md_userId claimed) (md_idempotencyKey claimed) db1 of
                      Send_Ok _ \<Rightarrow>
                        (Outcome_sent, markMailDeliverySent (md_id claimed) later None provider db1)
                    | Send_Throws thrown \<Rightarrow> record_send_failure r later provider claimed thrown db1)
              else (Outcome_failed,
                    markMailDeliveryFailed (md_id claimed) later PROVIDER_UNAVAILABLE (Some provider) db1))
           in (case written of
                 None \<Rightarrow> (Inl UnexpectedError, db1)
               | Some db2 \<Rightarrow> (Inr (Some (md_id claimed, outcome)), db2))))"

section \<open>Recovery of stale deliveries\<close>

fun recover_mail_loop ::
  "time_ms \<Rightarrow> mail_delivery list \<Rightarrow> nat \<Rightarrow> nat \<Rightarrow> 'x mail_db_scheme \<Rightarrow>
   (app_error + nat \<times> nat) \<times> 'x mail_db_scheme"
where
  "recover_mail_loop now [] recovered failed db = (Inr (recovered, failed), db)"
| "recover_mail_loop now (d # ds) recovered failed db =
     (if isRetryableMailError (md_errorCode d) (md_attempt d) (md_maxAttempts d)
      then (case resetMailDeliveryToPending (md_id d) now db of
              None \<Rightarrow> (Inl UnexpectedError, db)
            | Some db' \<Rightarrow> recover_mail_loop now ds (recovered + 1) failed db')
      else (case markMailDeliveryFailed (md_id d) now MAX_ATTEMPTS_REACHED (md_provider d) db of
              None \<Rightarrow> (Inl UnexpectedError, db)
            | Some db' \<Rightarrow> recover_mail_loop now ds recovered (failed + 1) db'))"

definition recoverStaleMailDeliveries ::
  "nat \<Rightarrow> time_ms \<Rightarrow> 'x mail_db_scheme \<Rightarrow> (app_error + nat \<times> nat \<times> nat) \<times> 'x mail_db_scheme" where
  "recoverStaleMailDeliveries staleMinutes now db =
     (let stale = findStaleSendingMailDeliveries (now - int staleMinutes * 60 * 1000) db;
          (r, db') = recover_mail_loop now stale 0 0 db
      in (case r of Inl e \<Rightarrow> Inl e | Inr (recovered, failed) \<Rightarrow> Inr (length stale, recovered, failed), db'))"

section \<open>What the operations do to the rows\<close>

definition terminal_mail :: "mail_delivery \<Rightarrow> bool" where
  "terminal_mail d \<longleftrightarrow> md_status d \<in> {Mail_SENT, Mail_FAILED, Mail_CANCELLED}"

definition worker_mail :: "mail_delivery \<Rightarrow> bool" where
  "worker_mail d \<longleftrightarrow> md_messageType d \<in> set WORKER_HANDLED_MESSAGE_TYPES"

text \<open>The invariant of the table: ids and keys are unique, and a delivery of the worker has used at most
  its attempts, and fewer while it is pending.\<close>

definition mail_rows_ok :: "mail_delivery list \<Rightarrow> bool" where
  "mail_rows_ok ds \<longleftrightarrow>
     distinct (map md_id ds) \<and> distinct (map md_idempotencyKey ds) \<and>
     (\<forall>d \<in> set ds. worker_mail d \<longrightarrow>
        md_attempt d \<le> md_maxAttempts d \<and> (md_status d = Mail_PENDING \<longrightarrow> md_attempt d < md_maxAttempts d))"

text \<open>A row is kept, or rewritten keeping its identity; a rewritten row was not terminal. \<open>steps\<close> tells
  how often a row's attempt counter went up.\<close>

definition mail_keeps :: "(mail_delivery \<Rightarrow> nat) \<Rightarrow> mail_delivery \<Rightarrow> mail_delivery \<Rightarrow> bool" where
  "mail_keeps steps d d' \<longleftrightarrow>
     d' = d \<and> steps d = 0 \<or>
     \<not> terminal_mail d \<and> md_id d' = md_id d \<and> md_idempotencyKey d' = md_idempotencyKey d \<and>
     md_messageType d' = md_messageType d \<and> md_maxAttempts d' = md_maxAttempts d \<and>
     md_attempt d' = md_attempt d + steps d \<and>
     (worker_mail d \<longrightarrow> md_attempt d' \<le> md_maxAttempts d' \<and>
        (md_status d' = Mail_PENDING \<longrightarrow> md_attempt d' < md_maxAttempts d'))"

lemma mail_keeps_refl [simp]: "mail_keeps (\<lambda>_. 0) d d"
  by (simp add: mail_keeps_def)

lemma all2_mail_keeps_refl [simp]: "list_all2 (mail_keeps (\<lambda>_. 0)) ds ds"
  by (rule list_all2_refl) simp

lemma all2_mail_update:
  "(\<And>d. d \<in> set ds \<Longrightarrow> P d \<Longrightarrow> mail_keeps steps d (f d)) \<Longrightarrow>
   (\<And>d. d \<in> set ds \<Longrightarrow> \<not> P d \<Longrightarrow> steps d = 0) \<Longrightarrow>
   list_all2 (mail_keeps steps) ds (update_rows P f ds)"
  by (induction ds) (auto simp: update_rows_def mail_keeps_def)

lemma mail_keeps_fields:
  "mail_keeps steps d d' \<Longrightarrow> md_id d' = md_id d \<and> md_idempotencyKey d' = md_idempotencyKey d \<and>
   md_messageType d' = md_messageType d \<and> md_maxAttempts d' = md_maxAttempts d \<and>
   md_attempt d' = md_attempt d + steps d \<and> (terminal_mail d \<longrightarrow> d' = d)"
  by (auto simp: mail_keeps_def)

lemma mail_keeps_trans:
  assumes "mail_keeps s1 d d1" "mail_keeps s2 d1 d2"
  shows "mail_keeps (\<lambda>d. s1 d + s2 d1) d d2"
proof (cases "d1 = d \<and> s1 d = 0")
  case True
  with assms(2) show ?thesis by (simp add: mail_keeps_def)
next
  case False
  with assms(1) have *: "\<not> terminal_mail d" "worker_mail d1 = worker_mail d"
    by (auto simp: mail_keeps_def worker_mail_def)
  with False assms show ?thesis by (auto simp: mail_keeps_def)
qed

lemma all2_mail_trans:
  assumes "list_all2 (mail_keeps (\<lambda>_. 0)) ds ds1" "list_all2 (mail_keeps (\<lambda>_. 0)) ds1 ds2"
  shows "list_all2 (mail_keeps (\<lambda>_. 0)) ds ds2"
  using list_all2_trans [OF _ assms, of "mail_keeps (\<lambda>_. 0)"] mail_keeps_trans by fastforce

lemma all2_mail_map_eq:
  "list_all2 (mail_keeps steps) ds ds' \<Longrightarrow>
   map md_id ds' = map md_id ds \<and> map md_idempotencyKey ds' = map md_idempotencyKey ds"
  by (induction rule: list_all2_induct) (auto simp: mail_keeps_fields)

lemma all2_mail_ok:
  assumes "list_all2 (mail_keeps steps) ds ds'" "mail_rows_ok ds"
  shows "mail_rows_ok ds'"
proof -
  have "md_attempt d' \<le> md_maxAttempts d' \<and> (md_status d' = Mail_PENDING \<longrightarrow> md_attempt d' < md_maxAttempts d')"
    if d': "d' \<in> set ds'" "worker_mail d'" for d'
  proof -
    from assms(1) d'(1) obtain d where d: "d \<in> set ds" "mail_keeps steps d d'"
      by (metis list_all2_conv_all_nth in_set_conv_nth)
    with d'(2) have "worker_mail d" by (simp add: worker_mail_def mail_keeps_fields)
    with d assms(2) show ?thesis by (auto simp: mail_rows_ok_def mail_keeps_def)
  qed
  with all2_mail_map_eq [OF assms(1)] assms(2) show ?thesis by (simp add: mail_rows_ok_def)
qed

lemma all2_mail_terminal:
  "list_all2 (mail_keeps steps) ds ds' \<Longrightarrow> d \<in> set ds \<Longrightarrow> terminal_mail d \<Longrightarrow> d \<in> set ds'"
  by (metis list_all2_conv_all_nth in_set_conv_nth mail_keeps_fields)

lemma mail_ok_same: "mail_rows_ok ds \<Longrightarrow> d \<in> set ds \<Longrightarrow> q \<in> set ds \<Longrightarrow> md_id d = md_id q \<Longrightarrow> d = q"
  by (auto simp: mail_rows_ok_def distinct_map inj_on_def)

lemma updateMail_Some:
  "updateMail i f db = Some db' \<longleftrightarrow>
   (\<exists>d \<in> set (mail_deliveries db). md_id d = i) \<and>
   db' = db\<lparr>mail_deliveries := update_rows (\<lambda>d. md_id d = i) f (mail_deliveries db)\<rparr>"
  by (auto simp: updateMail_def)

text \<open>Rewriting the one row with id \<open>md_id d\<close>.\<close>

lemma update_one_mail:
  assumes "mail_rows_ok ds" "d \<in> set ds" "mail_keeps steps d (f d)" "\<And>q. q \<noteq> d \<Longrightarrow> steps q = 0"
  shows "list_all2 (mail_keeps steps) ds (update_rows (\<lambda>q. md_id q = md_id d) f ds)"
proof (rule all2_mail_update)
  fix q :: mail_delivery assume "q \<in> set ds" "md_id q = md_id d"
  with mail_ok_same [OF assms(1) _ assms(2)] assms(3) show "mail_keeps steps q (f q)" by blast
next
  fix q :: mail_delivery assume "md_id q \<noteq> md_id d"
  then have "q \<noteq> d" by blast
  then show "steps q = 0" by (rule assms(4))
qed

lemma oldest_claim:
  assumes "claimNextPendingMailDelivery w now db = (Some job, db1)"
  obtains d where "oldest_row (claimable_mail now) md_scheduledFor (mail_deliveries db) = Some d"
    "d \<in> set (mail_deliveries db)" "claimable_mail now d" "job = claim_mail w now d"
  using assms that
  by (auto simp: claimNextPendingMailDelivery_def split: option.splits dest: oldest_row_Some)

text \<open>What the worker makes of the mailer's answer about the row \<open>d\<close> it claimed.\<close>

definition mail_verdict ::
  "string \<Rightarrow> real \<Rightarrow> time_ms \<Rightarrow> mail_delivery \<Rightarrow> send_result \<Rightarrow>
   mail_outcome \<times> (mail_delivery \<Rightarrow> mail_delivery)" where
  "mail_verdict p r later d sent =
     (case sent of
        Send_Ok _ \<Rightarrow> (Outcome_sent, mail_sent later None p)
      | Send_Throws t \<Rightarrow>
          let code = classifyMailSendError t; attempt = md_attempt d + 1 in
          if isRetryableMailError (Some code) attempt (md_maxAttempts d)
          then (Outcome_retrying, mail_retrying (later + computeMailRetryBackoffMs attempt r) code p)
          else (Outcome_failed,
                mail_failed later (if attempt \<ge> md_maxAttempts d then MAX_ATTEMPTS_REACHED else code) (Some p)))"

lemma process_exact:
  assumes "oldest_row (claimable_mail now) md_scheduledFor (mail_deliveries db) = Some d"
  shows "processNextMailDelivery mailer p r w now later db =
       (let (outcome, g) = mail_verdict p r later d
              (sendPasswordChangedNotice mailer (md_userId d) (md_idempotencyKey d) db)
        in (Inr (Some (md_id d, outcome)), db\<lparr>mail_deliveries :=
              update_rows (\<lambda>q. md_id q = md_id d) (\<lambda>q. g (claim_mail w now q)) (mail_deliveries db)\<rparr>))"
proof -
  define job where "job = claim_mail w now d"
  define db1 where "db1 = db\<lparr>mail_deliveries :=
      update_rows (\<lambda>q. md_id q = md_id d) (claim_mail w now) (mail_deliveries db)\<rparr>"
  have c: "claimNextPendingMailDelivery w now db = (Some job, db1)"
    by (simp add: claimNextPendingMailDelivery_def assms job_def db1_def)
  from oldest_row_Some [OF assms] have d: "d \<in> set (mail_deliveries db)" "claimable_mail now d" by auto
  have job: "md_id job = md_id d" "md_messageType job = PASSWORD_CHANGED" "md_attempt job = md_attempt d + 1"
    "md_maxAttempts job = md_maxAttempts d" "md_userId job = md_userId d"
    "md_idempotencyKey job = md_idempotencyKey d"
    using d(2) by (simp_all add: job_def claim_mail_def claimable_mail_def WORKER_HANDLED_MESSAGE_TYPES_def)
  have sent: "sendPasswordChangedNotice mailer u k db1 = sendPasswordChangedNotice mailer u k db" for u k
    by (cases u) (simp_all add: sendPasswordChangedNotice_def db1_def)
  have "claim_mail w now d \<in> set (mail_deliveries db1)"
    unfolding db1_def using d(1) by (auto simp: set_update_rows intro!: image_eqI [where x = d])
  moreover have "md_id (claim_mail w now d) = md_id d" by (simp add: claim_mail_def)
  ultimately have "\<exists>q \<in> set (mail_deliveries db1). md_id q = md_id d" by blast
  then have written: "updateMail (md_id d) g db1 = Some (db\<lparr>mail_deliveries :=
      update_rows (\<lambda>q. md_id q = md_id d) (\<lambda>q. g (claim_mail w now q)) (mail_deliveries db)\<rparr>)" for g
    by (simp add: updateMail_def db1_def) (simp add: update_rows_def claim_mail_def)
  show ?thesis
    by (simp add: processNextMailDelivery_def c job sent mail_verdict_def record_send_failure_def Let_def
        markMailDeliverySent_def markMailDeliveryRetrying_def markMailDeliveryFailed_def written
        split: send_result.split)
qed

text \<open>The row a worker claimed, before and after the outcome is recorded.\<close>

lemma process_rows:
  assumes ok: "mail_rows_ok (mail_deliveries db)"
    and c: "claimNextPendingMailDelivery w now db = (Some job, db1)"
  obtains d f where "d \<in> set (mail_deliveries db)" "job = claim_mail w now d"
    "mail_deliveries (snd (processNextMailDelivery mailer p r w now later db)) =
       update_rows (\<lambda>q. md_id q = md_id d) f (mail_deliveries db)"
    "mail_keeps (\<lambda>q. if q = d then 1 else 0) d (f d)"
proof -
  obtain d where d: "oldest_row (claimable_mail now) md_scheduledFor (mail_deliveries db) = Some d"
    "d \<in> set (mail_deliveries db)" "claimable_mail now d" "job = claim_mail w now d"
    by (rule oldest_claim [OF c])
  let ?g = "snd (mail_verdict p r later d
      (sendPasswordChangedNotice mailer (md_userId d) (md_idempotencyKey d) db))"
  have room: "worker_mail d" "md_attempt d < md_maxAttempts d" "\<not> terminal_mail d"
    using d(2,3) ok by (auto simp: claimable_mail_def mail_rows_ok_def worker_mail_def terminal_mail_def)
  have "mail_keeps (\<lambda>q. if q = d then 1 else 0) d (?g (claim_mail w now d))"
    using room by (auto simp: mail_verdict_def Let_def mail_keeps_def mail_sent_def mail_retrying_def
        mail_failed_def claim_mail_def isRetryableMailError_def split: send_result.split)
  from that [where f = "\<lambda>q. ?g (claim_mail w now q)", OF d(2,4) _ this] process_exact [OF d(1)] show thesis
    by (simp add: case_prod_beta Let_def)
qed

lemma recover_mail_rows:
  "mail_rows_ok (mail_deliveries db) \<Longrightarrow> distinct (map md_id ds) \<Longrightarrow> set ds \<subseteq> set (mail_deliveries db) \<Longrightarrow>
   (\<forall>d \<in> set ds. md_status d = Mail_SENDING) \<Longrightarrow>
   list_all2 (mail_keeps (\<lambda>_. 0)) (mail_deliveries db) (mail_deliveries (snd (recover_mail_loop now ds a b db)))"
proof (induction ds arbitrary: a b db)
  case (Cons d ds)
  note ok = Cons.prems(1)
  have d: "d \<in> set (mail_deliveries db)" "\<not> terminal_mail d"
    using Cons.prems(3,4) by (auto simp: terminal_mail_def)
  have step: "list_all2 (mail_keeps (\<lambda>_. 0)) (mail_deliveries db)
      (mail_deliveries (snd (recover_mail_loop now ds a' b' (db\<lparr>mail_deliveries :=
        update_rows (\<lambda>q. md_id q = md_id d) f (mail_deliveries db)\<rparr>))))"
    if f: "mail_keeps (\<lambda>_. 0) d (f d)" for a' b' f
  proof -
    let ?db = "db\<lparr>mail_deliveries := update_rows (\<lambda>q. md_id q = md_id d) f (mail_deliveries db)\<rparr>"
    have first: "list_all2 (mail_keeps (\<lambda>_. 0)) (mail_deliveries db) (mail_deliveries ?db)"
      using update_one_mail [where f = f and steps = "\<lambda>_. 0", OF ok d(1) f] by simp
    have "q \<in> set (mail_deliveries ?db)" if "q \<in> set ds" for q
    proof -
      from Cons.prems(2) have "md_id d \<notin> md_id ` set ds" by simp
      with that have "md_id q \<noteq> md_id d" by (metis imageI)
      moreover have "q \<in> set (mail_deliveries db)" using that Cons.prems(3) by auto
      ultimately show ?thesis by (auto simp: set_update_rows)
    qed
    with Cons.prems have "list_all2 (mail_keeps (\<lambda>_. 0)) (mail_deliveries ?db)
        (mail_deliveries (snd (recover_mail_loop now ds a' b' ?db)))"
      by (intro Cons.IH all2_mail_ok [OF first ok]) auto
    with first show ?thesis by (rule all2_mail_trans)
  qed
  have present: "\<exists>q \<in> set (mail_deliveries db). md_id q = md_id d" using d(1) by blast
  have used: "worker_mail d \<Longrightarrow> md_attempt d \<le> md_maxAttempts d"
    using ok d(1) by (auto simp: mail_rows_ok_def)
  show ?case
  proof (cases "isRetryableMailError (md_errorCode d) (md_attempt d) (md_maxAttempts d)")
    case True
    then have "md_attempt d < md_maxAttempts d" by (auto simp: isRetryableMailError_def split: if_splits)
    then have "mail_keeps (\<lambda>_. 0) d (mail_reset now d)" using d(2) by (simp add: mail_keeps_def mail_reset_def)
    from step [where f = "mail_reset now", OF this] True present show ?thesis
      by (simp add: resetMailDeliveryToPending_def updateMail_def)
  next
    case False
    have "mail_keeps (\<lambda>_. 0) d (mail_failed now MAX_ATTEMPTS_REACHED (md_provider d) d)"
      using d(2) used by (simp add: mail_keeps_def mail_failed_def)
    from step [where f = "mail_failed now MAX_ATTEMPTS_REACHED (md_provider d)", OF this] False present show ?thesis
      by (simp add: markMailDeliveryFailed_def updateMail_def)
  qed
qed simp

lemma recoverStaleMail_rows:
  assumes "mail_rows_ok (mail_deliveries db)"
  shows "list_all2 (mail_keeps (\<lambda>_. 0)) (mail_deliveries db)
    (mail_deliveries (snd (recoverStaleMailDeliveries mins now db)))"
proof -
  have "list_all2 (mail_keeps (\<lambda>_. 0)) (mail_deliveries db) (mail_deliveries (snd (recover_mail_loop now
      (findStaleSendingMailDeliveries (now - int mins * 60 * 1000) db) 0 0 db)))"
    by (rule recover_mail_rows [OF assms])
      (use assms in \<open>auto simp: findStaleSendingMailDeliveries_def mail_rows_ok_def distinct_map_filter\<close>)
  then show ?thesis by (simp add: recoverStaleMailDeliveries_def case_prod_beta Let_def)
qed

lemma cancel_mail_rows:
  "mail_rows_ok (mail_deliveries db) \<Longrightarrow>
   list_all2 (mail_keeps (\<lambda>_. 0)) (mail_deliveries db)
     (mail_deliveries (snd (markMailDeliveryCancelledIfPending i now code db)))"
  by (auto simp: markMailDeliveryCancelledIfPending_def Let_def mail_keeps_def terminal_mail_def
      mail_rows_ok_def intro!: all2_mail_update)

text \<open>Enqueueing appends a fresh row or changes nothing.\<close>

lemma enqueue_rows:
  assumes "enqueuePendingMailDelivery i now org u t h key db = (res, db')" "mail_rows_ok (mail_deliveries db)"
  shows "res = None \<and> db' = db \<or>
    res = Some i \<and> (\<exists>d. mail_deliveries db' = mail_deliveries db @ [d] \<and> md_id d = i \<and> md_messageType d = t \<and>
      md_idempotencyKey d = key \<and> md_status d = Mail_PENDING \<and> md_attempt d = 0 \<and> mail_rows_ok (mail_deliveries db'))"
  using assms by (auto simp: enqueuePendingMailDelivery_def mail_rows_ok_def split: if_splits)

lemma sendTracked_rows:
  "\<exists>f. mail_deliveries (snd (sendTrackedMail i p sent now db)) =
     update_rows (\<lambda>d. md_id d = i) f (mail_deliveries db) \<and>
     (\<forall>d. md_id (f d) = md_id d \<and> md_idempotencyKey (f d) = md_idempotencyKey d \<and>
        md_messageType (f d) = md_messageType d \<and> md_maxAttempts (f d) = md_maxAttempts d)"
proof (cases "\<exists>d \<in> set (mail_deliveries db). md_id d = i")
  case True
  then obtain d where d: "d \<in> set (mail_deliveries db)" "md_id d = i" by blast
  have "\<exists>q \<in> set (update_rows (\<lambda>d. md_id d = i) mail_sending (mail_deliveries db)). md_id q = i"
    using d by (auto simp: set_update_rows mail_sending_def intro!: bexI [where x = "mail_sending d"] image_eqI [where x = d])
  then have upd: "updateMail i g (db\<lparr>mail_deliveries := update_rows (\<lambda>d. md_id d = i) mail_sending (mail_deliveries db)\<rparr>) =
      Some (db\<lparr>mail_deliveries := update_rows (\<lambda>d. md_id d = i) (\<lambda>d. g (mail_sending d)) (mail_deliveries db)\<rparr>)" for g
    by (simp add: updateMail_def) (simp add: update_rows_def mail_sending_def)
  show ?thesis
  proof (cases sent)
    case (Send_Ok m)
    with True show ?thesis
      by (intro exI [where x = "\<lambda>d. mail_sent now m p (mail_sending d)"])
        (simp add: sendTrackedMail_def markMailDeliverySending_def updateMail_def [of i mail_sending]
          markMailDeliverySent_def upd mail_sent_def mail_sending_def)
  next
    case (Send_Throws e)
    with True show ?thesis
      by (intro exI [where x = "\<lambda>d. mail_failed now (classifyMailSendError e) (Some p) (mail_sending d)"])
        (simp add: sendTrackedMail_def markMailDeliverySending_def updateMail_def [of i mail_sending]
          markMailDeliveryFailed_def upd mail_failed_def mail_sending_def)
  qed
next
  case False
  then show ?thesis
    by (intro exI [where x = "\<lambda>d. d"])
      (simp add: sendTrackedMail_def markMailDeliverySending_def updateMail_def update_rows_def)
qed

section \<open>Sequences of operations\<close>

text \<open>One operation with its inputs: enqueueing the notice the worker sends, an event that enqueues a
  token-bearing mail and sends it inline, the worker, the recovery, and the cancellation that the
  recovery of token mail performs.\<close>

datatype mail_op =
  Op_Notice string time_ms "string option" "string option" string string
  | Op_Inline string time_ms "string option" "string option" string string string string send_result
  | Op_Worker "string \<Rightarrow> string \<Rightarrow> send_result" string real string time_ms time_ms
  | Op_RecoverMail nat time_ms
  | Op_CancelMail string time_ms mail_error_code

fun mail_step :: "mail_op \<Rightarrow> 'x mail_db_scheme \<Rightarrow> string option \<times> 'x mail_db_scheme" where
  "mail_step (Op_Notice i now org u h key) db =
     (None, snd (enqueuePendingMailDelivery i now org u PASSWORD_CHANGED h key db))"
| "mail_step (Op_Inline i now org u t h key p sent) db =
     (if \<not> isTokenMailMessageType t then (None, db)
      else (case enqueuePendingMailDelivery i now org u t h key db of
              (None, db') \<Rightarrow> (None, db')
            | (Some j, db') \<Rightarrow> (None, snd (sendTrackedMail j p sent now db'))))"
| "mail_step (Op_Worker mailer p r w now later) db =
     (map_option md_id (fst (claimNextPendingMailDelivery w now db)),
      snd (processNextMailDelivery mailer p r w now later db))"
| "mail_step (Op_RecoverMail mins now) db = (None, snd (recoverStaleMailDeliveries mins now db))"
| "mail_step (Op_CancelMail i now code) db = (None, snd (markMailDeliveryCancelledIfPending i now code db))"

definition mail_at :: "'x mail_db_scheme \<Rightarrow> string \<Rightarrow> (nat \<times> nat \<times> bool) option" where
  "mail_at db i =
     map_option (\<lambda>d. (md_attempt d, md_maxAttempts d, md_status d = Mail_PENDING))
       (find_row (\<lambda>d. md_id d = i \<and> worker_mail d) (mail_deliveries db))"

definition mail_valid :: "'x mail_db_scheme \<Rightarrow> bool" where
  "mail_valid db \<longleftrightarrow> mail_rows_ok (mail_deliveries db)"

lemma token_not_worker: "isTokenMailMessageType (md_messageType d) \<Longrightarrow> \<not> worker_mail d"
  by (auto simp: isTokenMailMessageType_def TOKEN_MAIL_MESSAGE_TYPES_def worker_mail_def
      WORKER_HANDLED_MESSAGE_TYPES_def ORGANIZATION_INVITATION_def EMAIL_VERIFICATION_def
      PASSWORD_RESET_def PASSWORD_CHANGED_def)

lemma claim_mail_none: "claimNextPendingMailDelivery w now db = (None, db') \<Longrightarrow> db' = db"
  by (auto simp: claimNextPendingMailDelivery_def split: option.splits)

text \<open>The rows there were are kept, one may be new, and only the claimed row counts an attempt.\<close>

definition mail_evolves :: "string option \<Rightarrow> mail_delivery list \<Rightarrow> mail_delivery list \<Rightarrow> bool" where
  "mail_evolves claimed ds ds' \<longleftrightarrow>
     (\<exists>steps kept new. ds' = kept @ new \<and> list_all2 (mail_keeps steps) ds kept \<and> mail_rows_ok ds' \<and>
        (\<forall>d \<in> set ds. steps d = (if claimed = Some (md_id d) then 1 else 0)))"

lemma evolves_kept:
  assumes "mail_rows_ok ds" "list_all2 (mail_keeps steps) ds ds'"
    "\<forall>d \<in> set ds. steps d = (if claimed = Some (md_id d) then 1 else 0)"
  shows "mail_evolves claimed ds ds'"
  unfolding mail_evolves_def using assms all2_mail_ok [OF assms(2,1)]
  by (intro exI [where x = steps] exI [where x = ds'] exI [where x = "[]"]) simp

lemma evolves_same:
  "mail_rows_ok ds \<Longrightarrow> list_all2 (mail_keeps (\<lambda>_. 0)) ds ds' \<Longrightarrow> mail_evolves None ds ds'"
  by (rule evolves_kept [where steps = "\<lambda>_. 0"]) simp_all

lemma evolves_grown: "mail_rows_ok (ds @ [d]) \<Longrightarrow> mail_evolves None ds (ds @ [d])"
  unfolding mail_evolves_def
  by (intro exI [where x = "\<lambda>_. 0"] exI [where x = ds] exI [where x = "[d]"]) simp

lemma mail_step_rows:
  assumes ok: "mail_rows_ok (mail_deliveries db)"
  shows "mail_evolves (fst (mail_step x db)) (mail_deliveries db) (mail_deliveries (snd (mail_step x db)))"
proof -
  have same: ?thesis if "fst (mail_step x db) = None"
    "list_all2 (mail_keeps (\<lambda>_. 0)) (mail_deliveries db) (mail_deliveries (snd (mail_step x db)))"
    using that evolves_same [OF ok] by simp
  have grown: ?thesis if "fst (mail_step x db) = None"
    "mail_deliveries (snd (mail_step x db)) = mail_deliveries db @ [d]"
    "mail_rows_ok (mail_deliveries db @ [d])" for d
    using that by (simp add: evolves_grown)
  show ?thesis
  proof (cases x)
    case (Op_Notice i now org u h key)
    obtain res db' where e: "enqueuePendingMailDelivery i now org u PASSWORD_CHANGED h key db = (res, db')"
      by (cases "enqueuePendingMailDelivery i now org u PASSWORD_CHANGED h key db")
    from enqueue_rows [OF e ok] e show ?thesis
      by (auto simp: Op_Notice intro: evolves_grown evolves_same [OF ok all2_mail_keeps_refl])
  next
    case (Op_Inline i now org u t h key p sent)
    show ?thesis
    proof (cases "isTokenMailMessageType t")
      case False
      then show ?thesis by (intro same) (simp_all add: Op_Inline)
    next
      case True
      obtain res db' where e: "enqueuePendingMailDelivery i now org u t h key db = (res, db')"
        by (cases "enqueuePendingMailDelivery i now org u t h key db")
      from enqueue_rows [OF e ok] show ?thesis
      proof
        assume "res = None \<and> db' = db"
        with e show ?thesis by (intro same) (simp_all add: Op_Inline)
      next
        assume "res = Some i \<and> (\<exists>d. mail_deliveries db' = mail_deliveries db @ [d] \<and> md_id d = i \<and>
          md_messageType d = t \<and> md_idempotencyKey d = key \<and> md_status d = Mail_PENDING \<and>
          md_attempt d = 0 \<and> mail_rows_ok (mail_deliveries db'))"
        then obtain d where d: "res = Some i" "mail_deliveries db' = mail_deliveries db @ [d]" "md_id d = i"
          "md_messageType d = t" "mail_rows_ok (mail_deliveries db @ [d])" by auto
        obtain f where f: "mail_deliveries (snd (sendTrackedMail i p sent now db')) =
            update_rows (\<lambda>d. md_id d = i) f (mail_deliveries db @ [d])"
          "\<forall>d. md_id (f d) = md_id d \<and> md_idempotencyKey (f d) = md_idempotencyKey d \<and>
             md_messageType (f d) = md_messageType d \<and> md_maxAttempts (f d) = md_maxAttempts d"
          using sendTracked_rows [of i p sent now db'] d(2) by auto
        have "i \<notin> md_id ` set (mail_deliveries db)"
          using d(3,5) by (simp add: mail_rows_ok_def)
        then have "\<forall>q \<in> set (mail_deliveries db). md_id q \<noteq> i" by (metis imageI)
        then have "update_rows (\<lambda>d. md_id d = i) f (mail_deliveries db @ [d]) = mail_deliveries db @ [f d]"
          by (simp add: update_rows_def d(3) map_idI)
        moreover have "mail_rows_ok (mail_deliveries db @ [f d])"
          using d(5) f(2) token_not_worker [of "f d"] True d(4) by (simp add: mail_rows_ok_def)
        ultimately show ?thesis
          by (intro grown [of "f d"]) (simp_all add: Op_Inline True e d(1) f(1))
      qed
    qed
  next
    case (Op_Worker mailer p r w now later)
    show ?thesis
    proof (cases "claimNextPendingMailDelivery w now db")
      case (Pair jo db1)
      show ?thesis
      proof (cases jo)
        case None
        with Pair claim_mail_none [of w now db db1] show ?thesis
          by (intro same) (simp_all add: Op_Worker processNextMailDelivery_def)
      next
        case (Some job)
        with Pair have c: "claimNextPendingMailDelivery w now db = (Some job, db1)" by simp
        obtain d f where d: "d \<in> set (mail_deliveries db)" "job = claim_mail w now d"
          "mail_deliveries (snd (processNextMailDelivery mailer p r w now later db)) =
             update_rows (\<lambda>q. md_id q = md_id d) f (mail_deliveries db)"
          "mail_keeps (\<lambda>q. if q = d then 1 else 0) d (f d)"
          by (rule process_rows [OF ok c, of mailer p r later]) blast
        let ?steps = "\<lambda>q. if q = d then 1 else 0 :: nat"
        have keeps: "list_all2 (mail_keeps ?steps) (mail_deliveries db)
            (update_rows (\<lambda>q. md_id q = md_id d) f (mail_deliveries db))"
          by (rule update_one_mail [where f = f and steps = ?steps, OF ok d(1,4)]) simp
        have "fst (mail_step x db) = Some (md_id d)" by (simp add: Op_Worker c d(2) claim_mail_def)
        moreover have "\<forall>q \<in> set (mail_deliveries db). (md_id d = md_id q) = (q = d)"
          using mail_ok_same [OF ok _ d(1)] by metis
        ultimately show ?thesis using evolves_kept [OF ok keeps, of "Some (md_id d)"] d(3)
          by (auto simp: Op_Worker)
      qed
    qed
  next
    case (Op_RecoverMail mins now)
    then show ?thesis by (intro same) (simp_all add: recoverStaleMail_rows [OF ok])
  next
    case (Op_CancelMail i now code)
    then show ?thesis by (intro same) (simp_all add: cancel_mail_rows [OF ok])
  qed
qed

lemma find_mail_keeps:
  "list_all2 (mail_keeps steps) ds ds' \<Longrightarrow> find_row (\<lambda>d. md_id d = i \<and> worker_mail d) ds = Some d \<Longrightarrow>
   \<exists>d'. find_row (\<lambda>d. md_id d = i \<and> worker_mail d) ds' = Some d' \<and> mail_keeps steps d d'"
proof (induction rule: list_all2_induct)
  case (Cons x xs y ys)
  then have "md_id y = md_id x" "worker_mail y = worker_mail x"
    by (simp_all add: mail_keeps_fields worker_mail_def)
  with Cons show ?case by (auto simp: find_row_Cons split: if_splits)
qed (simp add: find_row_Nil)

interpretation mail_retry: bounded_retry mail_step mail_at mail_valid
proof unfold_locales
  fix db :: "'x mail_db_scheme" and x
  assume "mail_valid db"
  then have ok: "mail_rows_ok (mail_deliveries db)" by (simp add: mail_valid_def)
  obtain steps kept new where s: "mail_deliveries (snd (mail_step x db)) = kept @ new"
    "list_all2 (mail_keeps steps) (mail_deliveries db) kept"
    "mail_rows_ok (mail_deliveries (snd (mail_step x db)))"
    "\<forall>d \<in> set (mail_deliveries db). steps d = (if fst (mail_step x db) = Some (md_id d) then 1 else 0)"
    using mail_step_rows [OF ok, of x] unfolding mail_evolves_def by blast
  show "mail_valid (snd (mail_step x db))" using s(3) by (simp add: mail_valid_def)
  fix i attempt most claimable
  assume at: "mail_at db i = Some (attempt, most, claimable)"
  then obtain d where d: "find_row (\<lambda>d. md_id d = i \<and> worker_mail d) (mail_deliveries db) = Some d"
    "attempt = md_attempt d" "most = md_maxAttempts d" by (auto simp: mail_at_def)
  from find_mail_keeps [OF s(2) d(1)] obtain d' where
    "find_row (\<lambda>d. md_id d = i \<and> worker_mail d) kept = Some d'" "mail_keeps steps d d'" by blast
  with s d find_row_Some [OF d(1)] show "\<exists>claimable'. mail_at (snd (mail_step x db)) i =
      Some (if fst (mail_step x db) = Some i then attempt + 1 else attempt, most, claimable')"
    by (auto simp: mail_at_def table_simps dest!: mail_keeps_fields)
next
  fix db :: "'x mail_db_scheme" and i attempt most claimable
  assume "mail_valid db" "mail_at db i = Some (attempt, most, claimable)"
  then show "attempt \<le> most \<and> (claimable \<longrightarrow> attempt < most)"
    by (auto simp: mail_valid_def mail_at_def mail_rows_ok_def dest: find_row_Some)
qed

section \<open>Properties\<close>

lemma mail_backoff_bounds:
  assumes "0 \<le> r" "r < 1"
  shows "4 * backoff_base n \<le> 5 * computeMailRetryBackoffMs n r"
    "5 * computeMailRetryBackoffMs n r \<le> 6 * backoff_base n"
proof -
  have base: "backoff_base n \<in> {60000, 300000, 1800000}"
    by (simp add: backoff_base_def BASE_BACKOFF_MS_BY_ATTEMPT_def)
  then obtain k where k: "backoff_base n = 5 * k" "12000 \<le> k" by auto
  let ?x = "of_int (5 * k) * (1 + (r * 2 - 1) * (2 / 10)) + 1 / 2 :: real"
  have "?x = of_int (4 * k) + of_int k * 2 * r + 1 / 2" by (simp add: algebra_simps)
  moreover have "0 \<le> of_int k * r" "of_int k * r \<le> of_int k"
    using k(2) assms by (simp_all add: mult_left_le)
  ultimately have "of_int (4 * k) \<le> ?x" "?x < of_int (6 * k) + 1" by simp_all
  then have "4 * k \<le> \<lfloor>?x\<rfloor>" "\<lfloor>?x\<rfloor> \<le> 6 * k" by linarith+
  with k show "4 * backoff_base n \<le> 5 * computeMailRetryBackoffMs n r"
    "5 * computeMailRetryBackoffMs n r \<le> 6 * backoff_base n"
    by (simp_all add: computeMailRetryBackoffMs_def Let_def)
qed

lemma mail_run_terminal:
  "mail_valid db \<Longrightarrow> d \<in> set (mail_deliveries db) \<Longrightarrow> terminal_mail d \<Longrightarrow>
   mail_valid (snd (run_jobs mail_step xs db)) \<and> d \<in> set (mail_deliveries (snd (run_jobs mail_step xs db)))"
proof (induction xs arbitrary: db)
  case (Cons x xs)
  from mail_step_rows [of db x] Cons.prems obtain steps kept new where
    s: "mail_deliveries (snd (mail_step x db)) = kept @ new"
    "list_all2 (mail_keeps steps) (mail_deliveries db) kept" "mail_rows_ok (kept @ new)"
    by (auto simp: mail_valid_def mail_evolves_def)
  from all2_mail_terminal [OF s(2) Cons.prems(2,3)] s(1,3)
  have "mail_valid (snd (mail_step x db))" "d \<in> set (mail_deliveries (snd (mail_step x db)))"
    by (simp_all add: mail_valid_def)
  from Cons.IH [OF this Cons.prems(3)] show ?case by (simp add: case_prod_beta Let_def)
qed simp

text \<open>However the outbox is used, the worker attempts a delivery at most \<open>maxAttempts\<close> times in all:
  its attempts so far and the claims to come stay within the limit.\<close>

theorem mail_attempts_bounded:
  assumes "mail_valid db" "mail_at db i = Some (attempt, most, claimable)"
  shows "attempt + count_list (fst (run_jobs mail_step ops db)) i \<le> most"
  using assms by (rule mail_retry.claims_bounded)

definition demo_mail :: "mail_status \<Rightarrow> nat \<Rightarrow> mail_delivery" where
  "demo_mail st n =
     \<lparr>md_id = ''m'', md_organizationId = None, md_userId = Some ''u'', md_messageType = PASSWORD_CHANGED,
      md_recipientHash = ''h'', md_idempotencyKey = ''k'', md_status = st, md_attempt = n,
      md_maxAttempts = 3, md_provider = None, md_providerMessageId = None, md_scheduledFor = 0,
      md_lockedAt = None, md_lockedBy = None, md_sentAt = None, md_failedAt = None,
      md_errorCode = None, md_createdAt = 0\<rparr>"

definition demo_mail_db :: "mail_delivery list \<Rightarrow> mail_db" where
  "demo_mail_db ds =
     \<lparr>memberships = [], auditLog = [],
      users = [\<lparr>us_id = ''u'', us_name = ''U'', us_email = ''u@x'', us_passwordHash = '''',
                us_emailVerifiedAt = None\<rparr>],
      mail_deliveries = ds\<rparr>"

lemma demo_mail_valid: "n < 3 \<Longrightarrow> mail_valid (demo_mail_db [demo_mail st n])"
  by (simp add: mail_valid_def demo_mail_db_def demo_mail_def mail_rows_ok_def)

theorem mail_attempts_bounded_witness:
  "\<forall>ops. 2 + count_list (fst (run_jobs mail_step ops (demo_mail_db [demo_mail Mail_PENDING 2]))) ''m'' \<le> 3"
  by (intro allI, rule mail_attempts_bounded [OF demo_mail_valid, where claimable = True])
    (simp_all add: mail_at_def demo_mail_db_def find_row_Cons demo_mail_def worker_mail_def
      WORKER_HANDLED_MESSAGE_TYPES_def)



text \<open>A run of the mail worker takes the due pending notice that was scheduled first, never a
  token-bearing mail, and always returns. The outcome is what the mailer's answer calls for: sent
  when it accepted; pending again, not before the back-off (within a fifth of its base), when the
  error is retryable and attempts are left; otherwise failed with the error, or with
  \<open>MAX_ATTEMPTS_REACHED\<close> on the last attempt. No other row changes and the lock is gone.\<close>

theorem mail_worker_outcome:
  assumes "0 \<le> r" "r < 1"
  shows "case oldest_row (claimable_mail now) md_scheduledFor (mail_deliveries db) of
      None \<Rightarrow> processNextMailDelivery mailer p r w now later db = (Inr None, db)
    | Some d \<Rightarrow>
        md_messageType d \<notin> set TOKEN_MAIL_MESSAGE_TYPES \<and> md_scheduledFor d \<le> now \<and>
        (\<exists>outcome g. fst (processNextMailDelivery mailer p r w now later db) = Inr (Some (md_id d, outcome)) \<and>
          mail_deliveries (snd (processNextMailDelivery mailer p r w now later db)) =
            update_rows (\<lambda>q. md_id q = md_id d) g (mail_deliveries db) \<and>
          md_attempt (g d) = md_attempt d + 1 \<and> md_lockedAt (g d) = None \<and>
          (case sendPasswordChangedNotice mailer (md_userId d) (md_idempotencyKey d) db of
             Send_Ok _ \<Rightarrow> outcome = Outcome_sent \<and> md_status (g d) = Mail_SENT
           | Send_Throws t \<Rightarrow>
               let code = classifyMailSendError t; delay = md_scheduledFor (g d) - later in
               if code \<notin> NON_RETRYABLE_MAIL_ERROR_CODES \<and> md_attempt d + 1 < md_maxAttempts d
               then outcome = Outcome_retrying \<and> md_status (g d) = Mail_PENDING \<and>
                    md_errorCode (g d) = Some code \<and>
                    4 * backoff_base (md_attempt d + 1) \<le> 5 * delay \<and>
                    5 * delay \<le> 6 * backoff_base (md_attempt d + 1)
               else outcome = Outcome_failed \<and> md_status (g d) = Mail_FAILED \<and>
                    md_errorCode (g d) = Some (if md_attempt d + 1 \<ge> md_maxAttempts d
                                               then MAX_ATTEMPTS_REACHED else code)))"
proof (cases "oldest_row (claimable_mail now) md_scheduledFor (mail_deliveries db)")
  case None
  then show ?thesis by (simp add: processNextMailDelivery_def claimNextPendingMailDelivery_def)
next
  case (Some d)
  let ?sent = "sendPasswordChangedNotice mailer (md_userId d) (md_idempotencyKey d) db"
  let ?g = "\<lambda>q. snd (mail_verdict p r later d ?sent) (claim_mail w now q)"
  have d: "claimable_mail now d" using oldest_row_Some [OF Some] by blast
  then have "md_messageType d \<notin> set TOKEN_MAIL_MESSAGE_TYPES" "md_scheduledFor d \<le> now"
    using token_not_worker [of d] by (auto simp: claimable_mail_def isTokenMailMessageType_def worker_mail_def)
  moreover note mail_backoff_bounds [OF assms, of "md_attempt d + 1"]
  ultimately show ?thesis
    unfolding Some option.case process_exact [OF Some] case_prod_beta Let_def fst_conv snd_conv
    by (intro conjI exI [where x = "fst (mail_verdict p r later d ?sent)"] exI [where x = ?g])
      (auto simp: mail_verdict_def Let_def mail_sent_def mail_retrying_def mail_failed_def claim_mail_def
        isRetryableMailError_def split: send_result.split)
qed

theorem mail_worker_outcome_witness:
  "fst (processNextMailDelivery (\<lambda>_ _. Send_Throws None) ''p'' (1 / 2) ''w'' 5 6
      (demo_mail_db [demo_mail Mail_PENDING 0])) = Inr (Some (''m'', Outcome_retrying))"
  using mail_worker_outcome [where r = "1 / 2" and now = 5 and db = "demo_mail_db [demo_mail Mail_PENDING 0]"
      and mailer = "\<lambda>_ _. Send_Throws None" and p = "''p''" and w = "''w''" and later = 6]
  by (simp add: demo_mail_db_def demo_mail_def claimable_mail_def WORKER_HANDLED_MESSAGE_TYPES_def
      sendPasswordChangedNotice_def find_row_Cons classifyMailSendError_def NON_RETRYABLE_MAIL_ERROR_CODES_def
      Let_def) blast

section \<open>Idempotency keys\<close>

definition digits_value :: "string \<Rightarrow> nat" where
  "digits_value s = foldl (\<lambda>v c. v * 10 + (of_char c - 48)) 0 s"

lemma nat_str_value: "digits_value (nat_str n) = n"
proof (induction n rule: nat_str.induct)
  case (1 n)
  have d: "of_char (char_of (48 + d) :: char) - 48 = d" if "d < 10" for d :: nat
    using that by (simp add: of_char_of take_bit_nat_def)
  show ?case
  proof (cases "n < 10")
    case True
    then show ?thesis using d [of n] by (simp add: nat_str.simps [of n] digits_value_def)
  next
    case False
    then show ?thesis using 1 d [of "n mod 10"] by (simp add: nat_str.simps [of n] digits_value_def)
  qed
qed

lemma nat_str_inj: "nat_str m = nat_str n \<longleftrightarrow> m = n"
  by (metis nat_str_value)

lemma colon_split:
  "CHR '':'' \<notin> set p \<Longrightarrow> CHR '':'' \<notin> set q \<Longrightarrow> p @ CHR '':'' # x = q @ CHR '':'' # y \<longleftrightarrow> p = q \<and> x = y"
proof (induction p arbitrary: q)
  case Nil
  then show ?case by (cases q) auto
next
  case (Cons a p)
  then show ?case by (cases q) auto
qed

text \<open>The events a mail is sent for.\<close>

datatype mail_event =
  Invited string | Reinvited string nat | Verifies string | Resets string | Changed string nat

fun mail_event_key :: "mail_event \<Rightarrow> string" where
  "mail_event_key (Invited i) = buildInvitationIdempotencyKey i"
| "mail_event_key (Reinvited i n) = buildInvitationResendIdempotencyKey i n"
| "mail_event_key (Verifies i) = buildEmailVerificationIdempotencyKey i"
| "mail_event_key (Resets i) = buildPasswordResetIdempotencyKey i"
| "mail_event_key (Changed u n) = buildPasswordChangedIdempotencyKey u n"

fun mail_event_entity :: "mail_event \<Rightarrow> string" where
  "mail_event_entity (Invited i) = i"
| "mail_event_entity (Reinvited i n) = i"
| "mail_event_entity (Verifies i) = i"
| "mail_event_entity (Resets i) = i"
| "mail_event_entity (Changed u n) = u"

text \<open>A key is a tag, the entity and a suffix, each set off by a colon.\<close>

definition mail_event_tag :: "mail_event \<Rightarrow> string" where
  "mail_event_tag e = (case e of Invited _ \<Rightarrow> ''organization-invitation'' | Reinvited _ _ \<Rightarrow> ''organization-invitation''
     | Verifies _ \<Rightarrow> ''email-verification'' | Resets _ \<Rightarrow> ''password-reset'' | Changed _ _ \<Rightarrow> ''password-changed'')"

definition mail_event_suffix :: "mail_event \<Rightarrow> string option" where
  "mail_event_suffix e = (case e of Reinvited _ n \<Rightarrow> Some (''resend:'' @ nat_str n)
     | Changed _ n \<Rightarrow> Some (nat_str n) | _ \<Rightarrow> None)"

lemma mail_event_key_parts:
  "mail_event_key e = mail_event_tag e @ CHR '':'' # mail_event_entity e @
     (case mail_event_suffix e of None \<Rightarrow> [] | Some s \<Rightarrow> CHR '':'' # s)"
  by (cases e) (simp_all add: buildInvitationIdempotencyKey_def buildInvitationResendIdempotencyKey_def
      buildEmailVerificationIdempotencyKey_def buildPasswordResetIdempotencyKey_def
      buildPasswordChangedIdempotencyKey_def mail_event_tag_def mail_event_suffix_def)

lemma mail_event_tag_colon: "CHR '':'' \<notin> set (mail_event_tag e)"
  by (cases e) (simp_all add: mail_event_tag_def)

lemma entity_suffix:
  assumes "CHR '':'' \<notin> set p" "CHR '':'' \<notin> set q"
    and "p @ (case a of None \<Rightarrow> [] | Some s \<Rightarrow> CHR '':'' # s) = q @ (case b of None \<Rightarrow> [] | Some s \<Rightarrow> CHR '':'' # s)"
  shows "p = q \<and> a = b"
proof (cases a)
  case None
  with assms show ?thesis by (cases b) auto
next
  case (Some s)
  with assms show ?thesis
    by (cases b) (auto simp: colon_split)
qed

text \<open>An idempotency key stands for one event: keys of different events differ, and the id parsed back
  from a key is the id of the row the event is about, however often the invitation was resent
  (the ids the database generates contain no colon).\<close>

theorem mail_key_roundtrip:
  assumes "CHR '':'' \<notin> set (mail_event_entity e)" "CHR '':'' \<notin> set (mail_event_entity e')"
    and "mail_event_entity e \<noteq> ''''"
  shows "parseTokenMailEntityId (mail_event_key e) = Some (mail_event_entity e) \<and>
    (mail_event_key e = mail_event_key e' \<longleftrightarrow> e = e')"
proof
  have first: "dropWhile (\<lambda>c. c \<noteq> CHR '':'') (t @ CHR '':'' # x) = CHR '':'' # x"
    "takeWhile (\<lambda>c. c \<noteq> CHR '':'') (t @ CHR '':'' # x) = t" "takeWhile (\<lambda>c. c \<noteq> CHR '':'') t = t"
    if "CHR '':'' \<notin> set t" for t x
    using that by (induction t) auto
  have "takeWhile (\<lambda>c. c \<noteq> CHR '':'') (mail_event_entity e @
      (case mail_event_suffix e of None \<Rightarrow> [] | Some s \<Rightarrow> CHR '':'' # s)) = mail_event_entity e"
    using first(2,3) [OF assms(1)] by (cases "mail_event_suffix e") simp_all
  then show "parseTokenMailEntityId (mail_event_key e) = Some (mail_event_entity e)"
    using assms(3) first(1) [OF mail_event_tag_colon [of e]]
    by (simp add: parseTokenMailEntityId_def mail_event_key_parts Let_def)
  show "mail_event_key e = mail_event_key e' \<longleftrightarrow> e = e'"
  proof
    assume "mail_event_key e = mail_event_key e'"
    then have "mail_event_tag e = mail_event_tag e' \<and> mail_event_entity e = mail_event_entity e' \<and>
        mail_event_suffix e = mail_event_suffix e'"
      using colon_split [OF mail_event_tag_colon mail_event_tag_colon] entity_suffix [OF assms(1,2)]
      unfolding mail_event_key_parts by blast
    then show "e = e'"
      by (cases e; cases e') (simp_all add: mail_event_tag_def mail_event_suffix_def nat_str_inj)
  qed simp
qed

theorem mail_key_roundtrip_witness:
  "parseTokenMailEntityId (buildInvitationResendIdempotencyKey ''i'' 12) = Some ''i''"
  using mail_key_roundtrip [of "Reinvited ''i'' 12" "Invited ''i''"] by simp

end
