(* ===== verification/Members.thy ===== *)
theory Members
  imports Mail
begin

text \<open>
  Members and invitations: the operations of \<^verbatim>\<open>features/members/server/\<close> and
  \<^verbatim>\<open>features/invitations/server/\<close> with their repositories. Random tokens and generated ids are
  arguments; the token hash, the recipient hash and the password hash are parameters.
\<close>

section \<open>Tables\<close>

record invitation =
  iv_id :: string
  iv_organizationId :: string
  iv_email :: string
  iv_role :: membership_role
  iv_tokenHash :: string
  iv_invitedById :: string
  iv_expiresAt :: time_ms
  iv_acceptedAt :: "time_ms option"
  iv_revokedAt :: "time_ms option"
  iv_resendCount :: nat

record member_db = mail_db +
  organizations :: "(string \<times> string) list"
  invitations :: "invitation list"

section \<open>Policies\<close>

definition isLastOwner :: "nat \<Rightarrow> bool" where
  "isLastOwner ownerCount \<longleftrightarrow> ownerCount \<le> 1"

definition INVITATION_EXPIRY_DAYS :: int where
  "INVITATION_EXPIRY_DAYS = 7"

definition computeInvitationExpiresAt :: "time_ms \<Rightarrow> time_ms" where
  "computeInvitationExpiresAt now = now + INVITATION_EXPIRY_DAYS * (24 * 60 * 60 * 1000)"

definition isInvitationExpired :: "time_ms \<Rightarrow> time_ms \<Rightarrow> bool" where
  "isInvitationExpired expiresAt now \<longleftrightarrow> expiresAt \<le> now"

definition buildInvitationUrl :: "string \<Rightarrow> string \<Rightarrow> string" where
  "buildInvitationUrl appUrl token =
     (if appUrl \<noteq> [] \<and> last appUrl = CHR ''/'' then butlast appUrl else appUrl) @ ''/invitations/'' @ token"

section \<open>Repositories\<close>

definition findMembershipById :: "string \<Rightarrow> string \<Rightarrow> 'x core_db_scheme \<Rightarrow> membership option" where
  "findMembershipById org membershipId db =
     find_row (\<lambda>m. m_id m = membershipId \<and> m_organizationId m = org) (memberships db)"

definition findMembershipByUserAndOrganization ::
  "string \<Rightarrow> string \<Rightarrow> 'x core_db_scheme \<Rightarrow> membership option" where
  "findMembershipByUserAndOrganization org userId db =
     find_row (\<lambda>m. m_userId m = userId \<and> m_organizationId m = org) (memberships db)"

definition countOwners :: "string \<Rightarrow> 'x core_db_scheme \<Rightarrow> nat" where
  "countOwners org db = count_rows (\<lambda>m. m_organizationId m = org \<and> m_role m = OWNER) (memberships db)"

definition updateMembershipRole ::
  "string \<Rightarrow> string \<Rightarrow> membership_role \<Rightarrow> 'x core_db_scheme \<Rightarrow> membership option \<times> 'x core_db_scheme" where
  "updateMembershipRole org membershipId role db =
     (let match = (\<lambda>m. m_id m = membershipId \<and> m_organizationId m = org);
          db' = db\<lparr>memberships := update_rows match (\<lambda>m. m\<lparr>m_role := role\<rparr>) (memberships db)\<rparr>
      in if count_rows match (memberships db) = 0 then (None, db)
         else (findMembershipById org membershipId db', db'))"

definition deleteMembership ::
  "string \<Rightarrow> string \<Rightarrow> 'x core_db_scheme \<Rightarrow> membership option \<times> 'x core_db_scheme" where
  "deleteMembership org membershipId db =
     (case findMembershipById org membershipId db of
        None \<Rightarrow> (None, db)
      | Some existing \<Rightarrow>
          (Some existing, db\<lparr>memberships := delete_rows (\<lambda>m. m_id m = membershipId) (memberships db)\<rparr>))"

datatype insertion = Inserted | Duplicate_member | Duplicate_id

text \<open>\<open>membership.create\<close>: the table is unique in the id and in the pair of user and organization.\<close>

definition insertMembership :: "membership \<Rightarrow> 'x core_db_scheme \<Rightarrow> insertion \<times> 'x core_db_scheme" where
  "insertMembership m db =
     (if \<exists>q \<in> set (memberships db). m_id q = m_id m then (Duplicate_id, db)
      else if \<exists>q \<in> set (memberships db). m_userId q = m_userId m \<and> m_organizationId q = m_organizationId m
      then (Duplicate_member, db)
      else (Inserted, db\<lparr>memberships := memberships db @ [m]\<rparr>))"

text \<open>\<open>None\<close> when the id or the token hash is taken: the insertion throws.\<close>

definition createInvitationRow :: "invitation \<Rightarrow> 'x member_db_scheme \<Rightarrow> 'x member_db_scheme option" where
  "createInvitationRow iv db =
     (if \<exists>q \<in> set (invitations db). iv_id q = iv_id iv \<or> iv_tokenHash q = iv_tokenHash iv then None
      else Some (db\<lparr>invitations := invitations db @ [iv]\<rparr>))"

definition live_invitation :: "invitation \<Rightarrow> bool" where
  "live_invitation iv \<longleftrightarrow> iv_acceptedAt iv = None \<and> iv_revokedAt iv = None"

definition findLiveInvitationByEmail :: "string \<Rightarrow> string \<Rightarrow> 'x member_db_scheme \<Rightarrow> invitation option" where
  "findLiveInvitationByEmail org email db =
     find_row (\<lambda>iv. iv_organizationId iv = org \<and> iv_email iv = email \<and> live_invitation iv) (invitations db)"

definition findInvitationByTokenHash :: "string \<Rightarrow> 'x member_db_scheme \<Rightarrow> invitation option" where
  "findInvitationByTokenHash tokenHash db = find_row (\<lambda>iv. iv_tokenHash iv = tokenHash) (invitations db)"

definition findInvitationById :: "string \<Rightarrow> string \<Rightarrow> 'x member_db_scheme \<Rightarrow> invitation option" where
  "findInvitationById org invitationId db =
     find_row (\<lambda>iv. iv_id iv = invitationId \<and> iv_organizationId iv = org) (invitations db)"

text \<open>The guarded \<open>updateMany\<close> of the three operations below: rows that are still live.\<close>

definition update_live_invitation ::
  "string \<Rightarrow> string \<Rightarrow> (invitation \<Rightarrow> invitation) \<Rightarrow> 'x member_db_scheme \<Rightarrow> bool \<times> 'x member_db_scheme" where
  "update_live_invitation org invitationId f db =
     (let match = (\<lambda>iv. iv_id iv = invitationId \<and> iv_organizationId iv = org \<and> live_invitation iv)
      in (count_rows match (invitations db) > 0,
          db\<lparr>invitations := update_rows match f (invitations db)\<rparr>))"

definition markInvitationAccepted ::
  "string \<Rightarrow> string \<Rightarrow> time_ms \<Rightarrow> 'x member_db_scheme \<Rightarrow> bool \<times> 'x member_db_scheme" where
  "markInvitationAccepted org invitationId acceptedAt db =
     update_live_invitation org invitationId (\<lambda>iv. iv\<lparr>iv_acceptedAt := Some acceptedAt\<rparr>) db"

definition revokeInvitationRow ::
  "string \<Rightarrow> string \<Rightarrow> time_ms \<Rightarrow> 'x member_db_scheme \<Rightarrow> bool \<times> 'x member_db_scheme" where
  "revokeInvitationRow org invitationId revokedAt db =
     update_live_invitation org invitationId (\<lambda>iv. iv\<lparr>iv_revokedAt := Some revokedAt\<rparr>) db"

text \<open>\<open>Inl ()\<close> when the new hash is taken by another row: the update throws.\<close>

definition rotateInvitationToken ::
  "string \<Rightarrow> string \<Rightarrow> string \<Rightarrow> time_ms \<Rightarrow> 'x member_db_scheme \<Rightarrow>
   (unit + invitation option) \<times> 'x member_db_scheme"
where
  "rotateInvitationToken org invitationId tokenHash expiresAt db =
     (case update_live_invitation org invitationId
             (\<lambda>iv. iv\<lparr>iv_tokenHash := tokenHash, iv_expiresAt := expiresAt,
                       iv_resendCount := iv_resendCount iv + 1\<rparr>) db of
        (False, _) \<Rightarrow> (Inr None, db)
      | (True, db') \<Rightarrow>
          if \<exists>q \<in> set (invitations db). iv_tokenHash q = tokenHash \<and> iv_id q \<noteq> invitationId
          then (Inl (), db)
          else (Inr (findInvitationById org invitationId db'), db'))"

definition find_user :: "string \<Rightarrow> 'x mail_db_scheme \<Rightarrow> user_row option" where
  "find_user userId db = find_row (\<lambda>u. us_id u = userId) (users db)"

definition find_user_by_email :: "string \<Rightarrow> 'x mail_db_scheme \<Rightarrow> user_row option" where
  "find_user_by_email email db = find_row (\<lambda>u. us_email u = email) (users db)"

definition find_organization :: "string \<Rightarrow> 'x member_db_scheme \<Rightarrow> string option" where
  "find_organization org db = map_of (organizations db) org"

section \<open>Changing and removing members\<close>

text \<open>What the handler reads before its transaction: the caller, the parsed role (\<open>None\<close> when the input
  is invalid), the target.\<close>

definition changeMemberRole_reads ::
  "string \<Rightarrow> string \<Rightarrow> string \<Rightarrow> membership_role option \<Rightarrow> 'x core_db_scheme \<Rightarrow>
   app_error + auth_context \<times> membership \<times> membership_role"
where
  "changeMemberRole_reads userId organizationId membershipId parsed db =
     (case verifyOrganizationRole userId organizationId [OWNER] db of
        Inl e \<Rightarrow> Inl e
      | Inr ctx \<Rightarrow>
     (case parsed of
        None \<Rightarrow> Inl (ValidationError ''input'')
      | Some nextRole \<Rightarrow>
     (case findMembershipById (ac_organizationId ctx) membershipId db of
        None \<Rightarrow> Inl NotFoundError
      | Some target \<Rightarrow>
          if m_userId target = ac_userId ctx then Inl ForbiddenError
          else Inr (ctx, target, nextRole))))"

text \<open>The owner count at the start of the transaction, and the writes after it.\<close>

definition changeMemberRole_guard ::
  "auth_context \<Rightarrow> membership \<Rightarrow> membership_role \<Rightarrow> 'x core_db_scheme \<Rightarrow> app_error option" where
  "changeMemberRole_guard ctx target nextRole db =
     (if m_role target = OWNER \<and> nextRole \<noteq> OWNER \<and> isLastOwner (countOwners (ac_organizationId ctx) db)
      then Some (ConflictError ''last owner'') else None)"

definition changeMemberRole_writes ::
  "auth_context \<Rightarrow> membership \<Rightarrow> membership_role \<Rightarrow> 'x core_db_scheme \<Rightarrow>
   (app_error + unit) \<times> 'x core_db_scheme" where
  "changeMemberRole_writes ctx target nextRole db =
     (case updateMembershipRole (ac_organizationId ctx) (m_id target) nextRole db of
        (None, _) \<Rightarrow> (Inl NotFoundError, db)
      | (Some _, db1) \<Rightarrow>
          (Inr (), audit (ac_organizationId ctx) (Some (ac_userId ctx)) ''Membership'' (m_id target)
                     ''MEMBER_ROLE_CHANGED'' db1))"

definition changeMemberRole ::
  "string \<Rightarrow> string \<Rightarrow> string \<Rightarrow> membership_role option \<Rightarrow> 'x core_db_scheme \<Rightarrow>
   (app_error + unit) \<times> 'x core_db_scheme"
where
  "changeMemberRole userId organizationId membershipId parsed db =
     (case changeMemberRole_reads userId organizationId membershipId parsed db of
        Inl e \<Rightarrow> (Inl e, db)
      | Inr (ctx, target, nextRole) \<Rightarrow>
          (case changeMemberRole_guard ctx target nextRole db of
             Some e \<Rightarrow> (Inl e, db)
           | None \<Rightarrow> changeMemberRole_writes ctx target nextRole db))"

definition removeMember ::
  "string \<Rightarrow> string \<Rightarrow> string \<Rightarrow> 'x core_db_scheme \<Rightarrow> (app_error + unit) \<times> 'x core_db_scheme" where
  "removeMember userId organizationId membershipId db =
     (case verifyOrganizationRole userId organizationId [OWNER] db of
        Inl e \<Rightarrow> (Inl e, db)
      | Inr ctx \<Rightarrow>
     (case findMembershipById (ac_organizationId ctx) membershipId db of
        None \<Rightarrow> (Inl NotFoundError, db)
      | Some target \<Rightarrow>
     if m_userId target = ac_userId ctx then (Inl ForbiddenError, db)
     else if m_role target = OWNER \<and> isLastOwner (countOwners (ac_organizationId ctx) db)
     then (Inl (ConflictError ''last owner''), db)
     else (case deleteMembership (ac_organizationId ctx) (m_id target) db of
             (None, _) \<Rightarrow> (Inl NotFoundError, db)
           | (Some _, db1) \<Rightarrow>
               (Inr (), audit (ac_organizationId ctx) (Some (ac_userId ctx)) ''Membership'' (m_id target)
                          ''MEMBER_REMOVED'' db1))))"

section \<open>Creating, resending and revoking invitations\<close>

text \<open>\<open>APP_URL\<close> with its default, the hash functions, and the label of the configured mailer.\<close>

record invite_env =
  e_appUrl :: string
  e_hashToken :: "string \<Rightarrow> string"
  e_hashRecipient :: "string \<Rightarrow> string"
  e_provider :: string

text \<open>What one call draws: the time, the random token, the ids the database generates, and what the
  mailer answers.\<close>

record invite_draw =
  r_now :: time_ms
  r_token :: string
  r_invitationId :: string
  r_deliveryId :: string
  r_sent :: send_result

record created_invitation =
  ci_id :: string
  ci_email :: string
  ci_expiresAt :: time_ms
  ci_invitationUrl :: string

text \<open>Whatever the mailer throws is logged and swallowed.\<close>

definition deliverInvitationMail ::
  "invite_env \<Rightarrow> invite_draw \<Rightarrow> string \<Rightarrow> 'x member_db_scheme \<Rightarrow> 'x member_db_scheme" where
  "deliverInvitationMail env r mailDeliveryId db =
     snd (sendTrackedMail mailDeliveryId (e_provider env) (r_sent r) (r_now r) db)"

definition audit_invitation ::
  "string \<Rightarrow> string \<Rightarrow> string \<Rightarrow> string \<Rightarrow> 'x core_db_scheme \<Rightarrow> 'x core_db_scheme" where
  "audit_invitation org userId invitationId action db =
     audit org (Some userId) ''OrganizationInvitation'' invitationId action db"

text \<open>\<open>parsed\<close> is the address and role of the form, \<open>None\<close> when it is invalid.\<close>

definition createInvitation ::
  "invite_env \<Rightarrow> invite_draw \<Rightarrow> string \<Rightarrow> string \<Rightarrow> (string \<times> membership_role) option \<Rightarrow>
   'x member_db_scheme \<Rightarrow> (app_error + created_invitation) \<times> 'x member_db_scheme"
where
  "createInvitation env r userId organizationId parsed db =
     (case verifyOrganizationRole userId organizationId [OWNER] db of
        Inl e \<Rightarrow> (Inl e, db)
      | Inr ctx \<Rightarrow>
     (case parsed of
        None \<Rightarrow> (Inl (ValidationError ''input''), db)
      | Some (email, role) \<Rightarrow>
     if find_user (ac_userId ctx) db = None \<or> find_organization (ac_organizationId ctx) db = None
     then (Inl (ValidationError ''inviter''), db)
     else if (case find_user_by_email email db of
                None \<Rightarrow> False
              | Some existingUser \<Rightarrow>
                  findMembershipByUserAndOrganization (ac_organizationId ctx) (us_id existingUser) db \<noteq> None)
     then (Inl (ConflictError ''already a member''), db)
     else if findLiveInvitationByEmail (ac_organizationId ctx) email db \<noteq> None
     then (Inl (ConflictError ''pending invitation''), db)
     else
       let expiresAt = computeInvitationExpiresAt (r_now r);
           invitation = \<lparr>iv_id = r_invitationId r, iv_organizationId = ac_organizationId ctx,
             iv_email = email, iv_role = role, iv_tokenHash = e_hashToken env (r_token r),
             iv_invitedById = ac_userId ctx, iv_expiresAt = expiresAt, iv_acceptedAt = None,
             iv_revokedAt = None, iv_resendCount = 0\<rparr>
       in (case createInvitationRow invitation db of
             None \<Rightarrow> (Inl UnexpectedError, db)
           | Some db1 \<Rightarrow>
               let db2 = audit_invitation (ac_organizationId ctx) (ac_userId ctx) (r_invitationId r)
                           ''MEMBER_INVITED'' db1;
                   (mailDelivery, db3) = enqueuePendingMailDelivery (r_deliveryId r) (r_now r)
                     (Some (ac_organizationId ctx)) (Some (ac_userId ctx)) ORGANIZATION_INVITATION
                     (e_hashRecipient env email) (buildInvitationIdempotencyKey (r_invitationId r)) db2;
                   db4 = (case mailDelivery of None \<Rightarrow> db3
                          | Some mailDeliveryId \<Rightarrow> deliverInvitationMail env r mailDeliveryId db3)
               in (Inr \<lparr>ci_id = r_invitationId r, ci_email = email, ci_expiresAt = expiresAt,
                        ci_invitationUrl = buildInvitationUrl (e_appUrl env) (r_token r)\<rparr>, db4))))"

definition resendInvitation ::
  "invite_env \<Rightarrow> invite_draw \<Rightarrow> string \<Rightarrow> string \<Rightarrow> string \<Rightarrow>
   'x member_db_scheme \<Rightarrow> (app_error + created_invitation) \<times> 'x member_db_scheme"
where
  "resendInvitation env r userId organizationId invitationId db =
     (case verifyOrganizationRole userId organizationId [OWNER] db of
        Inl e \<Rightarrow> (Inl e, db)
      | Inr ctx \<Rightarrow>
     (case findInvitationById (ac_organizationId ctx) invitationId db of
        None \<Rightarrow> (Inl NotFoundError, db)
      | Some existing \<Rightarrow>
     if \<not> live_invitation existing then (Inl (ConflictError ''not pending''), db)
     else
     (case rotateInvitationToken (ac_organizationId ctx) (iv_id existing) (e_hashToken env (r_token r))
             (computeInvitationExpiresAt (r_now r)) db of
        (Inl _, _) \<Rightarrow> (Inl UnexpectedError, db)
      | (Inr None, _) \<Rightarrow> (Inl (ConflictError ''not pending''), db)
      | (Inr (Some updated), db1) \<Rightarrow>
          let db2 = audit_invitation (ac_organizationId ctx) (ac_userId ctx) (iv_id updated)
                      ''MEMBER_INVITATION_RESENT'' db1;
              (mailDelivery, db3) = enqueuePendingMailDelivery (r_deliveryId r) (r_now r)
                (Some (ac_organizationId ctx)) (Some (ac_userId ctx)) ORGANIZATION_INVITATION
                (e_hashRecipient env (iv_email updated))
                (buildInvitationResendIdempotencyKey (iv_id updated) (iv_resendCount updated)) db2;
              resent = \<lparr>ci_id = iv_id updated, ci_email = iv_email updated,
                ci_expiresAt = iv_expiresAt updated,
                ci_invitationUrl = buildInvitationUrl (e_appUrl env) (r_token r)\<rparr>
          in (case mailDelivery of
                None \<Rightarrow> (Inr resent, db3)
              | Some mailDeliveryId \<Rightarrow>
                  if find_user (ac_userId ctx) db3 = None \<or> find_organization (ac_organizationId ctx) db3 = None
                  then (Inl (ValidationError ''resend''), db3)
                  else (Inr resent, deliverInvitationMail env r mailDeliveryId db3)))))"

definition revokeInvitation ::
  "time_ms \<Rightarrow> string \<Rightarrow> string \<Rightarrow> string \<Rightarrow> 'x member_db_scheme \<Rightarrow> (app_error + unit) \<times> 'x member_db_scheme" where
  "revokeInvitation now userId organizationId invitationId db =
     (case verifyOrganizationRole userId organizationId [OWNER] db of
        Inl e \<Rightarrow> (Inl e, db)
      | Inr ctx \<Rightarrow>
     (case findInvitationById (ac_organizationId ctx) invitationId db of
        None \<Rightarrow> (Inl NotFoundError, db)
      | Some existing \<Rightarrow>
     if \<not> live_invitation existing then (Inl NotFoundError, db)
     else
     (case revokeInvitationRow (ac_organizationId ctx) (iv_id existing) now db of
        (False, _) \<Rightarrow> (Inl NotFoundError, db)
      | (True, db1) \<Rightarrow>
          (Inr (), audit_invitation (ac_organizationId ctx) (ac_userId ctx) (iv_id existing)
                     ''MEMBER_INVITATION_REVOKED'' db1))))"

section \<open>Looking up and accepting invitations\<close>

datatype invitation_lookup =
  Lookup_valid string string string membership_role time_ms "string option"
  | Lookup_not_found | Lookup_expired | Lookup_revoked | Lookup_accepted

definition getInvitationByToken :: "invite_env \<Rightarrow> time_ms \<Rightarrow> string \<Rightarrow> 'x member_db_scheme \<Rightarrow> invitation_lookup" where
  "getInvitationByToken env now token db =
     (case findInvitationByTokenHash (e_hashToken env token) db of
        None \<Rightarrow> Lookup_not_found
      | Some iv \<Rightarrow>
          if iv_revokedAt iv \<noteq> None then Lookup_revoked
          else if iv_acceptedAt iv \<noteq> None then Lookup_accepted
          else if isInvitationExpired (iv_expiresAt iv) now then Lookup_expired
          else (case find_organization (iv_organizationId iv) db of
                  None \<Rightarrow> Lookup_not_found
                | Some name \<Rightarrow> Lookup_valid (iv_id iv) (iv_email iv) name (iv_role iv) (iv_expiresAt iv)
                                  (map_option us_name (find_user (iv_invitedById iv) db))))"

text \<open>The part of the two acceptances after the membership was written. \<open>db0\<close> is the database the
  transaction started from; \<open>reason\<close> tags the conflict each caller throws.\<close>

definition finish_acceptance ::
  "string \<Rightarrow> time_ms \<Rightarrow> string \<Rightarrow> invitation \<Rightarrow> 'x member_db_scheme \<Rightarrow> 'x member_db_scheme \<Rightarrow>
   (app_error + unit) \<times> 'x member_db_scheme"
where
  "finish_acceptance reason now userId iv db0 db1 =
     (case markInvitationAccepted (iv_organizationId iv) (iv_id iv) now db1 of
        (False, _) \<Rightarrow> (Inl (ConflictError reason), db0)
      | (True, db2) \<Rightarrow>
          (Inr (), audit_invitation (iv_organizationId iv) userId (iv_id iv)
                     ''MEMBER_INVITATION_ACCEPTED'' db2))"

text \<open>\<open>aborts\<close> says whether a transaction in which a statement failed refuses every later statement, as
  a PostgreSQL transaction does; the handler catches the violation and goes on. The result is the
  organization joined.\<close>

definition acceptInvitation ::
  "bool \<Rightarrow> invite_env \<Rightarrow> time_ms \<Rightarrow> string \<Rightarrow> string \<Rightarrow> string \<Rightarrow> 'x member_db_scheme \<Rightarrow>
   (app_error + string) \<times> 'x member_db_scheme"
where
  "acceptInvitation aborts env now newId userId token db =
     (case findInvitationByTokenHash (e_hashToken env token) db of
        None \<Rightarrow> (Inl NotFoundError, db)
      | Some iv \<Rightarrow>
     if iv_revokedAt iv \<noteq> None then (Inl (ConflictError ''revoked''), db)
     else if iv_acceptedAt iv \<noteq> None then (Inl (ConflictError ''accepted''), db)
     else if isInvitationExpired (iv_expiresAt iv) now then (Inl (ConflictError ''expired''), db)
     else
     (case find_user userId db of
        None \<Rightarrow> (Inl (ValidationError ''user''), db)
      | Some user \<Rightarrow>
     if us_email user \<noteq> iv_email iv then (Inl ForbiddenError, db)
     else
     (case find_organization (iv_organizationId iv) db of
        None \<Rightarrow> (Inl NotFoundError, db)
      | Some _ \<Rightarrow>
     (case insertMembership \<lparr>m_id = newId, m_userId = us_id user,
              m_organizationId = iv_organizationId iv, m_role = iv_role iv\<rparr> db of
        (Duplicate_id, _) \<Rightarrow> (Inl UnexpectedError, db)
      | (Duplicate_member, _) \<Rightarrow>
          if aborts then (Inl UnexpectedError, db)
          else apfst (map_sum id (\<lambda>_. iv_organizationId iv))
                 (finish_acceptance ''handled'' now (us_id user) iv db db)
      | (Inserted, db1) \<Rightarrow>
          apfst (map_sum id (\<lambda>_. iv_organizationId iv))
            (finish_acceptance ''handled'' now (us_id user) iv db db1)))))"

text \<open>\<open>parsed\<close> is the name and password of the form; \<open>hash\<close> the password hasher.\<close>

definition registerAndAcceptInvitation ::
  "invite_env \<Rightarrow> (string \<Rightarrow> string) \<Rightarrow> time_ms \<Rightarrow> string \<Rightarrow> string \<Rightarrow> string \<Rightarrow> (string \<times> string) option \<Rightarrow>
   'x member_db_scheme \<Rightarrow> (app_error + string \<times> string) \<times> 'x member_db_scheme"
where
  "registerAndAcceptInvitation env hash now newUserId newId token parsed db =
     (case parsed of
        None \<Rightarrow> (Inl (ValidationError ''input''), db)
      | Some (name, password) \<Rightarrow>
     (case findInvitationByTokenHash (e_hashToken env token) db of
        None \<Rightarrow> (Inl (ConflictError ''invalid''), db)
      | Some iv \<Rightarrow>
     if iv_revokedAt iv \<noteq> None \<or> iv_acceptedAt iv \<noteq> None then (Inl (ConflictError ''invalid''), db)
     else if isInvitationExpired (iv_expiresAt iv) now then (Inl (ConflictError ''expired''), db)
     else if find_user_by_email (iv_email iv) db \<noteq> None then (Inl (ConflictError ''account exists''), db)
     else if find_row (\<lambda>q. iv_id q = iv_id iv \<and> live_invitation q) (invitations db) = None
     then (Inl (ConflictError ''invalid''), db)
     else if \<exists>q \<in> set (users db). us_email q = iv_email iv
     then (Inl (ConflictError ''account exists''), db)
     else if \<exists>q \<in> set (users db). us_id q = newUserId then (Inl UnexpectedError, db)
     else
       let db1 = db\<lparr>users := users db @ [\<lparr>us_id = newUserId, us_name = name, us_email = iv_email iv,
                  us_passwordHash = hash password, us_emailVerifiedAt = None\<rparr>]\<rparr>
       in (case insertMembership \<lparr>m_id = newId, m_userId = newUserId,
                  m_organizationId = iv_organizationId iv, m_role = iv_role iv\<rparr> db1 of
             (Inserted, db2) \<Rightarrow>
               apfst (map_sum id (\<lambda>_. (newUserId, iv_organizationId iv)))
                 (finish_acceptance ''invalid'' now newUserId iv db db2)
           | _ \<Rightarrow> (Inl UnexpectedError, db))))"

section \<open>Sequences of operations\<close>

datatype member_op =
  Op_ChangeRole string string string "membership_role option"
  | Op_Remove string string string
  | Op_Invite invite_env invite_draw string string "(string \<times> membership_role) option"
  | Op_Resend invite_env invite_draw string string string
  | Op_Revoke time_ms string string string
  | Op_Accept bool invite_env time_ms string string string
  | Op_Register invite_env "string \<Rightarrow> string" time_ms string string string "(string \<times> string) option"

definition accepted_by :: "invite_env \<Rightarrow> string \<Rightarrow> 'x member_db_scheme \<Rightarrow> ('e + 'r) \<Rightarrow> string option" where
  "accepted_by env token db res =
     (case res of Inl _ \<Rightarrow> None
      | Inr _ \<Rightarrow> map_option iv_id (findInvitationByTokenHash (e_hashToken env token) db))"

text \<open>One operation; the id is that of the invitation it accepted, if it did.\<close>

fun member_step :: "member_op \<Rightarrow> 'x member_db_scheme \<Rightarrow> string option \<times> 'x member_db_scheme" where
  "member_step (Op_ChangeRole u org m p) db = (None, snd (changeMemberRole u org m p db))"
| "member_step (Op_Remove u org m) db = (None, snd (removeMember u org m db))"
| "member_step (Op_Invite env r u org p) db = (None, snd (createInvitation env r u org p db))"
| "member_step (Op_Resend env r u org i) db = (None, snd (resendInvitation env r u org i db))"
| "member_step (Op_Revoke now u org i) db = (None, snd (revokeInvitation now u org i db))"
| "member_step (Op_Accept aborts env now newId u token) db =
     (let (res, db') = acceptInvitation aborts env now newId u token db in (accepted_by env token db res, db'))"
| "member_step (Op_Register env hash now newUserId newId token p) db =
     (let (res, db') = registerAndAcceptInvitation env hash now newUserId newId token p db
      in (accepted_by env token db res, db'))"

definition member_valid :: "'x member_db_scheme \<Rightarrow> bool" where
  "member_valid db \<longleftrightarrow>
     distinct (map m_id (memberships db)) \<and> distinct (map iv_id (invitations db)) \<and>
     distinct (map iv_tokenHash (invitations db))"

definition has_owner :: "string \<Rightarrow> 'x core_db_scheme \<Rightarrow> bool" where
  "has_owner org db \<longleftrightarrow> (\<exists>m \<in> set (memberships db). m_organizationId m = org \<and> m_role m = OWNER)"

lemma countOwners_pos: "0 < countOwners org db \<longleftrightarrow> has_owner org db"
  by (simp add: countOwners_def has_owner_def count_rows_pos)

subsection \<open>What an operation does to the members\<close>

lemma two_distinct:
  assumes "distinct (map g rows)" "2 \<le> count_rows P rows"
  shows "\<exists>q \<in> set rows. P q \<and> g q \<noteq> i"
proof (rule ccontr)
  assume "\<not> (\<exists>q \<in> set rows. P q \<and> g q \<noteq> i)"
  then have "set (map g (filter P rows)) \<subseteq> {i}" by auto
  moreover have "distinct (map g (filter P rows))" using assms(1) by (rule distinct_map_filter)
  ultimately have "length (map g (filter P rows)) \<le> card {i}"
    by (metis card_mono distinct_card finite.emptyI finite.insertI)
  with assms(2) show False by (simp add: count_rows_def)
qed

text \<open>The two ways in which members are rewritten, and that owners survive them.\<close>

definition members_change :: "membership list \<Rightarrow> membership list \<Rightarrow> bool" where
  "members_change ms ms' \<longleftrightarrow>
     ms' = ms \<or>
     (\<exists>new. ms' = ms @ [new] \<and> m_id new \<notin> m_id ` set ms) \<or>
     (\<exists>t \<in> set ms. \<exists>role. ms' = update_rows (\<lambda>m. m_id m = m_id t \<and> m_organizationId m = m_organizationId t)
          (\<lambda>m. m\<lparr>m_role := role\<rparr>) ms \<and>
        (m_role t = OWNER \<and> role \<noteq> OWNER \<longrightarrow>
          2 \<le> count_rows (\<lambda>m. m_organizationId m = m_organizationId t \<and> m_role m = OWNER) ms)) \<or>
     (\<exists>t \<in> set ms. ms' = delete_rows (\<lambda>m. m_id m = m_id t) ms \<and>
        (m_role t = OWNER \<longrightarrow>
          2 \<le> count_rows (\<lambda>m. m_organizationId m = m_organizationId t \<and> m_role m = OWNER) ms))"

lemma change_same [simp]: "members_change ms ms"
  by (simp add: members_change_def)

lemma change_add: "m_id new \<notin> m_id ` set ms \<Longrightarrow> members_change ms (ms @ [new])"
  unfolding members_change_def by blast

lemma change_role:
  "t \<in> set ms \<Longrightarrow> m_organizationId t = org \<Longrightarrow>
   (m_role t = OWNER \<Longrightarrow> role \<noteq> OWNER \<Longrightarrow> 2 \<le> count_rows (\<lambda>m. m_organizationId m = org \<and> m_role m = OWNER) ms) \<Longrightarrow>
   members_change ms (update_rows (\<lambda>m. m_id m = m_id t \<and> m_organizationId m = org) (\<lambda>m. m\<lparr>m_role := role\<rparr>) ms)"
  unfolding members_change_def by blast

lemma change_remove:
  "t \<in> set ms \<Longrightarrow> m_organizationId t = org \<Longrightarrow>
   (m_role t = OWNER \<Longrightarrow> 2 \<le> count_rows (\<lambda>m. m_organizationId m = org \<and> m_role m = OWNER) ms) \<Longrightarrow>
   members_change ms (delete_rows (\<lambda>m. m_id m = m_id t) ms)"
  unfolding members_change_def by blast

lemma change_keeps_ids:
  "members_change ms ms' \<Longrightarrow> distinct (map m_id ms) \<Longrightarrow> distinct (map m_id ms')"
  by (auto simp: members_change_def delete_rows_def distinct_map_filter map_update_rows)

lemma change_keeps_owner:
  assumes "members_change ms ms'" "distinct (map m_id ms)"
    "\<exists>m \<in> set ms. m_organizationId m = org \<and> m_role m = OWNER"
  shows "\<exists>m \<in> set ms'. m_organizationId m = org \<and> m_role m = OWNER"
proof -
  obtain m where m: "m \<in> set ms" "m_organizationId m = org" "m_role m = OWNER" using assms(3) by blast
  have other: "\<exists>q \<in> set ms. m_organizationId q = org \<and> m_role q = OWNER \<and> m_id q \<noteq> m_id t"
    if "t \<in> set ms" "m_role t = OWNER \<longrightarrow>
      2 \<le> count_rows (\<lambda>m. m_organizationId m = m_organizationId t \<and> m_role m = OWNER) ms" for t
  proof (cases "m_id m = m_id t")
    case True
    with assms(2) m(1) that(1) have "m = t" by (auto simp: distinct_map inj_on_def)
    with that m two_distinct [OF assms(2), of "\<lambda>m. m_organizationId m = m_organizationId t \<and> m_role m = OWNER" "m_id t"]
    show ?thesis by auto
  qed (use m in blast)
  from assms(1) show ?thesis unfolding members_change_def
  proof (elim disjE exE bexE conjE)
    fix t role
    assume t: "t \<in> set ms" "ms' = update_rows (\<lambda>m. m_id m = m_id t \<and> m_organizationId m = m_organizationId t)
        (\<lambda>m. m\<lparr>m_role := role\<rparr>) ms"
      "m_role t = OWNER \<and> role \<noteq> OWNER \<longrightarrow>
        2 \<le> count_rows (\<lambda>m. m_organizationId m = m_organizationId t \<and> m_role m = OWNER) ms"
    show ?thesis
    proof (cases "role = OWNER")
      case True
      with m t(2) show ?thesis by (auto simp: set_update_rows intro!: image_eqI [where x = m] split: if_splits)
    next
      case False
      with other [OF t(1)] t(3) obtain q where "q \<in> set ms" "m_organizationId q = org" "m_role q = OWNER"
        "m_id q \<noteq> m_id t" by blast
      then show ?thesis unfolding t(2) set_update_rows by (intro bexI [where x = q]) (auto intro!: image_eqI [where x = q])
    qed
  next
    fix t
    assume t: "t \<in> set ms" "ms' = delete_rows (\<lambda>m. m_id m = m_id t) ms"
      "m_role t = OWNER \<longrightarrow>
        2 \<le> count_rows (\<lambda>m. m_organizationId m = m_organizationId t \<and> m_role m = OWNER) ms"
    with other [OF t(1,3)] show ?thesis by (auto simp: delete_rows_def)
  qed (use m in auto)
qed

lemma memberships_pass [simp]:
  "memberships (snd (update_live_invitation o' i f db)) = memberships db"
  "memberships (snd (enqueuePendingMailDelivery i now o'' u t h key db)) = memberships db"
  "memberships (deliverInvitationMail env r i db) = memberships db"
  by (simp_all add: update_live_invitation_def Let_def enqueuePendingMailDelivery_def deliverInvitationMail_def
      sendTrackedMail_def markMailDeliverySending_def updateMail_def markMailDeliverySent_def
      markMailDeliveryFailed_def split: option.split send_result.split)

lemma changeMemberRole_members:
  "members_change (memberships db) (memberships (snd (changeMemberRole u org m p db)))"
proof (cases "changeMemberRole_reads u org m p db")
  case (Inr x)
  obtain ctx target nextRole where x: "x = (ctx, target, nextRole)" by (cases x)
  with Inr have t: "target \<in> set (memberships db)" "m_organizationId target = ac_organizationId ctx"
    by (auto simp: changeMemberRole_reads_def findMembershipById_def split: sum.splits option.splits if_splits
        dest: find_row_Some)
  show ?thesis
  proof (cases "changeMemberRole_guard ctx target nextRole db")
    case None
    then have "m_role target = OWNER \<and> nextRole \<noteq> OWNER \<longrightarrow> 2 \<le> countOwners (ac_organizationId ctx) db"
      by (auto simp: changeMemberRole_guard_def isLastOwner_def split: if_splits)
    with None Inr t show ?thesis
      by (auto simp: changeMemberRole_def x changeMemberRole_writes_def updateMembershipRole_def Let_def
          countOwners_def split: option.split if_splits intro!: change_role)
  qed (simp add: changeMemberRole_def Inr x)
qed (simp add: changeMemberRole_def)

lemma removeMember_members:
  "members_change (memberships db) (memberships (snd (removeMember u org m db)))"
  by (auto simp: removeMember_def findMembershipById_def deleteMembership_def isLastOwner_def countOwners_def
      not_le numeral_2_eq_2 Suc_le_eq split: sum.split option.split dest!: find_row_Some intro!: change_remove)

lemma insertMembership_cases:
  "insertMembership m db = (Inserted, db1) \<Longrightarrow>
   m_id m \<notin> m_id ` set (memberships db) \<and> db1 = db\<lparr>memberships := memberships db @ [m]\<rparr> \<and>
   (\<forall>q \<in> set (memberships db). m_userId q = m_userId m \<longrightarrow> m_organizationId q \<noteq> m_organizationId m)"
  by (force simp: insertMembership_def split: if_splits)

subsection \<open>Acceptance, guard by guard\<close>

text \<open>The database after an acceptance: the invitation is marked, the audit entry is written.\<close>

definition accepted_db ::
  "time_ms \<Rightarrow> string \<Rightarrow> invitation \<Rightarrow> 'x member_db_scheme \<Rightarrow> 'x member_db_scheme" where
  "accepted_db now u iv db1 =
     audit_invitation (iv_organizationId iv) u (iv_id iv) ''MEMBER_INVITATION_ACCEPTED''
       (db1\<lparr>invitations := update_rows (\<lambda>q. iv_id q = iv_id iv \<and> iv_organizationId q = iv_organizationId iv \<and>
            live_invitation q) (\<lambda>q. q\<lparr>iv_acceptedAt := Some now\<rparr>) (invitations db1)\<rparr>)"

lemma finish_acceptance_eq:
  "finish_acceptance reason now u iv db0 db1 =
     (if count_rows (\<lambda>q. iv_id q = iv_id iv \<and> iv_organizationId q = iv_organizationId iv \<and> live_invitation q)
           (invitations db1) > 0
      then (Inr (), accepted_db now u iv db1) else (Inl (ConflictError reason), db0))"
  by (simp add: finish_acceptance_def markInvitationAccepted_def update_live_invitation_def Let_def accepted_db_def)

text \<open>What the guards before the transaction have established.\<close>

definition accept_ready :: "invite_env \<Rightarrow> time_ms \<Rightarrow> string \<Rightarrow> 'x member_db_scheme \<Rightarrow> invitation \<Rightarrow> bool" where
  "accept_ready env now token db iv \<longleftrightarrow>
     findInvitationByTokenHash (e_hashToken env token) db = Some iv \<and> live_invitation iv \<and>
     now < iv_expiresAt iv"

lemma accept_guards:
  obtains (refused) e where "acceptInvitation aborts env now newId u token db = (Inl e, db)"
  | (ready) iv user where "accept_ready env now token db iv" "find_user u db = Some user" "us_id user = u"
      "us_email user = iv_email iv" "find_organization (iv_organizationId iv) db \<noteq> None"
proof -
  have "(\<exists>e. acceptInvitation aborts env now newId u token db = (Inl e, db)) \<or>
    (\<exists>iv user. accept_ready env now token db iv \<and> find_user u db = Some user \<and>
       us_email user = iv_email iv \<and> find_organization (iv_organizationId iv) db \<noteq> None)"
  proof (cases "findInvitationByTokenHash (e_hashToken env token) db")
    case None
    then show ?thesis by (simp add: acceptInvitation_def)
  next
    case (Some iv)
    show ?thesis
    proof (cases "live_invitation iv \<and> now < iv_expiresAt iv")
      case True
      then have "iv_revokedAt iv = None" "iv_acceptedAt iv = None" "\<not> isInvitationExpired (iv_expiresAt iv) now"
        by (auto simp: live_invitation_def isInvitationExpired_def)
      with Some True show ?thesis
        by (cases "find_user u db"; cases "find_organization (iv_organizationId iv) db")
          (simp_all add: acceptInvitation_def accept_ready_def)
    next
      case False
      with Some show ?thesis by (auto simp: acceptInvitation_def live_invitation_def isInvitationExpired_def)
    qed
  qed
  then show thesis
    using refused ready by (auto simp: find_user_def dest: find_row_Some)
qed

lemma accept_ready_eq:
  assumes "accept_ready env now token db iv" "find_user u db = Some user" "us_id user = u"
    "us_email user = iv_email iv" "find_organization (iv_organizationId iv) db \<noteq> None"
  shows "acceptInvitation aborts env now newId u token db =
    (case insertMembership \<lparr>m_id = newId, m_userId = u, m_organizationId = iv_organizationId iv,
              m_role = iv_role iv\<rparr> db of
        (Duplicate_id, _) \<Rightarrow> (Inl UnexpectedError, db)
      | (Duplicate_member, _) \<Rightarrow>
          if aborts then (Inl UnexpectedError, db)
          else apfst (map_sum id (\<lambda>_. iv_organizationId iv)) (finish_acceptance ''handled'' now u iv db db)
      | (Inserted, db1) \<Rightarrow>
          apfst (map_sum id (\<lambda>_. iv_organizationId iv)) (finish_acceptance ''handled'' now u iv db db1))"
  using assms by (auto simp: acceptInvitation_def accept_ready_def live_invitation_def isInvitationExpired_def)

lemma accept_fails:
  assumes "acceptInvitation aborts env now newId u token db = (Inl e, db')"
  shows "db' = db"
proof (cases rule: accept_guards [of aborts env now newId u token db])
  case (ready iv user)
  from assms show ?thesis
    by (auto simp: accept_ready_eq [OF ready] finish_acceptance_eq split: prod.splits insertion.splits if_splits)
qed (use assms in simp)

lemma accept_succeeds:
  assumes "acceptInvitation aborts env now newId u token db = (Inr org, db')"
  obtains iv user db1 where "accept_ready env now token db iv" "find_user u db = Some user"
    "us_email user = iv_email iv" "org = iv_organizationId iv" "find_organization org db \<noteq> None"
    "db' = accepted_db now u iv db1"
    "insertMembership \<lparr>m_id = newId, m_userId = u, m_organizationId = org, m_role = iv_role iv\<rparr> db = (Inserted, db1) \<or>
     \<not> aborts \<and> db1 = db \<and> (\<exists>q \<in> set (memberships db). m_userId q = u \<and> m_organizationId q = org)"
proof (cases rule: accept_guards [of aborts env now newId u token db])
  case (ready iv user)
  let ?m = "\<lparr>m_id = newId, m_userId = u, m_organizationId = iv_organizationId iv, m_role = iv_role iv\<rparr>"
  have org: "org = iv_organizationId iv"
    using assms by (auto simp: accept_ready_eq [OF ready] finish_acceptance_eq
        split: prod.splits insertion.splits if_splits)
  obtain res db1 where ins: "insertMembership ?m db = (res, db1)" by (cases "insertMembership ?m db")
  show thesis
  proof (cases res)
    case Inserted
    with assms ins show thesis
      by (intro that [OF ready(1,2,4) org, of db1])
        (auto simp: accept_ready_eq [OF ready] finish_acceptance_eq org ready split: if_splits)
  next
    case Duplicate_member
    with ins have "\<exists>q \<in> set (memberships db). m_userId q = u \<and> m_organizationId q = iv_organizationId iv"
      by (auto simp: insertMembership_def split: if_splits)
    with assms ins Duplicate_member show thesis
      by (intro that [OF ready(1,2,4) org, of db])
        (auto simp: accept_ready_eq [OF ready] finish_acceptance_eq org ready split: if_splits)
  qed (use assms ins in \<open>simp add: accept_ready_eq [OF ready]\<close>)
qed (use assms in simp)

lemma register_guards:
  obtains (refused) e where "registerAndAcceptInvitation env hash now newUserId newId token p db = (Inl e, db)"
  | (ready) iv name password where "accept_ready env now token db iv" "p = Some (name, password)"
      "us_email ` set (users db) \<inter> {iv_email iv} = {}" "us_id ` set (users db) \<inter> {newUserId} = {}"
      "registerAndAcceptInvitation env hash now newUserId newId token p db =
        (case insertMembership \<lparr>m_id = newId, m_userId = newUserId,
                  m_organizationId = iv_organizationId iv, m_role = iv_role iv\<rparr>
                (db\<lparr>users := users db @ [\<lparr>us_id = newUserId, us_name = name, us_email = iv_email iv,
                  us_passwordHash = hash password, us_emailVerifiedAt = None\<rparr>]\<rparr>) of
             (Inserted, db2) \<Rightarrow>
               apfst (map_sum id (\<lambda>_. (newUserId, iv_organizationId iv)))
                 (finish_acceptance ''invalid'' now newUserId iv db db2)
           | _ \<Rightarrow> (Inl UnexpectedError, db))"
proof (cases p)
  case None
  then show thesis by (intro refused) (simp add: registerAndAcceptInvitation_def)
next
  case (Some np)
  obtain name password where np: "np = (name, password)" by (cases np)
  show thesis
  proof (cases "findInvitationByTokenHash (e_hashToken env token) db")
    case None
    then show thesis by (intro refused) (simp add: registerAndAcceptInvitation_def Some np)
  next
    case iv: (Some iv)
    show thesis
    proof (cases "live_invitation iv \<and> now < iv_expiresAt iv \<and> find_user_by_email (iv_email iv) db = None \<and>
        find_row (\<lambda>q. iv_id q = iv_id iv \<and> live_invitation q) (invitations db) \<noteq> None \<and>
        \<not> (\<exists>q \<in> set (users db). us_email q = iv_email iv) \<and> \<not> (\<exists>q \<in> set (users db). us_id q = newUserId)")
      case True
      then show thesis
        by (intro ready [of iv name password])
          (auto simp: registerAndAcceptInvitation_def Some np iv Let_def accept_ready_def live_invitation_def
            isInvitationExpired_def)
    next
      case False
      then have "\<exists>e. registerAndAcceptInvitation env hash now newUserId newId token p db = (Inl e, db)"
        by (auto simp: registerAndAcceptInvitation_def Some np iv live_invitation_def isInvitationExpired_def)
      then show thesis using refused by blast
    qed
  qed
qed

subsection \<open>What an operation does to the invitations\<close>

lemma invitations_pass [simp]:
  "invitations (audit o' u et ei a db) = invitations db"
  "invitations (audit_invitation o' w i a db) = invitations db"
  "memberships (audit_invitation o' w i a db) = memberships db"
  "users (audit_invitation o' w i a db) = users db"
  "invitations (snd (enqueuePendingMailDelivery i now o'' v t h key db)) = invitations db"
  "invitations (deliverInvitationMail env r i db) = invitations db"
  by (simp_all add: audit_def audit_invitation_def enqueuePendingMailDelivery_def deliverInvitationMail_def
      sendTrackedMail_def markMailDeliverySending_def updateMail_def markMailDeliverySent_def
      markMailDeliveryFailed_def split: option.split send_result.split)

definition acceptances :: "invitation \<Rightarrow> nat" where
  "acceptances iv = (if iv_acceptedAt iv = None then 0 else 1)"

definition invitations_ok :: "invitation list \<Rightarrow> bool" where
  "invitations_ok ivs \<longleftrightarrow> distinct (map iv_id ivs) \<and> distinct (map iv_tokenHash ivs)"

text \<open>No invitation is removed, a settled one is not rewritten, and only the invitation named is newly
  accepted, which was live.\<close>

definition invitations_change :: "string option \<Rightarrow> invitation list \<Rightarrow> invitation list \<Rightarrow> bool" where
  "invitations_change claimed ivs ivs' \<longleftrightarrow>
     invitations_ok ivs' \<and>
     (\<forall>i iv. find_row (\<lambda>q. iv_id q = i) ivs = Some iv \<longrightarrow>
        (\<exists>iv'. find_row (\<lambda>q. iv_id q = i) ivs' = Some iv' \<and>
           acceptances iv' = acceptances iv + (if claimed = Some i then 1 else 0) \<and>
           (\<not> live_invitation iv \<longrightarrow> iv' = iv)))"

lemma invitations_same: "invitations_ok ivs \<Longrightarrow> invitations_change None ivs ivs"
  by (simp add: invitations_change_def)

lemma invitations_add:
  "invitations_ok (ivs @ [new]) \<Longrightarrow> invitations_change None ivs (ivs @ [new])"
  by (simp add: invitations_change_def table_simps)

lemma invitations_rewrite:
  assumes "invitations_ok (update_rows (\<lambda>q. iv_id q = x \<and> iv_organizationId q = org \<and> live_invitation q) f ivs)"
    and "\<And>q. iv_id (f q) = iv_id q" "\<And>q. iv_acceptedAt (f q) = iv_acceptedAt q"
  shows "invitations_change None ivs
    (update_rows (\<lambda>q. iv_id q = x \<and> iv_organizationId q = org \<and> live_invitation q) f ivs)"
  using assms by (auto simp: invitations_change_def find_row_update acceptances_def)

lemma rewrite_ok:
  assumes "invitations_ok ivs" "\<And>q. iv_id (f q) = iv_id q" "\<And>q. iv_tokenHash (f q) = iv_tokenHash q"
  shows "invitations_ok (update_rows P f ivs)"
  using assms by (simp add: invitations_ok_def map_update_rows)

lemma rotate_ok:
  assumes "invitations_ok ivs" "\<forall>q \<in> set ivs. iv_tokenHash q = h \<longrightarrow> iv_id q = x"
    and "\<And>q. iv_id (f q) = iv_id q" "\<And>q. iv_tokenHash (f q) = h"
  shows "invitations_ok (update_rows (\<lambda>q. iv_id q = x \<and> P q) f ivs)"
proof -
  let ?g = "\<lambda>q. if iv_id q = x \<and> P q then f q else q"
  have "inj_on (\<lambda>q. iv_tokenHash (?g q)) (set ivs)"
  proof (rule inj_onI)
    fix q r assume q: "q \<in> set ivs" "r \<in> set ivs" "iv_tokenHash (?g q) = iv_tokenHash (?g r)"
    have ids: "iv_id q = iv_id r \<Longrightarrow> q = r" and hs: "iv_tokenHash q = iv_tokenHash r \<Longrightarrow> q = r"
      using assms(1) q(1,2) by (auto simp: invitations_ok_def distinct_map inj_on_def)
    show "q = r"
      using q assms(2,4) ids hs by (auto split: if_splits)
  qed
  moreover have "distinct ivs" using assms(1) by (simp add: invitations_ok_def distinct_map)
  ultimately have "distinct (map (\<lambda>q. iv_tokenHash (?g q)) ivs)" by (simp add: distinct_map)
  moreover have "map iv_tokenHash (update_rows (\<lambda>q. iv_id q = x \<and> P q) f ivs) = map (\<lambda>q. iv_tokenHash (?g q)) ivs"
    by (simp add: update_rows_def)
  ultimately show ?thesis using assms(1,3) by (simp add: invitations_ok_def map_update_rows)
qed

lemma invitation_unique:
  "invitations_ok ivs \<Longrightarrow> iv \<in> set ivs \<Longrightarrow> find_row (\<lambda>q. iv_id q = iv_id iv) ivs = Some iv"
  by (induction ivs) (auto simp: invitations_ok_def find_row_Cons)

lemma token_unique:
  "invitations_ok ivs \<Longrightarrow> iv \<in> set ivs \<Longrightarrow> find_row (\<lambda>q. iv_tokenHash q = iv_tokenHash iv) ivs = Some iv"
  by (induction ivs) (auto simp: invitations_ok_def find_row_Cons)

lemma accepted_change:
  assumes ok: "invitations_ok (invitations db1)" and iv: "iv \<in> set (invitations db1)" "live_invitation iv"
  shows "invitations_change (Some (iv_id iv)) (invitations db1) (invitations (accepted_db now u iv db1))"
proof -
  have "invitations_ok (invitations (accepted_db now u iv db1))"
    by (simp add: accepted_db_def) (rule rewrite_ok [OF ok]; simp)
  moreover have "\<exists>iv'. find_row (\<lambda>q. iv_id q = i) (invitations (accepted_db now u iv db1)) = Some iv' \<and>
      acceptances iv' = acceptances q + (if Some (iv_id iv) = Some i then 1 else 0) \<and>
      (\<not> live_invitation q \<longrightarrow> iv' = q)"
    if q: "find_row (\<lambda>q. iv_id q = i) (invitations db1) = Some q" for i q
  proof -
    have "i = iv_id iv \<Longrightarrow> q = iv" using invitation_unique [OF ok iv(1)] q by simp
    with q iv(2) find_row_Some [OF q] show ?thesis
      by (auto simp: accepted_db_def find_row_update acceptances_def live_invitation_def)
  qed
  ultimately show ?thesis by (simp add: invitations_change_def)
qed

lemma verify_role_org: "verifyOrganizationRole u org roles db = Inr ctx \<Longrightarrow> ac_organizationId ctx = org \<and> ac_userId ctx = u"
  by (auto dest: verify_role_Inr)

lemma createInvitation_effect:
  assumes ok: "invitations_ok (invitations db)"
  shows "memberships (snd (createInvitation env r u org p db)) = memberships db \<and>
    invitations_change None (invitations db) (invitations (snd (createInvitation env r u org p db)))"
proof (cases "verifyOrganizationRole u org [OWNER] db")
  case (Inl e)
  then show ?thesis by (simp add: createInvitation_def invitations_same [OF ok])
next
  case (Inr ctx)
  note ctx = this
  show ?thesis
  proof (cases p)
    case None
    with ctx show ?thesis by (simp add: createInvitation_def invitations_same [OF ok])
  next
    case (Some er)
    obtain email role where er: "er = (email, role)" by (cases er)
    let ?iv = "\<lparr>iv_id = r_invitationId r, iv_organizationId = ac_organizationId ctx,
             iv_email = email, iv_role = role, iv_tokenHash = e_hashToken env (r_token r),
             iv_invitedById = ac_userId ctx, iv_expiresAt = computeInvitationExpiresAt (r_now r),
             iv_acceptedAt = None, iv_revokedAt = None, iv_resendCount = 0\<rparr>"
    show ?thesis
    proof (cases "createInvitationRow ?iv db")
      case None
      with ctx Some er show ?thesis by (simp add: createInvitation_def Let_def invitations_same [OF ok])
    next
      case (Some db1)
      then have db1: "invitations db1 = invitations db @ [?iv]" "memberships db1 = memberships db"
        and ok1: "invitations_ok (invitations db @ [?iv])"
        using ok by (auto simp: createInvitationRow_def invitations_ok_def split: if_splits)
      from ctx \<open>p = Some er\<close> er Some db1 show ?thesis
        by (auto simp: createInvitation_def Let_def case_prod_beta invitations_same [OF ok] invitations_add [OF ok1]
            split: option.split)
    qed
  qed
qed

lemma rotate_succeeds:
  assumes "rotateInvitationToken org x h expires db = (Inr (Some updated), db1)"
  shows "db1 = db\<lparr>invitations := update_rows (\<lambda>q. iv_id q = x \<and> iv_organizationId q = org \<and> live_invitation q)
      (\<lambda>q. q\<lparr>iv_tokenHash := h, iv_expiresAt := expires, iv_resendCount := iv_resendCount q + 1\<rparr>) (invitations db)\<rparr>"
    and "\<forall>q \<in> set (invitations db). iv_tokenHash q = h \<longrightarrow> iv_id q = x"
    and "findInvitationById org x db1 = Some updated"
proof -
  let ?n = "count_rows (\<lambda>q. iv_id q = x \<and> iv_organizationId q = org \<and> live_invitation q) (invitations db)"
  have n: "?n > 0"
    using assms by (cases "?n > 0") (simp_all add: rotateInvitationToken_def update_live_invitation_def Let_def)
  with assms have no: "\<not> (\<exists>q \<in> set (invitations db). iv_tokenHash q = h \<and> iv_id q \<noteq> x)"
    by (cases "\<exists>q \<in> set (invitations db). iv_tokenHash q = h \<and> iv_id q \<noteq> x")
      (simp_all add: rotateInvitationToken_def update_live_invitation_def Let_def)
  then show "\<forall>q \<in> set (invitations db). iv_tokenHash q = h \<longrightarrow> iv_id q = x" by blast
  from assms n no show "db1 = db\<lparr>invitations := update_rows (\<lambda>q. iv_id q = x \<and> iv_organizationId q = org \<and> live_invitation q)
      (\<lambda>q. q\<lparr>iv_tokenHash := h, iv_expiresAt := expires, iv_resendCount := iv_resendCount q + 1\<rparr>) (invitations db)\<rparr>"
    "findInvitationById org x db1 = Some updated"
    by (auto simp: rotateInvitationToken_def update_live_invitation_def Let_def)
qed

lemma resendInvitation_effect:
  assumes ok: "invitations_ok (invitations db)"
  shows "memberships (snd (resendInvitation env r u org i db)) = memberships db \<and>
    invitations_change None (invitations db) (invitations (snd (resendInvitation env r u org i db)))"
proof (cases "verifyOrganizationRole u org [OWNER] db")
  case (Inl e)
  then show ?thesis by (simp add: resendInvitation_def invitations_same [OF ok])
next
  case (Inr ctx)
  note ctx = this
  show ?thesis
  proof (cases "findInvitationById (ac_organizationId ctx) i db")
    case None
    with ctx show ?thesis by (simp add: resendInvitation_def invitations_same [OF ok])
  next
    case (Some iv)
    note iv = this
    show ?thesis
    proof (cases "rotateInvitationToken (ac_organizationId ctx) (iv_id iv) (e_hashToken env (r_token r))
        (computeInvitationExpiresAt (r_now r)) db")
      case (Pair res db1)
      show ?thesis
      proof (cases "\<exists>updated. res = Inr (Some updated)")
        case False
        then have "res = Inl () \<or> res = Inr None" by (cases res) auto
        with ctx iv Pair invitations_same [OF ok] show ?thesis
          by (elim disjE; cases "live_invitation iv") (simp_all add: resendInvitation_def)
      next
        case True
        then obtain updated where res: "res = Inr (Some updated)" ..
        let ?f = "\<lambda>q. q\<lparr>iv_tokenHash := e_hashToken env (r_token r),
            iv_expiresAt := computeInvitationExpiresAt (r_now r), iv_resendCount := iv_resendCount q + 1\<rparr>"
        have db1: "memberships db1 = memberships db"
          "invitations db1 = update_rows (\<lambda>q. iv_id q = iv_id iv \<and> iv_organizationId q = ac_organizationId ctx \<and>
             live_invitation q) ?f (invitations db)"
          "\<forall>q \<in> set (invitations db). iv_tokenHash q = e_hashToken env (r_token r) \<longrightarrow> iv_id q = iv_id iv"
          using rotate_succeeds(1,2) [OF Pair [unfolded res]] by simp_all
        have ok1: "invitations_ok (invitations db1)"
          unfolding db1(2) by (rule rotate_ok [OF ok db1(3)]) simp_all
        have "invitations_change None (invitations db) (invitations db1)"
          unfolding db1(2) by (rule invitations_rewrite [OF ok1 [unfolded db1(2)]]) simp_all
        moreover obtain mid db3 where e: "enqueuePendingMailDelivery (r_deliveryId r) (r_now r)
                (Some (ac_organizationId ctx)) (Some (ac_userId ctx)) ORGANIZATION_INVITATION
                (e_hashRecipient env (iv_email updated))
                (buildInvitationResendIdempotencyKey (iv_id updated) (iv_resendCount updated))
                (audit_invitation (ac_organizationId ctx) (ac_userId ctx) (iv_id updated)
                      ''MEMBER_INVITATION_RESENT'' db1) = (mid, db3)"
          by (metis surj_pair)
        moreover have "memberships db3 = memberships db" "invitations db3 = invitations db1"
          using e db1(1) memberships_pass(2) invitations_pass(2,3,5) by (metis snd_conv)+
        ultimately show ?thesis
          using ctx iv Pair res invitations_same [OF ok]
          by (cases "live_invitation iv"; cases mid) (simp_all add: resendInvitation_def Let_def)
      qed
    qed
  qed
qed

lemma revokeInvitation_effect:
  assumes ok: "invitations_ok (invitations db)"
  shows "memberships (snd (revokeInvitation now u org i db)) = memberships db \<and>
    invitations_change None (invitations db) (invitations (snd (revokeInvitation now u org i db)))"
proof -
  have rows: "invitations_change None (invitations db)
      (update_rows (\<lambda>q. iv_id q = x \<and> iv_organizationId q = o' \<and> live_invitation q)
        (\<lambda>q. q\<lparr>iv_revokedAt := Some now\<rparr>) (invitations db))" for x o'
    by (rule invitations_rewrite [OF rewrite_ok [OF ok]]) simp_all
  then show ?thesis
    by (auto simp: revokeInvitation_def revokeInvitationRow_def update_live_invitation_def Let_def
        invitations_same [OF ok] split: sum.split option.split bool.split)
qed

lemma memberOps_invitations:
  "invitations (snd (changeMemberRole u org m p db)) = invitations db"
  "invitations (snd (removeMember u org m db)) = invitations db"
  by (auto simp: changeMemberRole_def changeMemberRole_writes_def updateMembershipRole_def removeMember_def
      deleteMembership_def Let_def split: sum.split option.split prod.split)

lemma found_by_token:
  "findInvitationByTokenHash h db = Some iv \<Longrightarrow> iv \<in> set (invitations db) \<and> iv_tokenHash iv = h"
  by (auto simp: findInvitationByTokenHash_def dest: find_row_Some)

lemma insert_effect:
  "insertMembership m db = (Inserted, db1) \<Longrightarrow>
   members_change (memberships db) (memberships db1) \<and> invitations db1 = invitations db"
  by (auto dest!: insertMembership_cases intro: change_add)

lemma member_step_effect:
  assumes v: "member_valid db"
  shows "members_change (memberships db) (memberships (snd (member_step x db))) \<and>
    invitations_change (fst (member_step x db)) (invitations db) (invitations (snd (member_step x db)))"
proof -
  have ok: "invitations_ok (invitations db)" using v by (simp add: member_valid_def invitations_ok_def)
  have accepted: "invitations_change (Some (iv_id iv)) (invitations db) (invitations (accepted_db now u iv db1))"
    if "accept_ready env now token db iv" "invitations db1 = invitations db" for env now token iv u db1
    using accepted_change [of db1 iv now u] that ok by (auto simp: accept_ready_def dest: found_by_token)
  show ?thesis
  proof (cases x)
    case (Op_Accept aborts env now newId u token)
    show ?thesis
    proof (cases "acceptInvitation aborts env now newId u token db")
      case (Pair res db')
      show ?thesis
      proof (cases res)
        case (Inl e)
        with Pair have "db' = db" by (simp add: accept_fails)
        with Pair Inl show ?thesis by (simp add: Op_Accept accepted_by_def invitations_same [OF ok])
      next
        case (Inr org)
        with Pair obtain iv db1 where
          s: "accept_ready env now token db iv" "db' = accepted_db now u iv db1" "org = iv_organizationId iv"
            "insertMembership \<lparr>m_id = newId, m_userId = u, m_organizationId = org, m_role = iv_role iv\<rparr> db =
               (Inserted, db1) \<or> \<not> aborts \<and> db1 = db \<and>
               (\<exists>q \<in> set (memberships db). m_userId q = u \<and> m_organizationId q = org)"
          by (metis accept_succeeds)
        then have m: "members_change (memberships db) (memberships db1)" "invitations db1 = invitations db"
          using insert_effect by fastforce+
        from accepted [OF s(1) m(2), of u] s(1,2) m(1) Pair Inr show ?thesis
          by (simp add: Op_Accept accepted_by_def accept_ready_def) (simp add: accepted_db_def)
      qed
    qed
  next
    case (Op_Register env hash now newUserId newId token p)
    show ?thesis
    proof (cases rule: register_guards [of env hash now newUserId newId token p db])
      case (refused e)
      then show ?thesis by (simp add: Op_Register accepted_by_def invitations_same [OF ok])
    next
      case (ready iv name password)
      let ?db = "db\<lparr>users := users db @ [\<lparr>us_id = newUserId, us_name = name, us_email = iv_email iv,
                  us_passwordHash = hash password, us_emailVerifiedAt = None\<rparr>]\<rparr>"
      let ?m = "\<lparr>m_id = newId, m_userId = newUserId, m_organizationId = iv_organizationId iv, m_role = iv_role iv\<rparr>"
      show ?thesis
      proof (cases "insertMembership ?m ?db")
        case (Pair ins db1)
        show ?thesis
        proof (cases "ins = Inserted")
          case True
          with Pair insert_effect [of ?m ?db db1]
          have "members_change (memberships db) (memberships db1)" "invitations db1 = invitations db" by simp_all
          with True Pair ready(1,5) accepted [OF ready(1), of db1] show ?thesis
            by (simp add: Op_Register accepted_by_def finish_acceptance_eq invitations_same [OF ok])
              (simp add: accepted_db_def accept_ready_def)
        next
          case False
          with Pair ready(5) show ?thesis
            by (cases ins) (simp_all add: Op_Register accepted_by_def invitations_same [OF ok])
        qed
      qed
    qed
  qed (simp_all add: changeMemberRole_members removeMember_members memberOps_invitations
      invitations_same [OF ok] createInvitation_effect [OF ok] resendInvitation_effect [OF ok]
      revokeInvitation_effect [OF ok])
qed

text \<open>Reading an invitation as a job with one attempt: it is used up when it was accepted, and claimable
  while it is live.\<close>

definition invitation_at :: "'x member_db_scheme \<Rightarrow> string \<Rightarrow> (nat \<times> nat \<times> bool) option" where
  "invitation_at db i =
     map_option (\<lambda>iv. (acceptances iv, 1, live_invitation iv)) (find_row (\<lambda>q. iv_id q = i) (invitations db))"

lemma member_valid_step: "member_valid db \<Longrightarrow> member_valid (snd (member_step x db))"
  using member_step_effect [of db x] change_keeps_ids
  by (auto simp: member_valid_def invitations_change_def invitations_ok_def)

interpretation invitation_use: bounded_retry member_step invitation_at member_valid
proof unfold_locales
  fix db :: "'x member_db_scheme" and x
  assume v: "member_valid db"
  then show "member_valid (snd (member_step x db))" by (rule member_valid_step)
  fix i attempt most claimable
  assume at: "invitation_at db i = Some (attempt, most, claimable)"
  then obtain iv where iv: "find_row (\<lambda>q. iv_id q = i) (invitations db) = Some iv"
    "attempt = acceptances iv" "most = 1" by (auto simp: invitation_at_def)
  with member_step_effect [OF v, of x] obtain iv' where
    "find_row (\<lambda>q. iv_id q = i) (invitations (snd (member_step x db))) = Some iv'"
    "acceptances iv' = acceptances iv + (if fst (member_step x db) = Some i then 1 else 0)"
    unfolding invitations_change_def by blast
  with iv(2,3) show "\<exists>claimable'. invitation_at (snd (member_step x db)) i =
      Some (if fst (member_step x db) = Some i then attempt + 1 else attempt, most, claimable')"
    by (simp add: invitation_at_def)
next
  fix db :: "'x member_db_scheme" and i attempt most claimable
  assume "invitation_at db i = Some (attempt, most, claimable)"
  then show "attempt \<le> most \<and> (claimable \<longrightarrow> attempt < most)"
    by (auto simp: invitation_at_def acceptances_def live_invitation_def)
qed

lemma run_keeps_owner:
  "member_valid db \<Longrightarrow> has_owner org db \<Longrightarrow> has_owner org (snd (run_jobs member_step xs db))"
proof (induction xs arbitrary: db)
  case (Cons x xs)
  have "has_owner org (snd (member_step x db))"
    unfolding has_owner_def
    by (rule change_keeps_owner [OF conjunct1 [OF member_step_effect [OF Cons.prems(1)]]])
      (use Cons.prems in \<open>simp_all add: has_owner_def member_valid_def\<close>)
  from Cons.IH [OF member_valid_step [OF Cons.prems(1)] this] show ?case
    by (simp add: case_prod_beta Let_def)
qed simp

section \<open>Properties\<close>

text \<open>C11: An organization never loses its last owner: run one after the other, whatever operations are
  performed by whomever (role changes, removals, invitations, acceptances, registrations), an
  organization that has an owner still has one.\<close>

theorem organization_keeps_owner:
  assumes "member_valid db" "has_owner org db"
  shows "has_owner org (snd (run_jobs member_step ops db))"
  using assms by (rule run_keeps_owner)

definition demo_member :: "string \<Rightarrow> membership_role \<Rightarrow> membership" where
  "demo_member u role = \<lparr>m_id = ''m'' @ u, m_userId = u, m_organizationId = ''o'', m_role = role\<rparr>"

definition demo_invitation :: invitation where
  "demo_invitation =
     \<lparr>iv_id = ''i'', iv_organizationId = ''o'', iv_email = ''c@x'', iv_role = MEMBER, iv_tokenHash = ''#t'',
      iv_invitedById = ''a'', iv_expiresAt = 100, iv_acceptedAt = None, iv_revokedAt = None,
      iv_resendCount = 0\<rparr>"

definition demo_user :: "string \<Rightarrow> user_row" where
  "demo_user u = \<lparr>us_id = u, us_name = u, us_email = u @ ''@x'', us_passwordHash = '''', us_emailVerifiedAt = None\<rparr>"

definition demo_org :: "membership list \<Rightarrow> invitation list \<Rightarrow> member_db" where
  "demo_org ms ivs =
     \<lparr>memberships = ms, auditLog = [], users = [demo_user ''a'', demo_user ''b'', demo_user ''c''],
      mail_deliveries = [], organizations = [(''o'', ''Org'')], invitations = ivs\<rparr>"

definition demo_invite_env :: invite_env where
  "demo_invite_env = \<lparr>e_appUrl = ''https://s/'', e_hashToken = (\<lambda>t. CHR ''#'' # t), e_hashRecipient = id,
     e_provider = ''dev''\<rparr>"

theorem organization_keeps_owner_witness:
  "\<forall>ops. has_owner ''o'' (snd (run_jobs member_step ops
     (demo_org [demo_member ''a'' OWNER, demo_member ''b'' OWNER] [demo_invitation])))"
  by (intro allI, rule organization_keeps_owner)
    (simp_all add: member_valid_def has_owner_def demo_org_def demo_member_def)

lemma writes_succeed:
  assumes "t \<in> set (memberships db)" "m_organizationId t = ac_organizationId ctx"
  shows "\<exists>db1. changeMemberRole_writes ctx t role db = (Inr (), db1) \<and>
    memberships db1 = update_rows (\<lambda>m. m_id m = m_id t \<and> m_organizationId m = ac_organizationId ctx)
      (\<lambda>m. m\<lparr>m_role := role\<rparr>) (memberships db)"
proof -
  let ?match = "\<lambda>m. m_id m = m_id t \<and> m_organizationId m = ac_organizationId ctx"
  have "find_row ?match (memberships db) \<noteq> None" using assms by (auto simp: find_row_None)
  then obtain q where "find_row ?match (memberships db) = Some q" by blast
  then have "findMembershipById (ac_organizationId ctx) (m_id t) (db\<lparr>memberships :=
      update_rows ?match (\<lambda>m. m\<lparr>m_role := role\<rparr>) (memberships db)\<rparr>) \<noteq> None"
    by (simp add: findMembershipById_def find_row_update)
  moreover have "0 < count_rows ?match (memberships db)" using assms by (auto simp: count_rows_pos)
  ultimately show ?thesis
    by (auto simp: changeMemberRole_writes_def updateMembershipRole_def Let_def)
qed

lemma demoted_row:
  assumes "m \<in> set (update_rows (\<lambda>m. m_id m = i \<and> m_organizationId m = org) (\<lambda>m. m\<lparr>m_role := MEMBER\<rparr>) ms)"
    "m_organizationId m = org" "m_role m = OWNER"
  shows "m \<in> set ms \<and> m_id m \<noteq> i"
proof -
  from assms(1) obtain q where q: "q \<in> set ms"
    "m = (if m_id q = i \<and> m_organizationId q = org then q\<lparr>m_role := MEMBER\<rparr> else q)"
    by (auto simp only: set_update_rows)
  then show ?thesis
    using assms(2,3) by (cases "m_id q = i \<and> m_organizationId q = org") simp_all
qed

lemma no_third:
  assumes "distinct (map g rows)" "count_rows P rows = 2" "x \<in> set rows" "y \<in> set rows" "P x" "P y" "g x \<noteq> g y"
    "z \<in> set rows" "P z"
  shows "g z = g x \<or> g z = g y"
proof (rule ccontr)
  assume "\<not> (g z = g x \<or> g z = g y)"
  then have "x \<noteq> y" "z \<noteq> x" "z \<noteq> y" using assms(7) by auto
  then have "card {x, y, z} = 3" by simp
  moreover have "{x, y, z} \<subseteq> set (filter P rows)" using assms by auto
  moreover have "card (set (filter P rows)) = 2"
    using assms(1,2) distinct_card [of "filter P rows"] by (simp add: count_rows_def distinct_map)
  ultimately show False using card_mono [of "set (filter P rows)" "{x, y, z}"] by simp
qed

text \<open>C12: Two demotions can pass each other: when an organization has exactly two owners and each demotes
  the other, both transactions may count two owners before either writes (nothing locks the rows),
  then both writes succeed and no owner is left. Run one after the other, the second is refused.\<close>

theorem concurrent_demotions_lose_owner:
  assumes "member_valid db" "countOwners org db = 2"
    and "verifyOrganizationRole a org [OWNER] db = Inr ctxa"
    and "verifyOrganizationRole b org [OWNER] db = Inr ctxb"
    and "findMembershipById org ma db = Some ta" "m_userId ta = a" "m_role ta = OWNER"
    and "findMembershipById org mb db = Some tb" "m_userId tb = b" "m_role tb = OWNER"
    and "a \<noteq> b"
    and "distinct (map (\<lambda>m. (m_userId m, m_organizationId m)) (memberships db))"
  shows "changeMemberRole_reads a org mb (Some MEMBER) db = Inr (ctxa, tb, MEMBER) \<and>
    changeMemberRole_reads b org ma (Some MEMBER) db = Inr (ctxb, ta, MEMBER) \<and>
    changeMemberRole_guard ctxa tb MEMBER db = None \<and> changeMemberRole_guard ctxb ta MEMBER db = None \<and>
    (\<exists>db1 db2. changeMemberRole_writes ctxa tb MEMBER db = (Inr (), db1) \<and>
       changeMemberRole_writes ctxb ta MEMBER db1 = (Inr (), db2) \<and> \<not> has_owner org db2) \<and>
    fst (changeMemberRole a org mb (Some MEMBER) db) = Inr () \<and>
    fst (changeMemberRole b org ma (Some MEMBER) (snd (changeMemberRole a org mb (Some MEMBER) db))) =
      Inl ForbiddenError"
proof -
  have ctx: "ac_organizationId ctxa = org" "ac_userId ctxa = a" "ac_organizationId ctxb = org" "ac_userId ctxb = b"
    using assms(3,4) by (auto dest: verify_role_org)
  have rows: "ta \<in> set (memberships db)" "m_id ta = ma" "m_organizationId ta = org"
    "tb \<in> set (memberships db)" "m_id tb = mb" "m_organizationId tb = org"
    using assms(5,8) by (auto simp: findMembershipById_def dest: find_row_Some)
  have uid: "\<And>q r. q \<in> set (memberships db) \<Longrightarrow> r \<in> set (memberships db) \<Longrightarrow> m_id q = m_id r \<Longrightarrow> q = r"
    using assms(1) by (auto simp: member_valid_def distinct_map inj_on_def)
  have ids: "ma \<noteq> mb" using uid [OF rows(1,4)] rows(2,5) assms(6,9,11) by auto
  have guards: "changeMemberRole_guard ctxa tb MEMBER db = None" "changeMemberRole_guard ctxb ta MEMBER db = None"
    using assms(2) by (simp_all add: changeMemberRole_guard_def isLastOwner_def ctx)
  have reads: "changeMemberRole_reads a org mb (Some MEMBER) db = Inr (ctxa, tb, MEMBER)"
    "changeMemberRole_reads b org ma (Some MEMBER) db = Inr (ctxb, ta, MEMBER)"
    using assms by (simp_all add: changeMemberRole_reads_def ctx)
  obtain db1 where db1: "changeMemberRole_writes ctxa tb MEMBER db = (Inr (), db1)"
    "memberships db1 = update_rows (\<lambda>m. m_id m = mb \<and> m_organizationId m = org)
       (\<lambda>m. m\<lparr>m_role := MEMBER\<rparr>) (memberships db)"
    using writes_succeed [of tb db ctxa MEMBER] rows ctx by auto
  have "ta \<in> set (memberships db1)"
    unfolding db1(2) set_update_rows using rows ids by (intro image_eqI [where x = ta]) auto
  then obtain db2 where db2: "changeMemberRole_writes ctxb ta MEMBER db1 = (Inr (), db2)"
    "memberships db2 = update_rows (\<lambda>m. m_id m = ma \<and> m_organizationId m = org)
       (\<lambda>m. m\<lparr>m_role := MEMBER\<rparr>) (memberships db1)"
    using writes_succeed [of ta db1 ctxb MEMBER] rows ctx by auto
  have "m_id r = ma \<or> m_id r = mb" if "r \<in> set (memberships db)" "m_organizationId r = org" "m_role r = OWNER" for r
    using no_third [of m_id "memberships db" "\<lambda>m. m_organizationId m = org \<and> m_role m = OWNER" ta tb r]
      assms(1,2,7,10) rows ids that by (simp add: member_valid_def countOwners_def)
  note owner = this
  have none: "\<not> has_owner org db2"
  proof
    assume "has_owner org db2"
    then obtain m where m: "m \<in> set (memberships db2)" "m_organizationId m = org" "m_role m = OWNER"
      by (auto simp: has_owner_def)
    then have m1: "m \<in> set (memberships db1) \<and> m_id m \<noteq> ma" unfolding db2(2) by (rule demoted_row)
    then have "m \<in> set (memberships db) \<and> m_id m \<noteq> mb"
      using m(2,3) unfolding db1(2) by (blast dest: demoted_row)
    with owner m1 m show False by blast
  qed
  have first: "changeMemberRole a org mb (Some MEMBER) db = (Inr (), db1)"
    by (simp add: changeMemberRole_def reads guards db1(1))
  have "find_row (\<lambda>m. m_userId m = b \<and> m_organizationId m = org) (memberships db) = Some tb"
  proof -
    obtain q where q: "find_row (\<lambda>m. m_userId m = b \<and> m_organizationId m = org) (memberships db) = Some q"
      using rows assms(9) by (metis (mono_tags, lifting) find_row_None not_Some_eq)
    then have "q \<in> set (memberships db)" "(m_userId q, m_organizationId q) = (m_userId tb, m_organizationId tb)"
      using rows assms(9) by (auto dest: find_row_Some)
    with assms(12) rows(4) have "q = tb" by (auto simp: distinct_map inj_on_def)
    with q show ?thesis by simp
  qed
  then have "verifyOrganizationRole b org [OWNER] db1 = Inl ForbiddenError"
    using rows by (simp add: verifyOrganizationRole_def verifyOrganizationMembership_def db1(2) find_row_update
        hasRequiredRole_def)
  then have "fst (changeMemberRole b org ma (Some MEMBER) db1) = Inl ForbiddenError"
    by (simp add: changeMemberRole_def changeMemberRole_reads_def)
  then have refused: "fst (changeMemberRole b org ma (Some MEMBER) (snd (changeMemberRole a org mb (Some MEMBER) db))) =
      Inl ForbiddenError"
    by (simp add: first)
  have "\<exists>db1 db2. changeMemberRole_writes ctxa tb MEMBER db = (Inr (), db1) \<and>
       changeMemberRole_writes ctxb ta MEMBER db1 = (Inr (), db2) \<and> \<not> has_owner org db2"
    using db1(1) db2(1) none by blast
  with reads guards refused show ?thesis by (simp add: first)
qed

theorem concurrent_demotions_lose_owner_witness:
  "\<exists>db1 db2. let db = demo_org [demo_member ''a'' OWNER, demo_member ''b'' OWNER] [] in
     changeMemberRole_writes \<lparr>ac_userId = ''a'', ac_organizationId = ''o'', ac_role = OWNER\<rparr>
       (demo_member ''b'' OWNER) MEMBER db = (Inr (), db1) \<and>
     changeMemberRole_writes \<lparr>ac_userId = ''b'', ac_organizationId = ''o'', ac_role = OWNER\<rparr>
       (demo_member ''a'' OWNER) MEMBER db1 = (Inr (), db2) \<and>
     \<not> has_owner ''o'' db2"
  using concurrent_demotions_lose_owner [where a = "''a''" and b = "''b''" and org = "''o''" and
      ma = "''ma''" and mb = "''mb''" and ta = "demo_member ''a'' OWNER" and tb = "demo_member ''b'' OWNER" and
      ctxa = "\<lparr>ac_userId = ''a'', ac_organizationId = ''o'', ac_role = OWNER\<rparr>" and
      ctxb = "\<lparr>ac_userId = ''b'', ac_organizationId = ''o'', ac_role = OWNER\<rparr>" and
      db = "demo_org [demo_member ''a'' OWNER, demo_member ''b'' OWNER] []"]
  by (simp add: demo_org_def demo_member_def member_valid_def countOwners_def count_rows_def
      verifyOrganizationRole_def verifyOrganizationMembership_def hasRequiredRole_def findMembershipById_def
      find_row_def Let_def)

lemma settled_unused:
  "member_valid db \<Longrightarrow> find_row (\<lambda>q. iv_id q = i) (invitations db) = Some iv \<Longrightarrow> \<not> live_invitation iv \<Longrightarrow>
   count_list (fst (run_jobs member_step ops db)) i = 0 \<and>
   find_row (\<lambda>q. iv_id q = i) (invitations (snd (run_jobs member_step ops db))) = Some iv"
proof (induction ops arbitrary: db)
  case (Cons x ops)
  obtain iv' where iv': "find_row (\<lambda>q. iv_id q = i) (invitations (snd (member_step x db))) = Some iv'"
    "acceptances iv' = acceptances iv + (if fst (member_step x db) = Some i then 1 else 0)" "iv' = iv"
    using member_step_effect [OF Cons.prems(1), of x] Cons.prems(2,3) unfolding invitations_change_def by blast
  then have "find_row (\<lambda>q. iv_id q = i) (invitations (snd (member_step x db))) = Some iv \<and> fst (member_step x db) \<noteq> Some i"
    by (cases "fst (member_step x db) = Some i") simp_all
  with Cons.IH [OF member_valid_step [OF Cons.prems(1)], of x] Cons.prems(3) show ?case
    by (auto simp: case_prod_beta Let_def split: option.split)
qed simp

text \<open>C37: An invitation is used at most once: over any run of operations it is accepted (by an existing
  account or by a registration) at most once, counting an acceptance before the run; and once it is
  accepted or revoked no later operation, a resend included, changes it.\<close>

theorem invitation_single_use:
  assumes "member_valid db" "find_row (\<lambda>q. iv_id q = i) (invitations db) = Some iv"
  shows "acceptances iv + count_list (fst (run_jobs member_step ops db)) i \<le> 1 \<and>
    (live_invitation iv \<or>
     find_row (\<lambda>q. iv_id q = i) (invitations (snd (run_jobs member_step ops db))) = Some iv)"
proof -
  have "invitation_at db i = Some (acceptances iv, 1, live_invitation iv)"
    using assms(2) by (simp add: invitation_at_def)
  from invitation_use.claims_bounded [OF assms(1) this, of ops] settled_unused [OF assms, of ops]
  show ?thesis by auto
qed

theorem invitation_single_use_witness:
  "\<forall>ops. acceptances demo_invitation +
     count_list (fst (run_jobs member_step ops (demo_org [demo_member ''a'' OWNER] [demo_invitation]))) ''i'' \<le> 1"
  using invitation_single_use [where db = "demo_org [demo_member ''a'' OWNER] [demo_invitation]" and i = "''i''"
      and iv = demo_invitation]
  by (simp add: demo_org_def demo_member_def member_valid_def demo_invitation_def find_row_def)

lemma audit_passes [simp]:
  "memberships (accepted_db now u iv db) = memberships db"
  by (simp add: accepted_db_def)

lemma accepted_row:
  assumes ok: "invitations_ok (invitations db1)" and iv: "iv \<in> set (invitations db1)" "live_invitation iv"
  shows "findInvitationByTokenHash (iv_tokenHash iv) (accepted_db now u iv db1) =
    Some (iv\<lparr>iv_acceptedAt := Some now\<rparr>)"
  using token_unique [OF ok iv(1)] iv(2)
  by (simp add: findInvitationByTokenHash_def accepted_db_def find_row_update)

text \<open>A successful acceptance was of a live, unexpired invitation addressed to the accepting account;
  it leaves the account a member of the inviting organization, adding exactly one membership with the
  invited role unless there was one, marks the invitation, and a further attempt by anyone with the
  same token is refused and changes nothing.\<close>

theorem invitation_grants_membership:
  assumes "member_valid db" "acceptInvitation aborts env now newId u token db = (Inr org, db')"
  shows "\<exists>iv user. findInvitationByTokenHash (e_hashToken env token) db = Some iv \<and>
      live_invitation iv \<and> now < iv_expiresAt iv \<and> iv_organizationId iv = org \<and>
      find_user u db = Some user \<and> us_email user = iv_email iv \<and>
      findInvitationByTokenHash (e_hashToken env token) db' = Some (iv\<lparr>iv_acceptedAt := Some now\<rparr>) \<and>
      (if \<exists>q \<in> set (memberships db). m_userId q = u \<and> m_organizationId q = org
       then memberships db' = memberships db
       else memberships db' = memberships db @
         [\<lparr>m_id = newId, m_userId = u, m_organizationId = org, m_role = iv_role iv\<rparr>]) \<and>
      (\<forall>aborts' now' newId' u'.
         acceptInvitation aborts' env now' newId' u' token db' = (Inl (ConflictError ''accepted''), db'))"
proof -
  obtain iv user db1 where s: "accept_ready env now token db iv" "find_user u db = Some user"
    "us_email user = iv_email iv" "org = iv_organizationId iv" "db' = accepted_db now u iv db1"
    "insertMembership \<lparr>m_id = newId, m_userId = u, m_organizationId = org, m_role = iv_role iv\<rparr> db = (Inserted, db1) \<or>
     \<not> aborts \<and> db1 = db \<and> (\<exists>q \<in> set (memberships db). m_userId q = u \<and> m_organizationId q = org)"
    using assms(2) by (rule accept_succeeds)
  have iv: "findInvitationByTokenHash (e_hashToken env token) db = Some iv" "live_invitation iv"
      "now < iv_expiresAt iv" "iv \<in> set (invitations db)" "iv_tokenHash iv = e_hashToken env token"
    using s(1) found_by_token by (auto simp: accept_ready_def)
  have rows: "invitations db1 = invitations db"
    using s(6) insert_effect by fastforce
  then have "invitations_ok (invitations db1)"
    using assms(1) by (simp add: member_valid_def invitations_ok_def)
  from accepted_row [OF this] iv rows s(5)
  have marked: "findInvitationByTokenHash (e_hashToken env token) db' = Some (iv\<lparr>iv_acceptedAt := Some now\<rparr>)"
    by metis
  have "acceptInvitation aborts' env now' newId' u' token db' = (Inl (ConflictError ''accepted''), db')"
    for aborts' now' newId' u'
    using iv(2) by (simp add: acceptInvitation_def marked live_invitation_def)
  moreover have "if \<exists>q \<in> set (memberships db). m_userId q = u \<and> m_organizationId q = org
       then memberships db' = memberships db
       else memberships db' = memberships db @
         [\<lparr>m_id = newId, m_userId = u, m_organizationId = org, m_role = iv_role iv\<rparr>]"
    using s(6) by (auto simp: s(5) dest!: insertMembership_cases)
  ultimately show ?thesis using s(2-4) iv marked by blast
qed

definition demo_accepting :: member_db where
  "demo_accepting = demo_org [demo_member ''a'' OWNER]
     [demo_invitation\<lparr>iv_email := ''c@x'', iv_tokenHash := e_hashToken demo_invite_env ''t''\<rparr>]"

theorem invitation_grants_membership_witness:
  "fst (acceptInvitation True demo_invite_env 50 ''m2'' ''c'' ''t'' demo_accepting) = Inr ''o'' \<and>
   (\<exists>iv user. findInvitationByTokenHash ''#t'' demo_accepting = Some iv \<and> live_invitation iv \<and>
      find_user ''c'' demo_accepting = Some user \<and> us_email user = iv_email iv)"
proof -
  have ok: "fst (acceptInvitation True demo_invite_env 50 ''m2'' ''c'' ''t'' demo_accepting) = Inr ''o''"
    by code_simp
  have valid: "member_valid demo_accepting" "e_hashToken demo_invite_env ''t'' = ''#t''"
    by (simp_all add: demo_invite_env_def member_valid_def demo_accepting_def demo_org_def demo_member_def)
  obtain db' where "acceptInvitation True demo_invite_env 50 ''m2'' ''c'' ''t'' demo_accepting = (Inr ''o'', db')"
    using ok by (metis prod.collapse)
  from invitation_grants_membership [OF valid(1) this] valid(2) ok show ?thesis by metis
qed

text \<open>Someone who is a member already cannot use an invitation where a failed statement aborts its
  transaction (as in PostgreSQL): the handler means to catch the violated uniqueness and mark the
  invitation, but the whole acceptance fails with an unexpected error and the invitation stays live.
  Only where a failed statement leaves the transaction usable is the invitation marked as intended.\<close>

theorem existing_member_cannot_accept:
  assumes "findInvitationByTokenHash (e_hashToken env token) db = Some iv" "live_invitation iv"
    and "now < iv_expiresAt iv" "find_user u db = Some user" "us_email user = iv_email iv"
    and "find_organization (iv_organizationId iv) db \<noteq> None"
    and "q \<in> set (memberships db)" "m_userId q = u" "m_organizationId q = iv_organizationId iv"
    and "\<And>r. r \<in> set (memberships db) \<Longrightarrow> m_id r \<noteq> newId"
  shows "acceptInvitation True env now newId u token db = (Inl UnexpectedError, db) \<and>
    fst (acceptInvitation False env now newId u token db) = Inr (iv_organizationId iv) \<and>
    memberships (snd (acceptInvitation False env now newId u token db)) = memberships db"
proof -
  have us: "us_id user = u" using assms(4) by (auto simp: find_user_def dest: find_row_Some)
  have ready: "accept_ready env now token db iv" using assms(1-3) by (simp add: accept_ready_def)
  note eq = accept_ready_eq [OF ready assms(4) us assms(5,6)]
  have dup: "insertMembership \<lparr>m_id = newId, m_userId = u, m_organizationId = iv_organizationId iv,
      m_role = iv_role iv\<rparr> db = (Duplicate_member, db)"
    using assms(7-10) by (auto simp: insertMembership_def)
  have "0 < count_rows (\<lambda>q. iv_id q = iv_id iv \<and> iv_organizationId q = iv_organizationId iv \<and> live_invitation q)
      (invitations db)"
    using assms(1,2) by (auto simp: count_rows_pos dest: found_by_token)
  then show ?thesis by (simp add: eq dup finish_acceptance_eq)
qed

theorem existing_member_cannot_accept_witness:
  "acceptInvitation True demo_invite_env 50 ''m2'' ''c'' ''t''
     (demo_accepting\<lparr>memberships := [demo_member ''c'' MEMBER]\<rparr>) =
   (Inl UnexpectedError, demo_accepting\<lparr>memberships := [demo_member ''c'' MEMBER]\<rparr>)"
  using existing_member_cannot_accept [where env = demo_invite_env and token = "''t''" and now = 50 and
      u = "''c''" and newId = "''m2''" and q = "demo_member ''c'' MEMBER" and
      db = "demo_accepting\<lparr>memberships := [demo_member ''c'' MEMBER]\<rparr>" and user = "demo_user ''c''" and
      iv = "demo_invitation\<lparr>iv_email := ''c@x'', iv_tokenHash := e_hashToken demo_invite_env ''t''\<rparr>"]
  by (simp add: demo_accepting_def demo_org_def demo_member_def demo_invitation_def demo_invite_env_def
      demo_user_def findInvitationByTokenHash_def find_row_def live_invitation_def find_user_def
      find_organization_def)

lemma invitation_by_id:
  "invitations_ok ivs \<Longrightarrow> iv \<in> set ivs \<Longrightarrow>
   find_row (\<lambda>q. iv_id q = iv_id iv \<and> P q) ivs = (if P iv then Some iv else None)"
  by (induction ivs) (auto simp: invitations_ok_def find_row_Cons find_row_Nil find_row_None, metis imageI)

lemma enqueue_passes [simp]:
  "users (snd (enqueuePendingMailDelivery i now o' v t h key db)) = users db"
  "organizations (snd (enqueuePendingMailDelivery i now o' v t h key db)) = organizations db"
  "organizations (audit_invitation q w x a db) = organizations db"
  by (simp_all add: enqueuePendingMailDelivery_def audit_invitation_def audit_def)

text \<open>Resending a live invitation with a token whose hash is new: the row is rewritten in place.\<close>

definition resent_row :: "invite_env \<Rightarrow> invite_draw \<Rightarrow> invitation \<Rightarrow> invitation" where
  "resent_row env r q = q\<lparr>iv_tokenHash := e_hashToken env (r_token r),
     iv_expiresAt := computeInvitationExpiresAt (r_now r), iv_resendCount := iv_resendCount q + 1\<rparr>"

lemma resend_live:
  assumes ok: "invitations_ok (invitations db)" and iv: "iv \<in> set (invitations db)" "live_invitation iv"
    "iv_organizationId iv = org"
    and fresh: "\<And>q. q \<in> set (invitations db) \<Longrightarrow> iv_tokenHash q \<noteq> e_hashToken env (r_token r)"
    and caller: "verifyOrganizationRole u org [OWNER] db = Inr ctx" "find_user u db \<noteq> None" "find_organization org db \<noteq> None"
  obtains db' where "resendInvitation env r u org (iv_id iv) db =
      (Inr \<lparr>ci_id = iv_id iv, ci_email = iv_email iv, ci_expiresAt = computeInvitationExpiresAt (r_now r),
         ci_invitationUrl = buildInvitationUrl (e_appUrl env) (r_token r)\<rparr>, db')"
    "invitations db' = update_rows (\<lambda>q. iv_id q = iv_id iv \<and> iv_organizationId q = org \<and> live_invitation q)
       (resent_row env r) (invitations db)"
proof -
  let ?match = "\<lambda>q. iv_id q = iv_id iv \<and> iv_organizationId q = org \<and> live_invitation q"
  let ?db1 = "db\<lparr>invitations := update_rows ?match (resent_row env r) (invitations db)\<rparr>"
  have ctx: "ac_organizationId ctx = org" "ac_userId ctx = u" using caller(1) by (auto dest: verify_role_org)
  have found: "findInvitationById org (iv_id iv) db = Some iv"
    using invitation_by_id [OF ok iv(1), of "\<lambda>q. iv_organizationId q = org"] iv(3)
    by (simp add: findInvitationById_def)
  have "\<And>q. iv_id (resent_row env r q) = iv_id q \<and> iv_organizationId (resent_row env r q) = iv_organizationId q"
    by (simp add: resent_row_def)
  with found have "findInvitationById org (iv_id iv) ?db1 = Some (resent_row env r iv)"
    using iv by (simp add: findInvitationById_def find_row_update)
  moreover have "0 < count_rows ?match (invitations db)" using iv by (auto simp: count_rows_pos)
  ultimately have rotated: "rotateInvitationToken org (iv_id iv) (e_hashToken env (r_token r))
      (computeInvitationExpiresAt (r_now r)) db = (Inr (Some (resent_row env r iv)), ?db1)"
    using fresh by (auto simp: rotateInvitationToken_def update_live_invitation_def Let_def resent_row_def [abs_def])
  obtain mid db3 where e: "enqueuePendingMailDelivery (r_deliveryId r) (r_now r) (Some org) (Some u)
      ORGANIZATION_INVITATION (e_hashRecipient env (iv_email iv))
      (buildInvitationResendIdempotencyKey (iv_id iv) (Suc (iv_resendCount iv)))
      (audit_invitation org u (iv_id iv) ''MEMBER_INVITATION_RESENT'' ?db1) = (mid, db3)"
    by (rule prod.exhaust)
  then have "db3 = snd (enqueuePendingMailDelivery (r_deliveryId r) (r_now r) (Some org) (Some u)
      ORGANIZATION_INVITATION (e_hashRecipient env (iv_email iv))
      (buildInvitationResendIdempotencyKey (iv_id iv) (Suc (iv_resendCount iv)))
      (audit_invitation org u (iv_id iv) ''MEMBER_INVITATION_RESENT'' ?db1))"
    by simp
  then have db3: "users db3 = users db" "organizations db3 = organizations db" "invitations db3 = invitations ?db1"
    by simp_all
  have row: "iv_id (resent_row env r iv) = iv_id iv" "iv_email (resent_row env r iv) = iv_email iv"
    "iv_resendCount (resent_row env r iv) = Suc (iv_resendCount iv)"
    "iv_expiresAt (resent_row env r iv) = computeInvitationExpiresAt (r_now r)"
    by (simp_all add: resent_row_def)
  have there: "find_user u db3 \<noteq> None" "find_organization org db3 \<noteq> None"
    using caller(2,3) by (simp_all add: find_user_def find_organization_def db3)
  let ?out = "case mid of None \<Rightarrow> db3 | Some m \<Rightarrow> deliverInvitationMail env r m db3"
  have "resendInvitation env r u org (iv_id iv) db =
      (Inr \<lparr>ci_id = iv_id iv, ci_email = iv_email iv, ci_expiresAt = computeInvitationExpiresAt (r_now r),
         ci_invitationUrl = buildInvitationUrl (e_appUrl env) (r_token r)\<rparr>, ?out)"
    using there e by (cases mid) (simp_all add: resendInvitation_def Let_def ctx found rotated caller(1) iv(2) row)
  moreover have "invitations ?out = invitations ?db1" by (cases mid) (simp_all add: db3)
  ultimately show thesis by (intro that) simp_all
qed

text \<open>An invitation that ran out still blocks its address: it cannot be accepted, the lookup reports
  it expired, and a new invitation to the same address is refused as still pending. Resending it
  revives it: the row gets the new token and expiry, so the new link can be looked up for seven days,
  and the old link is dead.\<close>

theorem expired_invitation_needs_resend:
  assumes "member_valid db" "iv \<in> set (invitations db)" "live_invitation iv" "iv_expiresAt iv \<le> now"
    and "iv_tokenHash iv = e_hashToken env token" "iv_organizationId iv = org"
    and "verifyOrganizationRole u org [OWNER] db = Inr ctx"
    and "find_user u db = Some inviter" "find_organization org db = Some name" "find_user_by_email (iv_email iv) db = None"
    and "\<And>q. q \<in> set (invitations db) \<Longrightarrow> iv_tokenHash q \<noteq> e_hashToken env (r_token r)"
  shows "acceptInvitation aborts env now newId w token db = (Inl (ConflictError ''expired''), db) \<and>
    getInvitationByToken env now token db = Lookup_expired \<and>
    createInvitation env r u org (Some (iv_email iv, role)) db = (Inl (ConflictError ''pending invitation''), db) \<and>
    (case resendInvitation env r u org (iv_id iv) db of (res, db') \<Rightarrow>
       res = Inr \<lparr>ci_id = iv_id iv, ci_email = iv_email iv,
         ci_expiresAt = computeInvitationExpiresAt (r_now r),
         ci_invitationUrl = buildInvitationUrl (e_appUrl env) (r_token r)\<rparr> \<and>
       findInvitationByTokenHash (e_hashToken env token) db' = None \<and>
       (\<exists>iv'. findInvitationByTokenHash (e_hashToken env (r_token r)) db' = Some iv' \<and> live_invitation iv' \<and>
          iv_id iv' = iv_id iv \<and> iv_resendCount iv' = iv_resendCount iv + 1 \<and>
          (\<forall>t. isInvitationExpired (iv_expiresAt iv') t = (r_now r + 7 * 86400000 \<le> t))))"
proof -
  have ok: "invitations_ok (invitations db)" using assms(1) by (simp add: member_valid_def invitations_ok_def)
  have tok: "findInvitationByTokenHash (e_hashToken env token) db = Some iv"
    using token_unique [OF ok assms(2)] by (simp add: findInvitationByTokenHash_def assms(5))
  have ctx: "ac_organizationId ctx = org" "ac_userId ctx = u" using assms(7) by (auto dest: verify_role_org)
  have refused: "acceptInvitation aborts env now newId w token db = (Inl (ConflictError ''expired''), db)"
    "getInvitationByToken env now token db = Lookup_expired"
    using assms(3,4) tok
    by (simp_all add: acceptInvitation_def getInvitationByToken_def live_invitation_def isInvitationExpired_def)
  have "findLiveInvitationByEmail org (iv_email iv) db \<noteq> None"
    using assms(2,3,6) by (auto simp: findLiveInvitationByEmail_def find_row_None)
  then have pending: "createInvitation env r u org (Some (iv_email iv, role)) db =
      (Inl (ConflictError ''pending invitation''), db)"
    using assms(8-10) by (simp add: createInvitation_def assms(7) ctx)
  obtain db' where db': "resendInvitation env r u org (iv_id iv) db =
      (Inr \<lparr>ci_id = iv_id iv, ci_email = iv_email iv, ci_expiresAt = computeInvitationExpiresAt (r_now r),
         ci_invitationUrl = buildInvitationUrl (e_appUrl env) (r_token r)\<rparr>, db')"
    "invitations db' = update_rows (\<lambda>q. iv_id q = iv_id iv \<and> iv_organizationId q = org \<and> live_invitation q)
       (resent_row env r) (invitations db)"
    by (rule resend_live [OF ok assms(2,3,6,11,7)]) (use assms(8,9) in simp_all)
  have old: "findInvitationByTokenHash (e_hashToken env token) db' = None"
  proof -
    have "iv_tokenHash q \<noteq> iv_tokenHash iv"
      if q: "q \<in> set (invitations db')" for q
    proof -
      from q obtain p where p: "p \<in> set (invitations db)" "q = (if iv_id p = iv_id iv \<and>
          iv_organizationId p = org \<and> live_invitation p then resent_row env r p else p)"
        unfolding db'(2) set_update_rows by blast
      have "p = iv" if "iv_tokenHash p = iv_tokenHash iv"
        using ok p(1) assms(2) that by (auto simp: invitations_ok_def distinct_map inj_on_def)
      with p(2) assms(3,6) assms(11) [OF assms(2)] show ?thesis
        by (cases "p = iv") (auto simp: resent_row_def)
    qed
    then show ?thesis by (simp add: findInvitationByTokenHash_def find_row_None assms(5))
  qed
  have "invitations_ok (invitations db')"
    unfolding db'(2) by (rule rotate_ok [OF ok, of "e_hashToken env (r_token r)"])
      (use assms(11) in \<open>auto simp: resent_row_def\<close>)
  moreover have "resent_row env r iv \<in> set (invitations db')"
    unfolding db'(2) set_update_rows using assms(2,3,6) by (intro image_eqI [where x = iv]) simp_all
  ultimately have "findInvitationByTokenHash (e_hashToken env (r_token r)) db' = Some (resent_row env r iv)"
    using token_unique [of "invitations db'" "resent_row env r iv"]
    by (simp add: findInvitationByTokenHash_def resent_row_def)
  moreover have "live_invitation (resent_row env r iv) \<and> iv_id (resent_row env r iv) = iv_id iv \<and>
      iv_resendCount (resent_row env r iv) = iv_resendCount iv + 1 \<and>
      (\<forall>t. isInvitationExpired (iv_expiresAt (resent_row env r iv)) t = (r_now r + 7 * 86400000 \<le> t))"
    using assms(3) by (simp add: resent_row_def live_invitation_def isInvitationExpired_def
        computeInvitationExpiresAt_def INVITATION_EXPIRY_DAYS_def)
  ultimately show ?thesis using refused pending old by (simp add: db'(1))
qed

definition demo_draw :: invite_draw where
  "demo_draw = \<lparr>r_now = 200, r_token = ''n'', r_invitationId = ''i2'', r_deliveryId = ''d'', r_sent = Send_Ok (Some ''x'')\<rparr>"

theorem expired_invitation_needs_resend_witness:
  "createInvitation demo_invite_env demo_draw ''a'' ''o'' (Some (''c@x'', MEMBER))
     (demo_accepting\<lparr>users := [demo_user ''a'']\<rparr>) =
   (Inl (ConflictError ''pending invitation''), demo_accepting\<lparr>users := [demo_user ''a'']\<rparr>)"
  using expired_invitation_needs_resend [where env = demo_invite_env and token = "''t''" and now = 200 and
      u = "''a''" and org = "''o''" and r = demo_draw and name = "''Org''" and inviter = "demo_user ''a''" and
      db = "demo_accepting\<lparr>users := [demo_user ''a'']\<rparr>" and role = MEMBER and
      ctx = "\<lparr>ac_userId = ''a'', ac_organizationId = ''o'', ac_role = OWNER\<rparr>" and
      iv = "demo_invitation\<lparr>iv_email := ''c@x'', iv_tokenHash := e_hashToken demo_invite_env ''t''\<rparr>"]
  by (simp add: demo_accepting_def demo_org_def demo_member_def demo_invitation_def demo_invite_env_def
      demo_user_def member_valid_def find_row_def live_invitation_def find_user_def find_user_by_email_def
      find_organization_def verifyOrganizationRole_def verifyOrganizationMembership_def hasRequiredRole_def
      demo_draw_def)

end
