(* ===== verification/Segmentation.thy ===== *)
theory Segmentation
  imports Prelude "HOL-Library.Monad_Syntax"
begin

text \<open>
  Clause segmentation: the line patterns of \<^verbatim>\<open>domain/clauses/clause-number-patterns.ts\<close>, the
  rule-based segmenter of
  \<^verbatim>\<open>server/services/clauses/deterministic-korean-clause-segmenter.ts\<close>, and the checks the worker
  makes of a result (\<^verbatim>\<open>offset-validation.ts\<close>, \<^verbatim>\<open>hierarchy-validation.ts\<close>). Documents are
  JavaScript strings, offsets count code units. Each regular expression is a matcher on the remaining
  input; none of them needs to backtrack, since what follows a repetition never starts with a
  character the repetition accepts.
\<close>

section \<open>Line patterns\<close>

definition lit :: "(nat \<Rightarrow> bool) \<Rightarrow> jstring \<Rightarrow> jstring option" where
  "lit p s = (case s of [] \<Rightarrow> None | c # rest \<Rightarrow> if p c then Some rest else None)"

text \<open>\<open>p{lo,hi}\<close>, and \<open>p{lo,}\<close>.\<close>

definition rep :: "nat \<Rightarrow> nat \<Rightarrow> (nat \<Rightarrow> bool) \<Rightarrow> jstring \<Rightarrow> (jstring \<times> jstring) option" where
  "rep lo hi p s =
     (let n = min hi (length (takeWhile p s)) in if n < lo then None else Some (take n s, drop n s))"

definition rep_many :: "nat \<Rightarrow> (nat \<Rightarrow> bool) \<Rightarrow> jstring \<Rightarrow> (jstring \<times> jstring) option" where
  "rep_many lo p s = rep lo (length s) p s"

text \<open>\<open>(?=\s|$)\<close>\<close>

definition at_gap :: "jstring \<Rightarrow> bool" where
  "at_gap s = (case s of [] \<Rightarrow> True | c # _ \<Rightarrow> is_js_space c)"

definition is_date_sep :: "nat \<Rightarrow> nat \<Rightarrow> bool" where
  "is_date_sep word c \<longleftrightarrow> c = 46 \<or> c = 45 \<or> c = word"

definition DATE_LIKE_LINE :: "jstring \<Rightarrow> bool" where
  "DATE_LIKE_LINE t \<longleftrightarrow>
     (do { (_, s) \<leftarrow> rep 4 4 is_digit_unit (js_trim_start t);
           s \<leftarrow> lit (is_date_sep 45380) (js_trim_start s);
           (_, s) \<leftarrow> rep 1 2 is_digit_unit (js_trim_start s);
           s \<leftarrow> lit (is_date_sep 50900) (js_trim_start s);
           rep 1 2 is_digit_unit (js_trim_start s) }) \<noteq> None \<or>
     (do { (_, s) \<leftarrow> rep 4 4 is_digit_unit (js_trim_start t);
           s \<leftarrow> lit ((=) 45) s;
           (_, s) \<leftarrow> rep 2 2 is_digit_unit s;
           s \<leftarrow> lit ((=) 45) s;
           rep 2 2 is_digit_unit s }) \<noteq> None"

definition is_currency :: "nat \<Rightarrow> bool" where
  "is_currency c \<longleftrightarrow> c = 8361 \<or> c = 36 \<or> c = 165 \<or> c = 8364"

definition AMOUNT_LIKE_LINE :: "jstring \<Rightarrow> bool" where
  "AMOUNT_LIKE_LINE t \<longleftrightarrow>
     (let s0 = js_trim_start t;
          s1 = (case lit is_currency s0 of None \<Rightarrow> s0 | Some s \<Rightarrow> s)
      in do { (_, s) \<leftarrow> rep_many 1 (\<lambda>c. is_digit_unit c \<or> c = 44) (js_trim_start s1);
              lit ((=) 50896) (js_trim_start s) } \<noteq> None)"

definition is_upper_unit :: "nat \<Rightarrow> bool" where
  "is_upper_unit c \<longleftrightarrow> 65 \<le> c \<and> c \<le> 90"

definition CONTRACT_NUMBER_LIKE_LINE :: "jstring \<Rightarrow> bool" where
  "CONTRACT_NUMBER_LIKE_LINE t \<longleftrightarrow>
     do { (_, s) \<leftarrow> rep_many 2 is_upper_unit (js_trim_start t);
          s \<leftarrow> lit ((=) 45) s;
          lit (\<lambda>c. is_upper_unit c \<or> is_digit_unit c \<or> c = 45) s } \<noteq> None"

definition isFalsePositiveLine :: "jstring \<Rightarrow> bool" where
  "isFalsePositiveLine t \<longleftrightarrow> DATE_LIKE_LINE t \<or> AMOUNT_LIKE_LINE t \<or> CONTRACT_NUMBER_LIKE_LINE t"

text \<open>Each pattern returns what it captured and the input after the match.\<close>

definition ARTICLE_PATTERN :: "jstring \<Rightarrow> ((jstring \<times> jstring option) \<times> jstring) option" where
  "ARTICLE_PATTERN t =
     do { s \<leftarrow> lit ((=) 51228) t;
          (digits, s) \<leftarrow> rep_many 1 is_digit_unit (js_trim_start s);
          s \<leftarrow> lit ((=) 51312) (js_trim_start s);
          Some (case do { s1 \<leftarrow> lit ((=) 40) (js_trim_start s);
                          (inner, s2) \<leftarrow> rep_many 0 (\<lambda>c. c \<noteq> 41) s1;
                          s3 \<leftarrow> lit ((=) 41) s2;
                          Some (inner, s3) } of
                  None \<Rightarrow> ((digits, None), s)
                | Some (inner, rest) \<Rightarrow> ((digits, Some inner), rest)) }"

definition PARAGRAPH_PATTERN :: "jstring \<Rightarrow> (jstring \<times> jstring) option" where
  "PARAGRAPH_PATTERN t =
     do { s \<leftarrow> lit ((=) 51228) t;
          (digits, s) \<leftarrow> rep_many 1 is_digit_unit (js_trim_start s);
          s \<leftarrow> lit ((=) 54637) (js_trim_start s);
          Some (digits, s) }"

definition CIRCLED_NUMBER_PATTERN :: "jstring \<Rightarrow> (jstring \<times> jstring) option" where
  "CIRCLED_NUMBER_PATTERN t = rep 1 1 (\<lambda>c. 9312 \<le> c \<and> c \<le> 9331) t"

definition NUMBERED_ITEM_PATTERN :: "jstring \<Rightarrow> (jstring \<times> jstring) option" where
  "NUMBERED_ITEM_PATTERN t =
     (case do { s \<leftarrow> lit ((=) 40) t;
                (digits, s) \<leftarrow> rep 1 2 is_digit_unit s;
                s \<leftarrow> lit ((=) 41) s;
                if at_gap s then Some (40 # digits @ [41], s) else None } of
        Some m \<Rightarrow> Some m
      | None \<Rightarrow>
          do { (digits, s) \<leftarrow> rep 1 2 is_digit_unit t;
               (p, s) \<leftarrow> rep 1 1 (\<lambda>c. c = 46 \<or> c = 41) s;
               if at_gap s then Some (digits @ p, s) else None })"

definition KOREAN_LETTER_ITEM_PATTERN :: "jstring \<Rightarrow> (jstring \<times> jstring) option" where
  "KOREAN_LETTER_ITEM_PATTERN t =
     do { (letter, s) \<leftarrow> rep 1 1 (\<lambda>c. 44032 \<le> c \<and> c \<le> 55203) t;
          s \<leftarrow> lit ((=) 46) s;
          if at_gap s then Some (letter, s) else None }"

record clause_match =
  cm_clauseNumber :: jstring
  cm_title :: "jstring option"
  cm_depth :: nat
  cm_matchedLength :: nat

text \<open>\<open>x || undefined\<close> on an optional string.\<close>

definition non_empty :: "jstring option \<Rightarrow> jstring option" where
  "non_empty x = (case x of None \<Rightarrow> None | Some s \<Rightarrow> if s = [] then None else Some s)"

definition detectClauseNumberLine :: "jstring \<Rightarrow> clause_match option" where
  "detectClauseNumberLine line =
     (let trimmed = js_trim line;
          matched = (\<lambda>rest. length trimmed - length rest)
      in if trimmed = [] \<or> isFalsePositiveLine trimmed then None
         else case ARTICLE_PATTERN trimmed of
           Some ((digits, title), rest) \<Rightarrow>
             Some \<lparr>cm_clauseNumber = 51228 # digits @ [51312],
                   cm_title = non_empty (map_option js_trim title), cm_depth = 0,
                   cm_matchedLength = matched rest\<rparr>
         | None \<Rightarrow>
        (case PARAGRAPH_PATTERN trimmed of
           Some (digits, rest) \<Rightarrow>
             Some \<lparr>cm_clauseNumber = 51228 # digits @ [54637], cm_title = None, cm_depth = 1,
                   cm_matchedLength = matched rest\<rparr>
         | None \<Rightarrow>
        (case CIRCLED_NUMBER_PATTERN trimmed of
           Some (mark, rest) \<Rightarrow>
             Some \<lparr>cm_clauseNumber = mark, cm_title = None, cm_depth = 1, cm_matchedLength = matched rest\<rparr>
         | None \<Rightarrow>
        (case NUMBERED_ITEM_PATTERN trimmed of
           Some (mark, rest) \<Rightarrow>
             Some \<lparr>cm_clauseNumber = mark, cm_title = None, cm_depth = 1, cm_matchedLength = matched rest\<rparr>
         | None \<Rightarrow>
        (case KOREAN_LETTER_ITEM_PATTERN trimmed of
           Some (letter, rest) \<Rightarrow>
             Some \<lparr>cm_clauseNumber = letter @ [46], cm_title = None, cm_depth = 2,
                   cm_matchedLength = matched rest\<rparr>
         | None \<Rightarrow> None)))))"

section \<open>The segmenter\<close>

record segmented_clause =
  cl_clauseNumber :: "jstring option"
  cl_title :: "jstring option"
  cl_text :: jstring
  cl_orderIndex :: nat
  cl_depth :: nat
  cl_startOffset :: nat
  cl_endOffset :: nat
  cl_parentOrderIndex :: "nat option"

record segmented_section =
  se_title :: "jstring option"
  se_sectionType :: "jstring option"
  se_text :: jstring
  se_orderIndex :: nat
  se_startOffset :: nat
  se_endOffset :: nat

record segmentation =
  sg_sections :: "segmented_section list"
  sg_clauses :: "segmented_clause list"
  sg_warnings :: "string list"

record open_clause =
  oc_clauseNumber :: "jstring option"
  oc_title :: "jstring option"
  oc_depth :: nat
  oc_startOffset :: nat
  oc_orderIndex :: nat
  oc_parentOrderIndex :: "nat option"

fun findParentForDepth :: "(nat \<Rightarrow> open_clause option) \<Rightarrow> nat \<Rightarrow> open_clause option" where
  "findParentForDepth openByDepth 0 = None"
| "findParentForDepth openByDepth (Suc d) =
     (case openByDepth d of Some candidate \<Rightarrow> Some candidate | None \<Rightarrow> findParentForDepth openByDepth d)"

text \<open>The variables of \<open>segment\<close>.\<close>

record seg_state =
  ss_clauses :: "segmented_clause list"
  ss_open :: "nat \<Rightarrow> open_clause option"
  ss_current :: "open_clause option"
  ss_orderIndex :: nat
  ss_hasAnyArticle :: bool

definition closeCurrent :: "jstring \<Rightarrow> nat \<Rightarrow> seg_state \<Rightarrow> seg_state" where
  "closeCurrent text endOffsetRaw st =
     (case ss_current st of
        None \<Rightarrow> st
      | Some current \<Rightarrow>
          let rawSlice = js_slice text (oc_startOffset current) endOffsetRaw in
          if js_trim rawSlice = [] then st\<lparr>ss_current := None\<rparr>
          else
            let leadingWs = length rawSlice - length (js_trim_start rawSlice);
                trailingWs = length rawSlice - length (js_trim_end rawSlice);
                startOffset = oc_startOffset current + leadingWs;
                endOffset = endOffsetRaw - trailingWs
            in st\<lparr>ss_clauses := ss_clauses st @
                    [\<lparr>cl_clauseNumber = oc_clauseNumber current, cl_title = oc_title current,
                      cl_text = js_slice text startOffset endOffset, cl_orderIndex = oc_orderIndex current,
                      cl_depth = oc_depth current, cl_startOffset = startOffset, cl_endOffset = endOffset,
                      cl_parentOrderIndex = oc_parentOrderIndex current\<rparr>],
                  ss_current := None\<rparr>)"

definition open_match :: "nat \<Rightarrow> jstring \<Rightarrow> clause_match \<Rightarrow> seg_state \<Rightarrow> seg_state" where
  "open_match pos line m st =
     (let parent = (if cm_depth m > 0 then findParentForDepth (ss_open st) (cm_depth m) else None);
          leadingWs = length line - length (js_trim_start line);
          opened = \<lparr>oc_clauseNumber = Some (cm_clauseNumber m), oc_title = cm_title m, oc_depth = cm_depth m,
                    oc_startOffset = pos + leadingWs + cm_matchedLength m,
                    oc_orderIndex = ss_orderIndex st,
                    oc_parentOrderIndex = map_option oc_orderIndex parent\<rparr>
      in st\<lparr>ss_open := (\<lambda>d. if d \<ge> cm_depth m then None else ss_open st d)(cm_depth m \<mapsto> opened),
            ss_current := Some opened, ss_orderIndex := ss_orderIndex st + 1,
            ss_hasAnyArticle := ss_hasAnyArticle st \<or> cm_depth m = 0\<rparr>)"

definition open_preamble :: "nat \<Rightarrow> seg_state \<Rightarrow> seg_state" where
  "open_preamble pos st =
     (let opened = \<lparr>oc_clauseNumber = None, oc_title = None, oc_depth = 0, oc_startOffset = pos,
                    oc_orderIndex = ss_orderIndex st, oc_parentOrderIndex = None\<rparr>
      in st\<lparr>ss_open := (ss_open st)(0 \<mapsto> opened), ss_current := Some opened,
            ss_orderIndex := ss_orderIndex st + 1\<rparr>)"

text \<open>One turn of the loop, on the line from \<open>pos\<close> to \<open>lineEnd\<close>.\<close>

definition scan_line :: "jstring \<Rightarrow> nat \<Rightarrow> nat \<Rightarrow> seg_state \<Rightarrow> seg_state" where
  "scan_line text pos lineEnd st =
     (let line = js_slice text pos lineEnd
      in case detectClauseNumberLine line of
           Some m \<Rightarrow> open_match pos line m (closeCurrent text pos st)
         | None \<Rightarrow> (case ss_current st of None \<Rightarrow> open_preamble pos st | Some _ \<Rightarrow> st))"

function scan_lines :: "jstring \<Rightarrow> nat \<Rightarrow> seg_state \<Rightarrow> seg_state" where
  "scan_lines text pos st =
     (if pos \<le> length text
      then (case js_index_of 10 text pos of
              None \<Rightarrow> scan_line text pos (length text) st
            | Some lineEnd \<Rightarrow> scan_lines text (lineEnd + 1) (scan_line text pos lineEnd st))
      else st)"
  by pat_completeness auto
termination
  by (relation "measure (\<lambda>(text, pos, st). Suc (length text) - pos)")
    (auto dest: js_index_of_Some)

declare scan_lines.simps [simp del]

definition segment_start :: seg_state where
  "segment_start = \<lparr>ss_clauses = [], ss_open = Map.empty, ss_current = None, ss_orderIndex = 0,
     ss_hasAnyArticle = False\<rparr>"

definition segment_body :: "jstring \<Rightarrow> seg_state" where
  "segment_body text = closeCurrent text (length text) (scan_lines text 0 segment_start)"

definition flatten_clause :: "segmented_clause \<Rightarrow> segmented_clause" where
  "flatten_clause c = c\<lparr>cl_depth := 0, cl_parentOrderIndex := None\<rparr>"

definition segment :: "jstring \<Rightarrow> segmentation" where
  "segment text =
     (let st = segment_body text;
          flat = (\<not> ss_hasAnyArticle st \<and> (\<exists>c \<in> set (ss_clauses st). cl_depth c > 0));
          finalClauses = (if flat then map flatten_clause (ss_clauses st) else ss_clauses st);
          warnings = (if flat then [''flattened''] else []) @ (if finalClauses = [] then [''no clause''] else [])
      in \<lparr>sg_sections = [\<lparr>se_title = Some [48376, 47928], se_sectionType = Some (asc ''BODY''), se_text = text,
             se_orderIndex = 0, se_startOffset = 0, se_endOffset = length text\<rparr>],
          sg_clauses = finalClauses, sg_warnings = warnings\<rparr>)"

section \<open>What the worker checks\<close>

definition isOffsetRangeValid :: "jstring \<Rightarrow> nat \<Rightarrow> nat \<Rightarrow> jstring \<Rightarrow> bool" where
  "isOffsetRangeValid documentText startOffset endOffset expectedText =
     (if endOffset > length documentText \<or> startOffset \<ge> endOffset then False
      else js_slice documentText startOffset endOffset = expectedText)"

record hierarchy_node =
  hn_orderIndex :: nat
  hn_parentOrderIndex :: "nat option"

definition isValidParentReference :: "hierarchy_node \<Rightarrow> nat set \<Rightarrow> bool" where
  "isValidParentReference node allOrderIndexes =
     (case hn_parentOrderIndex node of
        None \<Rightarrow> True
      | Some p \<Rightarrow> if p = hn_orderIndex node then False else p \<in> allOrderIndexes)"

text \<open>\<open>parentByIndex\<close>, a map filled in the order of the nodes, and the value \<open>get\<close> returns.\<close>

definition parentByIndex :: "hierarchy_node list \<Rightarrow> nat \<Rightarrow> nat option" where
  "parentByIndex nodes i =
     (case fold (\<lambda>n m. m(hn_orderIndex n \<mapsto> hn_parentOrderIndex n)) nodes Map.empty i of
        None \<Rightarrow> None | Some p \<Rightarrow> p)"

lemma parentByIndex_key:
  "parentByIndex nodes i = Some p \<Longrightarrow> i \<in> hn_orderIndex ` set nodes"
proof -
  have "dom (fold (\<lambda>n m. m(hn_orderIndex n \<mapsto> hn_parentOrderIndex n)) nodes m) =
      hn_orderIndex ` set nodes \<union> dom m" for m
    by (induction nodes arbitrary: m) auto
  from this [of Map.empty] show "parentByIndex nodes i = Some p \<Longrightarrow> i \<in> hn_orderIndex ` set nodes"
    by (auto simp: parentByIndex_def split: option.splits)
qed

text \<open>The walk up from one node: it ends since it visits each node once at most.\<close>

function walk_parents :: "hierarchy_node list \<Rightarrow> nat list \<Rightarrow> nat option \<Rightarrow> bool" where
  "walk_parents nodes visited None = False"
| "walk_parents nodes visited (Some current) =
     (if current \<in> set visited then True
      else walk_parents nodes (current # visited) (parentByIndex nodes current))"
  by pat_completeness auto
termination
proof (relation "measure (\<lambda>(nodes, visited, current).
    2 * card (hn_orderIndex ` set nodes - set visited) + (if current = None then 0 else 1))", simp, goal_cases)
  case (1 nodes visited current)
  let ?K = "hn_orderIndex ` set nodes"
  show ?case
  proof (cases "current \<in> ?K")
    case True
    have "?K - set (current # visited) = (?K - set visited) - {current}" by auto
    moreover have "current \<in> ?K - set visited" using True 1 by blast
    ultimately have "card (?K - set (current # visited)) < card (?K - set visited)"
      by (simp only: card_Diff1_less finite_Diff finite_imageI finite_set)
    then show ?thesis by simp
  next
    case False
    then have "parentByIndex nodes current = None"
      using parentByIndex_key by (cases "parentByIndex nodes current") blast+
    moreover have "?K - set (current # visited) = ?K - set visited" using False by auto
    ultimately show ?thesis by simp
  qed
qed

definition hasHierarchyCycle :: "hierarchy_node list \<Rightarrow> bool" where
  "hasHierarchyCycle nodes \<longleftrightarrow> (\<exists>n \<in> set nodes. walk_parents nodes [] (Some (hn_orderIndex n)))"

section \<open>Hierarchies\<close>

definition parent_rel :: "hierarchy_node list \<Rightarrow> (nat \<times> nat) set" where
  "parent_rel nodes = {(i, p). parentByIndex nodes i = Some p}"

lemma walk_finds_cycle:
  "walk_parents nodes visited cur \<Longrightarrow> (\<And>c v. cur = Some c \<Longrightarrow> v \<in> set visited \<Longrightarrow> (v, c) \<in> (parent_rel nodes)\<^sup>+) \<Longrightarrow>
   \<exists>i. (i, i) \<in> (parent_rel nodes)\<^sup>+"
proof (induction nodes visited cur rule: walk_parents.induct)
  case (2 nodes visited current)
  show ?case
  proof (cases "current \<in> set visited")
    case False
    have "(v, p) \<in> (parent_rel nodes)\<^sup>+"
      if p: "parentByIndex nodes current = Some p" and v: "v \<in> set (current # visited)" for p v
    proof -
      have step: "(current, p) \<in> parent_rel nodes" using p by (simp add: parent_rel_def)
      from v consider "v = current" | "v \<in> set visited" by auto
      then show ?thesis
        using step 2(3) [OF refl] by cases (auto intro: trancl_into_trancl)
    qed
    with False 2(1,2) show ?thesis by auto
  qed (use 2(3) in auto)
qed simp

lemma cycle_found: "hasHierarchyCycle nodes \<Longrightarrow> \<exists>i. (i, i) \<in> (parent_rel nodes)\<^sup>+"
  unfolding hasHierarchyCycle_def by (elim bexE) (erule walk_finds_cycle, simp)

lemma walk_complete:
  "\<not> walk_parents nodes visited cur \<Longrightarrow> cur = Some c \<Longrightarrow> (c, c) \<notin> (parent_rel nodes)\<^sup>+"
proof (induction nodes visited cur arbitrary: c rule: walk_parents.induct)
  case (2 nodes visited current)
  from 2(2,3) have new: "current \<notin> set visited" "c = current"
    and rest: "\<not> walk_parents nodes (current # visited) (parentByIndex nodes current)"
    by (auto split: if_splits)
  show ?case
  proof
    assume "(c, c) \<in> (parent_rel nodes)\<^sup>+"
    then obtain p where p: "(c, p) \<in> parent_rel nodes" "(p, c) \<in> (parent_rel nodes)\<^sup>*"
      by (metis tranclD)
    then have "(p, p) \<in> (parent_rel nodes)\<^sup>+" by (meson rtrancl_into_trancl1)
    moreover have "parentByIndex nodes current = Some p" using p(1) new(2) by (simp add: parent_rel_def)
    ultimately show False using 2(1) [OF new(1) rest] by simp
  qed
qed simp

text \<open>C38: The hierarchy check is exact and always ends: it reports a cycle just when some clause can be
  reached from itself by going to parents, whatever the nodes are (duplicate and dangling references
  included).\<close>

theorem hierarchy_cycle_exact:
  "hasHierarchyCycle nodes \<longleftrightarrow> (\<exists>i. (i, i) \<in> {(i, p). parentByIndex nodes i = Some p}\<^sup>+)"
proof
  assume "hasHierarchyCycle nodes"
  then show "\<exists>i. (i, i) \<in> {(i, p). parentByIndex nodes i = Some p}\<^sup>+"
    unfolding parent_rel_def [symmetric] by (rule cycle_found)
next
  assume "\<exists>i. (i, i) \<in> {(i, p). parentByIndex nodes i = Some p}\<^sup>+"
  then obtain i where i: "(i, i) \<in> (parent_rel nodes)\<^sup>+" by (auto simp: parent_rel_def)
  then obtain p where "parentByIndex nodes i = Some p" by (auto simp: parent_rel_def dest: tranclD)
  then obtain n where "n \<in> set nodes" "hn_orderIndex n = i" by (auto dest!: parentByIndex_key)
  with i walk_complete show "hasHierarchyCycle nodes" unfolding hasHierarchyCycle_def by blast
qed

lemma parentByIndex_node:
  "parentByIndex nodes i = Some p \<Longrightarrow> \<exists>n \<in> set nodes. hn_orderIndex n = i \<and> hn_parentOrderIndex n = Some p"
proof -
  have "fold (\<lambda>n m. m(hn_orderIndex n \<mapsto> hn_parentOrderIndex n)) nodes m i = Some x \<Longrightarrow>
      (\<exists>n \<in> set nodes. hn_orderIndex n = i \<and> hn_parentOrderIndex n = x) \<or> m i = Some x" for m x
    by (induction nodes arbitrary: m) (fastforce split: if_splits)+
  from this [of Map.empty "Some p"]
  show "parentByIndex nodes i = Some p \<Longrightarrow> \<exists>n \<in> set nodes. hn_orderIndex n = i \<and> hn_parentOrderIndex n = Some p"
    by (auto simp: parentByIndex_def split: option.splits)
qed

lemma earlier_parents_no_cycle:
  assumes "\<forall>n \<in> set nodes. \<forall>p. hn_parentOrderIndex n = Some p \<longrightarrow> p < hn_orderIndex n"
  shows "\<not> hasHierarchyCycle nodes"
proof
  assume "hasHierarchyCycle nodes"
  then obtain i where "(i, i) \<in> (parent_rel nodes)\<^sup>+" using cycle_found by blast
  moreover have down: "p < i" if "(i, p) \<in> parent_rel nodes" for i p
    using assms that by (auto simp: parent_rel_def dest!: parentByIndex_node)
  have "j < i" if "(i, j) \<in> (parent_rel nodes)\<^sup>+" for i j
    using that by (induction rule: trancl_induct) (auto dest: down)
  ultimately show False by blast
qed

section \<open>Trimmed slices\<close>

lemma lead_length: "length s - length (js_trim_start s) = length (takeWhile is_js_space s)"
  by (metis add_diff_cancel_right' js_trim_start_def length_append takeWhile_dropWhile_id)

lemma trail_length: "length s - length (js_trim_end s) = length (takeWhile is_js_space (rev s))"
  using lead_length [of "rev s"] by (simp add: js_trim_end_def js_trim_start_def)

lemma lead_le: "i < length s \<Longrightarrow> \<not> is_js_space (s ! i) \<Longrightarrow> length (takeWhile is_js_space s) \<le> i"
  by (metis leI nth_mem set_takeWhileD takeWhile_nth)

lemma trail_le: "i < length s \<Longrightarrow> \<not> is_js_space (s ! i) \<Longrightarrow> i < length s - length (takeWhile is_js_space (rev s))"
  using lead_le [of "length s - Suc i" "rev s"] by (simp add: rev_nth) arith

lemma trimmed_edges:
  assumes "js_trim s \<noteq> []"
  defines "l \<equiv> length (takeWhile is_js_space s)" and "e \<equiv> length s - length (takeWhile is_js_space (rev s))"
  shows "l < e" "\<not> is_js_space (s ! l)" "\<not> is_js_space (s ! (e - 1))" "e \<le> length s"
proof -
  from assms(1) obtain c where "c \<in> set s" "\<not> is_js_space c" by (auto simp: js_trim_Nil)
  then obtain i where i: "i < length s" "\<not> is_js_space (s ! i)" by (auto simp: in_set_conv_nth)
  from lead_le [OF i] trail_le [OF i] show "l < e" by (simp add: l_def e_def)
  then have "l < length s" by (simp add: e_def)
  then show "\<not> is_js_space (s ! l)" unfolding l_def by (rule nth_length_takeWhile)
  have "length (takeWhile is_js_space (rev s)) < length (rev s)" using \<open>l < e\<close> by (simp add: e_def)
  then have "\<not> is_js_space (rev s ! length (takeWhile is_js_space (rev s)))" by (rule nth_length_takeWhile)
  with \<open>l < e\<close> show "\<not> is_js_space (s ! (e - 1))" by (simp add: e_def rev_nth)
qed (simp add: e_def)

lemma js_trim_id:
  assumes "s \<noteq> []" "\<not> is_js_space (s ! 0)" "\<not> is_js_space (s ! (length s - 1))"
  shows "js_trim s = s"
proof -
  have "js_trim_start s = s" using assms(1,2) by (cases s) (simp_all add: js_trim_start_def)
  moreover have "js_trim_end s = s"
    using assms(1,3) by (cases s rule: rev_cases) (simp_all add: js_trim_end_def)
  ultimately show ?thesis by (simp add: js_trim_def)
qed

lemma js_slice_nth: "i < b - a \<Longrightarrow> b \<le> length s \<Longrightarrow> js_slice s a b ! i = s ! (a + i)"
  by (simp add: js_slice_def)

section \<open>The invariant of the scan\<close>

definition clause_ok :: "jstring \<Rightarrow> segmented_clause \<Rightarrow> bool" where
  "clause_ok text c \<longleftrightarrow>
     cl_startOffset c < cl_endOffset c \<and> cl_endOffset c \<le> length text \<and>
     cl_text c = js_slice text (cl_startOffset c) (cl_endOffset c) \<and> js_trim (cl_text c) = cl_text c \<and>
     (\<forall>p. cl_parentOrderIndex c = Some p \<longrightarrow> p < cl_orderIndex c)"

definition clause_covers :: "nat \<Rightarrow> segmented_clause \<Rightarrow> bool" where
  "clause_covers i c \<longleftrightarrow> cl_startOffset c \<le> i \<and> i < cl_endOffset c"

definition clause_before :: "segmented_clause \<Rightarrow> segmented_clause \<Rightarrow> bool" where
  "clause_before c d \<longleftrightarrow> cl_endOffset c \<le> cl_startOffset d \<and> cl_orderIndex c < cl_orderIndex d"

text \<open>The units of the document that are part of a recognised marker (number and title).\<close>

definition line_start :: "jstring \<Rightarrow> nat \<Rightarrow> bool" where
  "line_start text p \<longleftrightarrow> p = 0 \<or> (p \<le> length text \<and> text ! (p - 1) = 10)"

definition line_of :: "jstring \<Rightarrow> nat \<Rightarrow> jstring" where
  "line_of text p = js_slice text p (case js_index_of 10 text p of None \<Rightarrow> length text | Some e \<Rightarrow> e)"

definition line_lead :: "jstring \<Rightarrow> nat" where
  "line_lead line = length (takeWhile is_js_space line)"

definition in_marker :: "jstring \<Rightarrow> nat \<Rightarrow> bool" where
  "in_marker text i \<longleftrightarrow>
     (\<exists>p m. line_start text p \<and> detectClauseNumberLine (line_of text p) = Some m \<and>
        p + line_lead (line_of text p) \<le> i \<and> i < p + line_lead (line_of text p) + cm_matchedLength m)"

definition open_ok :: "nat \<Rightarrow> seg_state \<Rightarrow> open_clause \<Rightarrow> bool" where
  "open_ok pos st o1 \<longleftrightarrow>
     oc_startOffset o1 \<le> pos \<and> oc_orderIndex o1 < ss_orderIndex st \<and>
     (\<forall>p. oc_parentOrderIndex o1 = Some p \<longrightarrow> p < oc_orderIndex o1) \<and>
     (\<forall>c \<in> set (ss_clauses st). cl_endOffset c \<le> oc_startOffset o1 \<and> cl_orderIndex c < oc_orderIndex o1)"

definition covered :: "jstring \<Rightarrow> seg_state \<Rightarrow> nat \<Rightarrow> bool" where
  "covered text st i \<longleftrightarrow>
     in_marker text i \<or> (\<exists>c \<in> set (ss_clauses st). clause_covers i c) \<or>
     (\<exists>o1. ss_current st = Some o1 \<and> oc_startOffset o1 \<le> i)"

definition seg_inv :: "jstring \<Rightarrow> nat \<Rightarrow> seg_state \<Rightarrow> bool" where
  "seg_inv text pos st \<longleftrightarrow>
     (\<forall>c \<in> set (ss_clauses st). clause_ok text c \<and> cl_endOffset c \<le> pos \<and> cl_orderIndex c < ss_orderIndex st) \<and>
     sorted_wrt clause_before (ss_clauses st) \<and>
     (\<forall>o1. ss_current st = Some o1 \<longrightarrow> open_ok pos st o1) \<and>
     (\<forall>d o1. ss_open st d = Some o1 \<longrightarrow> oc_orderIndex o1 < ss_orderIndex st) \<and>
     (\<forall>i < min pos (length text). \<not> is_js_space (text ! i) \<longrightarrow> covered text st i)"

lemma marker_length: "detectClauseNumberLine line = Some m \<Longrightarrow> cm_matchedLength m \<le> length (js_trim line)"
  by (auto simp: detectClauseNumberLine_def Let_def split: if_splits option.splits)

lemma marker_fits:
  assumes "detectClauseNumberLine line = Some m"
  shows "line_lead line + cm_matchedLength m \<le> length line"
proof -
  have "length (js_trim line) \<le> length (js_trim_start line)" by (simp add: js_trim_def js_trim_end_length)
  moreover have "length line = line_lead line + length (js_trim_start line)"
    by (metis js_trim_start_def length_append line_lead_def takeWhile_dropWhile_id)
  ultimately show ?thesis using marker_length [OF assms] by simp
qed

lemma findParent_Some: "findParentForDepth m d = Some o1 \<Longrightarrow> \<exists>d'<d. m d' = Some o1"
  by (induction d) (auto split: option.splits simp: less_Suc_eq)

text \<open>Closing at \<open>e\<close>: the clause appended is the trimmed slice; a blank one is dropped.\<close>

lemma closeCurrent_cases:
  assumes cur: "ss_current st = Some o1" and e: "oc_startOffset o1 \<le> e" "e \<le> length text"
  obtains (blank) "closeCurrent text e st = st\<lparr>ss_current := None\<rparr>"
      "\<And>i. oc_startOffset o1 \<le> i \<Longrightarrow> i < e \<Longrightarrow> is_js_space (text ! i)"
  | (clause) c where "closeCurrent text e st = st\<lparr>ss_clauses := ss_clauses st @ [c], ss_current := None\<rparr>"
      "oc_startOffset o1 \<le> cl_startOffset c" "cl_startOffset c < cl_endOffset c" "cl_endOffset c \<le> e"
      "cl_text c = js_slice text (cl_startOffset c) (cl_endOffset c)" "js_trim (cl_text c) = cl_text c"
      "cl_orderIndex c = oc_orderIndex o1" "cl_parentOrderIndex c = oc_parentOrderIndex o1"
      "cl_depth c = oc_depth o1"
      "\<And>i. oc_startOffset o1 \<le> i \<Longrightarrow> i < e \<Longrightarrow> \<not> is_js_space (text ! i) \<Longrightarrow> clause_covers i c"
proof -
  let ?a = "oc_startOffset o1"
  let ?raw = "js_slice text ?a e"
  have len: "length ?raw = e - ?a" using e by (simp add: js_slice_length)
  have nth_raw: "?raw ! (i - ?a) = text ! i" if "?a \<le> i" "i < e" for i
    using that e js_slice_nth [of "i - ?a" e ?a "text"] by simp
  show thesis
  proof (cases "js_trim ?raw = []")
    case True
    have "is_js_space (text ! i)" if "?a \<le> i" "i < e" for i
    proof -
      have "text ! i \<in> set ?raw" using that len nth_raw [OF that] by (metis diff_less_mono nth_mem)
      with True show ?thesis by (simp add: js_trim_Nil)
    qed
    with True cur show thesis by (intro blank) (simp_all add: closeCurrent_def Let_def)
  next
    case False
    let ?l = "length (takeWhile is_js_space ?raw)"
    let ?e = "length ?raw - length (takeWhile is_js_space (rev ?raw))"
    note edges = trimmed_edges [OF False]
    have stop: "e - (length ?raw - length (js_trim_end ?raw)) = ?a + ?e"
      unfolding trail_length using e len edges(1,4) by linarith
    have bounds: "?l < ?e" "?e \<le> e - ?a" using edges(1,4) len by simp_all
    define c where "c = \<lparr>cl_clauseNumber = oc_clauseNumber o1, cl_title = oc_title o1,
        cl_text = js_slice text (?a + ?l) (?a + ?e), cl_orderIndex = oc_orderIndex o1,
        cl_depth = oc_depth o1, cl_startOffset = ?a + ?l, cl_endOffset = ?a + ?e,
        cl_parentOrderIndex = oc_parentOrderIndex o1\<rparr>"
    have closed: "closeCurrent text e st = st\<lparr>ss_clauses := ss_clauses st @ [c], ss_current := None\<rparr>"
      using cur False by (simp add: closeCurrent_def Let_def stop lead_length c_def)
    have sub: "js_slice text (?a + ?l) (?a + ?e) ! k = ?raw ! (?l + k)" if "k < ?e - ?l" for k
      using that bounds e by (simp add: js_slice_nth add.assoc)
    have size: "length (js_slice text (?a + ?l) (?a + ?e)) = ?e - ?l"
      using bounds e by (simp add: js_slice_length)
    have "js_trim (js_slice text (?a + ?l) (?a + ?e)) = js_slice text (?a + ?l) (?a + ?e)"
    proof (rule js_trim_id)
      show "js_slice text (?a + ?l) (?a + ?e) \<noteq> []" using size bounds(1) by auto
      show "\<not> is_js_space (js_slice text (?a + ?l) (?a + ?e) ! 0)"
        using sub [of 0] bounds(1) edges(2) by simp
      show "\<not> is_js_space (js_slice text (?a + ?l) (?a + ?e) !
          (length (js_slice text (?a + ?l) (?a + ?e)) - 1))"
        using sub [of "?e - ?l - 1"] bounds(1) edges(3) unfolding size by simp
    qed
    moreover have "clause_covers i c" if i: "?a \<le> i" "i < e" "\<not> is_js_space (text ! i)" for i
    proof -
      have k: "i - ?a < length ?raw" "\<not> is_js_space (?raw ! (i - ?a))"
        using i nth_raw [OF i(1,2)] len by simp_all
      have "?l \<le> i - ?a" "i - ?a < ?e" using lead_le [OF k] trail_le [OF k] .
      then have "?a + ?l \<le> i" "i < ?a + ?e" using i(1) by linarith+
      then show ?thesis by (simp add: clause_covers_def c_def)
    qed
    ultimately show thesis
      using closed bounds e by (intro clause [of c]) (simp_all add: c_def)
  qed
qed

lemma closeCurrent_rest [simp]:
  "ss_open (closeCurrent text e st) = ss_open st" "ss_orderIndex (closeCurrent text e st) = ss_orderIndex st"
  "ss_hasAnyArticle (closeCurrent text e st) = ss_hasAnyArticle st" "ss_current (closeCurrent text e st) = None"
  by (cases "ss_current st"; simp add: closeCurrent_def Let_def)+

lemma closeCurrent_inv:
  assumes inv: "seg_inv text pos st" and e: "pos \<le> length text"
  shows "seg_inv text pos (closeCurrent text pos st)"
proof (cases "ss_current st")
  case None
  then have "closeCurrent text pos st = st" by (simp add: closeCurrent_def)
  with inv show ?thesis by simp
next
  case (Some o1)
  with inv have o1: "open_ok pos st o1" by (simp add: seg_inv_def)
  then have start: "oc_startOffset o1 \<le> pos" by (simp add: open_ok_def)
  have old: "i < pos \<Longrightarrow> \<not> is_js_space (text ! i) \<Longrightarrow>
      in_marker text i \<or> (\<exists>c \<in> set (ss_clauses st). clause_covers i c) \<or> oc_startOffset o1 \<le> i" for i
    using inv Some e by (auto simp: seg_inv_def covered_def)
  from Some start e show ?thesis
  proof (cases rule: closeCurrent_cases)
    case blank
    have "covered text (st\<lparr>ss_current := None\<rparr>) i" if "i < pos" "\<not> is_js_space (text ! i)" for i
      using old [OF that] blank(2) that by (auto simp: covered_def)
    with inv show ?thesis by (simp add: blank(1) seg_inv_def)
  next
    case (clause c)
    have "covered text (st\<lparr>ss_clauses := ss_clauses st @ [c], ss_current := None\<rparr>) i"
      if "i < pos" "\<not> is_js_space (text ! i)" for i
      using old [OF that] clause(10) [OF _ that] by (auto simp: covered_def)
    moreover have "clause_ok text c"
      using clause(3-8) e o1 by (simp add: clause_ok_def open_ok_def)
    moreover have "clause_before d c" if "d \<in> set (ss_clauses st)" for d
      using that o1 clause(2,7) by (auto simp: clause_before_def open_ok_def intro: order_trans)
    ultimately show ?thesis
      using inv o1 clause(4,7) by (auto simp: clause(1) seg_inv_def sorted_wrt_append open_ok_def)
  qed
qed

text \<open>A line is taken in: its units are spaces, part of the marker, or after the new start.\<close>

lemma open_match_inv:
  assumes inv: "seg_inv text pos st" and cur: "ss_current st = None" and start: "line_start text pos"
    and line: "js_slice text pos lineEnd = line_of text pos" "pos \<le> lineEnd" "lineEnd \<le> length text"
    and m: "detectClauseNumberLine (line_of text pos) = Some m"
  shows "seg_inv text lineEnd (open_match pos (line_of text pos) m st)"
proof -
  let ?line = "line_of text pos"
  let ?st = "open_match pos ?line m st"
  have len: "length ?line = lineEnd - pos" using line by (metis js_slice_length min_def diff_le_mono)
  have clauses: "ss_clauses ?st = ss_clauses st" "ss_orderIndex ?st = Suc (ss_orderIndex st)"
    by (simp_all add: open_match_def Let_def)
  obtain o1 where o1: "ss_current ?st = Some o1" "oc_orderIndex o1 = ss_orderIndex st"
    "oc_startOffset o1 = pos + line_lead ?line + cm_matchedLength m"
    "\<And>p. oc_parentOrderIndex o1 = Some p \<Longrightarrow> p < ss_orderIndex st"
    "\<And>d. ss_open ?st d = (if d = cm_depth m then Some o1 else if cm_depth m \<le> d then None else ss_open st d)"
  proof (rule that [of "the (ss_current ?st)"])
    fix p assume "oc_parentOrderIndex (the (ss_current ?st)) = Some p"
    then show "p < ss_orderIndex st"
      using inv findParent_Some by (fastforce simp: open_match_def Let_def seg_inv_def split: if_splits)
  qed (auto simp: open_match_def Let_def line_lead_def lead_length)
  have fits: "oc_startOffset o1 \<le> lineEnd" using marker_fits [OF m] len line(2) o1(3) by simp
  have "covered text ?st i" if i: "i < lineEnd" "\<not> is_js_space (text ! i)" for i
  proof (cases "i < pos")
    case True
    with inv cur i line(2,3) show ?thesis by (auto simp: seg_inv_def covered_def clauses)
  next
    case False
    then have k: "i - pos < length ?line" using i(1) len by simp
    have "?line ! (i - pos) = text ! i"
      using False i(1) line by (metis js_slice_nth diff_less_mono le_add_diff_inverse not_less)
    with k i(2) have "line_lead ?line \<le> i - pos" unfolding line_lead_def by (intro lead_le) simp_all
    then have "in_marker text i \<or> oc_startOffset o1 \<le> i"
      using False start m o1(3) unfolding in_marker_def by (auto intro!: exI [of _ pos] exI [of _ m])
    with o1(1) show ?thesis by (auto simp: covered_def)
  qed
  moreover have "\<forall>c \<in> set (ss_clauses st). cl_endOffset c \<le> lineEnd"
    using inv line(2) by (auto simp: seg_inv_def intro: order_trans)
  moreover have "open_ok lineEnd ?st o1"
    using inv o1(2-4) fits by (fastforce simp: open_ok_def clauses seg_inv_def)
  moreover have "\<forall>d o2. ss_open ?st d = Some o2 \<longrightarrow> oc_orderIndex o2 < ss_orderIndex ?st"
    using inv o1(2,5) by (auto simp: seg_inv_def clauses less_Suc_eq split: if_splits)
  ultimately show ?thesis
    using inv o1(1) by (auto simp: seg_inv_def clauses less_Suc_eq)
qed

lemma open_preamble_inv:
  assumes inv: "seg_inv text pos st" and cur: "ss_current st = None" and e: "pos \<le> lineEnd"
  shows "seg_inv text lineEnd (open_preamble pos st)"
proof -
  have "covered text (open_preamble pos st) i" if "i < lineEnd" "i < length text" "\<not> is_js_space (text ! i)" for i
    using inv cur that by (cases "i < pos") (auto simp: seg_inv_def covered_def open_preamble_def Let_def)
  moreover have "ss_orderIndex (open_preamble pos st) = Suc (ss_orderIndex st)"
    "ss_clauses (open_preamble pos st) = ss_clauses st" by (simp_all add: open_preamble_def Let_def)
  ultimately show ?thesis
    using inv e by (auto simp: seg_inv_def open_ok_def open_preamble_def Let_def less_Suc_eq split: if_splits)
qed

lemma keep_inv:
  assumes inv: "seg_inv text pos st" and cur: "ss_current st = Some o1" and e: "pos \<le> lineEnd"
  shows "seg_inv text lineEnd st"
proof -
  have "covered text st i" if "i < lineEnd" "i < length text" "\<not> is_js_space (text ! i)" for i
    using inv cur that by (cases "i < pos") (auto simp: seg_inv_def covered_def open_ok_def)
  with inv e show ?thesis by (fastforce simp: seg_inv_def open_ok_def)
qed

lemma index_of_hit: "js_index_of c s pos = Some i \<Longrightarrow> s ! i = c"
proof -
  have "index_of_from c xs p = Some i \<Longrightarrow> xs ! (i - p) = c" for xs p
    by (induction c xs p rule: index_of_from.induct)
      (auto split: if_splits simp: nth_Cons' dest: index_of_from_Some)
  from this [of "drop pos s" pos] js_index_of_Some [of c s pos i]
  show "js_index_of c s pos = Some i \<Longrightarrow> s ! i = c" by (auto simp: js_index_of_def)
qed

lemma newline_inv:
  assumes "seg_inv text e st" "e < length text" "text ! e = 10"
  shows "seg_inv text (e + 1) st"
proof -
  have "i < e" if "i < e + 1" "\<not> is_js_space (text ! i)" for i
    using that assms(3) by (auto simp: less_Suc_eq is_js_space_def)
  with assms(1,2) show ?thesis by (fastforce simp: seg_inv_def open_ok_def)
qed

lemma scan_line_inv:
  assumes inv: "seg_inv text pos st" and start: "line_start text pos" "pos \<le> length text"
    and e: "e = (case js_index_of 10 text pos of None \<Rightarrow> length text | Some i \<Rightarrow> i)"
  shows "seg_inv text e (scan_line text pos e st)"
proof -
  have e2: "pos \<le> e" "e \<le> length text" using start(2) e by (auto split: option.splits dest: js_index_of_Some)
  have line: "js_slice text pos e = line_of text pos" by (simp add: line_of_def e)
  show ?thesis
  proof (cases "detectClauseNumberLine (line_of text pos)")
    case None
    then show ?thesis
      using inv e2 open_preamble_inv keep_inv by (cases "ss_current st") (auto simp: scan_line_def line Let_def)
  next
    case (Some m)
    with open_match_inv [OF closeCurrent_inv [OF inv start(2)] closeCurrent_rest(4) start(1) line e2 Some]
    show ?thesis by (simp add: scan_line_def line Let_def)
  qed
qed

lemma scan_lines_inv:
  "seg_inv text pos st \<Longrightarrow> line_start text pos \<Longrightarrow> pos \<le> length text \<Longrightarrow>
   seg_inv text (length text) (scan_lines text pos st)"
proof (induction "text" pos st rule: scan_lines.induct)
  case (1 doc pos st)
  show ?case
  proof (cases "js_index_of 10 doc pos")
    case None
    with scan_line_inv [OF 1(2-4) refl] 1(4) show ?thesis by (simp add: scan_lines.simps [of doc pos])
  next
    case (Some e)
    then have e: "e < length doc" "doc ! e = 10" by (auto dest: js_index_of_Some index_of_hit)
    have "seg_inv doc (e + 1) (scan_line doc pos e st)"
      using newline_inv [OF scan_line_inv [OF 1(2-4) refl, unfolded Some option.case] e] .
    moreover have "line_start doc (e + 1)" using e by (simp add: line_start_def)
    ultimately show ?thesis using 1(1) [OF 1(4) Some] Some e 1(4) by (simp add: scan_lines.simps [of doc pos])
  qed
qed

lemma segment_body_inv:
  "seg_inv text (length text) (segment_body text)" "ss_current (segment_body text) = None"
proof -
  have "seg_inv text 0 segment_start" by (simp add: seg_inv_def segment_start_def)
  then have "seg_inv text (length text) (scan_lines text 0 segment_start)"
    by (rule scan_lines_inv) (simp_all add: line_start_def)
  then show "seg_inv text (length text) (segment_body text)" by (simp add: segment_body_def closeCurrent_inv)
qed (simp add: segment_body_def)

text \<open>Flattening keeps the extents, texts and indexes.\<close>

definition keeps_extent :: "(segmented_clause \<Rightarrow> segmented_clause) \<Rightarrow> bool" where
  "keeps_extent f \<longleftrightarrow>
     (\<forall>c. cl_startOffset (f c) = cl_startOffset c \<and> cl_endOffset (f c) = cl_endOffset c \<and>
       cl_text (f c) = cl_text c \<and> cl_orderIndex (f c) = cl_orderIndex c \<and>
       cl_parentOrderIndex (f c) \<in> {None, cl_parentOrderIndex c})"

lemma segment_clauses:
  "\<exists>f. keeps_extent f \<and> sg_clauses (segment text) = map f (ss_clauses (segment_body text))"
  by (rule exI [of _ "if \<not> ss_hasAnyArticle (segment_body text) \<and>
      (\<exists>c \<in> set (ss_clauses (segment_body text)). cl_depth c > 0) then flatten_clause else id"])
    (auto simp: segment_def Let_def flatten_clause_def keeps_extent_def)

lemma segment_clauses_ok:
  "\<forall>c \<in> set (sg_clauses (segment text)). clause_ok text c"
  "sorted_wrt clause_before (sg_clauses (segment text))"
  "i < length text \<Longrightarrow> \<not> is_js_space (text ! i) \<Longrightarrow>
   in_marker text i \<or> (\<exists>c \<in> set (sg_clauses (segment text)). clause_covers i c)"
proof -
  obtain f where f: "keeps_extent f" "sg_clauses (segment text) = map f (ss_clauses (segment_body text))"
    using segment_clauses by blast
  have ok: "clause_ok text (f c)" if "clause_ok text c" for c
    using spec [OF f(1) [unfolded keeps_extent_def], of c] that by (auto simp: clause_ok_def)
  show "\<forall>c \<in> set (sg_clauses (segment text)). clause_ok text c"
    using segment_body_inv(1) [of "text"] by (auto simp: f(2) seg_inv_def ok)
  show "sorted_wrt clause_before (sg_clauses (segment text))"
    using segment_body_inv(1) [of "text"] f(1)
    by (simp add: f(2) sorted_wrt_map seg_inv_def clause_before_def [abs_def] keeps_extent_def)
  assume "i < length text" "\<not> is_js_space (text ! i)"
  then have "covered text (segment_body text) i"
    using segment_body_inv(1) [of "text"] by (simp add: seg_inv_def)
  then show "in_marker text i \<or> (\<exists>c \<in> set (sg_clauses (segment text)). clause_covers i c)"
    using segment_body_inv(2) [of "text"] f(1)
    by (simp add: f(2) covered_def clause_covers_def keeps_extent_def)
qed

definition node_of :: "segmented_clause \<Rightarrow> hierarchy_node" where
  "node_of c = \<lparr>hn_orderIndex = cl_orderIndex c, hn_parentOrderIndex = cl_parentOrderIndex c\<rparr>"

lemma covering_unique:
  assumes "sorted_wrt clause_before cs" "c \<in> set cs" "d \<in> set cs" "clause_covers i c" "clause_covers i d"
  shows "c = d"
  using assms
proof (induction cs)
  case (Cons x cs)
  have "\<not> (clause_before y z \<and> clause_covers i y \<and> clause_covers i z)" for y z
    by (auto simp: clause_before_def clause_covers_def)
  with Cons show ?case by auto
qed simp

lemma valid_range_slice: "isOffsetRangeValid text a b s \<Longrightarrow> js_slice text a b = s"
  by (simp add: isOffsetRangeValid_def split: if_splits)



text \<open>C14: Nothing of the document is lost: every character that is not white space is either part of a
  recognised clause marker or lies in exactly one clause.\<close>

theorem segment_covers_document:
  assumes "i < length text" "\<not> is_js_space (text ! i)"
  shows "in_marker text i \<or> (\<exists>!c. c \<in> set (sg_clauses (segment text)) \<and> cl_startOffset c \<le> i \<and> i < cl_endOffset c)"
proof -
  have "\<exists>!c. c \<in> set (sg_clauses (segment text)) \<and> clause_covers i c"
    if "c \<in> set (sg_clauses (segment text))" "clause_covers i c" for c
    using covering_unique [OF segment_clauses_ok(2)] that by blast
  with segment_clauses_ok(3) [OF assms] show ?thesis by (auto simp: clause_covers_def)
qed

theorem segment_covers_document_witness:
  "in_marker [97] 0 \<or> (\<exists>!c. c \<in> set (sg_clauses (segment [97])) \<and> cl_startOffset c \<le> 0 \<and> 0 < cl_endOffset c)"
  using segment_covers_document [of 0 "[97]"] by (simp add: is_js_space_def)

section \<open>An article without a text of its own\<close>

lemma trim_split:
  obtains lead tail where "s = lead @ js_trim s @ tail" "length lead = line_lead s"
    "\<forall>c \<in> set lead \<union> set tail. is_js_space c"
proof -
  have "rev (js_trim_start s) = takeWhile is_js_space (rev (js_trim_start s)) @ rev (js_trim s)"
    by (simp add: js_trim_def js_trim_end_def)
  then have "js_trim_start s = js_trim s @ rev (takeWhile is_js_space (rev (js_trim_start s)))"
    by (metis rev_append rev_rev_ident)
  moreover have "s = takeWhile is_js_space s @ js_trim_start s" by (simp add: js_trim_start_def)
  ultimately show thesis
    by (intro that [of "takeWhile is_js_space s" "rev (takeWhile is_js_space (rev (js_trim_start s)))"])
      (auto simp: line_lead_def dest: set_takeWhileD)
qed

lemma index_of_first:
  "c \<notin> set s \<Longrightarrow> js_index_of c (p @ s @ c # t) (length p) = Some (length p + length s)"
  "c \<notin> set s \<Longrightarrow> js_index_of c (p @ s) (length p) = None"
proof -
  have "c \<notin> set s \<Longrightarrow> index_of_from c (s @ c # t) n = Some (n + length s)"
    "c \<notin> set s \<Longrightarrow> index_of_from c s n = None" for n
    by (induction s arbitrary: n) auto
  then show "c \<notin> set s \<Longrightarrow> js_index_of c (p @ s @ c # t) (length p) = Some (length p + length s)"
    "c \<notin> set s \<Longrightarrow> js_index_of c (p @ s) (length p) = None"
    by (simp_all add: js_index_of_def)
qed

lemma findParent_only:
  assumes "m 0 = Some o1" "\<And>d. 0 < d \<Longrightarrow> m d = None" "0 < d"
  shows "findParentForDepth m d = Some o1"
  using assms(3)
proof (induction d)
  case (Suc d)
  with assms(1,2) show ?case by (cases d) auto
qed simp

text \<open>From the moment a clause hangs below a number no clause carries: every clause has a later number,
  and the clause in question, open or closed, still refers to number 0.\<close>

definition orphan_inv :: "nat \<Rightarrow> seg_state \<Rightarrow> bool" where
  "orphan_inv q st \<longleftrightarrow>
     ss_hasAnyArticle st \<and> 1 \<le> ss_orderIndex st \<and> (\<forall>c \<in> set (ss_clauses st). 1 \<le> cl_orderIndex c) \<and>
     (\<forall>o1. ss_current st = Some o1 \<longrightarrow> 1 \<le> oc_orderIndex o1) \<and>
     ((\<exists>c \<in> set (ss_clauses st). cl_parentOrderIndex c = Some 0) \<or>
      (\<exists>o1. ss_current st = Some o1 \<and> oc_parentOrderIndex o1 = Some 0 \<and> oc_startOffset o1 \<le> q))"

lemma orphan_close:
  assumes inv: "seg_inv text pos st" "orphan_inv q st" and q: "q < pos" "pos \<le> length text" "\<not> is_js_space (text ! q)"
  shows "orphan_inv q (closeCurrent text pos st)"
proof (cases "ss_current st")
  case None
  then show ?thesis using inv(2) by (simp add: closeCurrent_def)
next
  case (Some o1)
  with inv have "oc_startOffset o1 \<le> pos" by (simp add: seg_inv_def open_ok_def)
  with Some show ?thesis using q(2)
  proof (cases rule: closeCurrent_cases)
    case blank
    with q(1,3) Some inv(2) have "\<exists>c \<in> set (ss_clauses st). cl_parentOrderIndex c = Some 0"
      by (auto simp: orphan_inv_def)
    with inv(2) show ?thesis by (simp add: blank(1) orphan_inv_def)
  next
    case (clause c)
    with inv(2) Some show ?thesis by (auto simp: clause(1) orphan_inv_def)
  qed
qed

lemma orphan_scan:
  "seg_inv text pos st \<Longrightarrow> orphan_inv q st \<Longrightarrow> line_start text pos \<Longrightarrow> pos \<le> length text \<Longrightarrow> q < pos \<Longrightarrow>
   \<not> is_js_space (text ! q) \<Longrightarrow> orphan_inv q (scan_lines text pos st)"
proof (induction "text" pos st rule: scan_lines.induct)
  case (1 doc pos st)
  have line: "orphan_inv q (scan_line doc pos e st)" for e
  proof (cases "detectClauseNumberLine (js_slice doc pos e)")
    case None
    then show ?thesis
      using 1(3) by (cases "ss_current st")
        (auto simp: scan_line_def Let_def orphan_inv_def open_preamble_def)
  next
    case (Some m)
    have "orphan_inv q (closeCurrent doc pos st)" using orphan_close [OF 1(2,3,6,5,7)] .
    then show ?thesis
      by (auto simp: scan_line_def Some Let_def orphan_inv_def open_match_def)
  qed
  show ?case
  proof (cases "js_index_of 10 doc pos")
    case None
    with line 1(5) show ?thesis by (simp add: scan_lines.simps [of doc pos])
  next
    case (Some e)
    then have e: "e < length doc" "doc ! e = 10" "pos \<le> e" by (auto dest: js_index_of_Some index_of_hit)
    have "seg_inv doc (e + 1) (scan_line doc pos e st)"
      using newline_inv [OF scan_line_inv [OF 1(2,4,5) refl, unfolded Some option.case] e(1,2)] .
    moreover have "line_start doc (e + 1)" using e by (simp add: line_start_def)
    ultimately show ?thesis
      using 1(1) [OF 1(5) Some] line Some e 1(5-7) by (simp add: scan_lines.simps [of doc pos])
  qed
qed

text \<open>An article line that is all marker, followed by a line that opens a sub-item with a text.\<close>

definition bodiless_article :: "jstring \<Rightarrow> jstring \<Rightarrow> bool" where
  "bodiless_article h s \<longleftrightarrow>
     10 \<notin> set h \<and> 10 \<notin> set s \<and>
     (case (detectClauseNumberLine h, detectClauseNumberLine s) of
        (Some m, Some m') \<Rightarrow>
          cm_depth m = 0 \<and> cm_matchedLength m = length (js_trim h) \<and> 0 < cm_depth m' \<and>
          (\<exists>c \<in> set (drop (line_lead s + cm_matchedLength m') s). \<not> is_js_space c)
      | _ \<Rightarrow> False)"

lemma bodiless_closes:
  assumes "cm_matchedLength m = length (js_trim h)" "cm_depth m = 0" "text = h @ 10 # t"
  shows "ss_clauses (closeCurrent text (length h + 1) (open_match 0 h m segment_start)) = []"
proof -
  obtain lead tail where h: "h = lead @ js_trim h @ tail" "length lead = line_lead h"
    "\<forall>c \<in> set lead \<union> set tail. is_js_space c" by (rule trim_split)
  let ?a = "line_lead h + length (js_trim h)"
  have "drop ?a h = tail" by (subst h(1)) (simp add: h(2) [symmetric])
  moreover have "?a \<le> length h" using arg_cong [OF h(1), of length] h(2) by simp
  ultimately have "js_slice text ?a (length h + 1) = tail @ [10]"
    using arg_cong [OF h(1), of length] h(2) by (simp add: js_slice_def assms(3))
  then have "js_trim (js_slice text ?a (length h + 1)) = []"
    using h(3) by (simp add: js_trim_Nil is_js_space_def)
  then show ?thesis
    using assms(1) by (simp add: closeCurrent_def open_match_def Let_def segment_start_def lead_length line_lead_def)
qed

lemma two_lines:
  assumes b: "bodiless_article h s" and doc: "text = h @ 10 # s @ rest" "rest = [] \<or> hd rest = 10"
  obtains q st where "orphan_inv q st" "seg_inv text (length h + 1 + length s) st" "q < length h + 1 + length s"
    "\<not> is_js_space (text ! q)"
    "scan_lines text 0 segment_start = (if rest = [] then st else scan_lines text (length h + 1 + length s + 1) st)"
proof -
  let ?P = "length h + 1" and ?e = "length h + 1 + length s"
  from b obtain m m' where m: "10 \<notin> set h" "10 \<notin> set s" "detectClauseNumberLine h = Some m"
    "detectClauseNumberLine s = Some m'" "cm_depth m = 0" "cm_matchedLength m = length (js_trim h)"
    "0 < cm_depth m'" and body: "\<exists>c \<in> set (drop (line_lead s + cm_matchedLength m') s). \<not> is_js_space c"
    by (auto simp: bodiless_article_def split: option.splits)
  have idx: "js_index_of 10 text 0 = Some (length h)"
    "js_index_of 10 text ?P = (if rest = [] then None else Some ?e)"
    using index_of_first(1) [OF m(1), of "[]" "s @ rest"] index_of_first(1) [OF m(2), of "h @ [10]" "tl rest"]
      index_of_first(2) [OF m(2), of "h @ [10]"] doc(2) by (cases rest; simp add: doc(1))+
  have sl: "js_slice text 0 (length h) = h" "js_slice text ?P ?e = s" "?P \<le> length text" "?e \<le> length text"
    "rest = [] \<Longrightarrow> ?e = length text"
    by (simp_all add: doc(1) js_slice_def)
  define st1 where "st1 = scan_line text 0 (length h) segment_start"
  define st2 where "st2 = scan_line text ?P ?e st1"
  have st1: "st1 = open_match 0 h m segment_start"
    by (simp add: st1_def scan_line_def Let_def sl m(3) closeCurrent_def segment_start_def)
  have run: "scan_lines text 0 segment_start = (if rest = [] then st2 else scan_lines text (?e + 1) st2)"
    using idx sl by (simp add: scan_lines.simps [of "text" 0] scan_lines.simps [of "text" "Suc (length h)"] st1_def st2_def)
  have hit: "length h < length text" "text ! length h = 10" by (simp_all add: doc(1))
  have "seg_inv text (length h + 1) st1"
    using newline_inv [OF scan_line_inv [of "text" 0 segment_start "length h"] hit] idx(1)
    by (simp add: st1_def seg_inv_def segment_start_def line_start_def)
  moreover have "line_start text ?P" using hit by (simp add: line_start_def)
  moreover have "?e = (case js_index_of 10 text ?P of None \<Rightarrow> length text | Some i \<Rightarrow> i)"
    unfolding idx(2) using sl(5) by (cases "rest = []") simp_all
  ultimately have inv: "seg_inv text ?e st2"
    using scan_line_inv [of "text" ?P st1 ?e] sl(3) unfolding st2_def by simp
  obtain k where k: "k < length s - (line_lead s + cm_matchedLength m')"
    "\<not> is_js_space (s ! (line_lead s + cm_matchedLength m' + k))"
    using body by (auto simp: in_set_conv_nth)
  let ?q = "?P + line_lead s + cm_matchedLength m' + k"
  have q: "?q < ?e" "\<not> is_js_space (text ! ?q)" using k by (auto simp: doc(1) nth_append add.assoc)
  have closed: "ss_clauses (closeCurrent text ?P st1) = []"
    unfolding st1 by (rule bodiless_closes [OF m(6,5) doc(1)])
  obtain o0 where o0: "oc_orderIndex o0 = 0" "ss_open st1 0 = Some o0" "\<And>d. 0 < d \<Longrightarrow> ss_open st1 d = None"
    "ss_orderIndex st1 = 1" "ss_hasAnyArticle st1"
    by (rule that [of "the (ss_current st1)"]) (simp_all add: st1 open_match_def Let_def m(5) segment_start_def)
  have st2: "st2 = open_match ?P s m' (closeCurrent text ?P st1)"
    by (simp only: st2_def scan_line_def Let_def sl(2) m(4) option.case)
  have "orphan_inv ?q st2"
    using closed o0(1,4,5) findParent_only [where m = "ss_open st1", OF o0(2,3) m(7)] m(7)
    unfolding st2 by (simp add: open_match_def Let_def orphan_inv_def lead_length line_lead_def)
  then show thesis using that [of ?q st2] inv q run by blast
qed

lemma bodiless_article_orphans:
  assumes b: "bodiless_article h s" and doc: "text = h @ 10 # s @ rest" "rest = [] \<or> hd rest = 10"
  shows "\<exists>c \<in> set (sg_clauses (segment text)). cl_parentOrderIndex c = Some 0"
    "\<forall>c \<in> set (sg_clauses (segment text)). cl_orderIndex c \<noteq> 0"
proof -
  let ?e = "length h + 1 + length s"
  obtain q st where st: "orphan_inv q st" "seg_inv text ?e st" "q < ?e" "\<not> is_js_space (text ! q)"
    "scan_lines text 0 segment_start = (if rest = [] then st else scan_lines text (?e + 1) st)"
    using two_lines [OF b doc] by blast
  let ?last = "scan_lines text 0 segment_start"
  have fin: "orphan_inv q ?last \<and> seg_inv text (length text) ?last"
  proof (cases "rest = []")
    case True
    then show ?thesis using st by (simp add: doc(1))
  next
    case False
    then have hit: "?e < length text" "text ! ?e = 10"
      using doc(2) by (cases rest; simp add: doc(1) nth_append)+
    note next_inv = newline_inv [OF st(2) hit]
    have start: "line_start text (?e + 1)" "?e + 1 \<le> length text" using hit by (simp_all add: line_start_def)
    show ?thesis
      using orphan_scan [OF next_inv st(1) start _ st(4)] scan_lines_inv [OF next_inv start] st(3,5) False by simp
  qed
  moreover have "q < length text" using st(3) by (simp add: doc(1))
  ultimately have "orphan_inv q (segment_body text)"
    using orphan_close [of "text" "length text" ?last q] st(4) by (simp add: segment_body_def)
  moreover have "ss_current (segment_body text) = None" by (simp add: segment_body_def)
  ultimately show "\<exists>c \<in> set (sg_clauses (segment text)). cl_parentOrderIndex c = Some 0"
    "\<forall>c \<in> set (sg_clauses (segment text)). cl_orderIndex c \<noteq> 0"
    by (auto simp: segment_def Let_def orphan_inv_def)
qed

end
