(* ===== verification/SegmentationJobs.thy ===== *)
theory SegmentationJobs
  imports FieldExtraction Segmentation
begin

text \<open>
  Clause segmentation jobs: request, worker, recovery of stale jobs and review of a classification
  (\<^verbatim>\<open>features/clauses/server/\<close> with the repositories of segmentation jobs, sections and clauses),
  the rule-based classifier, and the queue of embedding jobs the worker fills
  (\<^verbatim>\<open>enqueue-embedding-jobs.ts\<close>). The worker runs the rule-based segmenter, the only one there is;
  the SHA-256 digest, the UTF-8 encoder, Unicode normalisation and random ids are parameters.
\<close>

section \<open>Policies\<close>

datatype segmentation_status =
  Seg_PENDING | Seg_PROCESSING | Seg_REVIEW_REQUIRED | Seg_COMPLETED | Seg_FAILED | Seg_CANCELLED

definition canTransitionClauseSegmentationJobStatus :: "segmentation_status \<Rightarrow> segmentation_status \<Rightarrow> bool" where
  "canTransitionClauseSegmentationJobStatus a b \<longleftrightarrow>
     (case a of
        Seg_PENDING \<Rightarrow> b \<in> {Seg_PROCESSING, Seg_CANCELLED}
      | Seg_PROCESSING \<Rightarrow> b \<in> {Seg_REVIEW_REQUIRED, Seg_FAILED}
      | Seg_REVIEW_REQUIRED \<Rightarrow> b \<in> {Seg_COMPLETED, Seg_PROCESSING}
      | Seg_FAILED \<Rightarrow> b \<in> {Seg_PENDING, Seg_CANCELLED}
      | Seg_COMPLETED \<Rightarrow> False
      | Seg_CANCELLED \<Rightarrow> False)"

datatype segmentation_error =
  EXTRACTED_DOCUMENT_NOT_FOUND | DOCUMENT_CHECKSUM_MISMATCH | SEGMENTATION_FAILED
  | INVALID_SEGMENTATION_RESULT | INVALID_OFFSETS | INVALID_HIERARCHY | CLASSIFICATION_FAILED
  | SEG_MAX_ATTEMPTS_REACHED

definition NON_RETRYABLE_SEGMENTATION_ERRORS :: "segmentation_error set" where
  "NON_RETRYABLE_SEGMENTATION_ERRORS =
     {DOCUMENT_CHECKSUM_MISMATCH, INVALID_SEGMENTATION_RESULT, INVALID_OFFSETS, INVALID_HIERARCHY,
      SEG_MAX_ATTEMPTS_REACHED}"

text \<open>\<open>None\<close> is the empty code the callers pass when a row has none.\<close>

definition isRetryableSegmentationError :: "segmentation_error option \<Rightarrow> nat \<Rightarrow> nat \<Rightarrow> bool" where
  "isRetryableSegmentationError errorCode attempt maxAttempts =
     (if attempt \<ge> maxAttempts then False
      else (case errorCode of None \<Rightarrow> True | Some c \<Rightarrow> c \<notin> NON_RETRYABLE_SEGMENTATION_ERRORS))"

definition CLAUSE_SEGMENTER_VERSION :: string where
  "CLAUSE_SEGMENTER_VERSION = ''dev-ko-v1''"

section \<open>The classifier\<close>

fun js_starts_with :: "jstring \<Rightarrow> jstring \<Rightarrow> bool" where
  "js_starts_with s [] = True"
| "js_starts_with [] (k # ks) = False"
| "js_starts_with (c # s) (k # ks) = (c = k \<and> js_starts_with s ks)"

fun js_includes :: "jstring \<Rightarrow> jstring \<Rightarrow> bool" where
  "js_includes [] keyword = (keyword = [])"
| "js_includes (c # s) keyword = (js_starts_with (c # s) keyword \<or> js_includes s keyword)"

definition CLASSIFICATION_RULES :: "(string \<times> jstring list) list" where
  "CLASSIFICATION_RULES =
     [(''TERM'', [[44228, 50557, 44592, 44036], [50976, 54952, 44592, 44036]]),
      (''TERMINATION'', [[54644, 51648], [54644, 51228], [51333, 47308]]),
      (''PAYMENT'', [[45824, 44552], [51648, 44553], [52397, 44396]]),
      (''CONFIDENTIALITY'', [[48708, 48128], [44592, 48128]]),
      (''LIMITATION_OF_LIABILITY'', [[48176, 49345, 32, 54620, 46020], [52293, 51076, 32, 54620, 46020]]),
      (''LIABILITY'', [[49552, 54644, 48176, 49345]]),
      (''INTELLECTUAL_PROPERTY'', [[51648, 49885, 51116, 49328], [51200, 51089, 44428], [53945, 54728]]),
      (''AUTO_RENEWAL'', [[51088, 46041, 32, 44081, 49888], [51088, 46041, 44081, 49888],
        [51088, 46041, 50672, 51109], [51088, 46041, 32, 50672, 51109]]),
      (''FORCE_MAJEURE'', [[48520, 44032, 54637, 47141]]),
      (''GOVERNING_LAW'', [[51456, 44144, 48277]]),
      (''JURISDICTION'', [[44288, 54624, 48277, 50896], [44288, 54624, 32, 48277, 50896]]),
      (''ASSIGNMENT'', [[50577, 46020]])]"

definition ALL_CLAUSE_TYPES :: "string list" where
  "ALL_CLAUSE_TYPES =
     [''DEFINITIONS'', ''TERM'', ''TERMINATION'', ''PAYMENT'', ''PRICE_ADJUSTMENT'', ''SCOPE_OF_WORK'',
      ''DELIVERY'', ''ACCEPTANCE'', ''WARRANTY'', ''LIABILITY'', ''LIMITATION_OF_LIABILITY'', ''INDEMNITY'',
      ''CONFIDENTIALITY'', ''INTELLECTUAL_PROPERTY'', ''DATA_PROTECTION'', ''SECURITY'', ''NON_COMPETE'',
      ''NON_SOLICITATION'', ''AUTO_RENEWAL'', ''NOTICE'', ''FORCE_MAJEURE'', ''GOVERNING_LAW'',
      ''JURISDICTION'', ''DISPUTE_RESOLUTION'', ''ASSIGNMENT'', ''CHANGE_CONTROL'', ''AUDIT_RIGHTS'',
      ''COMPLIANCE'', ''INSURANCE'', ''SUBCONTRACTING'', ''OTHER'', ''UNKNOWN'']"

record classification =
  cs_suggestedType :: string
  cs_confidence :: "real option"
  cs_matchedSignals :: "jstring list"

text \<open>\<open>reduce\<close> that keeps the earlier of two candidates with as many hits.\<close>

fun best_candidate :: "string \<times> jstring list \<Rightarrow> (string \<times> jstring list) list \<Rightarrow> string \<times> jstring list" where
  "best_candidate best [] = best"
| "best_candidate best (c # cs) =
     best_candidate (if length (snd c) > length (snd best) then c else best) cs"

definition classify :: "jstring \<Rightarrow> jstring option \<Rightarrow> string list \<Rightarrow> classification" where
  "classify clauseText clauseTitle allowedTypes =
     (let combinedText = (case clauseTitle of None \<Rightarrow> [] | Some t \<Rightarrow> t) @ 32 # clauseText;
          candidates = filter (\<lambda>c. length (snd c) > 0)
            (map (\<lambda>(ty, keywords). (ty, filter (js_includes combinedText) keywords))
              (filter (\<lambda>(ty, _). ty \<in> set allowedTypes) CLASSIFICATION_RULES))
      in case candidates of
           [] \<Rightarrow> \<lparr>cs_suggestedType = ''UNKNOWN'', cs_confidence = None, cs_matchedSignals = []\<rparr>
         | c # cs \<Rightarrow>
             let (ty, matched) = best_candidate c cs in
             \<lparr>cs_suggestedType = ty, cs_confidence = Some (min (0.5 + real (length matched) * 0.1) 0.8),
              cs_matchedSignals = map (\<lambda>k. asc ''keyword:'' @ k) matched\<rparr>)"

section \<open>Tables\<close>

record segmentation_job =
  sj_id :: string
  sj_organizationId :: string
  sj_contractId :: string
  sj_extractedDocumentId :: string
  sj_status :: segmentation_status
  sj_attempt :: nat
  sj_maxAttempts :: nat
  sj_segmenterVersion :: string
  sj_inputChecksum :: string
  sj_jobKey :: string
  sj_lockedAt :: "time_ms option"
  sj_lockedBy :: "string option"
  sj_startedAt :: "time_ms option"
  sj_completedAt :: "time_ms option"
  sj_failedAt :: "time_ms option"
  sj_errorCode :: "segmentation_error option"
  sj_warnings :: "string list"
  sj_createdById :: string
  sj_createdAt :: time_ms

record section_row =
  sr_id :: string
  sr_organizationId :: string
  sr_contractId :: string
  sr_extractedDocumentId :: string
  sr_segmentationJobId :: string
  sr_title :: "jstring option"
  sr_sectionType :: "jstring option"
  sr_orderIndex :: nat
  sr_startOffset :: nat
  sr_endOffset :: nat
  sr_text :: jstring

datatype classification_state = UNREVIEWED | CONFIRMED | CORRECTED | REJECTED

record clause_row =
  cr_id :: string
  cr_organizationId :: string
  cr_contractId :: string
  cr_extractedDocumentId :: string
  cr_segmentationJobId :: string
  cr_sectionId :: "string option"
  cr_parentClauseId :: "string option"
  cr_clauseNumber :: "jstring option"
  cr_title :: "jstring option"
  cr_text :: jstring
  cr_normalizedText :: jstring
  cr_orderIndex :: nat
  cr_depth :: nat
  cr_startOffset :: nat
  cr_endOffset :: nat
  cr_suggestedClauseType :: "string option"
  cr_classificationConfidence :: "real option"
  cr_classificationSignals :: "jstring list"
  cr_reviewedClauseType :: "string option"
  cr_classificationState :: classification_state
  cr_reviewedById :: "string option"
  cr_reviewedAt :: "time_ms option"

datatype embedding_status = Emb_PENDING | Emb_PROCESSING | Emb_COMPLETED | Emb_FAILED

datatype embedding_error =
  EMB_PROVIDER_ERROR | EMB_CLAUSE_NOT_FOUND | EMB_MAX_ATTEMPTS_REACHED | EMB_AI_POLICY_DISABLED
  | EMB_BUDGET_EXCEEDED

text \<open>One shape for the two embedding queues: \<open>eb_sourceId\<close> is the \<open>contractClauseId\<close> of an
  \<open>EmbeddingJob\<close> and the \<open>chunkId\<close> of a \<open>ContractDocumentChunkEmbeddingJob\<close>.\<close>

record embedding_job =
  eb_id :: string
  eb_organizationId :: string
  eb_sourceId :: string
  eb_status :: embedding_status
  eb_attempt :: nat
  eb_maxAttempts :: nat
  eb_inputChecksum :: string
  eb_provider :: "string option"
  eb_model :: "string option"
  eb_lockedAt :: "time_ms option"
  eb_lockedBy :: "string option"
  eb_startedAt :: "time_ms option"
  eb_completedAt :: "time_ms option"
  eb_failedAt :: "time_ms option"
  eb_errorCode :: "embedding_error option"
  eb_createdAt :: time_ms

record segmentation_db = extraction_db +
  segmentation_jobs :: "segmentation_job list"
  contract_sections :: "section_row list"
  contract_clauses :: "clause_row list"
  embedding_jobs :: "embedding_job list"

section \<open>Repositories\<close>

definition findExtractedDocumentById ::
  "string \<Rightarrow> string \<Rightarrow> string \<Rightarrow> 'x extraction_db_scheme \<Rightarrow> extracted_document option" where
  "findExtractedDocumentById org contractId documentId db =
     find_row (\<lambda>d. xd_id d = documentId \<and> xd_organizationId d = org \<and> xd_contractId d = contractId)
       (extracted_documents db)"

definition findClauseSegmentationJobByKey ::
  "string \<Rightarrow> string \<Rightarrow> 'x segmentation_db_scheme \<Rightarrow> segmentation_job option" where
  "findClauseSegmentationJobByKey org jobKey db =
     (case find_row (\<lambda>j. sj_jobKey j = jobKey) (segmentation_jobs db) of
        None \<Rightarrow> None
      | Some row \<Rightarrow> if sj_organizationId row = org then Some row else None)"

text \<open>\<open>None\<close> when the id or the key is taken: the insertion throws.\<close>

definition insertSegmentationJob ::
  "segmentation_job \<Rightarrow> 'x segmentation_db_scheme \<Rightarrow> 'x segmentation_db_scheme option" where
  "insertSegmentationJob job db =
     (if \<exists>j \<in> set (segmentation_jobs db). sj_id j = sj_id job \<or> sj_jobKey j = sj_jobKey job then None
      else Some (db\<lparr>segmentation_jobs := segmentation_jobs db @ [job]\<rparr>))"

definition updateClauseSegmentationJob ::
  "string \<Rightarrow> (segmentation_job \<Rightarrow> segmentation_job) \<Rightarrow> 'x segmentation_db_scheme \<Rightarrow>
   'x segmentation_db_scheme option"
where
  "updateClauseSegmentationJob jobId f db =
     (if \<exists>j \<in> set (segmentation_jobs db). sj_id j = jobId
      then Some (db\<lparr>segmentation_jobs := update_rows (\<lambda>j. sj_id j = jobId) f (segmentation_jobs db)\<rparr>)
      else None)"

definition seg_reset :: "segmentation_job \<Rightarrow> segmentation_job" where
  "seg_reset j = j\<lparr>sj_status := Seg_PENDING, sj_errorCode := None, sj_failedAt := None,
     sj_lockedAt := None, sj_lockedBy := None\<rparr>"

definition resetClauseSegmentationJobToPending ::
  "string \<Rightarrow> 'x segmentation_db_scheme \<Rightarrow> 'x segmentation_db_scheme option" where
  "resetClauseSegmentationJobToPending jobId db = updateClauseSegmentationJob jobId seg_reset db"

definition seg_claim :: "string \<Rightarrow> time_ms \<Rightarrow> segmentation_job \<Rightarrow> segmentation_job" where
  "seg_claim workerId now j =
     j\<lparr>sj_status := Seg_PROCESSING, sj_startedAt := Some now, sj_attempt := sj_attempt j + 1,
       sj_lockedAt := Some now, sj_lockedBy := Some workerId\<rparr>"

definition claimNextPendingClauseSegmentationJob ::
  "string \<Rightarrow> time_ms \<Rightarrow> 'x segmentation_db_scheme \<Rightarrow> segmentation_job option \<times> 'x segmentation_db_scheme"
where
  "claimNextPendingClauseSegmentationJob workerId now db =
     (case oldest_row (\<lambda>j. sj_status j = Seg_PENDING) sj_createdAt (segmentation_jobs db) of
        None \<Rightarrow> (None, db)
      | Some j \<Rightarrow>
          (Some (seg_claim workerId now j),
           db\<lparr>segmentation_jobs :=
                update_rows (\<lambda>q. sj_id q = sj_id j) (seg_claim workerId now) (segmentation_jobs db)\<rparr>))"

definition findStaleProcessingClauseSegmentationJobs ::
  "time_ms \<Rightarrow> 'x segmentation_db_scheme \<Rightarrow> segmentation_job list" where
  "findStaleProcessingClauseSegmentationJobs staleBefore db =
     filter (\<lambda>j. sj_status j = Seg_PROCESSING \<and>
       (case sj_lockedAt j of None \<Rightarrow> False | Some t \<Rightarrow> t \<le> staleBefore)) (segmentation_jobs db)"

text \<open>\<open>createMany\<close>: unique in the id and in the pair of job and order index (\<open>None\<close>: it throws).\<close>

definition createContractSections ::
  "section_row list \<Rightarrow> 'x segmentation_db_scheme \<Rightarrow> 'x segmentation_db_scheme option" where
  "createContractSections rows db =
     (let key = (\<lambda>s. (sr_segmentationJobId s, sr_orderIndex s)); all_rows = contract_sections db @ rows in
      if rows = [] then Some db
      else if distinct (map sr_id rows) \<and> sr_id ` set rows \<inter> sr_id ` set (contract_sections db) = {} \<and>
        distinct (map key rows) \<and> key ` set rows \<inter> key ` set (contract_sections db) = {}
      then Some (db\<lparr>contract_sections := all_rows\<rparr>) else None)"

definition createContractClauses ::
  "clause_row list \<Rightarrow> 'x segmentation_db_scheme \<Rightarrow> 'x segmentation_db_scheme option" where
  "createContractClauses rows db =
     (let key = (\<lambda>s. (cr_segmentationJobId s, cr_orderIndex s)); all_rows = contract_clauses db @ rows in
      if rows = [] then Some db
      else if distinct (map cr_id rows) \<and> cr_id ` set rows \<inter> cr_id ` set (contract_clauses db) = {} \<and>
        distinct (map key rows) \<and> key ` set rows \<inter> key ` set (contract_clauses db) = {}
      then Some (db\<lparr>contract_clauses := all_rows\<rparr>) else None)"

definition findClauseById :: "string \<Rightarrow> string \<Rightarrow> string \<Rightarrow> 'x segmentation_db_scheme \<Rightarrow> clause_row option" where
  "findClauseById org contractId clauseId db =
     find_row (\<lambda>c. cr_id c = clauseId \<and> cr_contractId c = contractId \<and> cr_organizationId c = org)
       (contract_clauses db)"

definition updateClauseReview ::
  "string \<Rightarrow> string \<Rightarrow> (clause_row \<Rightarrow> clause_row) \<Rightarrow> 'x segmentation_db_scheme \<Rightarrow>
   clause_row option \<times> 'x segmentation_db_scheme"
where
  "updateClauseReview org clauseId f db =
     (let match = (\<lambda>c. cr_id c = clauseId \<and> cr_organizationId c = org);
          db' = db\<lparr>contract_clauses := update_rows match f (contract_clauses db)\<rparr>
      in if count_rows match (contract_clauses db) = 0 then (None, db)
         else (find_row (\<lambda>c. cr_id c = clauseId) (contract_clauses db'), db'))"

text \<open>A second job for the same clause and checksum (or a taken id) is silently left out.\<close>

definition enqueueEmbeddingJob ::
  "string \<Rightarrow> time_ms \<Rightarrow> string \<Rightarrow> string \<Rightarrow> string \<Rightarrow> 'x segmentation_db_scheme \<Rightarrow>
   string option \<times> 'x segmentation_db_scheme"
where
  "enqueueEmbeddingJob newId now org clauseId checksum db =
     (if \<exists>j \<in> set (embedding_jobs db). eb_id j = newId \<or>
           (eb_sourceId j = clauseId \<and> eb_inputChecksum j = checksum)
      then (None, db)
      else (Some newId, db\<lparr>embedding_jobs := embedding_jobs db @
        [\<lparr>eb_id = newId, eb_organizationId = org, eb_sourceId = clauseId, eb_status = Emb_PENDING,
          eb_attempt = 0, eb_maxAttempts = 3, eb_inputChecksum = checksum, eb_provider = None,
          eb_model = None, eb_lockedAt = None, eb_lockedBy = None, eb_startedAt = None,
          eb_completedAt = None, eb_failedAt = None, eb_errorCode = None, eb_createdAt = now\<rparr>]\<rparr>))"

fun enqueueEmbeddingJobsForClauses ::
  "(string \<Rightarrow> string) \<Rightarrow> (jstring \<Rightarrow> string) \<Rightarrow> time_ms \<Rightarrow> (string \<times> string \<times> jstring) list \<Rightarrow> nat \<Rightarrow>
   'x segmentation_db_scheme \<Rightarrow> nat \<times> 'x segmentation_db_scheme"
where
  "enqueueEmbeddingJobsForClauses new_id digest now [] enqueued db = (enqueued, db)"
| "enqueueEmbeddingJobsForClauses new_id digest now ((i, org, normalizedText) # cs) enqueued db =
     (case enqueueEmbeddingJob (new_id i) now org i (digest normalizedText) db of
        (None, db1) \<Rightarrow> enqueueEmbeddingJobsForClauses new_id digest now cs enqueued db1
      | (Some _, db1) \<Rightarrow> enqueueEmbeddingJobsForClauses new_id digest now cs (enqueued + 1) db1)"

section \<open>Requesting a segmentation\<close>

definition audit_seg ::
  "string option \<Rightarrow> string \<Rightarrow> segmentation_job \<Rightarrow> 'x core_db_scheme \<Rightarrow> 'x core_db_scheme" where
  "audit_seg user action j db =
     audit (sj_organizationId j) user ''ClauseSegmentationJob'' (sj_id j) action db"

text \<open>The collaborators of the segmentation worker: the digest of a UTF-8 text, the digest of the
  concatenated job key, Unicode normalisation, random ids, and the environment.\<close>

record seg_env =
  se_computeChecksum :: "jstring \<Rightarrow> string"
  se_keyChecksum :: "string \<Rightarrow> string"
  se_normalizeClauseText :: "jstring \<Rightarrow> jstring"
  se_clauseChecksum :: "jstring \<Rightarrow> string"
  se_sectionId :: "nat \<Rightarrow> string"
  se_clauseId :: "nat \<Rightarrow> string"
  se_embeddingJobId :: "string \<Rightarrow> string"
  se_provider :: "string option"
  se_nodeEnv :: string
  se_allowDevelopment :: "string option"

definition buildJobKey :: "seg_env \<Rightarrow> string \<Rightarrow> string \<Rightarrow> string \<Rightarrow> string" where
  "buildJobKey env documentId inputChecksum version =
     se_keyChecksum env (documentId @ '':'' @ inputChecksum @ '':'' @ version)"

definition createClauseSegmentationJob ::
  "seg_env \<Rightarrow> nat \<Rightarrow> string \<Rightarrow> time_ms \<Rightarrow> string \<Rightarrow> string \<Rightarrow> string \<Rightarrow> string option \<Rightarrow> 'x segmentation_db_scheme \<Rightarrow>
   (app_error + string) \<times> 'x segmentation_db_scheme"
where
  "createClauseSegmentationJob env maxAttempts newId now userId organizationId contractId parsed db =
     (case verifyOrganizationMembership userId organizationId db of
        Inl e \<Rightarrow> (Inl e, db)
      | Inr ctx \<Rightarrow>
     (case parsed of
        None \<Rightarrow> (Inl (ValidationError ''input''), db)
      | Some documentId \<Rightarrow>
     (case findContractById (ac_organizationId ctx) contractId db of
        None \<Rightarrow> (Inl NotFoundError, db)
      | Some contract \<Rightarrow>
     (case findExtractedDocumentById (ac_organizationId ctx) (ct_id contract) documentId db of
        None \<Rightarrow> (Inl NotFoundError, db)
      | Some document \<Rightarrow>
     (case findClauseSegmentationJobByKey (ac_organizationId ctx)
             (buildJobKey env (xd_id document) (xd_contentChecksum document) CLAUSE_SEGMENTER_VERSION) db of
        None \<Rightarrow>
          let job = \<lparr>sj_id = newId, sj_organizationId = ac_organizationId ctx,
                sj_contractId = ct_id contract, sj_extractedDocumentId = xd_id document,
                sj_status = Seg_PENDING, sj_attempt = 0, sj_maxAttempts = maxAttempts,
                sj_segmenterVersion = CLAUSE_SEGMENTER_VERSION,
                sj_inputChecksum = xd_contentChecksum document,
                sj_jobKey = buildJobKey env (xd_id document) (xd_contentChecksum document)
                  CLAUSE_SEGMENTER_VERSION,
                sj_lockedAt = None, sj_lockedBy = None, sj_startedAt = None, sj_completedAt = None,
                sj_failedAt = None, sj_errorCode = None, sj_warnings = [], sj_createdById = ac_userId ctx,
                sj_createdAt = now\<rparr>
          in (case insertSegmentationJob job db of
                None \<Rightarrow> (Inl UnexpectedError, db)
              | Some db' \<Rightarrow>
                  (Inr newId, audit_seg (Some (ac_userId ctx)) ''CLAUSE_SEGMENTATION_JOB_CREATED'' job db'))
      | Some existing \<Rightarrow>
          (case sj_status existing of
             Seg_PENDING \<Rightarrow> (Inl (ConflictError ''in progress''), db)
           | Seg_PROCESSING \<Rightarrow> (Inl (ConflictError ''in progress''), db)
           | Seg_REVIEW_REQUIRED \<Rightarrow> (Inl (ConflictError ''in progress''), db)
           | Seg_COMPLETED \<Rightarrow> (Inl (ConflictError ''completed''), db)
           | Seg_CANCELLED \<Rightarrow> (Inl (ConflictError ''cancelled''), db)
           | Seg_FAILED \<Rightarrow>
               if \<not> isRetryableSegmentationError (sj_errorCode existing) (sj_attempt existing)
                     (sj_maxAttempts existing)
               then (Inl (ConflictError ''not retryable''), db)
               else (case resetClauseSegmentationJobToPending (sj_id existing) db of
                       None \<Rightarrow> (Inl UnexpectedError, db)
                     | Some db' \<Rightarrow>
                         (Inr (sj_id existing),
                          audit_seg (Some (ac_userId ctx)) ''CLAUSE_SEGMENTATION_RETRY_REQUESTED''
                            existing db'))))))))"

section \<open>The worker\<close>

text \<open>The rule-based segmenter and classifier are the only ones; whether they may be used depends on the
  environment (\<open>None\<close>: the factory throws).\<close>

definition development_allowed :: "seg_env \<Rightarrow> bool" where
  "development_allowed env \<longleftrightarrow>
     (case se_provider env of None \<Rightarrow> True | Some driver \<Rightarrow> driver = ''development'') \<and>
     \<not> (se_nodeEnv env = ''production'' \<and> se_allowDevelopment env \<noteq> Some ''true'')"

definition getClauseSegmenter :: "seg_env \<Rightarrow> (jstring \<Rightarrow> segmentation) option" where
  "getClauseSegmenter env = (if development_allowed env then Some segment else None)"

definition getClauseClassifier ::
  "seg_env \<Rightarrow> (jstring \<Rightarrow> jstring option \<Rightarrow> string list \<Rightarrow> classification) option" where
  "getClauseClassifier env = (if development_allowed env then Some classify else None)"

text \<open>\<open>clauseSegmentationResultSchema\<close>: optional strings are trimmed and bounded; the indexes and
  offsets are not negative by their type.\<close>

definition trimmed_upto :: "nat \<Rightarrow> jstring option \<Rightarrow> bool" where
  "trimmed_upto n x \<longleftrightarrow> (case x of None \<Rightarrow> True | Some s \<Rightarrow> length (js_trim s) \<le> n)"

definition clauseSegmentationResultSchema :: "segmentation \<Rightarrow> segmentation option" where
  "clauseSegmentationResultSchema r =
     (if (\<forall>s \<in> set (sg_sections r). trimmed_upto 200 (se_title s) \<and> trimmed_upto 50 (se_sectionType s)) \<and>
         (\<forall>c \<in> set (sg_clauses r). trimmed_upto 50 (cl_clauseNumber c) \<and> trimmed_upto 200 (cl_title c) \<and>
            1 \<le> length (cl_text c) \<and> cl_depth c \<le> 10)
      then Some (r\<lparr>sg_sections := map (\<lambda>s. s\<lparr>se_title := map_option js_trim (se_title s),
                       se_sectionType := map_option js_trim (se_sectionType s)\<rparr>) (sg_sections r),
                   sg_clauses := map (\<lambda>c. c\<lparr>cl_clauseNumber := map_option js_trim (cl_clauseNumber c),
                       cl_title := map_option js_trim (cl_title c)\<rparr>) (sg_clauses r)\<rparr>)
      else None)"

definition offsets_valid :: "jstring \<Rightarrow> segmentation \<Rightarrow> bool" where
  "offsets_valid text r \<longleftrightarrow>
     (\<forall>s \<in> set (sg_sections r). isOffsetRangeValid text (se_startOffset s) (se_endOffset s) (se_text s)) \<and>
     (\<forall>c \<in> set (sg_clauses r). isOffsetRangeValid text (cl_startOffset c) (cl_endOffset c) (cl_text c))"

definition hierarchy_valid :: "segmentation \<Rightarrow> bool" where
  "hierarchy_valid r \<longleftrightarrow>
     (let orderIndexes = cl_orderIndex ` set (sg_clauses r); nodes = map node_of (sg_clauses r)
      in (\<forall>n \<in> set nodes. isValidParentReference n orderIndexes) \<and> \<not> hasHierarchyCycle nodes)"

definition seg_fail :: "segmentation_error \<Rightarrow> time_ms \<Rightarrow> segmentation_job \<Rightarrow> segmentation_job" where
  "seg_fail errorCode now j =
     j\<lparr>sj_status := Seg_FAILED, sj_failedAt := Some now, sj_errorCode := Some errorCode,
       sj_lockedAt := None, sj_lockedBy := None\<rparr>"

text \<open>The Boolean says whether the operation returned.\<close>

definition failSegmentationJob ::
  "time_ms \<Rightarrow> string \<Rightarrow> segmentation_error \<Rightarrow> 'x segmentation_db_scheme \<Rightarrow> bool \<times> 'x segmentation_db_scheme"
where
  "failSegmentationJob now jobId errorCode db =
     (case updateClauseSegmentationJob jobId (seg_fail errorCode now) db of
        None \<Rightarrow> (False, db)
      | Some db1 \<Rightarrow>
          (case find_row (\<lambda>j. sj_id j = jobId) (segmentation_jobs db1) of
             None \<Rightarrow> (False, db1)
           | Some job \<Rightarrow> (True, audit_seg None ''CLAUSE_SEGMENTATION_FAILED'' job db1)))"

definition section_row_of :: "seg_env \<Rightarrow> segmentation_job \<Rightarrow> segmented_section \<Rightarrow> section_row" where
  "section_row_of env job s =
     \<lparr>sr_id = se_sectionId env (se_orderIndex s), sr_organizationId = sj_organizationId job,
      sr_contractId = sj_contractId job, sr_extractedDocumentId = sj_extractedDocumentId job,
      sr_segmentationJobId = sj_id job, sr_title = se_title s, sr_sectionType = se_sectionType s,
      sr_orderIndex = se_orderIndex s, sr_startOffset = se_startOffset s, sr_endOffset = se_endOffset s,
      sr_text = se_text s\<rparr>"

definition clause_row_of ::
  "seg_env \<Rightarrow> segmentation_job \<Rightarrow> nat set \<Rightarrow> string option \<Rightarrow> (segmented_clause \<Rightarrow> classification) \<Rightarrow>
   segmented_clause \<Rightarrow> clause_row"
where
  "clause_row_of env job orderIndexes defaultSectionId classification c =
     \<lparr>cr_id = se_clauseId env (cl_orderIndex c), cr_organizationId = sj_organizationId job,
      cr_contractId = sj_contractId job, cr_extractedDocumentId = sj_extractedDocumentId job,
      cr_segmentationJobId = sj_id job, cr_sectionId = defaultSectionId,
      cr_parentClauseId = (case cl_parentOrderIndex c of None \<Rightarrow> None
        | Some p \<Rightarrow> if p \<in> orderIndexes then Some (se_clauseId env p) else None),
      cr_clauseNumber = cl_clauseNumber c, cr_title = cl_title c, cr_text = cl_text c,
      cr_normalizedText = se_normalizeClauseText env (cl_text c), cr_orderIndex = cl_orderIndex c,
      cr_depth = cl_depth c, cr_startOffset = cl_startOffset c, cr_endOffset = cl_endOffset c,
      cr_suggestedClauseType = Some (cs_suggestedType (classification c)),
      cr_classificationConfidence = map_option to_fixed2 (cs_confidence (classification c)),
      cr_classificationSignals = cs_matchedSignals (classification c),
      cr_reviewedClauseType = None, cr_classificationState = UNREVIEWED, cr_reviewedById = None,
      cr_reviewedAt = None\<rparr>"

definition seg_review :: "time_ms \<Rightarrow> string list \<Rightarrow> segmentation_job \<Rightarrow> segmentation_job" where
  "seg_review now warnings j =
     j\<lparr>sj_status := Seg_REVIEW_REQUIRED, sj_completedAt := Some now, sj_warnings := warnings,
       sj_lockedAt := None, sj_lockedBy := None\<rparr>"

definition segmentation_rows ::
  "seg_env \<Rightarrow> segmentation_job \<Rightarrow> segmentation \<Rightarrow> (segmented_clause \<Rightarrow> classification) \<Rightarrow>
   section_row list \<times> clause_row list"
where
  "segmentation_rows env job r classification =
     (let defaultSectionId = (case sg_sections r of [] \<Rightarrow> None
            | s # _ \<Rightarrow> Some (se_sectionId env (se_orderIndex s)))
      in (map (section_row_of env job) (sg_sections r),
          map (clause_row_of env job (cl_orderIndex ` set (sg_clauses r)) defaultSectionId classification)
            (sg_clauses r)))"

definition storeSegmentation ::
  "time_ms \<Rightarrow> segmentation_job \<Rightarrow> section_row list \<Rightarrow> clause_row list \<Rightarrow> string list \<Rightarrow>
   'x segmentation_db_scheme \<Rightarrow> 'x segmentation_db_scheme option"
where
  "storeSegmentation now job sectionRows clauseRows warnings db =
     (case createContractSections sectionRows db of
        None \<Rightarrow> None
      | Some db1 \<Rightarrow>
     (case createContractClauses clauseRows db1 of
        None \<Rightarrow> None
      | Some db2 \<Rightarrow>
     (case updateClauseSegmentationJob (sj_id job) (seg_review now warnings) db2 of
        None \<Rightarrow> None
      | Some db3 \<Rightarrow> Some (audit_seg None ''CLAUSE_SEGMENTATION_REVIEW_REQUIRED'' job db3))))"

text \<open>What the worker makes of the document before it writes: an error code, or the checked result.\<close>

definition segmentation_result :: "seg_env \<Rightarrow> jstring \<Rightarrow> segmentation_error + segmentation" where
  "segmentation_result env text =
     (case getClauseSegmenter env of
        None \<Rightarrow> Inl SEGMENTATION_FAILED
      | Some segmenter \<Rightarrow>
     (case clauseSegmentationResultSchema (segmenter text) of
        None \<Rightarrow> Inl INVALID_SEGMENTATION_RESULT
      | Some r \<Rightarrow>
          if \<not> offsets_valid text r then Inl INVALID_OFFSETS
          else if \<not> hierarchy_valid r then Inl INVALID_HIERARCHY
          else Inr r))"

definition runClaimedSegmentationJob ::
  "seg_env \<Rightarrow> time_ms \<Rightarrow> segmentation_job \<Rightarrow> 'x segmentation_db_scheme \<Rightarrow> bool \<times> 'x segmentation_db_scheme"
where
  "runClaimedSegmentationJob env now job db =
     (case findExtractedDocumentById (sj_organizationId job) (sj_contractId job)
             (sj_extractedDocumentId job) db of
        None \<Rightarrow> failSegmentationJob now (sj_id job) EXTRACTED_DOCUMENT_NOT_FOUND db
      | Some document \<Rightarrow>
     if se_computeChecksum env (xd_text document) \<noteq> xd_contentChecksum document \<or>
        se_computeChecksum env (xd_text document) \<noteq> sj_inputChecksum job
     then failSegmentationJob now (sj_id job) DOCUMENT_CHECKSUM_MISMATCH db
     else
     (case segmentation_result env (xd_text document) of
        Inl code \<Rightarrow> failSegmentationJob now (sj_id job) code db
      | Inr r \<Rightarrow>
     (case getClauseClassifier env of
        None \<Rightarrow> failSegmentationJob now (sj_id job) CLASSIFICATION_FAILED db
      | Some classifier \<Rightarrow>
          let (sectionRows, clauseRows) = segmentation_rows env job r
                (\<lambda>c. classifier (cl_text c) (cl_title c) ALL_CLAUSE_TYPES)
          in (case storeSegmentation now job sectionRows clauseRows (sg_warnings r) db of
                None \<Rightarrow> (False, db)
              | Some db1 \<Rightarrow>
                  (True, snd (enqueueEmbeddingJobsForClauses (se_embeddingJobId env) (se_clauseChecksum env)
                     now (map (\<lambda>c. (cr_id c, cr_organizationId c, cr_normalizedText c)) clauseRows) 0 db1))))))"

definition processNextClauseSegmentationJob ::
  "seg_env \<Rightarrow> string \<Rightarrow> time_ms \<Rightarrow> 'x segmentation_db_scheme \<Rightarrow>
   (app_error + string option) \<times> 'x segmentation_db_scheme"
where
  "processNextClauseSegmentationJob env workerId now db =
     (case claimNextPendingClauseSegmentationJob workerId now db of
        (None, db1) \<Rightarrow> (Inr None, db1)
      | (Some job, db1) \<Rightarrow>
          (let (returned, db2) = runClaimedSegmentationJob env now job db1
           in (if returned then Inr (Some (sj_id job)) else Inl UnexpectedError, db2)))"

section \<open>Recovery of stale jobs\<close>

definition recoverStaleSegmentationJob ::
  "time_ms \<Rightarrow> segmentation_job \<Rightarrow> 'x segmentation_db_scheme \<Rightarrow> 'x segmentation_db_scheme option" where
  "recoverStaleSegmentationJob now job db =
     (if isRetryableSegmentationError None (sj_attempt job) (sj_maxAttempts job)
      then map_option (audit_seg None ''CLAUSE_SEGMENTATION_RETRY_REQUESTED'' job)
             (resetClauseSegmentationJobToPending (sj_id job) db)
      else map_option (audit_seg None ''CLAUSE_SEGMENTATION_FAILED'' job)
             (updateClauseSegmentationJob (sj_id job) (seg_fail SEG_MAX_ATTEMPTS_REACHED now) db))"

fun recover_segmentation_loop ::
  "time_ms \<Rightarrow> segmentation_job list \<Rightarrow> nat \<Rightarrow> nat \<Rightarrow> 'x segmentation_db_scheme \<Rightarrow>
   (app_error + nat \<times> nat) \<times> 'x segmentation_db_scheme"
where
  "recover_segmentation_loop now [] recovered failed db = (Inr (recovered, failed), db)"
| "recover_segmentation_loop now (job # jobs) recovered failed db =
     (case recoverStaleSegmentationJob now job db of
        None \<Rightarrow> (Inl UnexpectedError, db)
      | Some db' \<Rightarrow>
          if isRetryableSegmentationError None (sj_attempt job) (sj_maxAttempts job)
          then recover_segmentation_loop now jobs (recovered + 1) failed db'
          else recover_segmentation_loop now jobs recovered (failed + 1) db')"

definition recoverStaleClauseSegmentationJobs ::
  "nat \<Rightarrow> time_ms \<Rightarrow> 'x segmentation_db_scheme \<Rightarrow>
   (app_error + nat \<times> nat \<times> nat) \<times> 'x segmentation_db_scheme"
where
  "recoverStaleClauseSegmentationJobs staleMinutes now db =
     (let staleBefore = now - int staleMinutes * 60 * 1000;
          staleJobs = findStaleProcessingClauseSegmentationJobs staleBefore db;
          (r, db') = recover_segmentation_loop now staleJobs 0 0 db
      in (case r of Inl e \<Rightarrow> Inl e | Inr (recovered, failed) \<Rightarrow> Inr (length staleJobs, recovered, failed),
          db'))"

section \<open>Reviewing a classification\<close>

datatype classification_action = CONFIRM | CORRECT "string option" | REJECT_TYPE

definition classification_decision ::
  "classification_action \<Rightarrow> clause_row \<Rightarrow> app_error + classification_state \<times> string option" where
  "classification_decision act c =
     (case act of
        CONFIRM \<Rightarrow> Inr (CONFIRMED, cr_suggestedClauseType c)
      | CORRECT None \<Rightarrow> Inl (ValidationError ''choose a type'')
      | CORRECT (Some ty) \<Rightarrow> Inr (CORRECTED, Some ty)
      | REJECT_TYPE \<Rightarrow> Inr (REJECTED, None))"

definition reviewClauseClassification ::
  "time_ms \<Rightarrow> string \<Rightarrow> string \<Rightarrow> string \<Rightarrow> string \<Rightarrow> classification_action option \<Rightarrow> 'x segmentation_db_scheme \<Rightarrow>
   (app_error + unit) \<times> 'x segmentation_db_scheme"
where
  "reviewClauseClassification now userId organizationId contractId clauseId parsed db =
     (case verifyOrganizationMembership userId organizationId db of
        Inl e \<Rightarrow> (Inl e, db)
      | Inr ctx \<Rightarrow>
     (case parsed of
        None \<Rightarrow> (Inl (ValidationError ''input''), db)
      | Some act \<Rightarrow>
     (case findClauseById (ac_organizationId ctx) contractId clauseId db of
        None \<Rightarrow> (Inl NotFoundError, db)
      | Some c \<Rightarrow>
     (case classification_decision act c of
        Inl e \<Rightarrow> (Inl e, db)
      | Inr (state, reviewed) \<Rightarrow>
     (case updateClauseReview (ac_organizationId ctx) (cr_id c)
             (\<lambda>c. c\<lparr>cr_classificationState := state, cr_reviewedClauseType := reviewed,
                     cr_reviewedById := Some (ac_userId ctx), cr_reviewedAt := Some now\<rparr>) db of
        (None, _) \<Rightarrow> (Inl NotFoundError, db)
      | (Some _, db') \<Rightarrow>
          (Inr (), audit (ac_organizationId ctx) (Some (ac_userId ctx)) ''ContractClause'' (cr_id c)
                     ''CLAUSE_CLASSIFICATION_REVIEWED'' db'))))))"

section \<open>What a run of the worker does\<close>

lemma schema_keeps:
  assumes "clauseSegmentationResultSchema r = Some r'"
  shows "map (\<lambda>c. (node_of c, cl_startOffset c, cl_endOffset c, cl_text c)) (sg_clauses r') =
      map (\<lambda>c. (node_of c, cl_startOffset c, cl_endOffset c, cl_text c)) (sg_clauses r)"
    "map (\<lambda>s. (se_startOffset s, se_endOffset s, se_text s)) (sg_sections r') =
      map (\<lambda>s. (se_startOffset s, se_endOffset s, se_text s)) (sg_sections r)"
  using assms by (auto simp: clauseSegmentationResultSchema_def node_of_def split: if_splits)

lemma offsets_valid_alt:
  "offsets_valid text r \<longleftrightarrow>
     list_all (\<lambda>(a, b, t). isOffsetRangeValid text a b t)
       (map (\<lambda>s. (se_startOffset s, se_endOffset s, se_text s)) (sg_sections r)) \<and>
     list_all (\<lambda>(n, a, b, t). isOffsetRangeValid text a b t)
       (map (\<lambda>c. (node_of c, cl_startOffset c, cl_endOffset c, cl_text c)) (sg_clauses r))"
  by (simp add: offsets_valid_def list_all_iff)

lemma hierarchy_valid_alt:
  "hierarchy_valid r \<longleftrightarrow>
     (let nodes = map fst (map (\<lambda>c. (node_of c, cl_startOffset c, cl_endOffset c, cl_text c)) (sg_clauses r))
      in (\<forall>n \<in> set nodes. isValidParentReference n (hn_orderIndex ` set nodes)) \<and> \<not> hasHierarchyCycle nodes)"
proof -
  have "hn_orderIndex ` node_of ` set cs = cl_orderIndex ` set cs" for cs
    by (auto simp: node_of_def image_image)
  then show ?thesis by (simp add: hierarchy_valid_def Let_def o_def)
qed

lemma schema_checks:
  assumes "clauseSegmentationResultSchema r = Some r'"
  shows "offsets_valid text r' = offsets_valid text r" "hierarchy_valid r' = hierarchy_valid r"
  unfolding offsets_valid_alt hierarchy_valid_alt schema_keeps [OF assms] by simp_all

lemma segment_offsets_valid: "offsets_valid text (segment text) \<longleftrightarrow> text \<noteq> []"
proof -
  have "\<forall>c \<in> set (sg_clauses (segment text)).
      isOffsetRangeValid text (cl_startOffset c) (cl_endOffset c) (cl_text c)"
    using segment_clauses_ok(1) [of "text"] by (fastforce simp: isOffsetRangeValid_def clause_ok_def)
  moreover have "sg_sections (segment text) = [\<lparr>se_title = Some [48376, 47928],
      se_sectionType = Some (asc ''BODY''), se_text = text, se_orderIndex = 0, se_startOffset = 0,
      se_endOffset = length text\<rparr>]" by (simp add: segment_def Let_def)
  moreover have "isOffsetRangeValid text 0 (length text) text \<longleftrightarrow> text \<noteq> []"
    by (simp add: isOffsetRangeValid_def js_slice_def)
  ultimately show ?thesis by (simp add: offsets_valid_def)
qed

lemma segmentation_result_cases:
  assumes "development_allowed env"
  shows "segmentation_result env text =
    (case clauseSegmentationResultSchema (segment text) of
       None \<Rightarrow> Inl INVALID_SEGMENTATION_RESULT
     | Some r \<Rightarrow> if text = [] then Inl INVALID_OFFSETS
                 else if hierarchy_valid (segment text) then Inr r else Inl INVALID_HIERARCHY)"
  using assms schema_checks [of "segment text"]
  by (auto simp: segmentation_result_def getClauseSegmenter_def segment_offsets_valid split: option.split)

lemma seg_claim_row:
  assumes "claimNextPendingClauseSegmentationJob w now db = (Some job, db1)"
  shows "\<exists>j \<in> set (segmentation_jobs db). sj_status j = Seg_PENDING \<and> job = seg_claim w now j \<and>
    segmentation_jobs db1 = update_rows (\<lambda>q. sj_id q = sj_id job) (seg_claim w now) (segmentation_jobs db) \<and>
    extracted_documents db1 = extracted_documents db \<and> contract_clauses db1 = contract_clauses db \<and>
    contract_sections db1 = contract_sections db \<and> embedding_jobs db1 = embedding_jobs db"
  using assms
  by (auto simp: claimNextPendingClauseSegmentationJob_def seg_claim_def dest!: oldest_row_Some split: option.splits)

lemma seg_audit [simp]:
  "segmentation_jobs (audit_seg u a j db) = segmentation_jobs db"
  "contract_clauses (audit_seg u a j db) = contract_clauses db"
  "contract_sections (audit_seg u a j db) = contract_sections db"
  "embedding_jobs (audit_seg u a j db) = embedding_jobs db"
  by (simp_all add: audit_seg_def audit_def)

lemma failSegmentationJob_row:
  assumes "find_row (\<lambda>j. sj_id j = i) (segmentation_jobs db) = Some j"
  shows "\<exists>db'. failSegmentationJob now i code db = (True, db') \<and>
    find_row (\<lambda>j. sj_id j = i) (segmentation_jobs db') = Some (seg_fail code now j) \<and>
    contract_clauses db' = contract_clauses db \<and> contract_sections db' = contract_sections db"
proof -
  have "sj_id (seg_fail code now q) = sj_id q" for q by (simp add: seg_fail_def)
  then have "find_row (\<lambda>j. sj_id j = i) (update_rows (\<lambda>j. sj_id j = i) (seg_fail code now) (segmentation_jobs db)) =
      Some (seg_fail code now j)"
    using assms find_row_Some [OF assms] by (simp add: find_row_update)
  moreover have "\<exists>q \<in> set (segmentation_jobs db). sj_id q = i" using find_row_Some [OF assms] by blast
  ultimately show ?thesis by (simp add: failSegmentationJob_def updateClauseSegmentationJob_def)
qed

text \<open>The job a run claims, and the document it reads.\<close>

definition run_on ::
  "seg_env \<Rightarrow> string \<Rightarrow> time_ms \<Rightarrow> 'x segmentation_db_scheme \<Rightarrow> segmentation_job \<Rightarrow> extracted_document \<Rightarrow> bool" where
  "run_on env w now db job d \<longleftrightarrow>
     fst (claimNextPendingClauseSegmentationJob w now db) = Some job \<and>
     findExtractedDocumentById (sj_organizationId job) (sj_contractId job) (sj_extractedDocumentId job) db = Some d \<and>
     se_computeChecksum env (xd_text d) = xd_contentChecksum d \<and> xd_contentChecksum d = sj_inputChecksum job \<and>
     development_allowed env"

lemma claimed_row:
  assumes "claimNextPendingClauseSegmentationJob w now db = (Some job, db1)"
  shows "\<exists>j. find_row (\<lambda>j. sj_id j = sj_id job) (segmentation_jobs db1) = Some j"
proof -
  obtain j where j: "j \<in> set (segmentation_jobs db)" "job = seg_claim w now j"
    "segmentation_jobs db1 = update_rows (\<lambda>q. sj_id q = sj_id job) (seg_claim w now) (segmentation_jobs db)"
    using seg_claim_row [OF assms] by blast
  then have "find_row (\<lambda>q. sj_id q = sj_id job) (segmentation_jobs db) \<noteq> None"
    by (auto simp: find_row_None seg_claim_def)
  moreover have "\<And>q. sj_id (seg_claim w now q) = sj_id q" by (simp add: seg_claim_def)
  ultimately show ?thesis by (auto simp: j(3) find_row_update)
qed

lemma run_fails:
  assumes r: "run_on env w now db job d" and code: "segmentation_result env (xd_text d) = Inl code"
  shows "\<exists>db' j. processNextClauseSegmentationJob env w now db = (Inr (Some (sj_id job)), db') \<and>
    find_row (\<lambda>j. sj_id j = sj_id job) (segmentation_jobs db') = Some j \<and>
    sj_status j = Seg_FAILED \<and> sj_errorCode j = Some code \<and>
    contract_clauses db' = contract_clauses db \<and> contract_sections db' = contract_sections db"
proof -
  obtain db1 where c: "claimNextPendingClauseSegmentationJob w now db = (Some job, db1)"
    using r by (metis prod.collapse run_on_def)
  have same: "extracted_documents db1 = extracted_documents db" "contract_clauses db1 = contract_clauses db"
    "contract_sections db1 = contract_sections db"
    using seg_claim_row [OF c] by blast+
  have "runClaimedSegmentationJob env now job db1 = failSegmentationJob now (sj_id job) code db1"
    using r code same(1) by (simp add: runClaimedSegmentationJob_def run_on_def findExtractedDocumentById_def)
  moreover obtain j where "find_row (\<lambda>j. sj_id j = sj_id job) (segmentation_jobs db1) = Some j"
    using claimed_row [OF c] by blast
  ultimately show ?thesis
    using failSegmentationJob_row [of "sj_id job" db1 j now code] c same(2,3)
    by (auto simp: processNextClauseSegmentationJob_def seg_fail_def)
qed

text \<open>C39: A document with an article whose heading line carries no text of its own and is followed by a
  numbered sub-item cannot be segmented, although the segmenter splits it as meant: the empty article
  is dropped, the sub-item still names it as its parent, the hierarchy check fails the whole job, no
  section or clause is stored, and the failure is one that no retry is granted for.\<close>

theorem bodiless_article_fails_job:
  assumes "run_on env w now db job d"
    and "xd_text d = h @ 10 # s @ rest" "rest = [] \<or> hd rest = 10" "bodiless_article h s"
    and "clauseSegmentationResultSchema (segment (xd_text d)) \<noteq> None"
  shows "\<exists>db' j. processNextClauseSegmentationJob env w now db = (Inr (Some (sj_id job)), db') \<and>
    find_row (\<lambda>j. sj_id j = sj_id job) (segmentation_jobs db') = Some j \<and>
    sj_status j = Seg_FAILED \<and> sj_errorCode j = Some INVALID_HIERARCHY \<and>
    contract_clauses db' = contract_clauses db \<and> contract_sections db' = contract_sections db \<and>
    (\<forall>attempt maxAttempts. \<not> isRetryableSegmentationError (sj_errorCode j) attempt maxAttempts)"
proof -
  obtain c where c: "c \<in> set (sg_clauses (segment (xd_text d)))" "cl_parentOrderIndex c = Some 0"
    and none: "\<forall>c \<in> set (sg_clauses (segment (xd_text d))). cl_orderIndex c \<noteq> 0"
    using bodiless_article_orphans [OF assms(4,2,3)] by blast
  from none have "\<not> isValidParentReference (node_of c) (cl_orderIndex ` set (sg_clauses (segment (xd_text d))))"
    by (auto simp: isValidParentReference_def node_of_def c(2))
  with c(1) have "\<not> hierarchy_valid (segment (xd_text d))" by (auto simp: hierarchy_valid_def Let_def)
  moreover have "xd_text d \<noteq> []" by (simp add: assms(2))
  moreover have "development_allowed env" using assms(1) by (simp add: run_on_def)
  ultimately have "segmentation_result env (xd_text d) = Inl INVALID_HIERARCHY"
    using assms(5) by (auto simp: segmentation_result_cases)
  from run_fails [OF assms(1) this] show ?thesis
    by (force simp: isRetryableSegmentationError_def NON_RETRYABLE_SEGMENTATION_ERRORS_def)
qed

definition demo_seg_env :: seg_env where
  "demo_seg_env = \<lparr>se_computeChecksum = (\<lambda>_. ''sum''), se_keyChecksum = id, se_normalizeClauseText = id,
     se_clauseChecksum = (\<lambda>_. ''c''), se_sectionId = (\<lambda>i. ''s'' @ nat_str i), se_clauseId = (\<lambda>i. ''c'' @ nat_str i),
     se_embeddingJobId = (\<lambda>i. ''e'' @ i), se_provider = None, se_nodeEnv = ''test'', se_allowDevelopment = None\<rparr>"

definition demo_heading :: jstring where
  "demo_heading = [51228, 49, 51312, 40, 47785, 51201, 41]"

definition demo_item :: jstring where
  "demo_item = [9312, 32, 44032]"

definition demo_document :: "jstring \<Rightarrow> extracted_document" where
  "demo_document t = \<lparr>xd_id = ''d'', xd_extractionJobId = ''x'', xd_organizationId = ''o'', xd_contractId = ''k'',
     xd_contractFileId = ''f'', xd_text = t, xd_characterCount = length t, xd_pageCount = None,
     xd_language = None, xd_extractionMethod = ''pdf'', xd_contentChecksum = ''sum''\<rparr>"

definition demo_seg_job :: segmentation_job where
  "demo_seg_job = \<lparr>sj_id = ''j'', sj_organizationId = ''o'', sj_contractId = ''k'', sj_extractedDocumentId = ''d'',
     sj_status = Seg_PENDING, sj_attempt = 0, sj_maxAttempts = 3, sj_segmenterVersion = CLAUSE_SEGMENTER_VERSION,
     sj_inputChecksum = ''sum'', sj_jobKey = ''key'', sj_lockedAt = None, sj_lockedBy = None,
     sj_startedAt = None, sj_completedAt = None, sj_failedAt = None, sj_errorCode = None, sj_warnings = [],
     sj_createdById = ''u'', sj_createdAt = 0\<rparr>"

definition demo_seg_db :: "jstring \<Rightarrow> segmentation_db" where
  "demo_seg_db t = \<lparr>memberships = [], auditLog = [], contracts = [], contract_files = [], counterparties = [],
     extraction_jobs = [], field_suggestions = [], extracted_documents = [demo_document t],
     segmentation_jobs = [demo_seg_job], contract_sections = [], contract_clauses = [], embedding_jobs = []\<rparr>"

lemma demo_run_on: "run_on demo_seg_env ''w'' 5 (demo_seg_db t) (seg_claim ''w'' 5 demo_seg_job) (demo_document t)"
  by (simp add: run_on_def claimNextPendingClauseSegmentationJob_def demo_seg_db_def demo_seg_job_def
      findExtractedDocumentById_def find_row_def demo_document_def seg_claim_def demo_seg_env_def
      development_allowed_def)

lemmas pattern_defs = detectClauseNumberLine_def js_trim_def js_trim_start_def js_trim_end_def is_js_space_def
  isFalsePositiveLine_def DATE_LIKE_LINE_def AMOUNT_LIKE_LINE_def CONTRACT_NUMBER_LIKE_LINE_def rep_def rep_many_def
  lit_def is_digit_unit_def is_date_sep_def is_currency_def is_upper_unit_def ARTICLE_PATTERN_def
  PARAGRAPH_PATTERN_def CIRCLED_NUMBER_PATTERN_def NUMBERED_ITEM_PATTERN_def KOREAN_LETTER_ITEM_PATTERN_def
  non_empty_def at_gap_def Let_def

lemmas segment_eval = segment_def segment_body_def scan_lines.simps segment_start_def js_index_of_def Let_def
  scan_line_def js_slice_def open_match_def open_preamble_def closeCurrent_def js_trim_def js_trim_start_def
  js_trim_end_def is_js_space_def

lemma demo_heading_marker:
  "detectClauseNumberLine [51228, 49, 51312, 40, 47785, 51201, 41] =
     Some \<lparr>cm_clauseNumber = [51228, 49, 51312], cm_title = Some [47785, 51201], cm_depth = 0,
           cm_matchedLength = 7\<rparr>"
  by (simp add: pattern_defs)

lemma demo_item_marker:
  "detectClauseNumberLine [9312, 32, 44032] =
     Some \<lparr>cm_clauseNumber = [9312], cm_title = None, cm_depth = 1, cm_matchedLength = 1\<rparr>"
  by (simp add: pattern_defs)

theorem bodiless_article_fails_job_witness:
  "\<exists>db' j. processNextClauseSegmentationJob demo_seg_env ''w'' 5 (demo_seg_db (demo_heading @ 10 # demo_item)) =
      (Inr (Some ''j''), db') \<and>
    find_row (\<lambda>j. sj_id j = ''j'') (segmentation_jobs db') = Some j \<and>
    sj_status j = Seg_FAILED \<and> sj_errorCode j = Some INVALID_HIERARCHY"
proof -
  have b: "bodiless_article demo_heading demo_item"
    by (simp add: bodiless_article_def demo_heading_def demo_item_def demo_heading_marker demo_item_marker
        line_lead_def js_trim_def js_trim_start_def js_trim_end_def is_js_space_def)
  have s: "clauseSegmentationResultSchema (segment (demo_heading @ 10 # demo_item)) \<noteq> None"
    by (simp add: segment_eval demo_heading_def demo_item_def demo_heading_marker demo_item_marker
        clauseSegmentationResultSchema_def trimmed_upto_def asc_def)
  have t: "xd_text (demo_document (demo_heading @ 10 # demo_item)) = demo_heading @ 10 # demo_item @ []"
    "xd_text (demo_document (demo_heading @ 10 # demo_item)) = demo_heading @ 10 # demo_item"
    "sj_id (seg_claim ''w'' 5 demo_seg_job) = ''j''"
    by (simp_all add: demo_document_def seg_claim_def demo_seg_job_def)
  have s': "clauseSegmentationResultSchema (segment (xd_text (demo_document (demo_heading @ 10 # demo_item)))) \<noteq> None"
    unfolding t(2) by (rule s)
  have "[] = ([] :: jstring) \<or> hd [] = (10 :: nat)" by simp
  note failed = bodiless_article_fails_job [where h = demo_heading and s = demo_item and rest = "[]" and
      env = demo_seg_env and w = "''w''" and now = 5, OF demo_run_on t(1) this b s']
  from failed show ?thesis unfolding t(3) by blast
qed

lemma enqueue_one:
  "contract_clauses (snd (enqueueEmbeddingJob i now org c k db)) = contract_clauses db"
  "contract_sections (snd (enqueueEmbeddingJob i now org c k db)) = contract_sections db"
  "segmentation_jobs (snd (enqueueEmbeddingJob i now org c k db)) = segmentation_jobs db"
  "set (embedding_jobs db) \<subseteq> set (embedding_jobs (snd (enqueueEmbeddingJob i now org c k db)))"
  by (auto simp: enqueueEmbeddingJob_def)

lemma enqueue_step:
  "snd (enqueueEmbeddingJobsForClauses f g now ((i, org, t) # cs) n db) =
     snd (enqueueEmbeddingJobsForClauses f g now cs
       (if fst (enqueueEmbeddingJob (f i) now org i (g t) db) = None then n else n + 1)
       (snd (enqueueEmbeddingJob (f i) now org i (g t) db)))"
  by (simp split: prod.split option.split)

lemma enqueue_keeps:
  "contract_clauses (snd (enqueueEmbeddingJobsForClauses f g now cs n db)) = contract_clauses db \<and>
   contract_sections (snd (enqueueEmbeddingJobsForClauses f g now cs n db)) = contract_sections db \<and>
   segmentation_jobs (snd (enqueueEmbeddingJobsForClauses f g now cs n db)) = segmentation_jobs db \<and>
   set (embedding_jobs db) \<subseteq> set (embedding_jobs (snd (enqueueEmbeddingJobsForClauses f g now cs n db)))"
proof (induction cs arbitrary: n db)
  case (Cons c cs)
  obtain i org t where c: "c = (i, org, t)" by (cases c)
  show ?case
    unfolding c enqueue_step using Cons enqueue_one(4) [of db "f i" now org i "g t"]
    by (simp add: enqueue_one(1-3)) blast
qed simp

text \<open>The new ids collide with nothing: every clause ends up with a job for its text.\<close>

lemma enqueue_all:
  assumes "inj f" "\<And>i. f i \<notin> eb_id ` set (embedding_jobs db) \<or> i \<notin> fst ` set cs" "distinct (map fst cs)"
    and "(i, org, t) \<in> set cs"
  shows "\<exists>j \<in> set (embedding_jobs (snd (enqueueEmbeddingJobsForClauses f g now cs n db))).
    eb_sourceId j = i \<and> eb_inputChecksum j = g t"
  using assms(2-4)
proof (induction cs arbitrary: n db)
  case (Cons c cs)
  obtain i0 org0 t0 where c: "c = (i0, org0, t0)" by (cases c)
  let ?db1 = "snd (enqueueEmbeddingJob (f i0) now org0 i0 (g t0) db)"
  have first: "\<exists>j \<in> set (embedding_jobs ?db1). eb_sourceId j = i0 \<and> eb_inputChecksum j = g t0"
    using Cons.prems(1) [of i0] by (force simp: enqueueEmbeddingJob_def c)
  have ids: "eb_id ` set (embedding_jobs ?db1) \<subseteq> insert (f i0) (eb_id ` set (embedding_jobs db))"
    by (auto simp: enqueueEmbeddingJob_def)
  show ?case
  proof (cases "(i, org, t) = c")
    case True
    with first show ?thesis
      unfolding c enqueue_step using enqueue_keeps [of f g now cs _ ?db1] by blast
  next
    case False
    have "f q \<notin> eb_id ` set (embedding_jobs ?db1) \<or> q \<notin> fst ` set cs" for q
    proof (cases "q \<in> fst ` set cs")
      case True
      with Cons.prems(2) have "f q \<noteq> f i0" using assms(1) by (auto simp: c inj_eq)
      moreover have "f q \<notin> eb_id ` set (embedding_jobs db)" using Cons.prems(1) [of q] True by simp
      ultimately show ?thesis using ids by blast
    qed simp
    with Cons.IH [of ?db1] Cons.prems(2,3) False show ?thesis unfolding c enqueue_step by auto
  qed
qed simp

lemma store_rows:
  assumes "storeSegmentation now job ss cs ws db = Some db'"
  shows "contract_clauses db' = contract_clauses db @ cs" "contract_sections db' = contract_sections db @ ss"
    "segmentation_jobs db' = update_rows (\<lambda>j. sj_id j = sj_id job) (seg_review now ws) (segmentation_jobs db)"
    "embedding_jobs db' = embedding_jobs db"
    "distinct (map cr_id cs)" "cr_id ` set cs \<inter> cr_id ` set (contract_clauses db) = {}"
  using assms
  by (auto simp: storeSegmentation_def createContractSections_def createContractClauses_def Let_def
      updateClauseSegmentationJob_def split: option.splits if_splits)

text \<open>A run that leaves its job up for review has stored the checked result.\<close>

lemma run_stores:
  assumes r: "run_on env w now db job d"
    and run: "processNextClauseSegmentationJob env w now db = (Inr (Some i), db')"
    and j: "find_row (\<lambda>j. sj_id j = sj_id job) (segmentation_jobs db') = Some j" "sj_status j = Seg_REVIEW_REQUIRED"
  obtains res ss cs db1 db2 where "segmentation_result env (xd_text d) = Inr res"
    "(ss, cs) = segmentation_rows env job res (\<lambda>c. classify (cl_text c) (cl_title c) ALL_CLAUSE_TYPES)"
    "contract_clauses db1 = contract_clauses db" "contract_sections db1 = contract_sections db"
    "embedding_jobs db1 = embedding_jobs db"
    "storeSegmentation now job ss cs (sg_warnings res) db1 = Some db2"
    "db' = snd (enqueueEmbeddingJobsForClauses (se_embeddingJobId env) (se_clauseChecksum env)
       now (map (\<lambda>c. (cr_id c, cr_organizationId c, cr_normalizedText c)) cs) 0 db2)"
proof (cases "segmentation_result env (xd_text d)")
  case (Inl code)
  from run_fails [OF r this] run j show thesis by auto
next
  case (Inr res)
  obtain db1 where c: "claimNextPendingClauseSegmentationJob w now db = (Some job, db1)"
    using r by (metis prod.collapse run_on_def)
  note same = seg_claim_row [OF c]
  obtain ss cs where rows: "(ss, cs) = segmentation_rows env job res (\<lambda>c. classify (cl_text c) (cl_title c) ALL_CLAUSE_TYPES)"
    by (metis prod.collapse)
  have docs: "extracted_documents db1 = extracted_documents db" using same by blast
  have "runClaimedSegmentationJob env now job db1 =
      (case storeSegmentation now job ss cs (sg_warnings res) db1 of
         None \<Rightarrow> (False, db1)
       | Some db2 \<Rightarrow> (True, snd (enqueueEmbeddingJobsForClauses (se_embeddingJobId env) (se_clauseChecksum env)
           now (map (\<lambda>c. (cr_id c, cr_organizationId c, cr_normalizedText c)) cs) 0 db2)))"
    using r Inr docs
    by (simp add: runClaimedSegmentationJob_def run_on_def findExtractedDocumentById_def getClauseClassifier_def
        rows [symmetric])
  with run c obtain db2 where "storeSegmentation now job ss cs (sg_warnings res) db1 = Some db2"
    "db' = snd (enqueueEmbeddingJobsForClauses (se_embeddingJobId env) (se_clauseChecksum env)
       now (map (\<lambda>c. (cr_id c, cr_organizationId c, cr_normalizedText c)) cs) 0 db2)"
    by (auto simp: processNextClauseSegmentationJob_def split: option.splits)
  with Inr rows same that show thesis by blast
qed

lemma stored_clause_rows:
  assumes "segmentation_result env text = Inr res" "development_allowed env"
    and "(ss, cs) = segmentation_rows env job res classification"
  obtains g where "cs = map g (sg_clauses (segment text))"
    "\<forall>c. cr_id (g c) = se_clauseId env (cl_orderIndex c) \<and> cr_segmentationJobId (g c) = sj_id job \<and>
      cr_startOffset (g c) = cl_startOffset c \<and> cr_endOffset (g c) = cl_endOffset c \<and>
      cr_text (g c) = cl_text c \<and> cr_normalizedText (g c) = se_normalizeClauseText env (cl_text c) \<and>
      cr_orderIndex (g c) = cl_orderIndex c \<and> cr_classificationState (g c) = UNREVIEWED"
    "\<forall>c \<in> set (sg_clauses (segment text)). \<forall>p. cr_parentClauseId (g c) = Some p \<longrightarrow>
      (\<exists>q \<in> set (sg_clauses (segment text)). cl_parentOrderIndex c = Some (cl_orderIndex q) \<and>
         cr_id (g q) = p)"
proof -
  let ?t = "\<lambda>c. c\<lparr>cl_clauseNumber := map_option js_trim (cl_clauseNumber c),
                       cl_title := map_option js_trim (cl_title c)\<rparr>"
  have "clauseSegmentationResultSchema (segment text) = Some res"
    using assms(1,2) by (auto simp: segmentation_result_cases split: option.splits if_splits)
  then have res: "sg_clauses res = map ?t (sg_clauses (segment text))"
    by (auto simp: clauseSegmentationResultSchema_def split: if_splits)
  then have idx: "cl_orderIndex ` set (sg_clauses res) = cl_orderIndex ` set (sg_clauses (segment text))"
    by (simp add: image_image)
  let ?default = "case sg_sections res of [] \<Rightarrow> None | s # _ \<Rightarrow> Some (se_sectionId env (se_orderIndex s))"
  let ?g = "\<lambda>c. clause_row_of env job (cl_orderIndex ` set (sg_clauses (segment text))) ?default
      classification (?t c)"
  have "cs = map ?g (sg_clauses (segment text))"
    using assms(3) by (simp add: segmentation_rows_def Let_def res image_image)
  then show thesis
    by (rule that) (auto simp: clause_row_of_def split: option.splits if_splits)
qed


lemma demo_run:
  "\<exists>db' j. processNextClauseSegmentationJob demo_seg_env ''w'' 5 (demo_seg_db [44032]) = (Inr (Some ''j''), db') \<and>
    find_row (\<lambda>j. sj_id j = ''j'') (segmentation_jobs db') = Some j \<and> sj_status j = Seg_REVIEW_REQUIRED"
proof -
  have none: "detectClauseNumberLine [44032] = None" by (simp add: pattern_defs)
  have seg: "segment [44032] =
    \<lparr>sg_sections = [\<lparr>se_title = Some [48376, 47928], se_sectionType = Some (asc ''BODY''), se_text = [44032],
             se_orderIndex = 0, se_startOffset = 0, se_endOffset = 1\<rparr>],
     sg_clauses = [\<lparr>cl_clauseNumber = None, cl_title = None, cl_text = [44032], cl_orderIndex = 0, cl_depth = 0,
      cl_startOffset = 0, cl_endOffset = 1, cl_parentOrderIndex = None\<rparr>], sg_warnings = []\<rparr>"
    by (simp add: segment_eval none)
  have "hierarchy_valid (segment [44032])"
    by (simp add: seg hierarchy_valid_def Let_def node_of_def isValidParentReference_def hasHierarchyCycle_def
        parentByIndex_def)
  then obtain res where res: "segmentation_result demo_seg_env [44032] = Inr res" "length (sg_sections res) = 1"
    "length (sg_clauses res) = 1"
    by (simp add: segmentation_result_cases development_allowed_def demo_seg_env_def
        clauseSegmentationResultSchema_def seg trimmed_upto_def asc_def js_trim_def js_trim_start_def
        js_trim_end_def is_js_space_def)
  obtain se cl where one: "sg_sections res = [se]" "sg_clauses res = [cl]"
    using res(2,3) by (auto simp: length_Suc_conv)
  have doc: "xd_text (demo_document [44032]) = [44032]" "xd_contentChecksum (demo_document [44032]) = ''sum''"
    "xd_id (demo_document [44032]) = ''d''" "xd_organizationId (demo_document [44032]) = ''o''"
    "xd_contractId (demo_document [44032]) = ''k''"
    by (simp_all add: demo_document_def)
  have env: "se_computeChecksum demo_seg_env t = ''sum''" "getClauseClassifier demo_seg_env = Some classify" for t
    by (simp_all add: demo_seg_env_def getClauseClassifier_def development_allowed_def)
  show ?thesis
    by (simp add: processNextClauseSegmentationJob_def claimNextPendingClauseSegmentationJob_def demo_seg_db_def
        demo_seg_job_def runClaimedSegmentationJob_def findExtractedDocumentById_def find_row_def doc seg_claim_def
        env res(1) segmentation_rows_def Let_def one storeSegmentation_def createContractSections_def
        createContractClauses_def updateClauseSegmentationJob_def update_rows_def seg_review_def
        clause_row_of_def enqueueEmbeddingJob_def audit_seg_def audit_def)
qed


end
