(* ===== verification/EmbeddingJobs.thy ===== *)
theory EmbeddingJobs
  imports Resilience Budget SegmentationJobs
begin

text \<open>
  Embedding of clauses and of document chunks, composed with the AI budget: the two queues, the
  worker of \<^verbatim>\<open>process-embedding-job.ts\<close> and \<^verbatim>\<open>process-document-chunk-embedding-job.ts\<close>, stale
  recovery, the scan for stale embeddings, and the versioned embedding tables. The two pipelines
  run the same code on tables of the same shape, so the worker is stated once over an
  \<open>embedding_store\<close> (the queue, the embeddings and the usage log) and each pipeline runs it on its
  own tables. The embedding provider, the hash of the canary buckets and the text checksum are
  parameters; a run happens at one instant.
\<close>

section \<open>Rows\<close>

record organization_row =
  og_id :: string
  og_aiEnabled :: bool
  og_allowExternalAiProcessing :: bool
  og_limits :: ai_limits

text \<open>A component of a vector is a number, \<open>None\<close> a \<open>NaN\<close> or an infinity.\<close>

type_synonym vector = "real option list"

record embedding_row =
  em_id :: string
  em_organizationId :: string
  em_sourceId :: string
  em_provider :: string
  em_model :: string
  em_dimension :: nat
  em_vector :: vector
  em_vectorNative :: "vector option"
  em_checksum :: string
  em_embeddingVersion :: nat
  em_isLatest :: bool

record chunk_row =
  dk_id :: string
  dk_organizationId :: string
  dk_contractId :: string
  dk_extractedDocumentId :: string
  dk_chunkIndex :: nat
  dk_text :: jstring
  dk_normalizedText :: jstring
  dk_tokenCount :: nat
  dk_startOffset :: nat
  dk_endOffset :: nat
  dk_headingContext :: "jstring option"
  dk_chunkerVersion :: string

record usage_row =
  us_organizationId :: string
  us_provider :: string
  us_model :: string
  us_embeddingTokens :: "nat option"
  us_estimatedCostMinor :: "nat option"
  us_success :: bool
  us_errorCode :: "embedding_error option"
  us_canaryUsed :: bool

record ai_db = segmentation_db +
  organizations :: "organization_row list"
  clause_embeddings :: "embedding_row list"
  document_chunks :: "chunk_row list"
  chunk_embeddings :: "embedding_row list"
  chunk_jobs :: "embedding_job list"
  ai_usage :: "usage_row list"

record embedding_store =
  es_jobs :: "embedding_job list"
  es_embeddings :: "embedding_row list"
  es_usage :: "usage_row list"

section \<open>The embedding tables\<close>

definition VECTOR_NATIVE_DIMENSION :: nat where
  "VECTOR_NATIVE_DIMENSION = 256"

definition isFiniteVector :: "vector \<Rightarrow> bool" where
  "isFiniteVector v = list_all (\<lambda>x. x \<noteq> None) v"

text \<open>\<open>False\<close> is the thrown \<open>InvalidVectorError\<close>.\<close>

definition assertValidNativeVector :: "vector \<Rightarrow> nat \<Rightarrow> bool" where
  "assertValidNativeVector v expectedDimension =
     (if length v \<noteq> expectedDimension then False else if \<not> isFiniteVector v then False else True)"

definition setNativeVector :: "string \<Rightarrow> vector \<Rightarrow> embedding_row list \<Rightarrow> embedding_row list option" where
  "setNativeVector i v rows =
     (if \<not> assertValidNativeVector v VECTOR_NATIVE_DIMENSION then None
      else Some (update_rows (\<lambda>r. em_id r = i \<and> em_isLatest r) (\<lambda>r. r\<lparr>em_vectorNative := Some v\<rparr>) rows))"

definition findLatestEmbedding :: "string \<Rightarrow> embedding_row list \<Rightarrow> embedding_row option" where
  "findLatestEmbedding sourceId rows = find_row (\<lambda>r. em_sourceId r = sourceId \<and> em_isLatest r) rows"

text \<open>One transaction; \<open>None\<close> when it throws (a taken id or version, an invalid native vector), and
  then nothing of it stays.\<close>

definition createLatestEmbedding ::
  "string \<Rightarrow> string \<Rightarrow> string \<Rightarrow> string \<Rightarrow> string \<Rightarrow> nat \<Rightarrow> vector \<Rightarrow> string \<Rightarrow>
   embedding_row list \<Rightarrow> embedding_row list option"
where
  "createLatestEmbedding newId org sourceId provider model dimension v checksum rows =
     (let previousLatest = findLatestEmbedding sourceId rows;
          rows1 = (case previousLatest of None \<Rightarrow> rows
                   | Some p \<Rightarrow> update_rows (\<lambda>r. em_id r = em_id p) (\<lambda>r. r\<lparr>em_isLatest := False\<rparr>) rows);
          version = (case previousLatest of None \<Rightarrow> 0 | Some p \<Rightarrow> em_embeddingVersion p) + 1;
          rows2 = rows1 @ [\<lparr>em_id = newId, em_organizationId = org, em_sourceId = sourceId,
                     em_provider = provider, em_model = model, em_dimension = dimension, em_vector = v,
                     em_vectorNative = None, em_checksum = checksum, em_embeddingVersion = version,
                     em_isLatest = True\<rparr>]
      in if \<exists>r \<in> set rows1. em_id r = newId \<or> (em_sourceId r = sourceId \<and> em_embeddingVersion r = version)
         then None
         else if dimension = VECTOR_NATIVE_DIMENSION then setNativeVector newId v rows2
         else Some rows2)"

section \<open>The queue\<close>

definition eb_claim :: "string \<Rightarrow> time_ms \<Rightarrow> embedding_job \<Rightarrow> embedding_job" where
  "eb_claim workerId now j =
     j\<lparr>eb_status := Emb_PROCESSING, eb_startedAt := Some now, eb_attempt := eb_attempt j + 1,
       eb_lockedAt := Some now, eb_lockedBy := Some workerId\<rparr>"

definition claimNextPendingEmbeddingJob ::
  "string \<Rightarrow> time_ms \<Rightarrow> embedding_job list \<Rightarrow> embedding_job option \<times> embedding_job list" where
  "claimNextPendingEmbeddingJob workerId now jobs =
     (case oldest_row (\<lambda>j. eb_status j = Emb_PENDING) eb_createdAt jobs of
        None \<Rightarrow> (None, jobs)
      | Some j \<Rightarrow> (Some (eb_claim workerId now j),
                   update_rows (\<lambda>q. eb_id q = eb_id j) (eb_claim workerId now) jobs))"

definition updateEmbeddingJob ::
  "string \<Rightarrow> (embedding_job \<Rightarrow> embedding_job) \<Rightarrow> embedding_job list \<Rightarrow> embedding_job list option" where
  "updateEmbeddingJob jobId f jobs =
     (if \<exists>j \<in> set jobs. eb_id j = jobId then Some (update_rows (\<lambda>j. eb_id j = jobId) f jobs) else None)"

definition eb_reset :: "embedding_job \<Rightarrow> embedding_job" where
  "eb_reset j = j\<lparr>eb_status := Emb_PENDING, eb_errorCode := None, eb_failedAt := None,
     eb_lockedAt := None, eb_lockedBy := None\<rparr>"

definition resetEmbeddingJobToPending :: "string \<Rightarrow> embedding_job list \<Rightarrow> embedding_job list option" where
  "resetEmbeddingJobToPending jobId jobs = updateEmbeddingJob jobId eb_reset jobs"

definition findStaleProcessingEmbeddingJobs :: "time_ms \<Rightarrow> embedding_job list \<Rightarrow> embedding_job list" where
  "findStaleProcessingEmbeddingJobs staleBefore jobs =
     filter (\<lambda>j. eb_status j = Emb_PROCESSING \<and>
       (case eb_lockedAt j of None \<Rightarrow> False | Some t \<Rightarrow> t \<le> staleBefore)) jobs"

section \<open>Choosing the provider\<close>

record embedding_result =
  er_dimension :: nat
  er_vector :: vector
  er_inputTokens :: "nat option"

text \<open>\<open>ep_generateEmbedding\<close> gives \<open>None\<close> when the call throws.\<close>

record embedding_provider =
  ep_providerName :: string
  ep_modelName :: string
  ep_generateEmbedding :: "jstring \<Rightarrow> embedding_result option"

text \<open>What a run finds around it. \<open>ee_primary\<close> is \<open>None\<close> when the factory throws (an incomplete
  configuration); \<open>ee_canary\<close> is \<open>Some None\<close> when no canary is configured. The last three say
  whether the counter's store (Redis) fails at that call.\<close>

record embedding_env =
  ee_primary :: "embedding_provider option"
  ee_canary :: "embedding_provider option option"
  ee_canaryEnabled :: bool
  ee_canaryPercentage :: real
  ee_sha :: "string \<Rightarrow> nat"
  ee_checksum :: "jstring \<Rightarrow> string"
  ee_pricing :: "string \<rightharpoonup> model_pricing"
  ee_reserveThrows :: bool
  ee_settleThrows :: bool
  ee_releaseThrows :: bool

definition AI_DEVELOPMENT_PROVIDER_NAME :: string where
  "AI_DEVELOPMENT_PROVIDER_NAME = ''development''"

datatype policy_error = AiDisabledError | ExternalAiProcessingDisabledError

definition assertOrganizationAiPolicy :: "organization_row \<Rightarrow> string \<Rightarrow> policy_error option" where
  "assertOrganizationAiPolicy policy provider =
     (if \<not> og_aiEnabled policy then Some AiDisabledError
      else if provider = AI_DEVELOPMENT_PROVIDER_NAME then None
      else if \<not> og_allowExternalAiProcessing policy then Some ExternalAiProcessingDisabledError
      else None)"

text \<open>\<open>Inl (Some e)\<close> is a thrown policy error, \<open>Inl None\<close> any other thrown error.\<close>

definition getEmbeddingProviderForOrganization ::
  "embedding_env \<Rightarrow> organization_row \<Rightarrow> policy_error option + embedding_provider \<times> provider_group" where
  "getEmbeddingProviderForOrganization penv org =
     (case ee_canary penv of
        None \<Rightarrow> Inl None
      | Some canary \<Rightarrow>
          let grp = selectProviderGroup (ee_sha penv) (og_id org) (ee_canaryEnabled penv)
                      (ee_canaryPercentage penv) (canary \<noteq> None)
          in (case (if grp = Canary_Group \<and> canary \<noteq> None then canary else ee_primary penv) of
                None \<Rightarrow> Inl None
              | Some provider \<Rightarrow>
                  (case assertOrganizationAiPolicy org (ep_providerName provider) of
                     Some e \<Rightarrow> Inl (Some e)
                   | None \<Rightarrow> Inr (provider, grp))))"

section \<open>The worker\<close>

text \<open>\<open>Math.ceil(text.length / 4)\<close>.\<close>

definition estimate_tokens :: "jstring \<Rightarrow> nat" where
  "estimate_tokens s = (length s + 3) div 4"

definition embedding_cost :: "embedding_env \<Rightarrow> embedding_provider \<Rightarrow> nat \<Rightarrow> nat option" where
  "embedding_cost penv provider tokens =
     estimateAiCostMinor (ee_pricing penv) (ep_providerName provider) (ep_modelName provider) 0 0 tokens"

definition eb_fail :: "time_ms \<Rightarrow> embedding_error \<Rightarrow> embedding_job \<Rightarrow> embedding_job" where
  "eb_fail now code j = j\<lparr>eb_status := Emb_FAILED, eb_failedAt := Some now, eb_errorCode := Some code\<rparr>"

definition eb_complete :: "time_ms \<Rightarrow> embedding_provider \<Rightarrow> embedding_job \<Rightarrow> embedding_job" where
  "eb_complete now provider j =
     j\<lparr>eb_status := Emb_COMPLETED, eb_completedAt := Some now, eb_provider := Some (ep_providerName provider),
       eb_model := Some (ep_modelName provider), eb_lockedAt := None, eb_lockedBy := None\<rparr>"

definition eb_retry :: "embedding_job \<Rightarrow> embedding_job" where
  "eb_retry j = j\<lparr>eb_status := Emb_PENDING, eb_errorCode := Some EMB_PROVIDER_ERROR,
     eb_lockedAt := None, eb_lockedBy := None\<rparr>"

text \<open>An update of the job in the store; the flag is \<open>False\<close> when it throws.\<close>

definition store_update_job ::
  "string \<Rightarrow> (embedding_job \<Rightarrow> embedding_job) \<Rightarrow> embedding_store \<Rightarrow> bool \<times> embedding_store" where
  "store_update_job jobId f st =
     (case updateEmbeddingJob jobId f (es_jobs st) of
        None \<Rightarrow> (False, st)
      | Some jobs \<Rightarrow> (True, st\<lparr>es_jobs := jobs\<rparr>))"

definition recordAiUsageBestEffort :: "usage_row \<Rightarrow> embedding_store \<Rightarrow> embedding_store" where
  "recordAiUsageBestEffort row st = st\<lparr>es_usage := es_usage st @ [row]\<rparr>"

text \<open>The body of the \<open>try\<close>: what it leaves behind, and whether it ran to its end.\<close>

definition embed_and_settle ::
  "'s counter_ops \<Rightarrow> embedding_env \<Rightarrow> utc_instant \<Rightarrow> string \<Rightarrow> embedding_job \<Rightarrow> string \<Rightarrow> jstring \<Rightarrow>
   embedding_provider \<Rightarrow> provider_group \<Rightarrow> ai_reservation \<Rightarrow> embedding_store \<Rightarrow> 's \<Rightarrow>
   bool \<times> embedding_store \<times> 's"
where
  "embed_and_settle ops penv now newId job org normalizedText provider grp reservation st s =
     (case ep_generateEmbedding provider normalizedText of
        None \<Rightarrow> (False, st, s)
      | Some answer \<Rightarrow>
          (case createLatestEmbedding newId org (eb_sourceId job) (ep_providerName provider)
                  (ep_modelName provider) (er_dimension answer) (er_vector answer)
                  (ee_checksum penv normalizedText) (es_embeddings st) of
             None \<Rightarrow> (False, st, s)
           | Some rows \<Rightarrow>
               let st1 = st\<lparr>es_embeddings := rows\<rparr>;
                   (updated, st2) = store_update_job (eb_id job) (eb_complete (at_ms now) provider) st1;
                   actualTokens = (case er_inputTokens answer of None \<Rightarrow> estimate_tokens normalizedText | Some n \<Rightarrow> n);
                   actualCost = embedding_cost penv provider actualTokens
               in if \<not> updated then (False, st2, s)
                  else if ee_settleThrows penv then (False, st2, s)
                  else (case settleAiBudget ops (at_ms now) reservation actualCost s of
                          None \<Rightarrow> (False, st2, s)
                        | Some s' \<Rightarrow>
                            (True, recordAiUsageBestEffort
                               \<lparr>us_organizationId = org, us_provider = ep_providerName provider,
                                us_model = ep_modelName provider, us_embeddingTokens = Some actualTokens,
                                us_estimatedCostMinor = actualCost, us_success = True, us_errorCode = None,
                                us_canaryUsed = (grp = Canary_Group)\<rparr> st2, s'))))"

text \<open>The \<open>catch\<close>.\<close>

definition give_back ::
  "'s counter_ops \<Rightarrow> embedding_env \<Rightarrow> utc_instant \<Rightarrow> embedding_job \<Rightarrow> string \<Rightarrow> embedding_provider \<Rightarrow>
   provider_group \<Rightarrow> ai_reservation \<Rightarrow> embedding_store \<Rightarrow> 's \<Rightarrow> bool \<times> embedding_store \<times> 's"
where
  "give_back ops penv now job org provider grp reservation st s =
     (if ee_releaseThrows penv then (False, st, s)
      else
        let s' = releaseAiBudget ops (at_ms now) reservation s;
            st1 = recordAiUsageBestEffort
                    \<lparr>us_organizationId = org, us_provider = ep_providerName provider,
                     us_model = ep_modelName provider, us_embeddingTokens = None,
                     us_estimatedCostMinor = None, us_success = False,
                     us_errorCode = Some EMB_PROVIDER_ERROR, us_canaryUsed = (grp = Canary_Group)\<rparr> st;
            (updated, st2) = store_update_job (eb_id job)
              (if eb_attempt job \<ge> eb_maxAttempts job then eb_fail (at_ms now) EMB_MAX_ATTEMPTS_REACHED else eb_retry) st1
        in (updated, st2, s'))"

definition runClaimedEmbeddingJob ::
  "'s counter_ops \<Rightarrow> embedding_env \<Rightarrow> (string \<Rightarrow> (jstring \<times> string) option) \<Rightarrow> organization_row list \<Rightarrow>
   utc_instant \<Rightarrow> string \<Rightarrow> embedding_job \<Rightarrow> embedding_store \<Rightarrow> 's \<Rightarrow> bool \<times> embedding_store \<times> 's"
where
  "runClaimedEmbeddingJob ops penv source_of orgs now newId job st s =
     (let give_up = (\<lambda>code s'. let (updated, st') = store_update_job (eb_id job) (eb_fail (at_ms now) code) st
                               in (updated, st', s')) in
      case source_of (eb_sourceId job) of
        None \<Rightarrow> give_up EMB_CLAUSE_NOT_FOUND s
      | Some (normalizedText, orgId) \<Rightarrow>
          (case find_row (\<lambda>o1. og_id o1 = orgId) orgs of
             None \<Rightarrow> (False, st, s)
           | Some org \<Rightarrow>
               (case getEmbeddingProviderForOrganization penv org of
                  Inl (Some policyError) \<Rightarrow> give_up EMB_AI_POLICY_DISABLED s
                | Inl None \<Rightarrow> (False, st, s)
                | Inr (provider, grp) \<Rightarrow>
                    let costEstimate = embedding_cost penv provider (estimate_tokens normalizedText);
                        maxCost = (case costEstimate of None \<Rightarrow> 0 | Some c \<Rightarrow> c)
                    in if ee_reserveThrows penv then (False, st, s)
                       else (case reserveAiBudget ops now orgId (og_limits org) maxCost s of
                               (UnsafeAmount, s1) \<Rightarrow> (False, st, s1)
                             | (BudgetRejected, s1) \<Rightarrow> give_up EMB_BUDGET_EXCEEDED s1
                             | (Reserved reservation, s1) \<Rightarrow>
                                 (case embed_and_settle ops penv now newId job orgId normalizedText
                                         provider grp reservation st s1 of
                                    (True, st', s') \<Rightarrow> (True, st', s')
                                  | (False, st', s') \<Rightarrow>
                                      give_back ops penv now job orgId provider grp reservation st' s')))))"

text \<open>\<open>Inl\<close> when the worker throws; otherwise the id of the processed job, if there was one.\<close>

definition embedding_worker ::
  "'s counter_ops \<Rightarrow> embedding_env \<Rightarrow> (string \<Rightarrow> (jstring \<times> string) option) \<Rightarrow> organization_row list \<Rightarrow>
   string \<Rightarrow> utc_instant \<Rightarrow> string \<Rightarrow> embedding_store \<Rightarrow> 's \<Rightarrow>
   (app_error + string option) \<times> embedding_store \<times> 's"
where
  "embedding_worker ops penv source_of orgs workerId now newId st s =
     (case claimNextPendingEmbeddingJob workerId (at_ms now) (es_jobs st) of
        (None, _) \<Rightarrow> (Inr None, st, s)
      | (Some job, jobs) \<Rightarrow>
          (let (returned, st', s') =
             runClaimedEmbeddingJob ops penv source_of orgs now newId job (st\<lparr>es_jobs := jobs\<rparr>) s
           in (if returned then Inr (Some (eb_id job)) else Inl UnexpectedError, st', s')))"

section \<open>Recovery of stale jobs\<close>

definition eb_give_up :: "time_ms \<Rightarrow> embedding_job \<Rightarrow> embedding_job" where
  "eb_give_up now j = j\<lparr>eb_status := Emb_FAILED, eb_failedAt := Some now,
     eb_errorCode := Some EMB_MAX_ATTEMPTS_REACHED, eb_lockedAt := None, eb_lockedBy := None\<rparr>"

definition recoverStaleEmbeddingJob :: "time_ms \<Rightarrow> embedding_job \<Rightarrow> embedding_job list \<Rightarrow> embedding_job list option" where
  "recoverStaleEmbeddingJob now job jobs =
     (if eb_attempt job < eb_maxAttempts job then resetEmbeddingJobToPending (eb_id job) jobs
      else updateEmbeddingJob (eb_id job) (eb_give_up now) jobs)"

fun recover_embedding_loop :: "time_ms \<Rightarrow> embedding_job list \<Rightarrow> embedding_job list \<Rightarrow> bool \<times> embedding_job list" where
  "recover_embedding_loop now [] jobs = (True, jobs)"
| "recover_embedding_loop now (job # rest) jobs =
     (case recoverStaleEmbeddingJob now job jobs of
        None \<Rightarrow> (False, jobs)
      | Some jobs' \<Rightarrow> recover_embedding_loop now rest jobs')"

definition recoverStaleEmbeddingJobs :: "time_ms \<Rightarrow> int \<Rightarrow> 'x ai_db_scheme \<Rightarrow> bool \<times> 'x ai_db_scheme" where
  "recoverStaleEmbeddingJobs now staleMinutes db =
     (let staleJobs = findStaleProcessingEmbeddingJobs (now - staleMinutes * 60 * 1000) (embedding_jobs db);
          (returned, jobs) = recover_embedding_loop now staleJobs (embedding_jobs db)
      in (returned, db\<lparr>embedding_jobs := jobs\<rparr>))"

section \<open>The two pipelines\<close>

definition clause_source :: "'x ai_db_scheme \<Rightarrow> string \<Rightarrow> (jstring \<times> string) option" where
  "clause_source db i = map_option (\<lambda>c. (cr_normalizedText c, cr_organizationId c))
     (find_row (\<lambda>c. cr_id c = i) (contract_clauses db))"

definition chunk_source :: "'x ai_db_scheme \<Rightarrow> string \<Rightarrow> (jstring \<times> string) option" where
  "chunk_source db i = map_option (\<lambda>c. (dk_normalizedText c, dk_organizationId c))
     (find_row (\<lambda>c. dk_id c = i) (document_chunks db))"

definition processNextEmbeddingJob ::
  "'s counter_ops \<Rightarrow> embedding_env \<Rightarrow> string \<Rightarrow> utc_instant \<Rightarrow> string \<Rightarrow> 'x ai_db_scheme \<Rightarrow> 's \<Rightarrow>
   (app_error + string option) \<times> 'x ai_db_scheme \<times> 's"
where
  "processNextEmbeddingJob ops penv workerId now newId db s =
     (let (r, st, s') = embedding_worker ops penv (clause_source db) (organizations db) workerId now newId
            \<lparr>es_jobs = embedding_jobs db, es_embeddings = clause_embeddings db, es_usage = ai_usage db\<rparr> s
      in (r, db\<lparr>embedding_jobs := es_jobs st, clause_embeddings := es_embeddings st, ai_usage := es_usage st\<rparr>, s'))"

definition processNextChunkEmbeddingJob ::
  "'s counter_ops \<Rightarrow> embedding_env \<Rightarrow> string \<Rightarrow> utc_instant \<Rightarrow> string \<Rightarrow> 'x ai_db_scheme \<Rightarrow> 's \<Rightarrow>
   (app_error + string option) \<times> 'x ai_db_scheme \<times> 's"
where
  "processNextChunkEmbeddingJob ops penv workerId now newId db s =
     (let (r, st, s') = embedding_worker ops penv (chunk_source db) (organizations db) workerId now newId
            \<lparr>es_jobs = chunk_jobs db, es_embeddings = chunk_embeddings db, es_usage = ai_usage db\<rparr> s
      in (r, db\<lparr>chunk_jobs := es_jobs st, chunk_embeddings := es_embeddings st, ai_usage := es_usage st\<rparr>, s'))"

text \<open>Queueing: a second job for the same text of the same source is silently left out.\<close>

definition new_embedding_job :: "string \<Rightarrow> time_ms \<Rightarrow> string \<Rightarrow> string \<Rightarrow> string \<Rightarrow> embedding_job" where
  "new_embedding_job newId now org sourceId checksum =
     \<lparr>eb_id = newId, eb_organizationId = org, eb_sourceId = sourceId, eb_status = Emb_PENDING,
      eb_attempt = 0, eb_maxAttempts = 3, eb_inputChecksum = checksum, eb_provider = None,
      eb_model = None, eb_lockedAt = None, eb_lockedBy = None, eb_startedAt = None,
      eb_completedAt = None, eb_failedAt = None, eb_errorCode = None, eb_createdAt = now\<rparr>"

definition enqueueChunkEmbeddingJob ::
  "string \<Rightarrow> time_ms \<Rightarrow> string \<Rightarrow> string \<Rightarrow> string \<Rightarrow> 'x ai_db_scheme \<Rightarrow> string option \<times> 'x ai_db_scheme" where
  "enqueueChunkEmbeddingJob newId now org chunkId checksum db =
     (if \<exists>j \<in> set (chunk_jobs db). eb_id j = newId \<or> (eb_sourceId j = chunkId \<and> eb_inputChecksum j = checksum)
      then (None, db)
      else (Some newId, db\<lparr>chunk_jobs := chunk_jobs db @ [new_embedding_job newId now org chunkId checksum]\<rparr>))"

fun enqueueEmbeddingJobsForChunks ::
  "(string \<Rightarrow> string) \<Rightarrow> (jstring \<Rightarrow> string) \<Rightarrow> time_ms \<Rightarrow> (string \<times> string \<times> jstring) list \<Rightarrow> nat \<Rightarrow>
   'x ai_db_scheme \<Rightarrow> nat \<times> 'x ai_db_scheme"
where
  "enqueueEmbeddingJobsForChunks new_id digest now [] enqueued db = (enqueued, db)"
| "enqueueEmbeddingJobsForChunks new_id digest now ((i, org, normalizedText) # cs) enqueued db =
     (case enqueueChunkEmbeddingJob (new_id i) now org i (digest normalizedText) db of
        (None, db1) \<Rightarrow> enqueueEmbeddingJobsForChunks new_id digest now cs enqueued db1
      | (Some _, db1) \<Rightarrow> enqueueEmbeddingJobsForChunks new_id digest now cs (enqueued + 1) db1)"

text \<open>The scans for stale embeddings: an optional organization, the rows found at the start, and one
  row after the other.\<close>

fun scan_clauses ::
  "(string \<Rightarrow> string) \<Rightarrow> (jstring \<Rightarrow> string) \<Rightarrow> time_ms \<Rightarrow> clause_row list \<Rightarrow> nat \<Rightarrow> 'x ai_db_scheme \<Rightarrow>
   nat \<times> 'x ai_db_scheme"
where
  "scan_clauses new_id digest now [] enqueued db = (enqueued, db)"
| "scan_clauses new_id digest now (c # cs) enqueued db =
     (let currentChecksum = digest (cr_normalizedText c);
          latest = findLatestEmbedding (cr_id c) (clause_embeddings db)
      in if latest \<noteq> None \<and> em_checksum (the latest) = currentChecksum
         then scan_clauses new_id digest now cs enqueued db
         else case enqueueEmbeddingJob (new_id (cr_id c)) now (cr_organizationId c) (cr_id c) currentChecksum db of
                (None, db1) \<Rightarrow> scan_clauses new_id digest now cs enqueued db1
              | (Some _, db1) \<Rightarrow> scan_clauses new_id digest now cs (enqueued + 1) db1)"

definition scanAndEnqueueStaleClauseEmbeddings ::
  "(string \<Rightarrow> string) \<Rightarrow> (jstring \<Rightarrow> string) \<Rightarrow> time_ms \<Rightarrow> string option \<Rightarrow> 'x ai_db_scheme \<Rightarrow>
   (nat \<times> nat) \<times> 'x ai_db_scheme"
where
  "scanAndEnqueueStaleClauseEmbeddings new_id digest now organizationId db =
     (let clauses = (case organizationId of None \<Rightarrow> contract_clauses db
                     | Some org \<Rightarrow> filter (\<lambda>c. cr_organizationId c = org) (contract_clauses db));
          (enqueued, db') = scan_clauses new_id digest now clauses 0 db
      in ((length clauses, enqueued), db'))"

fun scan_chunks ::
  "(string \<Rightarrow> string) \<Rightarrow> (jstring \<Rightarrow> string) \<Rightarrow> time_ms \<Rightarrow> chunk_row list \<Rightarrow> nat \<Rightarrow> 'x ai_db_scheme \<Rightarrow>
   nat \<times> 'x ai_db_scheme"
where
  "scan_chunks new_id digest now [] enqueued db = (enqueued, db)"
| "scan_chunks new_id digest now (c # cs) enqueued db =
     (let currentChecksum = digest (dk_normalizedText c);
          latest = findLatestEmbedding (dk_id c) (chunk_embeddings db)
      in if latest \<noteq> None \<and> em_checksum (the latest) = currentChecksum
         then scan_chunks new_id digest now cs enqueued db
         else case enqueueChunkEmbeddingJob (new_id (dk_id c)) now (dk_organizationId c) (dk_id c) currentChecksum db of
                (None, db1) \<Rightarrow> scan_chunks new_id digest now cs enqueued db1
              | (Some _, db1) \<Rightarrow> scan_chunks new_id digest now cs (enqueued + 1) db1)"

definition scanAndEnqueueStaleChunkEmbeddings ::
  "(string \<Rightarrow> string) \<Rightarrow> (jstring \<Rightarrow> string) \<Rightarrow> time_ms \<Rightarrow> string option \<Rightarrow> 'x ai_db_scheme \<Rightarrow>
   (nat \<times> nat) \<times> 'x ai_db_scheme"
where
  "scanAndEnqueueStaleChunkEmbeddings new_id digest now organizationId db =
     (let chunks = (case organizationId of None \<Rightarrow> document_chunks db
                    | Some org \<Rightarrow> filter (\<lambda>c. dk_organizationId c = org) (document_chunks db));
          (enqueued, db') = scan_chunks new_id digest now chunks 0 db
      in ((length chunks, enqueued), db'))"

end
