(* ===== verification/EmbeddingLaws.thy ===== *)
theory EmbeddingLaws
  imports EmbeddingJobs
begin

text \<open>
  What holds of the embedding pipelines: the well-formedness of the queues and of the versioned
  embedding tables, kept by every operation; bounded attempts; the composition with the budget
  (a run pays for exactly what it embedded); and what the queues never do again.
\<close>

section \<open>Well-formed queues and embedding tables\<close>

definition job_ok :: "embedding_job \<Rightarrow> bool" where
  "job_ok j \<longleftrightarrow> eb_attempt j \<le> eb_maxAttempts j \<and>
     (eb_status j = Emb_PENDING \<longrightarrow> eb_attempt j < eb_maxAttempts j) \<and>
     (eb_status j = Emb_FAILED \<longrightarrow> eb_errorCode j \<noteq> None \<and> eb_failedAt j \<noteq> None) \<and>
     (eb_status j = Emb_COMPLETED \<longrightarrow> eb_completedAt j \<noteq> None \<and> eb_provider j \<noteq> None \<and> eb_model j \<noteq> None)"

definition job_key :: "embedding_job \<Rightarrow> string \<times> string" where
  "job_key j = (eb_sourceId j, eb_inputChecksum j)"

definition queue_ok :: "embedding_job list \<Rightarrow> bool" where
  "queue_ok js \<longleftrightarrow> distinct (map eb_id js) \<and> distinct (map job_key js) \<and> (\<forall>j \<in> set js. job_ok j)"

definition embedding_ok :: "embedding_row \<Rightarrow> bool" where
  "embedding_ok e \<longleftrightarrow> (em_dimension e = VECTOR_NATIVE_DIMENSION \<longrightarrow>
     em_vectorNative e = Some (em_vector e) \<and> assertValidNativeVector (em_vector e) VECTOR_NATIVE_DIMENSION)"

definition embeddings_ok :: "embedding_row list \<Rightarrow> bool" where
  "embeddings_ok es \<longleftrightarrow> distinct (map em_id es) \<and>
     distinct (map (\<lambda>e. (em_sourceId e, em_embeddingVersion e)) es) \<and> (\<forall>e \<in> set es. embedding_ok e) \<and>
     (\<forall>e \<in> set es. \<exists>l \<in> set es. em_isLatest l \<and> em_sourceId l = em_sourceId e \<and>
        em_embeddingVersion e \<le> em_embeddingVersion l) \<and>
     (\<forall>e \<in> set es. \<forall>l \<in> set es. em_isLatest e \<longrightarrow> em_isLatest l \<longrightarrow> em_sourceId l = em_sourceId e \<longrightarrow> l = e)"

text \<open>The columns no operation changes.\<close>

definition same_job :: "embedding_job \<Rightarrow> embedding_job \<Rightarrow> bool" where
  "same_job j j' \<longleftrightarrow> eb_id j' = eb_id j \<and> job_key j' = job_key j \<and> eb_organizationId j' = eb_organizationId j \<and>
     eb_maxAttempts j' = eb_maxAttempts j \<and> eb_createdAt j' = eb_createdAt j"

lemmas eb_update_defs = eb_claim_def eb_reset_def eb_fail_def eb_complete_def eb_retry_def eb_give_up_def

lemma same_job_updates [simp]:
  "same_job j (eb_claim w t j)" "same_job j (eb_reset j)" "same_job j (eb_fail t c j)"
  "same_job j (eb_complete t p j)" "same_job j (eb_retry j)" "same_job j (eb_give_up t j)" "same_job j j"
  by (simp_all add: same_job_def job_key_def eb_update_defs)

lemma same_job_trans: "same_job a b \<Longrightarrow> same_job b c \<Longrightarrow> same_job a c"
  by (simp add: same_job_def)

lemma update_rows_twice:
  "(\<And>r. P r \<Longrightarrow> P (g r)) \<Longrightarrow> update_rows P f (update_rows P g rows) = update_rows P (\<lambda>r. f (g r)) rows"
  by (auto simp: update_rows_def)

lemma update_rows_ident [simp]: "update_rows P id rows = rows"
  by (simp add: update_rows_def map_idI)

lemma ids_update: "(\<And>j. eb_id (f j) = eb_id j) \<Longrightarrow> eb_id ` set (update_rows P f js) = eb_id ` set js"
  by (metis (no_types, lifting) map_update_rows set_map)

lemma eb_update_id [simp]:
  "eb_id (eb_claim w t j) = eb_id j" "eb_id (eb_reset j) = eb_id j" "eb_id (eb_fail t c j) = eb_id j"
  "eb_id (eb_complete t p j) = eb_id j" "eb_id (eb_retry j) = eb_id j" "eb_id (eb_give_up t j) = eb_id j"
  by (simp_all add: eb_update_defs)

text \<open>Updating one row of a queue, whose ids are distinct.\<close>

lemma queue_ok_update:
  assumes "queue_ok js" "j \<in> set js" "same_job j (f j)" "job_ok (f j)"
  shows "queue_ok (update_rows (\<lambda>q. eb_id q = eb_id j) f js)"
proof -
  have one: "q = j" if "q \<in> set js" "eb_id q = eb_id j" for q
    using assms(1,2) that by (auto simp: queue_ok_def distinct_map dest: inj_onD)
  have f: "eb_id (f j) = eb_id j" "job_key (f j) = job_key j" using assms(3) by (simp_all add: same_job_def)
  have "map eb_id (update_rows (\<lambda>q. eb_id q = eb_id j) f js) = map eb_id js"
    "map job_key (update_rows (\<lambda>q. eb_id q = eb_id j) f js) = map job_key js"
    using f by (auto simp: update_rows_def dest: one)
  with assms one show ?thesis unfolding queue_ok_def by (auto simp: set_update_rows)
qed

lemma queue_ok_append:
  "queue_ok js \<Longrightarrow> job_ok j \<Longrightarrow> eb_id j \<notin> eb_id ` set js \<Longrightarrow> job_key j \<notin> job_key ` set js \<Longrightarrow> queue_ok (js @ [j])"
  by (auto simp: queue_ok_def)

section \<open>What a run does\<close>

lemma store_update_present:
  "i \<in> eb_id ` set (es_jobs st) \<Longrightarrow>
   store_update_job i f st = (True, st\<lparr>es_jobs := update_rows (\<lambda>j. eb_id j = i) f (es_jobs st)\<rparr>)"
  by (auto simp: store_update_job_def updateEmbeddingJob_def)

lemma embed_and_settle_cases:
  assumes "eb_id job \<in> eb_id ` set (es_jobs st)"
  obtains (failed) "embed_and_settle ops penv now newId job org doc p grp res st s = (False, st, s)"
  | (stored) answer rows where "ep_generateEmbedding p doc = Some answer"
      "createLatestEmbedding newId org (eb_sourceId job) (ep_providerName p) (ep_modelName p) (er_dimension answer)
         (er_vector answer) (ee_checksum penv doc) (es_embeddings st) = Some rows"
      "ee_settleThrows penv \<or> settleAiBudget ops (at_ms now) res (embedding_cost penv p
         (case er_inputTokens answer of None \<Rightarrow> estimate_tokens doc | Some n \<Rightarrow> n)) s = None"
      "embed_and_settle ops penv now newId job org doc p grp res st s =
         (False, st\<lparr>es_embeddings := rows,
            es_jobs := update_rows (\<lambda>j. eb_id j = eb_id job) (eb_complete (at_ms now) p) (es_jobs st)\<rparr>, s)"
  | (settled) answer rows s' us where "ep_generateEmbedding p doc = Some answer"
      "createLatestEmbedding newId org (eb_sourceId job) (ep_providerName p) (ep_modelName p) (er_dimension answer)
         (er_vector answer) (ee_checksum penv doc) (es_embeddings st) = Some rows"
      "settleAiBudget ops (at_ms now) res (embedding_cost penv p
         (case er_inputTokens answer of None \<Rightarrow> estimate_tokens doc | Some n \<Rightarrow> n)) s = Some s'"
      "embed_and_settle ops penv now newId job org doc p grp res st s =
         (True, st\<lparr>es_embeddings := rows,
            es_jobs := update_rows (\<lambda>j. eb_id j = eb_id job) (eb_complete (at_ms now) p) (es_jobs st),
            es_usage := us\<rparr>, s')"
proof (cases "ep_generateEmbedding p doc")
  case None
  then show ?thesis by (intro failed) (simp add: embed_and_settle_def)
next
  case (Some answer)
  note gen = this
  let ?create = "createLatestEmbedding newId org (eb_sourceId job) (ep_providerName p) (ep_modelName p)
      (er_dimension answer) (er_vector answer) (ee_checksum penv doc) (es_embeddings st)"
  let ?settle = "settleAiBudget ops (at_ms now) res (embedding_cost penv p
      (case er_inputTokens answer of None \<Rightarrow> estimate_tokens doc | Some n \<Rightarrow> n)) s"
  show ?thesis
  proof (cases ?create)
    case None
    with gen show ?thesis by (intro failed) (simp add: embed_and_settle_def)
  next
    case (Some rows)
    note create = this
    have upd: "store_update_job (eb_id job) f (st\<lparr>es_embeddings := rows\<rparr>) = (True, st\<lparr>es_embeddings := rows,
        es_jobs := update_rows (\<lambda>j. eb_id j = eb_id job) f (es_jobs st)\<rparr>)" for f
      using assms by (simp add: store_update_present)
    show ?thesis
    proof (cases "ee_settleThrows penv \<or> ?settle = None")
      case True
      with gen create upd show ?thesis
        by (intro stored [OF gen create]) (auto simp: embed_and_settle_def Let_def split: option.split)
    next
      case False
      then obtain s' where "?settle = Some s'" by blast
      with False gen create upd show ?thesis
        by (intro settled [OF gen create]) (auto simp: embed_and_settle_def Let_def recordAiUsageBestEffort_def)
    qed
  qed
qed

definition reserve_for ::
  "'s counter_ops \<Rightarrow> embedding_env \<Rightarrow> utc_instant \<Rightarrow> organization_row \<Rightarrow> embedding_provider \<Rightarrow> jstring \<Rightarrow> 's \<Rightarrow>
   reserve_outcome \<times> 's"
where
  "reserve_for ops penv now org p doc s = reserveAiBudget ops now (og_id org) (og_limits org)
     (case embedding_cost penv p (estimate_tokens doc) of None \<Rightarrow> 0 | Some c \<Rightarrow> c) s"

lemma run_cases:
  assumes "eb_id job \<in> eb_id ` set (es_jobs st)"
  obtains (threw) s1 where "runClaimedEmbeddingJob ops penv src orgs now newId job st s = (False, st, s1)"
      "s1 = s \<or> (\<exists>org p doc. reserve_for ops penv now org p doc s = (UnsafeAmount, s1) \<and>
         (\<exists>g. getEmbeddingProviderForOrganization penv org = Inr (p, g)) \<and> src (eb_sourceId job) = Some (doc, og_id org) \<and>
         org \<in> set orgs)"
  | (gave_up) code s1 where "runClaimedEmbeddingJob ops penv src orgs now newId job st s =
        (True, st\<lparr>es_jobs := update_rows (\<lambda>j. eb_id j = eb_id job) (eb_fail (at_ms now) code) (es_jobs st)\<rparr>, s1)"
      "s1 = s \<or> (\<exists>org p doc. reserve_for ops penv now org p doc s = (BudgetRejected, s1) \<and>
         (\<exists>g. getEmbeddingProviderForOrganization penv org = Inr (p, g)) \<and> src (eb_sourceId job) = Some (doc, og_id org) \<and>
         org \<in> set orgs)"
  | (tried) doc org p grp res s1 where "src (eb_sourceId job) = Some (doc, og_id org)" "org \<in> set orgs"
      "getEmbeddingProviderForOrganization penv org = Inr (p, grp)"
      "reserve_for ops penv now org p doc s = (Reserved res, s1)"
      "runClaimedEmbeddingJob ops penv src orgs now newId job st s =
         (case embed_and_settle ops penv now newId job (og_id org) doc p grp res st s1 of
            (True, st', s') \<Rightarrow> (True, st', s')
          | (False, st', s') \<Rightarrow> give_back ops penv now job (og_id org) p grp res st' s')"
proof (cases "src (eb_sourceId job)")
  case None
  with assms show ?thesis
    by (intro gave_up [of EMB_CLAUSE_NOT_FOUND s]) (simp_all add: runClaimedEmbeddingJob_def store_update_present)
next
  case (Some c)
  obtain doc orgId where c: "src (eb_sourceId job) = Some (doc, orgId)" using Some by (cases c) simp
  show ?thesis
  proof (cases "find_row (\<lambda>o1. og_id o1 = orgId) orgs")
    case None
    with c show ?thesis by (intro threw [of s]) (simp_all add: runClaimedEmbeddingJob_def)
  next
    case (Some org)
    note org = this find_row_Some [OF this]
    consider "getEmbeddingProviderForOrganization penv org = Inl None"
      | e where "getEmbeddingProviderForOrganization penv org = Inl (Some e)"
      | p grp where "getEmbeddingProviderForOrganization penv org = Inr (p, grp)" "ee_reserveThrows penv"
      | p grp where "getEmbeddingProviderForOrganization penv org = Inr (p, grp)" "\<not> ee_reserveThrows penv"
      by (metis not_None_eq sum.exhaust surj_pair)
    then show ?thesis
    proof cases
      case 1
      with c org show ?thesis by (intro threw [of s]) (simp_all add: runClaimedEmbeddingJob_def)
    next
      case 2
      with c org assms show ?thesis
        by (intro gave_up [of EMB_AI_POLICY_DISABLED s]) (simp_all add: runClaimedEmbeddingJob_def store_update_present)
    next
      case 3
      with c org show ?thesis by (intro threw [of s]) (simp_all add: runClaimedEmbeddingJob_def)
    next
      case 4
      obtain out s1 where r: "reserve_for ops penv now org p doc s = (out, s1)" by fastforce
      note facts = 4 c org r [unfolded reserve_for_def]
      show ?thesis
      proof (cases out)
        case (Reserved res)
        with facts r show ?thesis
          by (intro tried [of doc org p grp res s1]) (auto simp: runClaimedEmbeddingJob_def)
      next
        case BudgetRejected
        with facts r assms show ?thesis
          by (intro gave_up [of EMB_BUDGET_EXCEEDED s1])
            (auto simp add: runClaimedEmbeddingJob_def store_update_present)
      next
        case UnsafeAmount
        with facts r show ?thesis
          by (intro threw [of s1]) (auto simp add: runClaimedEmbeddingJob_def)
      qed
    qed
  qed
qed

text \<open>What a run may make of the claimed job: the columns that name it stay, the result is well formed.\<close>

definition outcome_of :: "embedding_job \<Rightarrow> embedding_job \<Rightarrow> bool" where
  "outcome_of job j \<longleftrightarrow> same_job job j \<and> eb_attempt j = eb_attempt job \<and> job_ok j"

lemma outcomes:
  assumes "job_ok job" "eb_status job = Emb_PROCESSING"
  shows "outcome_of job job" "outcome_of job (eb_fail t c job)" "outcome_of job (eb_complete t p job)"
    "\<not> eb_attempt job \<ge> eb_maxAttempts job \<Longrightarrow> outcome_of job (eb_retry job)"
    "outcome_of job (eb_fail t c (eb_complete t' p job))"
    "\<not> eb_attempt job \<ge> eb_maxAttempts job \<Longrightarrow> outcome_of job (eb_retry (eb_complete t' p job))"
  using assms by (auto simp: outcome_of_def same_job_def job_key_def job_ok_def eb_update_defs)

text \<open>Whatever happens in a run, it only touches the row of its own job, turns it into an outcome, and
  stores at most one embedding, of the source of the job.\<close>

lemma give_back_jobs:
  assumes "eb_id job \<in> eb_id ` set (es_jobs st)" "give_back ops penv now job org p grp res st s = (r, st', s')"
  shows "es_embeddings st' = es_embeddings st" and
    "\<exists>f \<in> {id, eb_fail (at_ms now) EMB_MAX_ATTEMPTS_REACHED} \<union>
         (if eb_attempt job \<ge> eb_maxAttempts job then {} else {eb_retry}).
       es_jobs st' = update_rows (\<lambda>j. eb_id j = eb_id job) f (es_jobs st)"
proof -
  have "store_update_job (eb_id job) f (recordAiUsageBestEffort u st) = (True, (recordAiUsageBestEffort u st)
      \<lparr>es_jobs := update_rows (\<lambda>j. eb_id j = eb_id job) f (es_jobs st)\<rparr>)" for f u
    using assms(1) by (simp add: store_update_present recordAiUsageBestEffort_def)
  then show "es_embeddings st' = es_embeddings st"
    "\<exists>f \<in> {id, eb_fail (at_ms now) EMB_MAX_ATTEMPTS_REACHED} \<union>
         (if eb_attempt job \<ge> eb_maxAttempts job then {} else {eb_retry}).
       es_jobs st' = update_rows (\<lambda>j. eb_id j = eb_id job) f (es_jobs st)"
    using assms(2) by (auto simp: give_back_def Let_def recordAiUsageBestEffort_def split: if_splits)
qed

lemma run_touches:
  assumes "eb_id job \<in> eb_id ` set (es_jobs st)" "job_ok job" "eb_status job = Emb_PROCESSING"
    and "runClaimedEmbeddingJob ops penv src orgs now newId job st s = (r, st', s')"
  shows "\<exists>f. es_jobs st' = update_rows (\<lambda>j. eb_id j = eb_id job) f (es_jobs st) \<and> outcome_of job (f job)"
    and "es_embeddings st' = es_embeddings st \<or> (\<exists>org prov model width v chk.
      createLatestEmbedding newId org (eb_sourceId job) prov model width v chk (es_embeddings st) = Some (es_embeddings st'))"
proof -
  note out = outcomes [OF assms(2,3)]
  let ?P = "\<lambda>j. eb_id j = eb_id job"
  have twice: "update_rows ?P f (update_rows ?P (eb_complete t p) js) = update_rows ?P (\<lambda>j. f (eb_complete t p j)) js" for f t p js
    by (rule update_rows_twice) (simp add: eb_complete_def)
  have "(\<exists>f. es_jobs st' = update_rows ?P f (es_jobs st) \<and> outcome_of job (f job)) \<and>
    (es_embeddings st' = es_embeddings st \<or> (\<exists>org prov model width v chk.
      createLatestEmbedding newId org (eb_sourceId job) prov model width v chk (es_embeddings st) = Some (es_embeddings st')))"
    using assms(1)
  proof (cases rule: run_cases [where ops = ops and penv = penv and src = src and orgs = orgs and now = now
        and newId = newId and s = s])
    case (threw s1)
    with assms(4) out(1) show ?thesis by (auto intro!: exI [of _ id])
  next
    case (gave_up code s1)
    with assms(4) out(2) show ?thesis by auto
  next
    case (tried doc org p grp res s1)
    from assms(1) show ?thesis
    proof (cases rule: embed_and_settle_cases [where ops = ops and penv = penv and now = now and newId = newId
          and org = "og_id org" and doc = doc and p = p and grp = grp and res = res and s = s1])
      case failed
      with tried assms(4) have "give_back ops penv now job (og_id org) p grp res st s1 = (r, st', s')" by simp
      from give_back_jobs [OF assms(1) this] obtain f where "es_embeddings st' = es_embeddings st"
        "f \<in> {id, eb_fail (at_ms now) EMB_MAX_ATTEMPTS_REACHED} \<union> (if eb_attempt job \<ge> eb_maxAttempts job then {} else {eb_retry})"
        "es_jobs st' = update_rows ?P f (es_jobs st)"
        by blast
      moreover from this(2) out have "outcome_of job (f job)" by (auto split: if_splits)
      ultimately show ?thesis by blast
    next
      case (stored answer rows)
      let ?st = "st\<lparr>es_embeddings := rows, es_jobs := update_rows ?P (eb_complete (at_ms now) p) (es_jobs st)\<rparr>"
      have present: "eb_id job \<in> eb_id ` set (es_jobs ?st)"
        using assms(1) by (simp add: ids_update)
      from stored(4) tried assms(4) have "give_back ops penv now job (og_id org) p grp res ?st s1 = (r, st', s')" by simp
      note gb = give_back_jobs [OF present this]
      obtain f where f: "f \<in> {id, eb_fail (at_ms now) EMB_MAX_ATTEMPTS_REACHED} \<union>
          (if eb_attempt job \<ge> eb_maxAttempts job then {} else {eb_retry})"
        "es_jobs st' = update_rows ?P f (es_jobs ?st)"
        using gb(2) by blast
      have "es_embeddings st' = rows" "es_jobs st' = update_rows ?P (\<lambda>j. f (eb_complete (at_ms now) p j)) (es_jobs st)"
        using gb(1) f(2) by (simp_all add: twice)
      moreover have "outcome_of job (f (eb_complete (at_ms now) p job))"
        using f(1) out by (auto split: if_splits)
      ultimately show ?thesis using stored(2) by blast
    next
      case (settled answer rows s2 us)
      with tried assms(4) out(3) show ?thesis by auto
    qed
  qed
  then show "\<exists>f. es_jobs st' = update_rows ?P f (es_jobs st) \<and> outcome_of job (f job)"
    and "es_embeddings st' = es_embeddings st \<or> (\<exists>org prov model width v chk.
      createLatestEmbedding newId org (eb_sourceId job) prov model width v chk (es_embeddings st) = Some (es_embeddings st'))"
    by blast+
qed

section \<open>Every operation keeps the tables well formed\<close>

lemma claim_facts:
  assumes "queue_ok js" "claimNextPendingEmbeddingJob w t js = (Some job, js')"
  obtains j where "j \<in> set js" "eb_status j = Emb_PENDING" "job = eb_claim w t j"
    "js' = update_rows (\<lambda>q. eb_id q = eb_id j) (eb_claim w t) js" "job \<in> set js'" "job_ok job" "queue_ok js'"
    "eb_status job = Emb_PROCESSING"
proof -
  from assms(2) obtain j where j: "oldest_row (\<lambda>j. eb_status j = Emb_PENDING) eb_createdAt js = Some j"
    "job = eb_claim w t j" "js' = update_rows (\<lambda>q. eb_id q = eb_id j) (eb_claim w t) js"
    by (auto simp: claimNextPendingEmbeddingJob_def split: option.splits)
  note o = oldest_row_Some [OF j(1)]
  have ok: "job_ok job" using assms(1) o j(2) by (auto simp: queue_ok_def job_ok_def eb_claim_def)
  moreover have "queue_ok js'" unfolding j(3)
    by (rule queue_ok_update) (use assms(1) o ok j(2) in auto)
  moreover have "job \<in> set js'" using o j by (force simp: set_update_rows)
  ultimately show thesis using that [of j] o j by (simp add: eb_claim_def)
qed

text \<open>One step of a worker, on the queue and the embeddings alone.\<close>

lemma worker_touches:
  assumes "queue_ok (es_jobs st)"
    and "embedding_worker ops penv src orgs w now newId st s = (r, st', s')"
  shows "(st' = st \<and> s' = s \<and> r = Inr None \<and> (\<forall>j \<in> set (es_jobs st). eb_status j \<noteq> Emb_PENDING)) \<or>
    (\<exists>j f. j \<in> set (es_jobs st) \<and> eb_status j = Emb_PENDING \<and>
       fst (claimNextPendingEmbeddingJob w (at_ms now) (es_jobs st)) = Some (eb_claim w (at_ms now) j) \<and>
       es_jobs st' = update_rows (\<lambda>q. eb_id q = eb_id j) f (es_jobs st) \<and>
       outcome_of (eb_claim w (at_ms now) j) (f j) \<and>
       (es_embeddings st' = es_embeddings st \<or> (\<exists>org prov model width v chk.
          createLatestEmbedding newId org (eb_sourceId j) prov model width v chk (es_embeddings st) = Some (es_embeddings st'))))"
proof (cases "claimNextPendingEmbeddingJob w (at_ms now) (es_jobs st)")
  case (Pair c js)
  show ?thesis
  proof (cases c)
    case None
    with Pair have "oldest_row (\<lambda>j. eb_status j = Emb_PENDING) eb_createdAt (es_jobs st) = None"
      by (auto simp: claimNextPendingEmbeddingJob_def split: option.splits)
    with None Pair assms(2) show ?thesis by (simp add: embedding_worker_def oldest_row_None)
  next
    case (Some job)
    with Pair have claim: "claimNextPendingEmbeddingJob w (at_ms now) (es_jobs st) = (Some job, js)" by simp
    obtain j where j: "j \<in> set (es_jobs st)" "eb_status j = Emb_PENDING" "job = eb_claim w (at_ms now) j"
      "js = update_rows (\<lambda>q. eb_id q = eb_id j) (eb_claim w (at_ms now)) (es_jobs st)" "job \<in> set js" "job_ok job"
      "queue_ok js" "eb_status job = Emb_PROCESSING"
      using claim_facts [OF assms(1) claim] by blast
    have present: "eb_id job \<in> eb_id ` set (es_jobs (st\<lparr>es_jobs := js\<rparr>))" using j(5) by simp
    obtain r1 where run: "runClaimedEmbeddingJob ops penv src orgs now newId job (st\<lparr>es_jobs := js\<rparr>) s = (r1, st', s')"
      using assms(2) claim by (auto simp: embedding_worker_def split: prod.splits)
    obtain f where f: "es_jobs st' = update_rows (\<lambda>q. eb_id q = eb_id job) f js" "outcome_of job (f job)"
      using run_touches(1) [OF present j(6,8) run] by auto
    have id: "eb_id job = eb_id j" by (simp add: j(3) eb_claim_def)
    have "es_jobs st' = update_rows (\<lambda>q. eb_id q = eb_id j) (\<lambda>q. f (eb_claim w (at_ms now) q)) (es_jobs st)"
      unfolding f(1) j(4) id by (rule update_rows_twice) (simp add: eb_claim_def)
    with f(2) j(1-3) run_touches(2) [OF present j(6,8) run] claim show ?thesis
      by (intro disjI2 exI [of _ j] exI [of _ "\<lambda>q. f (eb_claim w (at_ms now) q)"])
        (auto simp: eb_claim_def)
  qed
qed

lemma outcome_of_claim:
  "outcome_of (eb_claim w t j) j' \<Longrightarrow> same_job j j' \<and> eb_attempt j' = eb_attempt j + 1 \<and> job_ok j'"
  by (auto simp: outcome_of_def same_job_def job_key_def eb_claim_def)

lemma worker_queue_ok:
  assumes "queue_ok (es_jobs st)" "embedding_worker ops penv src orgs w now newId st s = (r, st', s')"
  shows "queue_ok (es_jobs st')"
  using worker_touches [OF assms] assms(1) by (auto dest!: outcome_of_claim intro: queue_ok_update)

section \<open>The versioned embedding tables\<close>

definition superseded :: "string \<Rightarrow> embedding_row list \<Rightarrow> embedding_row list" where
  "superseded sourceId rows = (case findLatestEmbedding sourceId rows of None \<Rightarrow> rows
     | Some p \<Rightarrow> update_rows (\<lambda>r. em_id r = em_id p) (\<lambda>r. r\<lparr>em_isLatest := False\<rparr>) rows)"

definition next_version :: "string \<Rightarrow> embedding_row list \<Rightarrow> nat" where
  "next_version sourceId rows =
     (case findLatestEmbedding sourceId rows of None \<Rightarrow> 0 | Some p \<Rightarrow> em_embeddingVersion p) + 1"

lemma superseded_columns:
  "map em_id (superseded i es) = map em_id es"
  "map (\<lambda>e. (em_sourceId e, em_embeddingVersion e)) (superseded i es) = map (\<lambda>e. (em_sourceId e, em_embeddingVersion e)) es"
  by (simp_all add: superseded_def table_simps split: option.split)

lemma superseded_row:
  "e \<in> set (superseded i es) \<Longrightarrow> \<exists>e0 \<in> set es. e = e0 \<or> e = e0\<lparr>em_isLatest := False\<rparr>"
  by (auto simp: superseded_def set_update_rows split: option.splits)

lemma setNativeVector_new:
  "\<forall>r \<in> set rows. em_id r \<noteq> em_id e \<Longrightarrow> em_isLatest e \<Longrightarrow> setNativeVector (em_id e) v (rows @ [e]) =
     (if assertValidNativeVector v VECTOR_NATIVE_DIMENSION then Some (rows @ [e\<lparr>em_vectorNative := Some v\<rparr>]) else None)"
  by (auto simp: setNativeVector_def update_rows_def intro!: map_idI)

lemma create_shape:
  assumes "createLatestEmbedding newId org i prov model width v chk es = Some es'"
  obtains e where "es' = superseded i es @ [e]" "em_id e = newId" "em_sourceId e = i" "em_checksum e = chk"
    "em_embeddingVersion e = next_version i es" "em_isLatest e" "em_organizationId e = org"
    "em_provider e = prov" "em_model e = model" "em_vector e = v" "embedding_ok e" "newId \<notin> em_id ` set es"
    "\<forall>r \<in> set es. em_sourceId r = i \<longrightarrow> em_embeddingVersion r \<noteq> next_version i es"
proof -
  let ?new = "\<lparr>em_id = newId, em_organizationId = org, em_sourceId = i, em_provider = prov, em_model = model,
    em_dimension = width, em_vector = v, em_vectorNative = None, em_checksum = chk,
    em_embeddingVersion = next_version i es, em_isLatest = True\<rparr>"
  have free: "\<forall>r \<in> set (superseded i es). em_id r \<noteq> newId \<and> (em_sourceId r = i \<longrightarrow> em_embeddingVersion r \<noteq> next_version i es)"
    and made: "(if width = VECTOR_NATIVE_DIMENSION then setNativeVector newId v (superseded i es @ [?new])
       else Some (superseded i es @ [?new])) = Some es'"
    using assms by (auto simp: createLatestEmbedding_def superseded_def next_version_def Let_def split: if_splits)
  let ?key = "\<lambda>e. (em_sourceId e, em_embeddingVersion e)"
  have cols: "em_id ` set (superseded i es) = em_id ` set es" "?key ` set (superseded i es) = ?key ` set es"
    by (metis list.set_map superseded_columns(1)) (metis list.set_map superseded_columns(2))
  have "newId \<notin> em_id ` set (superseded i es)" "(i, next_version i es) \<notin> ?key ` set (superseded i es)"
    using free by auto
  then have free': "newId \<notin> em_id ` set es"
    "\<forall>r \<in> set es. em_sourceId r = i \<longrightarrow> em_embeddingVersion r \<noteq> next_version i es"
    unfolding cols by (simp, force)
  let ?e = "if width = VECTOR_NATIVE_DIMENSION then ?new\<lparr>em_vectorNative := Some v\<rparr> else ?new"
  have "es' = superseded i es @ [?e]" "embedding_ok ?e"
    using made free setNativeVector_new [of "superseded i es" ?new v]
    by (simp_all add: embedding_ok_def split: if_splits)
  with free' show thesis by (intro that [of ?e]) (auto split: if_splits)
qed

lemma latest_row:
  "embeddings_ok es \<Longrightarrow> findLatestEmbedding i es = Some p \<Longrightarrow>
   p \<in> set es \<and> em_isLatest p \<and> em_sourceId p = i \<and> (\<forall>e \<in> set es. em_sourceId e = i \<longrightarrow> em_embeddingVersion e \<le> em_embeddingVersion p)"
  unfolding findLatestEmbedding_def embeddings_ok_def by (drule find_row_Some) metis

lemma no_latest_row:
  "embeddings_ok es \<Longrightarrow> findLatestEmbedding i es = None \<Longrightarrow> \<forall>e \<in> set es. em_sourceId e \<noteq> i"
  unfolding findLatestEmbedding_def embeddings_ok_def find_row_None by metis

text \<open>After superseding, no embedding of the source is the latest, and the others are as they were.\<close>

lemma superseded_latest:
  assumes "embeddings_ok es" "e \<in> set (superseded i es)"
  shows "em_isLatest e \<longleftrightarrow> e \<in> set es \<and> em_isLatest e \<and> em_sourceId e \<noteq> i"
proof (cases "findLatestEmbedding i es")
  case None
  with no_latest_row [OF assms(1) this] assms(2) show ?thesis by (auto simp: superseded_def)
next
  case (Some p)
  note p = latest_row [OF assms(1) this]
  have id: "q = p" if "q \<in> set es" "em_id q = em_id p" for q
    using assms(1) p that by (auto simp: embeddings_ok_def distinct_map dest: inj_onD)
  have "q = p" if "q \<in> set es" "em_isLatest q" "em_sourceId q = i" for q
    using assms(1) p that unfolding embeddings_ok_def by metis
  with assms(2) Some id show ?thesis by (auto simp: superseded_def set_update_rows split: if_splits)
qed

lemma superseded_keeps_latest:
  assumes "embeddings_ok es" "e \<in> set es" "em_sourceId e \<noteq> i"
  shows "e \<in> set (superseded i es)"
proof (cases "findLatestEmbedding i es")
  case (Some p)
  note p = latest_row [OF assms(1) this]
  have "em_id e \<noteq> em_id p"
    using assms p by (auto simp: embeddings_ok_def distinct_map dest: inj_onD)
  with assms(2) Some show ?thesis by (force simp: superseded_def set_update_rows)
qed (use assms in \<open>simp add: superseded_def\<close>)

lemma create_ok:
  assumes ok: "embeddings_ok es" and c: "createLatestEmbedding newId org i prov model width v chk es = Some es'"
  shows "embeddings_ok es'"
proof -
  obtain e where e: "es' = superseded i es @ [e]" "em_id e = newId" "em_sourceId e = i"
    "em_embeddingVersion e = next_version i es" "em_isLatest e" "embedding_ok e" "newId \<notin> em_id ` set es"
    "\<forall>r \<in> set es. em_sourceId r = i \<longrightarrow> em_embeddingVersion r \<noteq> next_version i es"
    by (rule create_shape [OF c]) blast
  note o = ok [unfolded embeddings_ok_def]
  have le: "em_embeddingVersion q \<le> next_version i es" if "q \<in> set es" "em_sourceId q = i" for q
  proof (cases "findLatestEmbedding i es")
    case None
    with no_latest_row [OF ok] that show ?thesis by simp
  next
    case (Some p)
    with latest_row [OF ok Some] that show ?thesis by (auto simp: next_version_def intro: le_SucI)
  qed
  have "distinct (map em_id es')"
    using o e(2,7) by (simp add: e(1) superseded_columns del: map_map)
  moreover have "distinct (map (\<lambda>e. (em_sourceId e, em_embeddingVersion e)) es')"
  proof -
    have "(\<lambda>e. (em_sourceId e, em_embeddingVersion e)) ` set (superseded i es) =
        (\<lambda>e. (em_sourceId e, em_embeddingVersion e)) ` set es"
      by (metis list.set_map superseded_columns(2))
    moreover have "(i, next_version i es) \<notin> (\<lambda>e. (em_sourceId e, em_embeddingVersion e)) ` set es"
      using e(8) by auto
    ultimately show ?thesis using o e(3,4) by (simp add: e(1) superseded_columns del: map_map)
  qed
  moreover have "\<forall>q \<in> set es'. embedding_ok q"
    using o e(6) superseded_row [of _ i es] by (fastforce simp: e(1) embedding_ok_def)
  moreover have "\<exists>l \<in> set es'. em_isLatest l \<and> em_sourceId l = em_sourceId q \<and> em_embeddingVersion q \<le> em_embeddingVersion l"
    if q: "q \<in> set es'" for q
  proof (cases "em_sourceId q = i")
    case True
    then have "em_embeddingVersion q \<le> em_embeddingVersion e"
      using q e(1,4) le superseded_row [of q i es] by force
    with True e(1,3,5) show ?thesis by auto
  next
    case False
    then obtain q0 where q0: "q0 \<in> set es" "em_sourceId q0 = em_sourceId q" "em_embeddingVersion q0 = em_embeddingVersion q"
      using q e(1,3) superseded_row [of q i es] by auto
    then obtain l where "l \<in> set es" "em_isLatest l" "em_sourceId l = em_sourceId q"
      "em_embeddingVersion q \<le> em_embeddingVersion l"
      using o by metis
    then show ?thesis using superseded_keeps_latest [OF ok, of l i] False e(1) by auto
  qed
  moreover have "\<forall>q \<in> set es'. \<forall>l \<in> set es'. em_isLatest q \<longrightarrow> em_isLatest l \<longrightarrow> em_sourceId l = em_sourceId q \<longrightarrow> l = q"
  proof -
    have "\<forall>q \<in> set (superseded i es). em_isLatest q \<longrightarrow> q \<in> set es \<and> em_sourceId q \<noteq> i"
      using superseded_latest [OF ok] by blast
    moreover have "\<forall>q \<in> set es. \<forall>l \<in> set es. em_isLatest q \<longrightarrow> em_isLatest l \<longrightarrow> em_sourceId l = em_sourceId q \<longrightarrow> l = q"
      using o by blast
    ultimately show ?thesis unfolding e(1) using e(3) by simp metis
  qed
  ultimately show ?thesis unfolding embeddings_ok_def by blast
qed

lemma create_latest:
  assumes "embeddings_ok es" "createLatestEmbedding newId org i prov model width v chk es = Some es'"
  shows "\<exists>e. findLatestEmbedding i es' = Some e \<and> em_checksum e = chk \<and> em_vector e = v \<and> em_provider e = prov \<and>
    em_model e = model \<and> em_organizationId e = org"
proof -
  obtain e where e: "es' = superseded i es @ [e]" "em_sourceId e = i" "em_isLatest e"
    "em_checksum e = chk" "em_vector e = v" "em_provider e = prov" "em_model e = model" "em_organizationId e = org"
    by (rule create_shape [OF assms(2)]) blast
  have "find_row (\<lambda>r. em_sourceId r = i \<and> em_isLatest r) (superseded i es) = None"
    using superseded_latest [OF assms(1)] by (auto simp: find_row_None)
  with e show ?thesis by (simp add: findLatestEmbedding_def table_simps find_row_Cons)
qed

lemma create_others:
  assumes "embeddings_ok es" "createLatestEmbedding newId org i prov model width v chk es = Some es'" "k \<noteq> i"
  shows "filter (\<lambda>e. em_sourceId e = k) es' = filter (\<lambda>e. em_sourceId e = k) es"
proof -
  obtain e where e: "es' = superseded i es @ [e]" "em_sourceId e = i"
    by (rule create_shape [OF assms(2)]) blast
  have "filter (\<lambda>e. em_sourceId e = k) (superseded i es) = filter (\<lambda>e. em_sourceId e = k) es"
  proof (cases "findLatestEmbedding i es")
    case (Some p)
    note p = latest_row [OF assms(1) this]
    have "em_id e \<noteq> em_id p" if "e \<in> set es" "em_sourceId e = k" for e
      using assms(1,3) p that by (auto simp: embeddings_ok_def distinct_map dest: inj_onD)
    then have "map (\<lambda>r. if em_id r = em_id p then r\<lparr>em_isLatest := False\<rparr> else r) (filter (\<lambda>e. em_sourceId e = k) es) =
        filter (\<lambda>e. em_sourceId e = k) es"
      by (auto intro: map_idI)
    moreover have "filter (\<lambda>e. em_sourceId e = k) (map (\<lambda>r. if em_id r = em_id p then r\<lparr>em_isLatest := False\<rparr> else r) es) =
      map (\<lambda>r. if em_id r = em_id p then r\<lparr>em_isLatest := False\<rparr> else r) (filter (\<lambda>e. em_sourceId e = k) es)"
      by (simp add: filter_map o_def if_distrib cong: if_cong)
    ultimately show ?thesis using Some by (simp add: superseded_def update_rows_def)
  qed (simp add: superseded_def)
  with e assms(3) show ?thesis by simp
qed

section \<open>How a queue evolves\<close>

definition settled :: "embedding_job \<Rightarrow> bool" where
  "settled j \<longleftrightarrow> eb_status j = Emb_FAILED \<or> eb_status j = Emb_COMPLETED"

text \<open>What an operation that claims \<open>c\<close> may do to a row: a settled job is never touched, a job in work
  only by recovery (\<open>rc\<close>), and only a claim counts as an attempt.\<close>

definition job_step :: "bool \<Rightarrow> string option \<Rightarrow> embedding_job \<Rightarrow> embedding_job \<Rightarrow> bool" where
  "job_step rc c j j' \<longleftrightarrow> same_job j j' \<and> eb_attempt j' = eb_attempt j + (if c = Some (eb_id j) then 1 else 0) \<and>
     (settled j \<or> (\<not> rc \<and> eb_status j = Emb_PROCESSING) \<longrightarrow> j' = j)"

text \<open>An operation works on the rows it finds and queues jobs for keys of \<open>K\<close>.\<close>

definition evolves ::
  "bool \<Rightarrow> string option \<Rightarrow> (string \<times> string) set \<Rightarrow> embedding_job list \<Rightarrow> embedding_job list \<Rightarrow> bool" where
  "evolves rc c K js js' \<longleftrightarrow> queue_ok js' \<and>
     (\<exists>kept new. js' = kept @ new \<and> list_all2 (job_step rc c) js kept \<and> (\<forall>j \<in> set new. job_key j \<in> K))"

lemma evolves_mono: "evolves False c K js js' \<Longrightarrow> evolves rc c K js js'"
  unfolding evolves_def by (blast intro: list_all2_mono [of "job_step False c" _ _ "job_step rc c"] job_step_def [THEN iffD2]
      dest: job_step_def [THEN iffD1])

lemma job_step_refl: "job_step rc None j j"
  by (simp add: job_step_def)

lemma job_step_trans: "job_step rc None a b \<Longrightarrow> job_step rc None b d \<Longrightarrow> job_step rc None a d"
  by (auto simp: job_step_def intro: same_job_trans)

lemma evolves_ok: "evolves rc c K js js' \<Longrightarrow> queue_ok js'"
  by (simp add: evolves_def)

lemma evolves_refl: "queue_ok js \<Longrightarrow> evolves rc None K js js"
  unfolding evolves_def by (intro conjI exI [of _ js] exI [of _ "[]"]) (simp_all add: list_all2_same job_step_refl)

lemma evolves_trans:
  assumes "evolves rc None K js js1" "evolves rc None K js1 js2"
  shows "evolves rc None K js js2"
proof -
  obtain kept new where a: "js1 = kept @ new" "list_all2 (job_step rc None) js kept" "\<forall>j \<in> set new. job_key j \<in> K"
    using assms(1) by (auto simp: evolves_def)
  obtain kept1 new1 where b: "queue_ok js2" "js2 = kept1 @ new1" "list_all2 (job_step rc None) js1 kept1"
    "\<forall>j \<in> set new1. job_key j \<in> K"
    using assms(2) by (auto simp: evolves_def)
  from b(3) a(1) obtain k n where kn: "kept1 = k @ n" "list_all2 (job_step rc None) kept k" "list_all2 (job_step rc None) new n"
    by (auto simp: list_all2_append1)
  have "list_all2 (job_step rc None) js k"
    by (rule list_all2_trans [OF _ a(2) kn(2)]) (rule job_step_trans)
  moreover have "\<forall>j \<in> set n. job_key j \<in> K"
    using kn(3) a(3) by (auto simp: list_all2_conv_all_nth in_set_conv_nth job_step_def same_job_def) (metis nth_mem)
  ultimately show ?thesis
    unfolding evolves_def using b kn(1) by (intro conjI exI [of _ k] exI [of _ "n @ new1"]) auto
qed

lemma evolves_update:
  assumes "queue_ok js" "j \<in> set js" "job_step rc c j (f j)" "job_ok (f j)" "c = None \<or> c = Some (eb_id j)"
  shows "evolves rc c K js (update_rows (\<lambda>q. eb_id q = eb_id j) f js)"
proof -
  have one: "q = j" if "q \<in> set js" "eb_id q = eb_id j" for q
    using assms(1,2) that by (auto simp: queue_ok_def distinct_map dest: inj_onD)
  have "job_step rc c q (if eb_id q = eb_id j then f q else q)" if q: "q \<in> set js" for q
  proof (cases "eb_id q = eb_id j")
    case True
    with one [OF q] assms(3) show ?thesis by simp
  next
    case False
    with assms(5) show ?thesis by (auto simp: job_step_def)
  qed
  then have "list_all2 (job_step rc c) js (update_rows (\<lambda>q. eb_id q = eb_id j) f js)"
    by (simp add: update_rows_def list_all2_map2 list_all2_same)
  moreover have "queue_ok (update_rows (\<lambda>q. eb_id q = eb_id j) f js)"
    by (rule queue_ok_update) (use assms in \<open>auto simp: job_step_def\<close>)
  ultimately show ?thesis
    unfolding evolves_def by (intro conjI exI [of _ "update_rows (\<lambda>q. eb_id q = eb_id j) f js"] exI [of _ "[]"]) simp_all
qed

lemma evolves_append:
  assumes "queue_ok js" "\<forall>q \<in> set js. eb_id q \<noteq> i \<and> job_key q \<noteq> (src, chk)" "(src, chk) \<in> K"
  shows "evolves rc None K js (js @ [new_embedding_job i t org src chk])"
proof -
  have "queue_ok (js @ [new_embedding_job i t org src chk])"
    using assms(1,2) by (intro queue_ok_append) (auto simp: new_embedding_job_def job_ok_def job_key_def)
  then show ?thesis
    unfolding evolves_def using assms(3)
    by (intro conjI exI [of _ js] exI [of _ "[new_embedding_job i t org src chk]"])
      (simp_all add: list_all2_same job_step_refl, simp add: new_embedding_job_def job_key_def)
qed

text \<open>A worker step claims one pending job; a source without pending jobs keeps its embeddings.\<close>

lemma worker_evolves:
  assumes "queue_ok (es_jobs st)" "embeddings_ok (es_embeddings st)"
    and "embedding_worker ops penv src orgs w now newId st s = (r, st', s')"
  shows "evolves False (map_option eb_id (fst (claimNextPendingEmbeddingJob w (at_ms now) (es_jobs st)))) K (es_jobs st) (es_jobs st')"
    and "embeddings_ok (es_embeddings st')"
    and "(\<And>j. j \<in> set (es_jobs st) \<Longrightarrow> eb_sourceId j = i \<Longrightarrow> eb_status j \<noteq> Emb_PENDING) \<Longrightarrow>
      filter (\<lambda>e. em_sourceId e = i) (es_embeddings st') = filter (\<lambda>e. em_sourceId e = i) (es_embeddings st)"
proof -
  let ?claim = "fst (claimNextPendingEmbeddingJob w (at_ms now) (es_jobs st))"
  from worker_touches [OF assms(1,3)] consider
    (idle) "st' = st" "\<forall>j \<in> set (es_jobs st). eb_status j \<noteq> Emb_PENDING"
  | (one) j f where "j \<in> set (es_jobs st)" "eb_status j = Emb_PENDING" "?claim = Some (eb_claim w (at_ms now) j)"
      "es_jobs st' = update_rows (\<lambda>q. eb_id q = eb_id j) f (es_jobs st)" "outcome_of (eb_claim w (at_ms now) j) (f j)"
      "es_embeddings st' = es_embeddings st \<or> (\<exists>org prov model width v chk.
          createLatestEmbedding newId org (eb_sourceId j) prov model width v chk (es_embeddings st) = Some (es_embeddings st'))"
    by blast
  then have "evolves False (map_option eb_id ?claim) K (es_jobs st) (es_jobs st') \<and> embeddings_ok (es_embeddings st') \<and>
    ((\<forall>j \<in> set (es_jobs st). eb_sourceId j = i \<longrightarrow> eb_status j \<noteq> Emb_PENDING) \<longrightarrow>
      filter (\<lambda>e. em_sourceId e = i) (es_embeddings st') = filter (\<lambda>e. em_sourceId e = i) (es_embeddings st))"
  proof cases
    case idle
    then have "?claim = None"
      by (simp add: claimNextPendingEmbeddingJob_def oldest_row_None split: option.split)
    with idle assms show ?thesis by (simp add: evolves_refl)
  next
    case one
    have "evolves False (Some (eb_id j)) K (es_jobs st) (es_jobs st')"
      unfolding one(4) using one(2) outcome_of_claim [OF one(5)]
      by (intro evolves_update) (use assms(1) one(1) in \<open>auto simp: job_step_def settled_def\<close>)
    moreover have "embeddings_ok (es_embeddings st')" using one(6) create_ok [OF assms(2)] assms(2) by auto
    ultimately show ?thesis using one(1,2,3,6) create_others [OF assms(2)] by (auto simp del: filter.simps)
  qed
  then show "evolves False (map_option eb_id ?claim) K (es_jobs st) (es_jobs st')" "embeddings_ok (es_embeddings st')"
    "(\<And>j. j \<in> set (es_jobs st) \<Longrightarrow> eb_sourceId j = i \<Longrightarrow> eb_status j \<noteq> Emb_PENDING) \<Longrightarrow>
      filter (\<lambda>e. em_sourceId e = i) (es_embeddings st') = filter (\<lambda>e. em_sourceId e = i) (es_embeddings st)"
    by blast+
qed

section \<open>Operations\<close>

text \<open>Everything that writes the embedding tables. The first two functions of an operation that
  queues jobs give the new ids and the text checksum.\<close>

datatype embedding_op =
  Queue_Clauses "string \<Rightarrow> string" "jstring \<Rightarrow> string" time_ms "(string \<times> string \<times> jstring) list"
| Scan_Clauses "string \<Rightarrow> string" "jstring \<Rightarrow> string" time_ms "string option"
| Embed_Clause embedding_env string utc_instant string
| Recover_Clauses time_ms int
| Queue_Chunks "string \<Rightarrow> string" "jstring \<Rightarrow> string" time_ms "(string \<times> string \<times> jstring) list"
| Scan_Chunks "string \<Rightarrow> string" "jstring \<Rightarrow> string" time_ms "string option"
| Embed_Chunk embedding_env string utc_instant string

fun embedding_step :: "'s counter_ops \<Rightarrow> embedding_op \<Rightarrow> 'x ai_db_scheme \<times> 's \<Rightarrow> 'x ai_db_scheme \<times> 's" where
  "embedding_step ops (Queue_Clauses f g t cs) (db, s) = (snd (enqueueEmbeddingJobsForClauses f g t cs 0 db), s)"
| "embedding_step ops (Scan_Clauses f g t org) (db, s) = (snd (scanAndEnqueueStaleClauseEmbeddings f g t org db), s)"
| "embedding_step ops (Embed_Clause penv w now i) (db, s) = snd (processNextEmbeddingJob ops penv w now i db s)"
| "embedding_step ops (Recover_Clauses t m) (db, s) = (snd (recoverStaleEmbeddingJobs t m db), s)"
| "embedding_step ops (Queue_Chunks f g t cs) (db, s) = (snd (enqueueEmbeddingJobsForChunks f g t cs 0 db), s)"
| "embedding_step ops (Scan_Chunks f g t org) (db, s) = (snd (scanAndEnqueueStaleChunkEmbeddings f g t org db), s)"
| "embedding_step ops (Embed_Chunk penv w now i) (db, s) = snd (processNextChunkEmbeddingJob ops penv w now i db s)"

definition run_embedding :: "'s counter_ops \<Rightarrow> embedding_op list \<Rightarrow> 'x ai_db_scheme \<times> 's \<Rightarrow> 'x ai_db_scheme \<times> 's" where
  "run_embedding ops xs ds = fold (embedding_step ops) xs ds"

text \<open>The job an operation claims.\<close>

fun clause_claim :: "embedding_op \<Rightarrow> 'x ai_db_scheme \<Rightarrow> string option" where
  "clause_claim (Embed_Clause penv w now i) db =
     map_option eb_id (fst (claimNextPendingEmbeddingJob w (at_ms now) (embedding_jobs db)))"
| "clause_claim _ db = None"

fun chunk_claim :: "embedding_op \<Rightarrow> 'x ai_db_scheme \<Rightarrow> string option" where
  "chunk_claim (Embed_Chunk penv w now i) db =
     map_option eb_id (fst (claimNextPendingEmbeddingJob w (at_ms now) (chunk_jobs db)))"
| "chunk_claim _ db = None"

text \<open>The pairs of source and checksum an operation may queue a job for.\<close>

fun clause_keys :: "embedding_op \<Rightarrow> 'x ai_db_scheme \<Rightarrow> (string \<times> string) set" where
  "clause_keys (Queue_Clauses f g t cs) db = (\<lambda>(i, org, txt). (i, g txt)) ` set cs"
| "clause_keys (Scan_Clauses f g t org) db = (\<lambda>c. (cr_id c, g (cr_normalizedText c))) ` set (contract_clauses db)"
| "clause_keys _ db = {}"

fun chunk_keys :: "embedding_op \<Rightarrow> 'x ai_db_scheme \<Rightarrow> (string \<times> string) set" where
  "chunk_keys (Queue_Chunks f g t cs) db = (\<lambda>(i, org, txt). (i, g txt)) ` set cs"
| "chunk_keys (Scan_Chunks f g t org) db = (\<lambda>c. (dk_id c, g (dk_normalizedText c))) ` set (document_chunks db)"
| "chunk_keys _ db = {}"

text \<open>The rest of the database: what no embedding operation writes.\<close>

definition same_sources :: "'x ai_db_scheme \<Rightarrow> 'x ai_db_scheme \<Rightarrow> bool" where
  "same_sources db db' \<longleftrightarrow> contract_clauses db' = contract_clauses db \<and> document_chunks db' = document_chunks db \<and>
     organizations db' = organizations db"

lemma same_sources_refl [simp]: "same_sources db db"
  by (simp add: same_sources_def)

lemma same_sources_trans: "same_sources a b \<Longrightarrow> same_sources b d \<Longrightarrow> same_sources a d"
  by (simp add: same_sources_def)

definition only_clause_jobs :: "(string \<times> string) set \<Rightarrow> 'x ai_db_scheme \<Rightarrow> 'x ai_db_scheme \<Rightarrow> bool" where
  "only_clause_jobs K db db' \<longleftrightarrow> evolves False None K (embedding_jobs db) (embedding_jobs db') \<and>
     same_sources db db' \<and> chunk_jobs db' = chunk_jobs db \<and> clause_embeddings db' = clause_embeddings db \<and>
     chunk_embeddings db' = chunk_embeddings db"

definition only_chunk_jobs :: "(string \<times> string) set \<Rightarrow> 'x ai_db_scheme \<Rightarrow> 'x ai_db_scheme \<Rightarrow> bool" where
  "only_chunk_jobs K db db' \<longleftrightarrow> evolves False None K (chunk_jobs db) (chunk_jobs db') \<and>
     same_sources db db' \<and> embedding_jobs db' = embedding_jobs db \<and> clause_embeddings db' = clause_embeddings db \<and>
     chunk_embeddings db' = chunk_embeddings db"

lemma only_jobs_trans:
  "only_clause_jobs K a b \<Longrightarrow> only_clause_jobs K b d \<Longrightarrow> only_clause_jobs K a d"
  "only_chunk_jobs K a b \<Longrightarrow> only_chunk_jobs K b d \<Longrightarrow> only_chunk_jobs K a d"
  unfolding only_clause_jobs_def only_chunk_jobs_def by (auto intro: evolves_trans same_sources_trans)

lemma only_jobs_refl:
  "queue_ok (embedding_jobs db) \<Longrightarrow> only_clause_jobs K db db"
  "queue_ok (chunk_jobs db) \<Longrightarrow> only_chunk_jobs K db db"
  by (simp_all add: only_clause_jobs_def only_chunk_jobs_def evolves_refl)

lemma only_jobs_ok:
  "only_clause_jobs K db db' \<Longrightarrow> queue_ok (embedding_jobs db')"
  "only_chunk_jobs K db db' \<Longrightarrow> queue_ok (chunk_jobs db')"
  by (simp_all add: only_clause_jobs_def only_chunk_jobs_def evolves_def)

lemma enqueue_one_job:
  assumes "(i, chk) \<in> K"
  shows "queue_ok (embedding_jobs db) \<Longrightarrow> only_clause_jobs K db (snd (enqueueEmbeddingJob q t org i chk db))"
    and "queue_ok (chunk_jobs db) \<Longrightarrow> only_chunk_jobs K db (snd (enqueueChunkEmbeddingJob q t org i chk db))"
proof -
  have "only_clause_jobs K db (snd (enqueueEmbeddingJob q t org i chk db))"
    if ok: "queue_ok (embedding_jobs db)"
  proof (cases "\<exists>j \<in> set (embedding_jobs db). eb_id j = q \<or> (eb_sourceId j = i \<and> eb_inputChecksum j = chk)")
    case True
    with ok show ?thesis by (simp add: enqueueEmbeddingJob_def only_jobs_refl)
  next
    case False
    then have "\<forall>j \<in> set (embedding_jobs db). eb_id j \<noteq> q \<and> job_key j \<noteq> (i, chk)" by (simp add: job_key_def)
    from evolves_append [OF ok this assms, where t = t and org = org and rc = False] False show ?thesis
      by (auto simp: enqueueEmbeddingJob_def only_clause_jobs_def same_sources_def new_embedding_job_def)
  qed
  then show "queue_ok (embedding_jobs db) \<Longrightarrow> only_clause_jobs K db (snd (enqueueEmbeddingJob q t org i chk db))" .
  have "only_chunk_jobs K db (snd (enqueueChunkEmbeddingJob q t org i chk db))"
    if ok: "queue_ok (chunk_jobs db)"
  proof (cases "\<exists>j \<in> set (chunk_jobs db). eb_id j = q \<or> (eb_sourceId j = i \<and> eb_inputChecksum j = chk)")
    case True
    with ok show ?thesis by (simp add: enqueueChunkEmbeddingJob_def only_jobs_refl)
  next
    case False
    then have "\<forall>j \<in> set (chunk_jobs db). eb_id j \<noteq> q \<and> job_key j \<noteq> (i, chk)" by (simp add: job_key_def)
    from evolves_append [OF ok this assms, where t = t and org = org and rc = False] False show ?thesis
      by (auto simp: enqueueChunkEmbeddingJob_def only_chunk_jobs_def same_sources_def)
  qed
  then show "queue_ok (chunk_jobs db) \<Longrightarrow> only_chunk_jobs K db (snd (enqueueChunkEmbeddingJob q t org i chk db))" .
qed

lemma queue_loops:
  "queue_ok (embedding_jobs db) \<Longrightarrow> (\<lambda>(i, org, doc). (i, g doc)) ` set cs \<subseteq> K \<Longrightarrow>
   only_clause_jobs K db (snd (enqueueEmbeddingJobsForClauses f g t cs n db))"
proof (induction cs arbitrary: n db)
  case (Cons c cs)
  obtain i org doc where c: "c = (i, org, doc)" by (cases c)
  have "(i, g doc) \<in> K" using Cons.prems(2) c by simp
  note one = enqueue_one_job(1) [OF this Cons.prems(1), of "f i" t org]
  have "(\<lambda>(i, org, doc). (i, g doc)) ` set cs \<subseteq> K" using Cons.prems(2) by simp
  from Cons.IH [OF only_jobs_ok(1) [OF one] this] show ?case
    unfolding c enqueue_step by (rule only_jobs_trans(1) [OF one])
qed (simp add: only_jobs_refl)

lemma enqueue_chunk_step:
  "snd (enqueueEmbeddingJobsForChunks f g now ((i, org, t) # cs) n db) =
     snd (enqueueEmbeddingJobsForChunks f g now cs
       (if fst (enqueueChunkEmbeddingJob (f i) now org i (g t) db) = None then n else n + 1)
       (snd (enqueueChunkEmbeddingJob (f i) now org i (g t) db)))"
  by (simp split: prod.split option.split)

lemma chunk_queue_loops:
  "queue_ok (chunk_jobs db) \<Longrightarrow> (\<lambda>(i, org, doc). (i, g doc)) ` set cs \<subseteq> K \<Longrightarrow>
   only_chunk_jobs K db (snd (enqueueEmbeddingJobsForChunks f g t cs n db))"
proof (induction cs arbitrary: n db)
  case (Cons c cs)
  obtain i org doc where c: "c = (i, org, doc)" by (cases c)
  have "(i, g doc) \<in> K" using Cons.prems(2) c by simp
  note one = enqueue_one_job(2) [OF this Cons.prems(1), of "f i" t org]
  have "(\<lambda>(i, org, doc). (i, g doc)) ` set cs \<subseteq> K" using Cons.prems(2) by simp
  from Cons.IH [OF only_jobs_ok(2) [OF one] this] show ?case
    unfolding c enqueue_chunk_step by (rule only_jobs_trans(2) [OF one])
qed (simp add: only_jobs_refl)

lemma scan_loops:
  "queue_ok (embedding_jobs db) \<Longrightarrow> \<forall>c \<in> set cs. (cr_id c, g (cr_normalizedText c)) \<in> K \<Longrightarrow>
   only_clause_jobs K db (snd (scan_clauses f g t cs n db))"
proof (induction cs arbitrary: n db)
  case (Cons c cs)
  have "(cr_id c, g (cr_normalizedText c)) \<in> K" using Cons.prems(2) by simp
  note one = enqueue_one_job(1) [OF this Cons.prems(1), of "f (cr_id c)" t "cr_organizationId c"]
  have rest: "only_clause_jobs K db (snd (scan_clauses f g t cs m db1))" if "only_clause_jobs K db db1" for m db1
    using Cons.IH [OF only_jobs_ok(1) [OF that], of m] Cons.prems(2) by (auto intro: only_jobs_trans(1) [OF that])
  from rest [OF only_jobs_refl(1) [OF Cons.prems(1)]] rest [OF one] show ?case
    by (auto simp: Let_def split: prod.split option.split)
qed (simp add: only_jobs_refl)

lemma chunk_scan_loops:
  "queue_ok (chunk_jobs db) \<Longrightarrow> \<forall>c \<in> set cs. (dk_id c, g (dk_normalizedText c)) \<in> K \<Longrightarrow>
   only_chunk_jobs K db (snd (scan_chunks f g t cs n db))"
proof (induction cs arbitrary: n db)
  case (Cons c cs)
  have "(dk_id c, g (dk_normalizedText c)) \<in> K" using Cons.prems(2) by simp
  note one = enqueue_one_job(2) [OF this Cons.prems(1), of "f (dk_id c)" t "dk_organizationId c"]
  have rest: "only_chunk_jobs K db (snd (scan_chunks f g t cs m db1))" if "only_chunk_jobs K db db1" for m db1
    using Cons.IH [OF only_jobs_ok(2) [OF that], of m] Cons.prems(2) by (auto intro: only_jobs_trans(2) [OF that])
  from rest [OF only_jobs_refl(2) [OF Cons.prems(1)]] rest [OF one] show ?case
    by (auto simp: Let_def split: prod.split option.split)
qed (simp add: only_jobs_refl)

lemma update_rows_other: "r \<in> set rows \<Longrightarrow> \<not> P r \<Longrightarrow> r \<in> set (update_rows P f rows)"
  by (force simp: set_update_rows)

text \<open>Recovery puts each stale job back or gives it up; no other row changes.\<close>

lemma recover_loop_evolves:
  "queue_ok js \<Longrightarrow> distinct (map eb_id rest) \<Longrightarrow> \<forall>j \<in> set rest. j \<in> set js \<and> eb_status j = Emb_PROCESSING \<Longrightarrow>
   evolves True None K js (snd (recover_embedding_loop t rest js))"
proof (induction rest arbitrary: js)
  case (Cons job rest)
  let ?f = "if eb_attempt job < eb_maxAttempts job then eb_reset else eb_give_up t"
  let ?js = "update_rows (\<lambda>q. eb_id q = eb_id job) ?f js"
  have job: "job \<in> set js" "eb_status job = Emb_PROCESSING" using Cons.prems(3) by simp_all
  then have run: "recover_embedding_loop t (job # rest) js = recover_embedding_loop t rest ?js"
    by (auto simp: recoverStaleEmbeddingJob_def resetEmbeddingJobToPending_def updateEmbeddingJob_def)
  have ok: "job_ok job" using job(1) Cons.prems(1) by (simp add: queue_ok_def)
  then have f: "job_step True None job (?f job)" "job_ok (?f job)"
    using job(2) by (auto simp: job_step_def settled_def job_ok_def eb_reset_def eb_give_up_def same_job_def job_key_def)
  from evolves_update [where f = ?f, OF Cons.prems(1) job(1) f] have one: "evolves True None K js ?js" by simp
  have rest: "\<forall>j \<in> set rest. j \<in> set ?js \<and> eb_status j = Emb_PROCESSING"
  proof
    fix j assume j: "j \<in> set rest"
    then have "eb_id j \<in> eb_id ` set rest" by (rule imageI)
    then have "eb_id j \<noteq> eb_id job" using Cons.prems(2) by auto
    with j Cons.prems(3) show "j \<in> set ?js \<and> eb_status j = Emb_PROCESSING" by (simp add: update_rows_other)
  qed
  have "distinct (map eb_id rest)" using Cons.prems(2) by simp
  from evolves_trans [OF one Cons.IH [OF evolves_ok [OF one] this rest]] show ?case unfolding run .
qed (simp add: evolves_refl)

section \<open>Every operation at once\<close>

definition embedding_wf :: "'x ai_db_scheme \<Rightarrow> bool" where
  "embedding_wf db \<longleftrightarrow> queue_ok (embedding_jobs db) \<and> embeddings_ok (clause_embeddings db) \<and>
     queue_ok (chunk_jobs db) \<and> embeddings_ok (chunk_embeddings db)"

text \<open>What one operation does to the two pipelines, in one statement the theorems below rest on.\<close>

definition embedding_effect ::
  "embedding_op \<Rightarrow> 'x ai_db_scheme \<Rightarrow> 'x ai_db_scheme \<Rightarrow> bool" where
  "embedding_effect x db db' \<longleftrightarrow> embedding_wf db' \<and> same_sources db db' \<and>
     evolves True (clause_claim x db) (clause_keys x db) (embedding_jobs db) (embedding_jobs db') \<and>
     evolves False (chunk_claim x db) (chunk_keys x db) (chunk_jobs db) (chunk_jobs db') \<and>
     (\<forall>i. (\<forall>j \<in> set (embedding_jobs db). eb_sourceId j = i \<longrightarrow> eb_status j \<noteq> Emb_PENDING) \<longrightarrow>
        filter (\<lambda>e. em_sourceId e = i) (clause_embeddings db') = filter (\<lambda>e. em_sourceId e = i) (clause_embeddings db)) \<and>
     (\<forall>i. (\<forall>j \<in> set (chunk_jobs db). eb_sourceId j = i \<longrightarrow> eb_status j \<noteq> Emb_PENDING) \<longrightarrow>
        filter (\<lambda>e. em_sourceId e = i) (chunk_embeddings db') = filter (\<lambda>e. em_sourceId e = i) (chunk_embeddings db))"

lemma only_jobs_effect:
  "embedding_wf db \<Longrightarrow> only_clause_jobs (clause_keys x db) db db' \<Longrightarrow> clause_claim x db = None \<Longrightarrow>
   chunk_claim x db = None \<Longrightarrow> embedding_effect x db db'"
  "embedding_wf db \<Longrightarrow> only_chunk_jobs (chunk_keys x db) db db' \<Longrightarrow> clause_claim x db = None \<Longrightarrow>
   chunk_claim x db = None \<Longrightarrow> embedding_effect x db db'"
  using only_jobs_ok [of _ db db']
  by (auto simp: embedding_effect_def embedding_wf_def only_clause_jobs_def only_chunk_jobs_def evolves_refl evolves_mono)

lemma embed_clause_effect:
  assumes "embedding_wf db" "processNextEmbeddingJob ops penv w now newId db s = (r, db', s')"
  shows "embedding_effect (Embed_Clause penv w now newId) db db'"
proof -
  let ?st = "\<lparr>es_jobs = embedding_jobs db, es_embeddings = clause_embeddings db, es_usage = ai_usage db\<rparr>"
  obtain st' where run: "embedding_worker ops penv (clause_source db) (organizations db) w now newId ?st s = (r, st', s')"
    and db': "db' = db\<lparr>embedding_jobs := es_jobs st', clause_embeddings := es_embeddings st', ai_usage := es_usage st'\<rparr>"
    using assms(2) by (auto simp: processNextEmbeddingJob_def split: prod.splits)
  have "queue_ok (es_jobs ?st)" "embeddings_ok (es_embeddings ?st)" using assms(1) by (simp_all add: embedding_wf_def)
  note w = worker_evolves [OF this run]
  show ?thesis
    using assms(1) w(1) [of "{}"] w(2,3)
    by (auto simp: embedding_effect_def embedding_wf_def db' same_sources_def evolves_refl evolves_mono dest: evolves_ok)
qed

lemma embed_chunk_effect:
  assumes "embedding_wf db" "processNextChunkEmbeddingJob ops penv w now newId db s = (r, db', s')"
  shows "embedding_effect (Embed_Chunk penv w now newId) db db'"
proof -
  let ?st = "\<lparr>es_jobs = chunk_jobs db, es_embeddings = chunk_embeddings db, es_usage = ai_usage db\<rparr>"
  obtain st' where run: "embedding_worker ops penv (chunk_source db) (organizations db) w now newId ?st s = (r, st', s')"
    and db': "db' = db\<lparr>chunk_jobs := es_jobs st', chunk_embeddings := es_embeddings st', ai_usage := es_usage st'\<rparr>"
    using assms(2) by (auto simp: processNextChunkEmbeddingJob_def split: prod.splits)
  have "queue_ok (es_jobs ?st)" "embeddings_ok (es_embeddings ?st)" using assms(1) by (simp_all add: embedding_wf_def)
  note w = worker_evolves [OF this run]
  show ?thesis
    using assms(1) w(1) [of "{}"] w(2,3)
    by (auto simp: embedding_effect_def embedding_wf_def db' same_sources_def evolves_refl evolves_mono dest: evolves_ok)
qed

lemma recover_effect:
  assumes "embedding_wf db" "recoverStaleEmbeddingJobs t m db = (r, db')"
  shows "embedding_effect (Recover_Clauses t m) db db'"
proof -
  let ?stale = "findStaleProcessingEmbeddingJobs (t - m * 60 * 1000) (embedding_jobs db)"
  have ok: "queue_ok (embedding_jobs db)" using assms(1) by (simp add: embedding_wf_def)
  have "distinct (map eb_id ?stale)" "\<forall>j \<in> set ?stale. j \<in> set (embedding_jobs db) \<and> eb_status j = Emb_PROCESSING"
    using ok by (auto simp: findStaleProcessingEmbeddingJobs_def queue_ok_def distinct_map_filter)
  from recover_loop_evolves [OF ok this, of "{}" t] have
    "evolves True None {} (embedding_jobs db) (snd (recover_embedding_loop t ?stale (embedding_jobs db)))" .
  moreover have "db' = db\<lparr>embedding_jobs := snd (recover_embedding_loop t ?stale (embedding_jobs db))\<rparr>"
    using assms(2) by (auto simp: recoverStaleEmbeddingJobs_def Let_def split: prod.splits)
  ultimately show ?thesis
    using assms(1) by (auto simp: embedding_effect_def embedding_wf_def same_sources_def evolves_refl evolves_mono dest: evolves_ok)
qed

lemma step_effect:
  assumes "embedding_wf db" "embedding_step ops x (db, s) = (db', s')"
  shows "embedding_effect x db db'"
proof -
  have ok: "queue_ok (embedding_jobs db)" "queue_ok (chunk_jobs db)" using assms(1) by (simp_all add: embedding_wf_def)
  show ?thesis
  proof (cases x)
    case (Queue_Clauses f g t cs)
    then have "(\<lambda>(i, org, doc). (i, g doc)) ` set cs \<subseteq> clause_keys x db" by auto
    from queue_loops [OF ok(1) this] Queue_Clauses assms show ?thesis
      by (intro only_jobs_effect(1)) auto
  next
    case (Scan_Clauses f g t org)
    let ?cs = "case org of None \<Rightarrow> contract_clauses db | Some q \<Rightarrow> filter (\<lambda>c. cr_organizationId c = q) (contract_clauses db)"
    have "\<forall>c \<in> set ?cs. (cr_id c, g (cr_normalizedText c)) \<in> clause_keys x db"
      using Scan_Clauses by (auto split: option.splits)
    from scan_loops [OF ok(1) this, of f t 0] Scan_Clauses assms show ?thesis
      by (intro only_jobs_effect(1)) (simp_all add: scanAndEnqueueStaleClauseEmbeddings_def Let_def case_prod_beta)
  next
    case (Embed_Clause penv w now i)
    with assms embed_clause_effect show ?thesis by (metis embedding_step.simps(3) prod.collapse)
  next
    case (Recover_Clauses t m)
    with assms recover_effect show ?thesis by (metis embedding_step.simps(4) prod.collapse prod.inject)
  next
    case (Queue_Chunks f g t cs)
    then have "(\<lambda>(i, org, doc). (i, g doc)) ` set cs \<subseteq> chunk_keys x db" by auto
    from chunk_queue_loops [OF ok(2) this] Queue_Chunks assms show ?thesis
      by (intro only_jobs_effect(2)) auto
  next
    case (Scan_Chunks f g t org)
    let ?cs = "case org of None \<Rightarrow> document_chunks db | Some q \<Rightarrow> filter (\<lambda>c. dk_organizationId c = q) (document_chunks db)"
    have "\<forall>c \<in> set ?cs. (dk_id c, g (dk_normalizedText c)) \<in> chunk_keys x db"
      using Scan_Chunks by (auto split: option.splits)
    from chunk_scan_loops [OF ok(2) this, of f t 0] Scan_Chunks assms show ?thesis
      by (intro only_jobs_effect(2)) (simp_all add: scanAndEnqueueStaleChunkEmbeddings_def Let_def case_prod_beta)
  next
    case (Embed_Chunk penv w now i)
    with assms embed_chunk_effect show ?thesis by (metis embedding_step.simps(7) prod.collapse)
  qed
qed

section \<open>Paying for embeddings\<close>

definition actual_tokens :: "jstring \<Rightarrow> embedding_result \<Rightarrow> nat" where
  "actual_tokens doc answer = (case er_inputTokens answer of None \<Rightarrow> estimate_tokens doc | Some n \<Rightarrow> n)"

definition cost_or_zero :: "nat option \<Rightarrow> nat" where
  "cost_or_zero c = (case c of None \<Rightarrow> 0 | Some n \<Rightarrow> n)"

text \<open>Amounts stay in the range JavaScript numbers represent exactly.\<close>

definition safe_amounts ::
  "embedding_env \<Rightarrow> (string \<Rightarrow> (jstring \<times> string) option) \<Rightarrow> organization_row list \<Rightarrow> bool" where
  "safe_amounts penv src orgs \<longleftrightarrow>
     (\<forall>org \<in> set orgs. (\<forall>b. monthlyAiBudgetMinor (og_limits org) = Some b \<longrightarrow> b \<le> 2 ^ 53 - 1) \<and>
        (\<forall>p g i doc. getEmbeddingProviderForOrganization penv org = Inr (p, g) \<longrightarrow> src i = Some (doc, og_id org) \<longrightarrow>
           cost_or_zero (embedding_cost penv p (estimate_tokens doc)) \<le> 2 ^ 53 - 1 \<and>
           (\<forall>answer. ep_generateEmbedding p doc = Some answer \<longrightarrow>
              cost_or_zero (embedding_cost penv p (actual_tokens doc answer)) \<le> 2 ^ 53 - 1)))"

lemma settle_cost_or_zero:
  "settleAiBudget ops t res c s = settleAiBudget ops t res (Some (cost_or_zero c)) s"
  by (auto simp: settleAiBudget_def cost_or_zero_def toSafeAmount_def split: option.split)

lemma give_back_counter:
  "\<not> ee_releaseThrows penv \<Longrightarrow> give_back ops penv now job org p grp res st s = (r, st', s') \<Longrightarrow>
   s' = releaseAiBudget ops (at_ms now) res s"
  by (auto simp: give_back_def Let_def split: prod.splits)

text \<open>What a run of a claimed job that embedded did: the source's new latest embedding is of the text as
  it is now, the job is completed, and the counters hold the actual cost and one request.\<close>

definition paid_embedding ::
  "(string \<Rightarrow> 's \<Rightarrow> int) \<Rightarrow> embedding_env \<Rightarrow> (string \<Rightarrow> (jstring \<times> string) option) \<Rightarrow>
   organization_row list \<Rightarrow> utc_instant \<Rightarrow> string \<Rightarrow> string \<Rightarrow> string \<Rightarrow> embedding_row list \<Rightarrow> 's \<Rightarrow>
   embedding_store \<Rightarrow> 's \<Rightarrow> bool"
where
  "paid_embedding val penv src orgs now newId jobId sourceId es s st' s' \<longleftrightarrow>
     (\<exists>doc. \<exists>org \<in> set orgs. \<exists>p g answer.
        src sourceId = Some (doc, og_id org) \<and> getEmbeddingProviderForOrganization penv org = Inr (p, g) \<and>
        ep_generateEmbedding p doc = Some answer \<and>
        createLatestEmbedding newId (og_id org) sourceId (ep_providerName p) (ep_modelName p)
          (er_dimension answer) (er_vector answer) (ee_checksum penv doc) es = Some (es_embeddings st') \<and>
        (\<exists>q \<in> set (es_jobs st'). eb_id q = jobId \<and> eb_status q = Emb_COMPLETED) \<and>
        (\<forall>k. val k s' = val k s + booked (full_reservation now (og_id org) (og_limits org)
           (cost_or_zero (embedding_cost penv p (actual_tokens doc answer)))) k))"

lemma update_rows_hit: "r \<in> set rows \<Longrightarrow> P r \<Longrightarrow> f r \<in> set (update_rows P f rows)"
  by (force simp: set_update_rows)

context budget_counter
begin

text \<open>Reserving for a job: rejected without a trace, or booked so that releasing undoes it and
  settling books the actual amount.\<close>

lemma reserve_outcomes:
  assumes "valid s" "safe_amounts penv src orgs" "org \<in> set orgs"
    and "getEmbeddingProviderForOrganization penv org = Inr (p, g)" "src i = Some (doc, og_id org)"
  shows "(\<exists>s1. reserve_for ops penv now org p doc s = (BudgetRejected, s1) \<and>
      (\<forall>k. value_of (at_ms now) k s1 = value_of (at_ms now) k s)) \<or>
    (\<exists>res s1. reserve_for ops penv now org p doc s = (Reserved res, s1) \<and>
      (\<forall>k. value_of (at_ms now) k (releaseAiBudget ops (at_ms now) res s1) = value_of (at_ms now) k s) \<and>
      (\<forall>actual \<le> 2 ^ 53 - 1. \<exists>s2. settleAiBudget ops (at_ms now) res (Some actual) s1 = Some s2 \<and>
         (\<forall>k. value_of (at_ms now) k s2 =
            value_of (at_ms now) k s + booked (full_reservation now (og_id org) (og_limits org) actual) k)))"
proof -
  have le: "cost_or_zero (embedding_cost penv p (estimate_tokens doc)) \<le> 2 ^ 53 - 1"
    "\<forall>b. monthlyAiBudgetMinor (og_limits org) = Some b \<longrightarrow> b \<le> 2 ^ 53 - 1"
    using assms unfolding safe_amounts_def by blast+
  note res = all_or_nothing [OF assms(1) le, of now "og_id org"] settle_and_release [OF assms(1) le, of now "og_id org"]
  show ?thesis unfolding reserve_for_def cost_or_zero_def [symmetric] using res by metis
qed

lemma run_pays:
  assumes s: "valid s" and safe: "safe_amounts penv src orgs" and job: "job \<in> set (es_jobs st)"
    and works: "\<not> ee_settleThrows penv" "\<not> ee_releaseThrows penv"
    and run: "runClaimedEmbeddingJob ops penv src orgs now newId job st s = (r, st', s')"
  shows "(es_embeddings st' = es_embeddings st \<and> (\<forall>k. value_of (at_ms now) k s' = value_of (at_ms now) k s)) \<or>
    (r \<and> paid_embedding (value_of (at_ms now)) penv src orgs now newId (eb_id job) (eb_sourceId job) (es_embeddings st) s st' s')"
proof -
  note reserve = reserve_outcomes [OF s safe]
  have no_reservation: "s1 = s" if "reserve_for ops penv now org p doc s = (UnsafeAmount, s1)" "org \<in> set orgs"
      "getEmbeddingProviderForOrganization penv org = Inr (p, g)" "src (eb_sourceId job) = Some (doc, og_id org)"
    for org p g doc s1
    using reserve [OF that(2-4), of now] that(1) by simp
  have rejected: "\<forall>k. value_of (at_ms now) k s1 = value_of (at_ms now) k s"
    if "reserve_for ops penv now org p doc s = (BudgetRejected, s1)" "org \<in> set orgs"
      "getEmbeddingProviderForOrganization penv org = Inr (p, g)" "src (eb_sourceId job) = Some (doc, og_id org)"
    for org p g doc s1
    using reserve [OF that(2-4), of now] that(1) by simp
  have present: "eb_id job \<in> eb_id ` set (es_jobs st)" using job by simp
  then show ?thesis
  proof (cases rule: run_cases [where ops = ops and penv = penv and src = src and orgs = orgs and now = now
      and newId = newId and s = s])
    case (threw s1)
    then have "s1 = s" using no_reservation by blast
    with threw(1) run show ?thesis by simp
  next
    case (gave_up code s1)
    then have "\<forall>k. value_of (at_ms now) k s1 = value_of (at_ms now) k s" using rejected by blast
    with gave_up(1) run show ?thesis by simp
  next
    case (tried doc org p g res s1)
    from reserve [OF tried(2,3,1), of now] tried(4) have
      release: "\<forall>k. value_of (at_ms now) k (releaseAiBudget ops (at_ms now) res s1) = value_of (at_ms now) k s"
      and settle: "\<And>actual. actual \<le> 2 ^ 53 - 1 \<Longrightarrow> \<exists>s2. settleAiBudget ops (at_ms now) res (Some actual) s1 = Some s2 \<and>
           (\<forall>k. value_of (at_ms now) k s2 = value_of (at_ms now) k s + booked (full_reservation now (og_id org) (og_limits org) actual) k)"
      by auto
    have cheap: "cost_or_zero (embedding_cost penv p (actual_tokens doc answer)) \<le> 2 ^ 53 - 1"
      if "ep_generateEmbedding p doc = Some answer" for answer
      using safe tried(1-3) that unfolding safe_amounts_def by blast
    note settle_zero = settle_cost_or_zero [where c = "embedding_cost penv p (actual_tokens doc _)"]
    from present show ?thesis
    proof (cases rule: embed_and_settle_cases [where ops = ops and penv = penv and now = now and newId = newId
        and org = "og_id org" and doc = doc and p = p and grp = g and res = res and s = s1])
      case failed
      with tried(5) run have gb: "give_back ops penv now job (og_id org) p g res st s1 = (r, st', s')" by simp
      with give_back_jobs(1) [OF present gb] give_back_counter [OF works(2) gb] release show ?thesis by simp
    next
      case (stored answer rows)
      from settle [OF cheap [OF stored(1)]] stored(3) works(1) show ?thesis
        unfolding actual_tokens_def [symmetric] by (subst (asm) settle_zero) auto
    next
      case (settled answer rows s2 us)
      from settled(4) tried(5) run have st': "r" "s' = s2" "es_embeddings st' = rows"
        "es_jobs st' = update_rows (\<lambda>j. eb_id j = eb_id job) (eb_complete (at_ms now) p) (es_jobs st)" by auto
      from settle [OF cheap [OF settled(1)]] settled(3) have
        "\<forall>k. value_of (at_ms now) k s' = value_of (at_ms now) k s + booked (full_reservation now (og_id org) (og_limits org)
          (cost_or_zero (embedding_cost penv p (actual_tokens doc answer)))) k"
        unfolding actual_tokens_def [symmetric] st'(2) by (subst (asm) settle_zero) auto
      moreover have "eb_complete (at_ms now) p job \<in> set (es_jobs st')" unfolding st'(4) by (rule update_rows_hit [OF job]) simp
      then have "\<exists>q \<in> set (es_jobs st'). eb_id q = eb_id job \<and> eb_status q = Emb_COMPLETED"
        by (rule bexI [rotated]) (simp add: eb_complete_def)
      ultimately show ?thesis
        using tried(1-3) settled(1,2) st'(1,3) unfolding paid_embedding_def by blast
    qed
  qed
qed

lemma worker_pays:
  assumes s: "valid s" and ok: "queue_ok (es_jobs st)" and safe: "safe_amounts penv src orgs"
    and works: "\<not> ee_settleThrows penv" "\<not> ee_releaseThrows penv"
    and run: "embedding_worker ops penv src orgs w now newId st s = (r, st', s')"
  shows "(es_embeddings st' = es_embeddings st \<and> (\<forall>k. value_of (at_ms now) k s' = value_of (at_ms now) k s)) \<or>
    (\<exists>j \<in> set (es_jobs st). eb_status j = Emb_PENDING \<and> r = Inr (Some (eb_id j)) \<and>
      paid_embedding (value_of (at_ms now)) penv src orgs now newId (eb_id j) (eb_sourceId j) (es_embeddings st) s st' s')"
proof (cases "claimNextPendingEmbeddingJob w (at_ms now) (es_jobs st)")
  case (Pair c js)
  show ?thesis
  proof (cases c)
    case None
    with Pair run show ?thesis by (simp add: embedding_worker_def)
  next
    case (Some job)
    with Pair have claim: "claimNextPendingEmbeddingJob w (at_ms now) (es_jobs st) = (Some job, js)" by simp
    obtain j where j: "j \<in> set (es_jobs st)" "eb_status j = Emb_PENDING" "job = eb_claim w (at_ms now) j" "job \<in> set js"
      using claim_facts [OF ok claim] by metis
    obtain r1 where ran: "runClaimedEmbeddingJob ops penv src orgs now newId job (st\<lparr>es_jobs := js\<rparr>) s = (r1, st', s')"
      and r: "r = (if r1 then Inr (Some (eb_id job)) else Inl UnexpectedError)"
      using run claim by (auto simp: embedding_worker_def split: prod.splits)
    have same: "eb_id job = eb_id j" "eb_sourceId job = eb_sourceId j" by (simp_all add: j(3) eb_claim_def)
    have "job \<in> set (es_jobs (st\<lparr>es_jobs := js\<rparr>))" using j(4) by simp
    from run_pays [OF s safe this works ran] r j(1,2) show ?thesis unfolding same by auto
  qed
qed

end

section \<open>What the queues never do again\<close>

text \<open>A source whose jobs are all beyond the reach of the workers (and, with \<open>rc\<close>, of stale recovery),
  one of them for the checksum \<open>c\<close>.\<close>

definition dormant :: "bool \<Rightarrow> string \<Rightarrow> string \<Rightarrow> embedding_job list \<Rightarrow> bool" where
  "dormant rc i c js \<longleftrightarrow> (\<forall>j \<in> set js. eb_sourceId j = i \<longrightarrow> settled j \<or> (\<not> rc \<and> eb_status j = Emb_PROCESSING)) \<and>
     (i, c) \<in> job_key ` set js"

lemma dormant_evolves:
  assumes d: "dormant rc i c js" and e: "evolves rc cl K js js'" and K: "\<forall>k. (i, k) \<in> K \<longrightarrow> k = c"
  shows "filter (\<lambda>j. eb_sourceId j = i) js' = filter (\<lambda>j. eb_sourceId j = i) js" and "dormant rc i c js'"
proof -
  obtain kept new where js': "js' = kept @ new" "list_all2 (job_step rc cl) js kept" "\<forall>j \<in> set new. job_key j \<in> K"
    "queue_ok js'"
    using e by (auto simp: evolves_def)
  have keys: "map job_key kept = map job_key js"
    using js'(2) by (induction rule: list_all2_induct) (auto simp: job_step_def same_job_def)
  have "\<forall>j \<in> set js. eb_sourceId j = i \<longrightarrow> settled j \<or> (\<not> rc \<and> eb_status j = Emb_PROCESSING)"
    using d by (simp add: dormant_def)
  with js'(2) have same: "filter (\<lambda>j. eb_sourceId j = i) kept = filter (\<lambda>j. eb_sourceId j = i) js"
    by (induction rule: list_all2_induct) (auto simp: job_step_def same_job_def job_key_def)
  have "eb_sourceId j \<noteq> i" if j: "j \<in> set new" for j
  proof
    assume "eb_sourceId j = i"
    with j js'(3) K have "job_key j = (i, c)" by (auto simp: job_key_def)
    moreover have "(i, c) \<in> job_key ` set kept" using d keys by (metis dormant_def list.set_map)
    moreover have "job_key ` set kept \<inter> job_key ` set new = {}" using js'(1,4) by (simp add: queue_ok_def)
    ultimately show False using j by (metis disjoint_iff imageI)
  qed
  then have none: "filter (\<lambda>j. eb_sourceId j = i) new = []" by (simp add: filter_empty_conv)
  with same show all: "filter (\<lambda>j. eb_sourceId j = i) js' = filter (\<lambda>j. eb_sourceId j = i) js" by (simp add: js'(1))
  then have "set (filter (\<lambda>j. eb_sourceId j = i) js') = set (filter (\<lambda>j. eb_sourceId j = i) js)" by simp
  then have "j \<in> set js' \<and> eb_sourceId j = i \<longleftrightarrow> j \<in> set js \<and> eb_sourceId j = i" for j by auto
  with d show "dormant rc i c js'" by (force simp: dormant_def job_key_def)
qed

lemma dormant_no_pending: "dormant rc i c js \<Longrightarrow> j \<in> set js \<Longrightarrow> eb_sourceId j = i \<Longrightarrow> eb_status j \<noteq> Emb_PENDING"
  by (auto simp: dormant_def settled_def)

lemma keys_same_sources:
  "same_sources db db' \<Longrightarrow> clause_keys x db' = clause_keys x db \<and> chunk_keys x db' = chunk_keys x db"
  by (cases x) (simp_all add: same_sources_def)

lemma run_embedding_simps [simp]:
  "run_embedding ops [] ds = ds" "run_embedding ops (x # xs) ds = run_embedding ops xs (embedding_step ops x ds)"
  by (simp_all add: run_embedding_def)

lemma run_wf: "embedding_wf db \<Longrightarrow> embedding_wf (fst (run_embedding ops xs (db, s)))"
proof (induction xs arbitrary: db s)
  case (Cons x xs)
  obtain db1 s1 where st: "embedding_step ops x (db, s) = (db1, s1)" by fastforce
  from step_effect [OF Cons.prems st] have "embedding_wf db1" by (simp add: embedding_effect_def)
  with Cons.IH st show ?case by simp
qed simp

lemma dormant_clause_run:
  assumes "embedding_wf db" "dormant True i c (embedding_jobs db)" "\<forall>x \<in> set xs. \<forall>k. (i, k) \<in> clause_keys x db \<longrightarrow> k = c"
  shows "filter (\<lambda>j. eb_sourceId j = i) (embedding_jobs (fst (run_embedding ops xs (db, s)))) =
      filter (\<lambda>j. eb_sourceId j = i) (embedding_jobs db) \<and>
    filter (\<lambda>e. em_sourceId e = i) (clause_embeddings (fst (run_embedding ops xs (db, s)))) =
      filter (\<lambda>e. em_sourceId e = i) (clause_embeddings db)"
  using assms
proof (induction xs arbitrary: db s)
  case (Cons x xs)
  obtain db1 s1 where st: "embedding_step ops x (db, s) = (db1, s1)" by fastforce
  note eff = step_effect [OF Cons.prems(1) st, unfolded embedding_effect_def]
  have K: "\<forall>k. (i, k) \<in> clause_keys x db \<longrightarrow> k = c" using Cons.prems(3) by simp
  have ev: "evolves True (clause_claim x db) (clause_keys x db) (embedding_jobs db) (embedding_jobs db1)" using eff by simp
  note one = dormant_evolves [OF Cons.prems(2) ev K]
  have "\<forall>j \<in> set (embedding_jobs db). eb_sourceId j = i \<longrightarrow> eb_status j \<noteq> Emb_PENDING"
    using dormant_no_pending [OF Cons.prems(2)] by blast
  then have rows: "filter (\<lambda>e. em_sourceId e = i) (clause_embeddings db1) = filter (\<lambda>e. em_sourceId e = i) (clause_embeddings db)"
    using eff by blast
  have "\<forall>x \<in> set xs. \<forall>k. (i, k) \<in> clause_keys x db1 \<longrightarrow> k = c"
    using Cons.prems(3) keys_same_sources [of db db1] eff by auto
  with Cons.IH [OF _ one(2), of s1] eff one(1) rows st show ?case by simp
qed simp

lemma dormant_chunk_run:
  assumes "embedding_wf db" "dormant False i c (chunk_jobs db)" "\<forall>x \<in> set xs. \<forall>k. (i, k) \<in> chunk_keys x db \<longrightarrow> k = c"
  shows "filter (\<lambda>j. eb_sourceId j = i) (chunk_jobs (fst (run_embedding ops xs (db, s)))) =
      filter (\<lambda>j. eb_sourceId j = i) (chunk_jobs db) \<and>
    filter (\<lambda>e. em_sourceId e = i) (chunk_embeddings (fst (run_embedding ops xs (db, s)))) =
      filter (\<lambda>e. em_sourceId e = i) (chunk_embeddings db)"
  using assms
proof (induction xs arbitrary: db s)
  case (Cons x xs)
  obtain db1 s1 where st: "embedding_step ops x (db, s) = (db1, s1)" by fastforce
  note eff = step_effect [OF Cons.prems(1) st, unfolded embedding_effect_def]
  have K: "\<forall>k. (i, k) \<in> chunk_keys x db \<longrightarrow> k = c" using Cons.prems(3) by simp
  have ev: "evolves False (chunk_claim x db) (chunk_keys x db) (chunk_jobs db) (chunk_jobs db1)" using eff by simp
  note one = dormant_evolves [OF Cons.prems(2) ev K]
  have "\<forall>j \<in> set (chunk_jobs db). eb_sourceId j = i \<longrightarrow> eb_status j \<noteq> Emb_PENDING"
    using dormant_no_pending [OF Cons.prems(2)] by blast
  then have rows: "filter (\<lambda>e. em_sourceId e = i) (chunk_embeddings db1) = filter (\<lambda>e. em_sourceId e = i) (chunk_embeddings db)"
    using eff by blast
  have "\<forall>x \<in> set xs. \<forall>k. (i, k) \<in> chunk_keys x db1 \<longrightarrow> k = c"
    using Cons.prems(3) keys_same_sources [of db db1] eff by auto
  with Cons.IH [OF _ one(2), of s1] eff one(1) rows st show ?case by simp
qed simp

section \<open>Bounded attempts\<close>

definition queue_at :: "embedding_job list \<Rightarrow> string \<Rightarrow> (nat \<times> nat \<times> bool) option" where
  "queue_at js i = map_option (\<lambda>j. (eb_attempt j, eb_maxAttempts j, eb_status j = Emb_PENDING))
     (find_row (\<lambda>j. eb_id j = i) js)"

lemma queue_at_bound:
  "queue_ok js \<Longrightarrow> queue_at js i = Some (tries, most, claimable) \<Longrightarrow> tries \<le> most \<and> (claimable \<longrightarrow> tries < most)"
  by (auto simp: queue_at_def queue_ok_def job_ok_def dest: find_row_Some)

lemma queue_at_evolves:
  assumes "evolves rc c K js js'" "queue_at js i = Some (tries, most, claimable)"
  shows "\<exists>claimable'. queue_at js' i = Some (if c = Some i then tries + 1 else tries, most, claimable')"
proof -
  obtain kept new where js': "js' = kept @ new" "list_all2 (job_step rc c) js kept"
    using assms(1) by (auto simp: evolves_def)
  have "\<exists>claimable'. queue_at kept i = Some (if c = Some i then tries + 1 else tries, most, claimable')"
    using js'(2) assms(2)
    by (induction rule: list_all2_induct) (auto simp: queue_at_def find_row_Cons find_row_Nil job_step_def same_job_def split: if_splits)
  then show ?thesis by (auto simp: queue_at_def js'(1) table_simps)
qed

interpretation clause_retry: bounded_retry
  "\<lambda>x ds. (clause_claim x (fst ds), embedding_step ops x ds)" "\<lambda>ds. queue_at (embedding_jobs (fst ds))"
  "\<lambda>ds. embedding_wf (fst ds)" for ops :: "'s counter_ops"
proof unfold_locales
  fix ds :: "'x ai_db_scheme \<times> 's" and x i tries most claimable
  assume wf: "embedding_wf (fst ds)"
  obtain db s where ds: "ds = (db, s)" by fastforce
  obtain db1 s1 where st: "embedding_step ops x (db, s) = (db1, s1)" by fastforce
  have "embedding_wf db" using wf ds by simp
  note eff = step_effect [OF this st, unfolded embedding_effect_def]
  show "embedding_wf (fst (snd (clause_claim x (fst ds), embedding_step ops x ds)))" using eff ds st by simp
  assume at: "queue_at (embedding_jobs (fst ds)) i = Some (tries, most, claimable)"
  with wf show "tries \<le> most \<and> (claimable \<longrightarrow> tries < most)"
    unfolding embedding_wf_def by (blast dest: queue_at_bound)
  have ev: "evolves True (clause_claim x db) (clause_keys x db) (embedding_jobs db) (embedding_jobs db1)" using eff by simp
  show "\<exists>claimable'. queue_at (embedding_jobs (fst (snd (clause_claim x (fst ds), embedding_step ops x ds)))) i =
      Some (if fst (clause_claim x (fst ds), embedding_step ops x ds) = Some i then tries + 1 else tries, most, claimable')"
    using queue_at_evolves [OF ev] at ds st by simp
qed

interpretation chunk_retry: bounded_retry
  "\<lambda>x ds. (chunk_claim x (fst ds), embedding_step ops x ds)" "\<lambda>ds. queue_at (chunk_jobs (fst ds))"
  "\<lambda>ds. embedding_wf (fst ds)" for ops :: "'s counter_ops"
proof unfold_locales
  fix ds :: "'x ai_db_scheme \<times> 's" and x i tries most claimable
  assume wf: "embedding_wf (fst ds)"
  obtain db s where ds: "ds = (db, s)" by fastforce
  obtain db1 s1 where st: "embedding_step ops x (db, s) = (db1, s1)" by fastforce
  have "embedding_wf db" using wf ds by simp
  note eff = step_effect [OF this st, unfolded embedding_effect_def]
  show "embedding_wf (fst (snd (chunk_claim x (fst ds), embedding_step ops x ds)))" using eff ds st by simp
  assume at: "queue_at (chunk_jobs (fst ds)) i = Some (tries, most, claimable)"
  with wf show "tries \<le> most \<and> (claimable \<longrightarrow> tries < most)"
    unfolding embedding_wf_def by (blast dest: queue_at_bound)
  have ev: "evolves False (chunk_claim x db) (chunk_keys x db) (chunk_jobs db) (chunk_jobs db1)" using eff by simp
  show "\<exists>claimable'. queue_at (chunk_jobs (fst (snd (chunk_claim x (fst ds), embedding_step ops x ds)))) i =
      Some (if fst (chunk_claim x (fst ds), embedding_step ops x ds) = Some i then tries + 1 else tries, most, claimable')"
    using queue_at_evolves [OF ev] at ds st by simp
qed

section \<open>Properties\<close>

text \<open>A small database: one clause of one organization, and its queued job.\<close>

definition demo_emb_clause :: clause_row where
  "demo_emb_clause = \<lparr>cr_id = ''c'', cr_organizationId = ''o'', cr_contractId = ''k'', cr_extractedDocumentId = ''d'',
     cr_segmentationJobId = ''s'', cr_sectionId = None, cr_parentClauseId = None, cr_clauseNumber = None,
     cr_title = None, cr_text = [97], cr_normalizedText = [97], cr_orderIndex = 0, cr_depth = 0,
     cr_startOffset = 0, cr_endOffset = 1, cr_suggestedClauseType = None, cr_classificationConfidence = None,
     cr_classificationSignals = [], cr_reviewedClauseType = None, cr_classificationState = UNREVIEWED,
     cr_reviewedById = None, cr_reviewedAt = None\<rparr>"

definition demo_emb_organization :: "ai_limits \<Rightarrow> organization_row" where
  "demo_emb_organization limits = \<lparr>og_id = ''o'', og_aiEnabled = True, og_allowExternalAiProcessing = True, og_limits = limits\<rparr>"

definition demo_chunk :: chunk_row where
  "demo_chunk = \<lparr>dk_id = ''c'', dk_organizationId = ''o'', dk_contractId = ''k'', dk_extractedDocumentId = ''d'',
     dk_chunkIndex = 0, dk_text = [97], dk_normalizedText = [97], dk_tokenCount = 1, dk_startOffset = 0,
     dk_endOffset = 1, dk_headingContext = None, dk_chunkerVersion = ''1''\<rparr>"

definition demo_ai_db :: "ai_limits \<Rightarrow> embedding_job list \<Rightarrow> ai_db" where
  "demo_ai_db limits jobs = \<lparr>memberships = [], auditLog = [], contracts = [], contract_files = [], counterparties = [],
     extraction_jobs = [], field_suggestions = [], extracted_documents = [],
     segmentation_jobs = [], contract_sections = [], contract_clauses = [demo_emb_clause], embedding_jobs = jobs,
     organizations = [demo_emb_organization limits], clause_embeddings = [], document_chunks = [demo_chunk],
     chunk_embeddings = [], chunk_jobs = jobs, ai_usage = []\<rparr>"

definition no_limits :: ai_limits where
  "no_limits = \<lparr>monthlyAiBudgetMinor = None, monthlyAiRequestLimit = None, dailyAiRequestLimit = None\<rparr>"

definition demo_no_requests :: ai_limits where
  "demo_no_requests = \<lparr>monthlyAiBudgetMinor = None, monthlyAiRequestLimit = None, dailyAiRequestLimit = Some 0\<rparr>"

definition demo_emb_job :: embedding_job where
  "demo_emb_job = new_embedding_job ''j'' 0 ''o'' ''c'' ''a''"

definition demo_emb_provider :: embedding_provider where
  "demo_emb_provider = \<lparr>ep_providerName = ''development'', ep_modelName = ''m'',
     ep_generateEmbedding = (\<lambda>_. Some \<lparr>er_dimension = 2, er_vector = [Some 1, Some 0], er_inputTokens = Some 1\<rparr>)\<rparr>"

definition demo_emb_env :: embedding_env where
  "demo_emb_env = \<lparr>ee_primary = Some demo_emb_provider, ee_canary = Some None, ee_canaryEnabled = False,
     ee_canaryPercentage = 0, ee_sha = (\<lambda>_. 0), ee_checksum = (\<lambda>_. ''a''), ee_pricing = Map.empty,
     ee_reserveThrows = False, ee_settleThrows = False, ee_releaseThrows = False\<rparr>"

lemma demo_emb_wf: "job_ok j \<Longrightarrow> embedding_wf (demo_ai_db limits [j])"
  by (simp add: embedding_wf_def demo_ai_db_def queue_ok_def embeddings_ok_def)

lemma demo_emb_job_ok: "job_ok demo_emb_job"
  by (simp add: job_ok_def demo_emb_job_def new_embedding_job_def)

text \<open>C24: The embedding tables stay well formed over any sequence of operations on both pipelines: job ids
  and (source, checksum) pairs stay unique, a claimable job has attempts left, a failed job names its
  error and a completed one its provider, versions of one source differ, exactly the highest is the
  latest, and a vector of the native width is stored natively. No job is claimed more often than its
  maximum of attempts.\<close>

theorem embedding_tables_well_formed:
  assumes "embedding_wf db"
  shows "embedding_wf (fst (run_embedding ops xs (db, s))) \<and>
    (\<forall>i a m c. queue_at (embedding_jobs db) i = Some (a, m, c) \<longrightarrow>
       a + count_list (fst (run_jobs (\<lambda>x ds. (clause_claim x (fst ds), embedding_step ops x ds)) xs (db, s))) i \<le> m) \<and>
    (\<forall>i a m c. queue_at (chunk_jobs db) i = Some (a, m, c) \<longrightarrow>
       a + count_list (fst (run_jobs (\<lambda>x ds. (chunk_claim x (fst ds), embedding_step ops x ds)) xs (db, s))) i \<le> m)"
proof (intro conjI allI impI)
  show "embedding_wf (fst (run_embedding ops xs (db, s)))" by (rule run_wf [OF assms])
  fix i a m c
  show "a + count_list (fst (run_jobs (\<lambda>x ds. (clause_claim x (fst ds), embedding_step ops x ds)) xs (db, s))) i \<le> m"
    if at: "queue_at (embedding_jobs db) i = Some (a, m, c)"
    by (rule clause_retry.claims_bounded) (use assms at in simp_all)
  show "a + count_list (fst (run_jobs (\<lambda>x ds. (chunk_claim x (fst ds), embedding_step ops x ds)) xs (db, s))) i \<le> m"
    if at: "queue_at (chunk_jobs db) i = Some (a, m, c)"
    by (rule chunk_retry.claims_bounded) (use assms at in simp_all)
qed

theorem embedding_tables_well_formed_witness:
  "embedding_wf (fst (run_embedding mem_counter_ops [Embed_Clause demo_emb_env ''w'' demo_instant ''e'', Recover_Clauses 99 15]
     (demo_ai_db no_limits [demo_emb_job], Map.empty)))"
  by (rule embedding_tables_well_formed [OF demo_emb_wf [OF demo_emb_job_ok], THEN conjunct1])

text \<open>C25: A run of the clause worker pays for exactly what it embeds, on the Redis counters: either no
  embedding is stored and no counter of the organization changes, or the claimed job is completed,
  the clause's latest embedding is of its current text, and the counters grew by the actual cost and
  one request per configured limit.\<close>

theorem embedding_paid_exactly:
  assumes "embedding_wf db" "counters_nonneg s" "safe_amounts penv (clause_source db) (organizations db)"
    and "\<not> ee_settleThrows penv" "\<not> ee_releaseThrows penv"
    and "processNextEmbeddingJob redis_counter_ops penv w now newId db s = (r, db', s')"
  shows "(clause_embeddings db' = clause_embeddings db \<and> (\<forall>k. rc_value (at_ms now) k s' = rc_value (at_ms now) k s)) \<or>
    (\<exists>j \<in> set (embedding_jobs db). \<exists>c \<in> set (contract_clauses db). \<exists>org \<in> set (organizations db). \<exists>p g answer e.
       eb_status j = Emb_PENDING \<and> cr_id c = eb_sourceId j \<and> og_id org = cr_organizationId c \<and>
       getEmbeddingProviderForOrganization penv org = Inr (p, g) \<and>
       ep_generateEmbedding p (cr_normalizedText c) = Some answer \<and>
       r = Inr (Some (eb_id j)) \<and> (\<exists>q \<in> set (embedding_jobs db'). eb_id q = eb_id j \<and> eb_status q = Emb_COMPLETED) \<and>
       findLatestEmbedding (cr_id c) (clause_embeddings db') = Some e \<and>
       em_checksum e = ee_checksum penv (cr_normalizedText c) \<and>
       (\<forall>k. rc_value (at_ms now) k s' = rc_value (at_ms now) k s + booked (full_reservation now (og_id org) (og_limits org)
          (cost_or_zero (embedding_cost penv p (actual_tokens (cr_normalizedText c) answer)))) k))"
proof -
  let ?st = "\<lparr>es_jobs = embedding_jobs db, es_embeddings = clause_embeddings db, es_usage = ai_usage db\<rparr>"
  obtain st' where run: "embedding_worker redis_counter_ops penv (clause_source db) (organizations db) w now newId ?st s = (r, st', s')"
    and db': "embedding_jobs db' = es_jobs st'" "clause_embeddings db' = es_embeddings st'"
    using assms(6) by (auto simp: processNextEmbeddingJob_def split: prod.splits)
  have ok: "queue_ok (es_jobs ?st)" "embeddings_ok (clause_embeddings db)" using assms(1) by (simp_all add: embedding_wf_def)
  from redis_budget.worker_pays [OF assms(2) ok(1) assms(3-5) run] show ?thesis
  proof (elim disjE bexE conjE)
    fix j assume j: "j \<in> set (es_jobs ?st)" "eb_status j = Emb_PENDING" "r = Inr (Some (eb_id j))"
      and "paid_embedding (rc_value (at_ms now)) penv (clause_source db) (organizations db) now newId (eb_id j)
        (eb_sourceId j) (es_embeddings ?st) s st' s'"
    then obtain doc org p g answer where paid: "org \<in> set (organizations db)"
      "clause_source db (eb_sourceId j) = Some (doc, og_id org)"
      "getEmbeddingProviderForOrganization penv org = Inr (p, g)" "ep_generateEmbedding p doc = Some answer"
      "createLatestEmbedding newId (og_id org) (eb_sourceId j) (ep_providerName p) (ep_modelName p)
          (er_dimension answer) (er_vector answer) (ee_checksum penv doc) (clause_embeddings db) = Some (es_embeddings st')"
      "\<exists>q \<in> set (es_jobs st'). eb_id q = eb_id j \<and> eb_status q = Emb_COMPLETED"
      "\<forall>k. rc_value (at_ms now) k s' = rc_value (at_ms now) k s + booked (full_reservation now (og_id org) (og_limits org)
           (cost_or_zero (embedding_cost penv p (actual_tokens doc answer)))) k"
      unfolding paid_embedding_def embedding_store.simps by blast
    obtain c where c: "c \<in> set (contract_clauses db)" "cr_id c = eb_sourceId j" "cr_normalizedText c = doc"
      "cr_organizationId c = og_id org"
      using paid(2) find_row_Some by (fastforce simp: clause_source_def)
    obtain e where e: "findLatestEmbedding (eb_sourceId j) (es_embeddings st') = Some e" "em_checksum e = ee_checksum penv doc"
      using create_latest [OF ok(2) paid(5)] by blast
    show ?thesis
      using paid(1,3,4,6,7) j c e unfolding db'
      by (intro disjI2 bexI [of _ j] bexI [of _ c] bexI [of _ org] exI [of _ p] exI [of _ g] exI [of _ answer] exI [of _ e]) simp_all
  qed (simp add: db')
qed

text \<open>A failed embedding job is final: once every job of a clause has failed or completed, no further
  run of the workers, of stale recovery, of the scan for missing embeddings or of the queueing after
  a segmentation changes any of them or embeds the clause, as long as its text stays the same. So a
  job refused because the month's budget is exhausted is not taken up again when the budget is.\<close>

theorem failed_embedding_is_final:
  assumes "embedding_wf db" "j \<in> set (embedding_jobs db)" "eb_status j = Emb_FAILED"
    and "\<forall>q \<in> set (embedding_jobs db). eb_sourceId q = eb_sourceId j \<longrightarrow> eb_status q = Emb_FAILED \<or> eb_status q = Emb_COMPLETED"
    and "\<forall>x \<in> set xs. \<forall>k. (eb_sourceId j, k) \<in> clause_keys x db \<longrightarrow> k = eb_inputChecksum j"
    and "(db', s') = run_embedding ops xs (db, s)"
  shows "filter (\<lambda>q. eb_sourceId q = eb_sourceId j) (embedding_jobs db') =
      filter (\<lambda>q. eb_sourceId q = eb_sourceId j) (embedding_jobs db) \<and>
    filter (\<lambda>e. em_sourceId e = eb_sourceId j) (clause_embeddings db') =
      filter (\<lambda>e. em_sourceId e = eb_sourceId j) (clause_embeddings db)"
proof -
  have "dormant True (eb_sourceId j) (eb_inputChecksum j) (embedding_jobs db)"
    using assms(2,4) by (force simp: dormant_def settled_def job_key_def)
  from dormant_clause_run [OF assms(1) this assms(5), of ops s] assms(6) show ?thesis by (metis fst_conv)
qed

text \<open>The demo organization may make no request: its job fails. Without limits, it stays so.\<close>

definition demo_refused :: embedding_job where
  "demo_refused = eb_fail 1000 EMB_BUDGET_EXCEEDED (eb_claim ''w'' 1000 demo_emb_job)"

lemma demo_refusal:
  "embedding_jobs (fst (snd (processNextEmbeddingJob mem_counter_ops demo_emb_env ''w'' demo_instant ''e''
     (demo_ai_db demo_no_requests [demo_emb_job]) Map.empty))) = [demo_refused]"
  by (simp add: processNextEmbeddingJob_def embedding_worker_def claimNextPendingEmbeddingJob_def demo_ai_db_def
      demo_emb_job_def new_embedding_job_def demo_refused_def runClaimedEmbeddingJob_def clause_source_def find_row_Cons
      demo_emb_clause_def demo_emb_organization_def getEmbeddingProviderForOrganization_def demo_emb_env_def demo_emb_provider_def
      selectProviderGroup_def assertOrganizationAiPolicy_def AI_DEVELOPMENT_PROVIDER_NAME_def embedding_cost_def
      estimateAiCostMinor_def reserveAiBudget_def demo_no_requests_def toSafeAmount_def mem_counter_ops_def mem_reserve_def
      mem_getValue_def reserve_month_def reserve_day_def rollbackAndReject_def Let_def store_update_job_def
      updateEmbeddingJob_def update_rows_def eb_fail_def eb_claim_def demo_instant_def)

theorem failed_embedding_is_final_witness:
  "\<exists>db' s'. (db', s') = run_embedding mem_counter_ops
       [Scan_Clauses id (\<lambda>_. ''a'') 5 None, Embed_Clause demo_emb_env ''w'' demo_instant ''e'']
       (demo_ai_db no_limits (embedding_jobs (fst (snd (processNextEmbeddingJob mem_counter_ops demo_emb_env ''w'' demo_instant ''e''
          (demo_ai_db demo_no_requests [demo_emb_job]) Map.empty)))), Map.empty) \<and>
     filter (\<lambda>e. em_sourceId e = ''c'') (clause_embeddings db') = []"
proof -
  let ?xs = "[Scan_Clauses id (\<lambda>_. ''a'') 5 None, Embed_Clause demo_emb_env ''w'' demo_instant ''e'']"
  obtain db' s' where run: "(db', s') = run_embedding mem_counter_ops ?xs (demo_ai_db no_limits [demo_refused], Map.empty)"
    by (metis prod.collapse)
  have j: "eb_status demo_refused = Emb_FAILED" "eb_sourceId demo_refused = ''c''" "eb_inputChecksum demo_refused = ''a''"
    "job_ok demo_refused"
    by (simp_all add: demo_refused_def eb_fail_def eb_claim_def demo_emb_job_def new_embedding_job_def job_ok_def)
  have db: "embedding_jobs (demo_ai_db no_limits [demo_refused]) = [demo_refused]"
    "contract_clauses (demo_ai_db no_limits [demo_refused]) = [demo_emb_clause]"
    "clause_embeddings (demo_ai_db no_limits [demo_refused]) = []" by (simp_all add: demo_ai_db_def)
  have "\<forall>x \<in> set ?xs. \<forall>k. (eb_sourceId demo_refused, k) \<in> clause_keys x (demo_ai_db no_limits [demo_refused]) \<longrightarrow>
      k = eb_inputChecksum demo_refused"
    by (simp add: db j demo_emb_clause_def)
  from failed_embedding_is_final [OF demo_emb_wf [OF j(4)] _ j(1) _ this run] run show ?thesis
    by (auto simp: db j demo_refusal)
qed

text \<open>C40: A document chunk whose embedding job is left in work by a worker that died is lost to the chunk
  pipeline: no operation ever takes the job up again or embeds the chunk, as long as its text stays
  the same, since stale jobs are recovered only in the clause queue.\<close>

theorem abandoned_chunk_is_lost:
  assumes "embedding_wf db" "j \<in> set (chunk_jobs db)" "eb_status j = Emb_PROCESSING"
    and "\<forall>q \<in> set (chunk_jobs db). eb_sourceId q = eb_sourceId j \<longrightarrow> eb_status q \<noteq> Emb_PENDING"
    and "\<forall>x \<in> set xs. \<forall>k. (eb_sourceId j, k) \<in> chunk_keys x db \<longrightarrow> k = eb_inputChecksum j"
    and "(db', s') = run_embedding ops xs (db, s)"
  shows "j \<in> set (chunk_jobs db') \<and> filter (\<lambda>e. em_sourceId e = eb_sourceId j) (chunk_embeddings db') =
      filter (\<lambda>e. em_sourceId e = eb_sourceId j) (chunk_embeddings db)"
proof -
  have "eb_status q \<noteq> Emb_PENDING \<longrightarrow> settled q \<or> eb_status q = Emb_PROCESSING" for q
    by (cases "eb_status q") (simp_all add: settled_def)
  then have "dormant False (eb_sourceId j) (eb_inputChecksum j) (chunk_jobs db)"
    using assms(2,4) by (force simp: dormant_def job_key_def)
  from dormant_chunk_run [OF assms(1) this assms(5), of ops s] assms(6)
  have same: "filter (\<lambda>q. eb_sourceId q = eb_sourceId j) (chunk_jobs db') = filter (\<lambda>q. eb_sourceId q = eb_sourceId j) (chunk_jobs db)"
    "filter (\<lambda>e. em_sourceId e = eb_sourceId j) (chunk_embeddings db') =
      filter (\<lambda>e. em_sourceId e = eb_sourceId j) (chunk_embeddings db)" by (metis fst_conv)+
  have "j \<in> set (filter (\<lambda>q. eb_sourceId q = eb_sourceId j) (chunk_jobs db'))" unfolding same(1) using assms(2) by simp
  with same(2) show ?thesis by simp
qed

theorem abandoned_chunk_is_lost_witness:
  "\<exists>db' s'. (db', s') = run_embedding mem_counter_ops
       [Recover_Clauses 9000000 15, Scan_Chunks id (\<lambda>_. ''a'') 5 None, Embed_Chunk demo_emb_env ''w'' demo_instant ''e'']
       (demo_ai_db no_limits [eb_claim ''dead'' 0 demo_emb_job], Map.empty) \<and>
     eb_claim ''dead'' 0 demo_emb_job \<in> set (chunk_jobs db')"
proof -
  let ?xs = "[Recover_Clauses 9000000 15, Scan_Chunks id (\<lambda>_. ''a'') 5 None, Embed_Chunk demo_emb_env ''w'' demo_instant ''e'']"
  let ?j = "eb_claim ''dead'' 0 demo_emb_job"
  obtain db' s' where run: "(db', s') = run_embedding mem_counter_ops ?xs (demo_ai_db no_limits [?j], Map.empty)"
    by (metis prod.collapse)
  have j: "eb_status ?j = Emb_PROCESSING" "eb_sourceId ?j = ''c''" "eb_inputChecksum ?j = ''a''" "job_ok ?j"
    by (simp_all add: eb_claim_def demo_emb_job_def new_embedding_job_def job_ok_def)
  have db: "chunk_jobs (demo_ai_db no_limits [?j]) = [?j]" "document_chunks (demo_ai_db no_limits [?j]) = [demo_chunk]"
    by (simp_all add: demo_ai_db_def)
  have "\<forall>x \<in> set ?xs. \<forall>k. (eb_sourceId ?j, k) \<in> chunk_keys x (demo_ai_db no_limits [?j]) \<longrightarrow> k = eb_inputChecksum ?j"
    by (simp add: db j demo_chunk_def)
  from abandoned_chunk_is_lost [OF demo_emb_wf [OF j(4)] _ j(1) _ this run] run show ?thesis
    by (auto simp: db j)
qed

theorem embedding_paid_exactly_witness:
  "\<exists>r db' s'. processNextEmbeddingJob redis_counter_ops demo_emb_env ''w'' demo_instant ''e''
       (demo_ai_db no_limits [demo_emb_job]) Map.empty = (r, db', s') \<and>
     (clause_embeddings db' = [] \<or> findLatestEmbedding ''c'' (clause_embeddings db') \<noteq> None)"
proof -
  obtain r db' s' where run: "processNextEmbeddingJob redis_counter_ops demo_emb_env ''w'' demo_instant ''e''
      (demo_ai_db no_limits [demo_emb_job]) Map.empty = (r, db', s')" by (metis prod.collapse)
  have "safe_amounts demo_emb_env (clause_source (demo_ai_db no_limits [demo_emb_job])) (organizations (demo_ai_db no_limits [demo_emb_job]))"
    by (simp add: safe_amounts_def demo_ai_db_def demo_emb_organization_def no_limits_def embedding_cost_def demo_emb_env_def
        estimateAiCostMinor_def cost_or_zero_def)
  from embedding_paid_exactly [OF demo_emb_wf [OF demo_emb_job_ok] _ this _ _ run]
  have "clause_embeddings db' = [] \<or> findLatestEmbedding ''c'' (clause_embeddings db') \<noteq> None"
    by (auto simp: counters_nonneg_def demo_emb_env_def demo_ai_db_def demo_emb_job_def new_embedding_job_def)
  with run show ?thesis by blast
qed

end
