(* ===== verification/JsText.thy ===== *)
theory JsText
  imports Prelude
begin

text \<open>
  JavaScript text operations beyond those of \<^verbatim>\<open>Prelude\<close>: the normalization of clause text
  (\<^verbatim>\<open>domain/clauses/normalize-clause-text.ts\<close>) and regular expressions as matchers. Unicode
  normalization and lower-casing are parameters.
\<close>

section \<open>Normalization\<close>

record js_runtime =
  nfc :: "jstring \<Rightarrow> jstring"
  toLowerCase :: "jstring \<Rightarrow> jstring"

text \<open>\<open>s.replace(/p+/g, c)\<close>, and \<^verbatim>\<open>/\r\n?/g\<close> to a newline.\<close>

function squeeze :: "(nat \<Rightarrow> bool) \<Rightarrow> nat \<Rightarrow> jstring \<Rightarrow> jstring" where
  "squeeze p c [] = []"
| "squeeze p c (x # xs) =
     (if p x then c # squeeze p c (dropWhile p xs) else x # squeeze p c xs)"
  by pat_completeness auto

termination
  by (relation "measure (\<lambda>(_, _, s). length s)") (auto simp: le_imp_less_Suc length_dropWhile_le)

fun unify_newlines :: "jstring \<Rightarrow> jstring" where
  "unify_newlines (c # d # t) =
     (if c = 13 then 10 # (if d = 10 then unify_newlines t else unify_newlines (d # t))
      else c # unify_newlines (d # t))"
| "unify_newlines s = map (\<lambda>c. if c = 13 then 10 else c) s"

definition straight_quotes :: "jstring \<Rightarrow> jstring" where
  "straight_quotes s =
     map (\<lambda>c. if c = 8216 \<or> c = 8217 then 39 else if c = 8220 \<or> c = 8221 then 34 else c) s"

definition normalizeClauseText :: "js_runtime \<Rightarrow> jstring \<Rightarrow> jstring" where
  "normalizeClauseText rt text =
     toLowerCase rt (js_trim (squeeze (\<lambda>c. c = 10) 10 (squeeze (\<lambda>c. c = 32 \<or> c = 9) 32
       (unify_newlines (straight_quotes (nfc rt text))))))"

section \<open>Regular expressions\<close>

fun strip_prefix :: "jstring \<Rightarrow> jstring \<Rightarrow> jstring option" where
  "strip_prefix [] s = Some s"
| "strip_prefix (_ # _) [] = None"
| "strip_prefix (p # ps) (c # cs) = (if p = c then strip_prefix ps cs else None)"

lemma strip_prefix_Some: "strip_prefix p s = Some r \<longleftrightarrow> s = p @ r"
  by (induction p s rule: strip_prefix.induct) auto

text \<open>Regular expressions are tested with matchers that return every remainder a match can leave,
  so a repetition may stop early where what follows it needs that.\<close>

fun some_suffix :: "(jstring \<Rightarrow> bool) \<Rightarrow> jstring \<Rightarrow> bool" where
  "some_suffix P [] = P []"
| "some_suffix P (c # cs) = (P (c # cs) \<or> some_suffix P cs)"

type_synonym matcher = "jstring \<Rightarrow> jstring list"

definition m_lit :: "jstring \<Rightarrow> matcher" where
  "m_lit p s = (case strip_prefix p s of None \<Rightarrow> [] | Some r \<Rightarrow> [r])"

fun m_many :: "(nat \<Rightarrow> bool) \<Rightarrow> matcher" where
  "m_many p [] = [[]]"
| "m_many p (c # cs) = (c # cs) # (if p c then m_many p cs else [])"

definition m_some :: "(nat \<Rightarrow> bool) \<Rightarrow> matcher" where
  "m_some p s = (case s of [] \<Rightarrow> [] | c # cs \<Rightarrow> if p c then m_many p cs else [])"

fun m_seq :: "matcher list \<Rightarrow> matcher" where
  "m_seq [] s = [s]"
| "m_seq (m # ms) s = concat (map (m_seq ms) (m s))"

definition m_alt :: "matcher list \<Rightarrow> matcher" where
  "m_alt ms s = concat (map (\<lambda>m. m s) ms)"

definition test_match :: "matcher \<Rightarrow> jstring \<Rightarrow> bool" where
  "test_match m s = some_suffix (\<lambda>t. m t \<noteq> []) s"

definition not_line_end :: "nat \<Rightarrow> bool" where
  "not_line_end c \<longleftrightarrow> c \<noteq> 10 \<and> c \<noteq> 13 \<and> c \<noteq> 8232 \<and> c \<noteq> 8233"

definition includes_text :: "jstring \<Rightarrow> jstring \<Rightarrow> bool" where
  "includes_text text part = test_match (m_lit part) text"

text \<open>Greedy repetition between two bounds and an optional part, the longest match first; \<open>s.match(p)\<close>
  with the flag \<open>g\<close>, for patterns that never match the empty text: the first match of every search, each
  starting where the last ended.\<close>

definition m_rep :: "nat \<Rightarrow> nat option \<Rightarrow> (nat \<Rightarrow> bool) \<Rightarrow> matcher" where
  "m_rep least most p s =
     (let n = length (takeWhile p s); up = (case most of None \<Rightarrow> n | Some k \<Rightarrow> min k n)
      in map (\<lambda>k. drop k s) (rev [least..<Suc up]))"

definition m_opt :: "matcher \<Rightarrow> matcher" where
  "m_opt m s = m s @ [s]"

definition m_class :: "(nat \<Rightarrow> bool) \<Rightarrow> matcher" where
  "m_class p = m_rep 1 (Some 1) p"

function match_all :: "matcher \<Rightarrow> jstring \<Rightarrow> jstring list" where
  "match_all m [] = []"
| "match_all m (c # cs) =
     (case m (c # cs) of
        [] \<Rightarrow> match_all m cs
      | r # _ \<Rightarrow> if length r < length (c # cs)
                 then take (length (c # cs) - length r) (c # cs) # match_all m r
                 else match_all m cs)"
  by pat_completeness auto

termination
  by (relation "measure (length \<circ> snd)") auto

end
