(* ===== verification/Citations.thy ===== *)
theory Citations
  imports Complex_Main Segmentation JsText "HOL-Library.AList" "HOL-Library.Multiset"
begin

text \<open>
  The citations of an answer, from \<^verbatim>\<open>domain/ai\<close>: what a citation carries (\<^verbatim>\<open>citation.ts\<close>), the numbered
  markers a model writes (\<^verbatim>\<open>citation-marker.ts\<close>), the check that refuses an answer whose paragraphs
  are not backed by the citations supplied (\<^verbatim>\<open>citation-required.ts\<close>), the check that there is enough
  evidence to ask at all (\<^verbatim>\<open>hallucination-guard.ts\<close>), which citations name the same provision
  (\<^verbatim>\<open>citation-provision.ts\<close>) and which ones the final answer used (\<^verbatim>\<open>answer-used-citations.ts\<close>). The
  check is stated for a whole answer and for a stream cut into deltas anywhere; the two are proved
  to accept the same blocks. Scores are real numbers.
\<close>

section \<open>Citations\<close>

text \<open>The tagged union of \<^verbatim>\<open>citation.ts\<close>: a clause of a contract by its id, or a chunk of a document's
  raw text by its id, pages and offsets.\<close>

datatype evidence =
  ClauseEvidence string
  | ChunkEvidence string "nat option" "nat option" nat nat

record citation =
  ci_evidence :: evidence
  ci_contractId :: string
  ci_contractTitle :: jstring
  ci_clauseReference :: jstring
  ci_evidenceText :: jstring
  ci_score :: real

fun is_clause :: "evidence \<Rightarrow> bool" where
  "is_clause (ClauseEvidence _) = True"
| "is_clause (ChunkEvidence _ _ _ _ _) = False"

definition contractClauseId :: "citation \<Rightarrow> string option" where
  "contractClauseId c = (case ci_evidence c of ClauseEvidence i \<Rightarrow> Some i | _ \<Rightarrow> None)"

datatype citation_error =
  NoCitation | NoContractTitle | NoClauseReference | NoEvidenceText

fun check_citation_fields :: "citation list \<Rightarrow> citation_error option" where
  "check_citation_fields [] = None"
| "check_citation_fields (c # cs) =
     (if js_trim (ci_contractTitle c) = [] then Some NoContractTitle
      else if js_trim (ci_clauseReference c) = [] then Some NoClauseReference
      else if js_trim (ci_evidenceText c) = [] then Some NoEvidenceText
      else check_citation_fields cs)"

definition assertCitationsPresent :: "citation list \<Rightarrow> citation_error option" where
  "assertCitationsPresent citations =
     (if citations = [] then Some NoCitation else check_citation_fields citations)"

section \<open>Markers\<close>

text \<open>\<^verbatim>\<open>[CHULCHEO: n]\<close> with the Korean word for source, and the pattern
  \<^verbatim>\<open>\[CHULCHEO:\s*([\d,\s]+)\]\<close>. The group takes the whole run of digits, commas and spaces after the
  leading spaces; only when the run is all spaces does the pattern give one back to the group.\<close>

definition marker_open :: jstring where
  "marker_open = [91, 52636, 52376, 58]"

definition buildCitationMarker :: "nat \<Rightarrow> jstring" where
  "buildCitationMarker index = marker_open @ asc '' '' @ asc (nat_str index) @ asc '']''"

definition in_group :: "nat \<Rightarrow> bool" where
  "in_group c \<longleftrightarrow> is_digit_unit c \<or> c = 44 \<or> is_js_space c"

definition MARKER_PATTERN :: "jstring \<Rightarrow> (jstring \<times> jstring) option" where
  "MARKER_PATTERN s =
     (case strip_prefix marker_open s of
        None \<Rightarrow> None
      | Some r \<Rightarrow>
          let run = takeWhile in_group r;
              group = (let g = js_trim_start run in if g = [] then drop (length run - 1) run else g)
          in case dropWhile in_group r of
               c # rest \<Rightarrow> if c = 93 \<and> run \<noteq> [] then Some (group, rest) else None
             | [] \<Rightarrow> None)"

lemma MARKER_PATTERN_shorter: "MARKER_PATTERN s = Some (g, rest) \<Longrightarrow> length rest < length s"
proof -
  assume "MARKER_PATTERN s = Some (g, rest)"
  then obtain r c where "strip_prefix marker_open s = Some r" "dropWhile in_group r = c # rest"
    unfolding MARKER_PATTERN_def Let_def by (auto split: option.splits list.splits if_splits)
  then have "s = marker_open @ r" "length (c # rest) \<le> length r"
    using length_dropWhile_le [of in_group r] by (simp_all add: strip_prefix_Some)
  then show ?thesis by simp
qed

text \<open>\<open>text.matchAll(MARKER_PATTERN)\<close>: the groups of the matches, each search starting where the last
  match ended.\<close>

function match_groups :: "jstring \<Rightarrow> jstring list" where
  "match_groups [] = []"
| "match_groups (c # cs) =
     (case MARKER_PATTERN (c # cs) of
        Some (g, rest) \<Rightarrow> g # match_groups rest
      | None \<Rightarrow> match_groups cs)"
  by pat_completeness auto

termination
  by (relation "measure length") (auto dest: MARKER_PATTERN_shorter)

text \<open>\<open>Number(piece)\<close> of a trimmed, non-empty piece: a number when it holds digits only, \<open>NaN\<close> when
  blanks separate digits, infinite from \<open>2 ^ 1024 - 2 ^ 970\<close> on (\<open>Number.isInteger\<close> refuses both). A
  value above \<open>2 ^ 53\<close> would be rounded; it is compared with the length of an array, which is smaller.\<close>

definition units_value :: "jstring \<Rightarrow> nat" where
  "units_value s = foldl (\<lambda>n c. 10 * n + (c - 48)) 0 s"

definition index_of_piece :: "jstring \<Rightarrow> nat option" where
  "index_of_piece piece =
     (if list_all is_digit_unit piece \<and> units_value piece < 2 ^ 1024 - 2 ^ 970
      then Some (units_value piece) else None)"

definition parseIndexList :: "jstring \<Rightarrow> nat list" where
  "parseIndexList raw =
     filter (\<lambda>n. 0 < n)
       (List.map_filter index_of_piece (filter (\<lambda>p. p \<noteq> []) (map js_trim (split_on 44 raw))))"

definition findCitationMarkers :: "jstring \<Rightarrow> nat list" where
  "findCitationMarkers text = concat (map parseIndexList (match_groups text))"

section \<open>Answer blocks\<close>

datatype answer_block_type = Conclusion | Evidence | Action

record answer_block =
  ab_type :: answer_block_type
  ab_text :: jstring

definition TAG_CONCLUSION :: jstring where
  "TAG_CONCLUSION = [91, 44208, 47200, 93]"

definition TAG_EVIDENCE :: jstring where
  "TAG_EVIDENCE = [91, 44540, 44144, 93]"

definition TAG_ACTION :: jstring where
  "TAG_ACTION = [91, 54869, 51064, 49324, 54637, 93]"

definition parseAnswerBlock :: "jstring \<Rightarrow> answer_block" where
  "parseAnswerBlock paragraph =
     (case strip_prefix TAG_CONCLUSION paragraph of
        Some r \<Rightarrow> \<lparr>ab_type = Conclusion, ab_text = js_trim_start r\<rparr>
      | None \<Rightarrow>
          (case strip_prefix TAG_EVIDENCE paragraph of
             Some r \<Rightarrow> \<lparr>ab_type = Evidence, ab_text = js_trim_start r\<rparr>
           | None \<Rightarrow>
               (case strip_prefix TAG_ACTION paragraph of
                  Some r \<Rightarrow> \<lparr>ab_type = Action, ab_text = js_trim_start r\<rparr>
                | None \<Rightarrow> \<lparr>ab_type = Evidence, ab_text = paragraph\<rparr>)))"

datatype grounding_error =
  NO_CITATIONS_SUPPLIED | EMPTY_ANSWER | UNCITED_PARAGRAPH
  | UNKNOWN_CITATION_MARKER | MISSING_REQUIRED_CITATION

definition valid_marker :: "citation list \<Rightarrow> nat \<Rightarrow> bool" where
  "valid_marker citations n \<longleftrightarrow> 1 \<le> n \<and> n \<le> length citations"

definition assertAnswerBlockGrounded :: "answer_block \<Rightarrow> citation list \<Rightarrow> grounding_error option" where
  "assertAnswerBlockGrounded block citations =
     (let markers = findCitationMarkers (ab_text block);
          validMarkers = filter (valid_marker citations) markers
      in if length markers > length validMarkers then Some UNKNOWN_CITATION_MARKER
         else if ab_type block = Evidence \<and> validMarkers = [] then Some MISSING_REQUIRED_CITATION
         else None)"

text \<open>\<open>split(/\n{2,}/)\<close>, and the non-empty trimmed paragraphs of an answer.\<close>

fun cut_blank :: "jstring \<Rightarrow> jstring \<times> jstring option" where
  "cut_blank (c # d # t) =
     (if c = 10 \<and> d = 10 then ([], Some t)
      else let (p, r) = cut_blank (d # t) in (c # p, r))"
| "cut_blank s = (s, None)"

lemma cut_blank_shorter: "cut_blank s = (p, Some r) \<Longrightarrow> length r < length s"
  by (induction s arbitrary: p r rule: cut_blank.induct) (auto split: if_splits prod.splits)

function split_blank :: "jstring \<Rightarrow> jstring list" where
  "split_blank s =
     (case cut_blank s of
        (p, None) \<Rightarrow> [p]
      | (p, Some r) \<Rightarrow> p # split_blank (dropWhile (\<lambda>c. c = 10) r))"
  by pat_completeness auto

termination
proof (relation "measure length")
  fix s p t and r :: jstring
  assume "(p, t) = cut_blank s" "t = Some r"
  then have "length r < length s" by (metis cut_blank_shorter)
  then show "(dropWhile (\<lambda>c. c = 10) r, s) \<in> measure length"
    using length_dropWhile_le [of "\<lambda>c. c = 10" r] by simp
qed simp

declare split_blank.simps [simp del]

lemma split_blank_last: "cut_blank s = (p, None) \<Longrightarrow> split_blank s = [p]"
  by (simp add: split_blank.simps [of s])

lemma split_blank_next:
  "cut_blank s = (p, Some r) \<Longrightarrow> split_blank s = p # split_blank (dropWhile (\<lambda>c. c = 10) r)"
  by (simp add: split_blank.simps [of s])

definition non_blank :: "jstring list \<Rightarrow> jstring list" where
  "non_blank ps = filter (\<lambda>p. p \<noteq> []) (map js_trim ps)"

definition paragraphs_of :: "jstring \<Rightarrow> jstring list" where
  "paragraphs_of answerText = non_blank (split_blank answerText)"

definition paragraph_cited :: "citation list \<Rightarrow> jstring \<Rightarrow> bool" where
  "paragraph_cited citations paragraph \<longleftrightarrow>
     list_ex (valid_marker citations) (findCitationMarkers paragraph)"

definition assertEveryParagraphHasCitation ::
  "jstring \<Rightarrow> citation list \<Rightarrow> grounding_error option" where
  "assertEveryParagraphHasCitation answerText citations =
     (if citations = [] then Some NO_CITATIONS_SUPPLIED
      else let paragraphs = paragraphs_of answerText
           in if paragraphs = [] then Some EMPTY_ANSWER
              else if list_all (paragraph_cited citations) paragraphs then None
              else Some UNCITED_PARAGRAPH)"

fun join_blank :: "jstring list \<Rightarrow> jstring" where
  "join_blank [] = []"
| "join_blank [p] = p"
| "join_blank (p # q # ps) = p @ [10, 10] @ join_blank (q # ps)"

fun ground_paragraphs :: "jstring list \<Rightarrow> citation list \<Rightarrow> grounding_error + jstring list" where
  "ground_paragraphs [] citations = Inr []"
| "ground_paragraphs (p # ps) citations =
     (let block = parseAnswerBlock p
      in case assertAnswerBlockGrounded block citations of
           Some e \<Rightarrow> Inl e
         | None \<Rightarrow>
             (case ground_paragraphs ps citations of
                Inl e \<Rightarrow> Inl e
              | Inr ts \<Rightarrow> Inr (ab_text block # ts)))"

definition assertAnswerGrounded :: "jstring \<Rightarrow> citation list \<Rightarrow> grounding_error + jstring" where
  "assertAnswerGrounded answerText citations =
     (if citations = [] then Inl NO_CITATIONS_SUPPLIED
      else let paragraphs = paragraphs_of answerText
           in if paragraphs = [] then Inl EMPTY_ANSWER
              else map_sum id join_blank (ground_paragraphs paragraphs citations))"

section \<open>Evidence\<close>

datatype question_complexity = Focused | Comprehensive

record guard_config =
  MIN_CITATION_SCORE :: real
  MIN_CITATION_SCORE_COMPREHENSIVE :: real
  MIN_CITATION_COUNT :: nat

definition default_guard :: guard_config where
  "default_guard = \<lparr>MIN_CITATION_SCORE = 15 / 100, MIN_CITATION_SCORE_COMPREHENSIVE = 10 / 100,
                    MIN_CITATION_COUNT = 1\<rparr>"

definition strong_citations :: "guard_config \<Rightarrow> citation list \<Rightarrow> question_complexity \<Rightarrow> citation list" where
  "strong_citations g citations complexity =
     filter (\<lambda>c. (if complexity = Comprehensive then MIN_CITATION_SCORE_COMPREHENSIVE g
                   else MIN_CITATION_SCORE g) \<le> ci_score c) citations"

definition checkEvidenceSufficiency ::
  "guard_config \<Rightarrow> citation list \<Rightarrow> question_complexity \<Rightarrow> bool \<times> citation list" where
  "checkEvidenceSufficiency g citations complexity =
     (let strong = strong_citations g citations complexity
      in (MIN_CITATION_COUNT g \<le> length strong, strong))"

section \<open>Provisions and the citations an answer used\<close>

text \<open>\<^verbatim>\<open>/^JE\s*\d+\s*JO/\<close>, the article token at the front of a reference, and the key of the provision it
  names. A JavaScript \<open>Map\<close> is an association list: setting a key that is present keeps its place.\<close>

definition article_token :: "jstring \<Rightarrow> jstring option" where
  "article_token r =
     (case lit ((=) 51228) r of
        None \<Rightarrow> None
      | Some s \<Rightarrow>
          (case rep_many 1 is_digit_unit (js_trim_start s) of
             None \<Rightarrow> None
           | Some (digits, s) \<Rightarrow>
               (case lit ((=) 51312) (js_trim_start s) of
                  None \<Rightarrow> None
                | Some _ \<Rightarrow> Some (51228 # digits @ [51312]))))"

definition provisionKey :: "citation \<Rightarrow> jstring" where
  "provisionKey c =
     asc (ci_contractId c) @ asc ''::'' @
     (case article_token (ci_clauseReference c) of Some a \<Rightarrow> a | None \<Rightarrow> ci_clauseReference c)"

definition citationIsBetter :: "citation \<Rightarrow> citation \<Rightarrow> bool" where
  "citationIsBetter c existing \<longleftrightarrow>
     (is_clause (ci_evidence c) \<and> \<not> is_clause (ci_evidence existing)) \<or>
     (is_clause (ci_evidence c) = is_clause (ci_evidence existing) \<and> ci_score existing < ci_score c)"

fun by_provision :: "citation list \<Rightarrow> (jstring \<times> citation) list \<Rightarrow> (jstring \<times> citation) list" where
  "by_provision [] byProvision = byProvision"
| "by_provision (c # cs) byProvision =
     by_provision cs
       (case map_of byProvision (provisionKey c) of
          None \<Rightarrow> AList.update (provisionKey c) c byProvision
        | Some existing \<Rightarrow>
            if citationIsBetter c existing then AList.update (provisionKey c) c byProvision
            else byProvision)"

definition sort_by_score :: "citation list \<Rightarrow> citation list" where
  "sort_by_score cs = sort_key (\<lambda>c. - ci_score c) cs"

definition deduplicateBySameProvision :: "citation list \<Rightarrow> citation list" where
  "deduplicateBySameProvision citations = sort_by_score (map snd (by_provision citations []))"

text \<open>\<open>[...new Set(xs)]\<close>: the first occurrence of each value.\<close>

fun distinct_first :: "'a list \<Rightarrow> 'a list" where
  "distinct_first [] = []"
| "distinct_first (x # xs) = x # filter (\<lambda>y. y \<noteq> x) (distinct_first xs)"

definition filterCitationsToAnswerUsed :: "jstring \<Rightarrow> citation list \<Rightarrow> citation list" where
  "filterCitationsToAnswerUsed answerText contextCitations =
     (let usedIndexes = distinct_first
            (filter (valid_marker contextCitations) (findCitationMarkers answerText))
      in deduplicateBySameProvision (map (\<lambda>i. contextCitations ! (i - 1)) usedIndexes))"

section \<open>Laws of the marker syntax\<close>

lemma strip_prefix_append [simp]: "strip_prefix p (p @ r) = Some r"
  by (simp add: strip_prefix_Some)

lemma units_value_snoc: "units_value (s @ [c]) = 10 * units_value s + (c - 48)"
  by (simp add: units_value_def)

lemma units_value_single: "units_value [c] = c - 48"
  by (simp add: units_value_def)

text \<open>Printing a number and reading it back.\<close>

lemma asc_nat_str:
  "list_all is_digit_unit (asc (nat_str n)) \<and> units_value (asc (nat_str n)) = n \<and> nat_str n \<noteq> []"
proof (induction n rule: nat_str.induct)
  case (1 n)
  have dig: "of_char (char_of (48 + m) :: char) = (48 + m :: nat)" if "m < 10" for m :: nat
    using that by (simp add: of_char_of)
  show ?case
  proof (cases "n < 10")
    case True
    then show ?thesis
      using dig [OF True] by (simp add: nat_str.simps [of n] asc_def is_digit_unit_def units_value_def)
  next
    case False
    then show ?thesis
      using 1 [OF False] dig [of "n mod 10"]
      by (simp add: nat_str.simps [of n] asc_def units_value_snoc is_digit_unit_def)
  qed
qed

lemma digit_not_space: "is_digit_unit c \<Longrightarrow> \<not> is_js_space c"
  by (auto simp: is_digit_unit_def is_js_space_def)

lemma js_trim_no_space: "list_all (\<lambda>c. \<not> is_js_space c) s \<Longrightarrow> js_trim s = s"
proof -
  assume s: "list_all (\<lambda>c. \<not> is_js_space c) s"
  have "dropWhile is_js_space xs = xs" if "list_all (\<lambda>c. \<not> is_js_space c) xs" for xs
    using that by (cases xs) auto
  from this [OF s] this [of "rev s"] s show ?thesis
    by (simp add: js_trim_def js_trim_start_def js_trim_end_def)
qed

lemma digits_no_comma: "list_all is_digit_unit s \<Longrightarrow> 44 \<notin> set s"
  by (auto simp: list_all_iff is_digit_unit_def)

lemma parseIndexList_digits:
  assumes "list_all is_digit_unit s" "s \<noteq> []" "0 < units_value s" "units_value s < 2 ^ 1024 - 2 ^ 970"
  shows "parseIndexList s = [units_value s]"
proof -
  have "js_trim s = s"
    using assms(1) by (intro js_trim_no_space) (auto simp: list_all_iff digit_not_space)
  moreover have "index_of_piece s = Some (units_value s)"
    using assms(1,4) by (simp add: index_of_piece_def)
  ultimately show ?thesis
    using assms(2,3) digits_no_comma [OF assms(1)]
    by (simp add: parseIndexList_def split_on_no_sep map_filter_simps)
qed

lemma MARKER_PATTERN_match:
  assumes "list_all in_group run" "js_trim_start run \<noteq> []"
  shows "MARKER_PATTERN (marker_open @ run @ 93 # rest) = Some (js_trim_start run, rest)"
proof -
  have "\<not> in_group 93" by (simp add: in_group_def is_digit_unit_def is_js_space_def)
  then have "takeWhile in_group (run @ 93 # rest) = run" "dropWhile in_group (run @ 93 # rest) = 93 # rest"
    using assms(1) by (simp_all add: list_all_iff)
  with assms(2) show ?thesis
    by (auto simp: MARKER_PATTERN_def Let_def js_trim_start_def)
qed

lemma match_groups_Some: "MARKER_PATTERN s = Some (g, rest) \<Longrightarrow> match_groups s = g # match_groups rest"
  by (cases s) (simp_all add: MARKER_PATTERN_def marker_open_def)

lemma match_built_marker:
  "match_groups (buildCitationMarker n @ t) = asc (nat_str n) # match_groups t"
proof -
  let ?ds = "asc (nat_str n)"
  have ds: "list_all is_digit_unit ?ds" "?ds \<noteq> []"
    using asc_nat_str [of n] by (auto simp: asc_def)
  have grp: "list_all in_group (32 # ?ds)"
    using ds(1) by (auto simp: list_all_iff in_group_def is_js_space_def)
  obtain d ds' where d: "?ds = d # ds'" using ds(2) by (cases ?ds) auto
  then have "js_trim_start (32 # ?ds) = ?ds"
    using ds(1) by (auto simp: js_trim_start_def is_js_space_def is_digit_unit_def)
  then have "MARKER_PATTERN (marker_open @ 32 # ?ds @ 93 # t) = Some (?ds, t)"
    using MARKER_PATTERN_match [OF grp] ds(2) by simp
  moreover have "buildCitationMarker n @ t = marker_open @ 32 # ?ds @ 93 # t"
    by (simp add: buildCitationMarker_def asc_def)
  ultimately show ?thesis by (simp add: match_groups_Some)
qed

lemma built_markers_read_back:
  "list_all (\<lambda>n. 0 < n \<and> n < 2 ^ 1024 - 2 ^ 970) ns \<Longrightarrow>
   findCitationMarkers (concat (map buildCitationMarker ns) @ t) = ns @ findCitationMarkers t"
proof (induction ns)
  case (Cons n ns)
  have "parseIndexList (asc (nat_str n)) = [n]"
    using parseIndexList_digits [of "asc (nat_str n)"] asc_nat_str [of n] Cons.prems
    by (simp add: asc_def)
  then have "findCitationMarkers (buildCitationMarker n @ concat (map buildCitationMarker ns) @ t) =
      n # findCitationMarkers (concat (map buildCitationMarker ns) @ t)"
    by (simp add: findCitationMarkers_def match_built_marker)
  with Cons show ?case by simp
qed simp



section \<open>Laws of the provision map\<close>

lemma better_trans: "\<not> citationIsBetter d e \<Longrightarrow> citationIsBetter c e \<Longrightarrow> \<not> citationIsBetter d c"
  unfolding citationIsBetter_def by auto

lemma not_better_self: "\<not> citationIsBetter c c"
  by (simp add: citationIsBetter_def)

text \<open>What the map holds once the citations \<open>seen\<close> have gone in.\<close>

definition provision_map :: "citation set \<Rightarrow> (jstring \<times> citation) list \<Rightarrow> bool" where
  "provision_map seen m \<longleftrightarrow>
     distinct (map fst m) \<and>
     (\<forall>k c. map_of m k = Some c \<longrightarrow> provisionKey c = k \<and> c \<in> seen) \<and>
     (\<forall>c \<in> seen. \<exists>e. map_of m (provisionKey c) = Some e \<and> \<not> citationIsBetter c e)"

lemma provision_map_put:
  assumes "provision_map seen m"
    and "\<forall>e. map_of m (provisionKey c) = Some e \<longrightarrow> citationIsBetter c e"
  shows "provision_map (insert c seen) (AList.update (provisionKey c) c m)"
proof -
  let ?m = "AList.update (provisionKey c) c m"
  have m: "map_of ?m = (map_of m)(provisionKey c \<mapsto> c)" by (rule update_conv')
  have "\<exists>e. map_of ?m (provisionKey d) = Some e \<and> \<not> citationIsBetter d e" if d: "d \<in> seen" for d
  proof -
    obtain e where e: "map_of m (provisionKey d) = Some e" "\<not> citationIsBetter d e"
      using assms(1) d by (auto simp: provision_map_def)
    show ?thesis
    proof (cases "provisionKey d = provisionKey c")
      case True
      with e assms(2) have "\<not> citationIsBetter d c" by (metis better_trans)
      with True show ?thesis by (simp add: m)
    next
      case False
      with e show ?thesis by (simp add: m)
    qed
  qed
  with assms(1) show ?thesis
    by (auto simp: provision_map_def m not_better_self distinct_update)
qed

lemma provision_map_keep:
  assumes "provision_map seen m" "map_of m (provisionKey c) = Some e" "\<not> citationIsBetter c e"
  shows "provision_map (insert c seen) m"
  using assms by (auto simp: provision_map_def)

lemma by_provision_spec: "provision_map seen m \<Longrightarrow> provision_map (seen \<union> set cs) (by_provision cs m)"
proof (induction cs arbitrary: seen m)
  case (Cons c cs)
  let ?m = "case map_of m (provisionKey c) of None \<Rightarrow> AList.update (provisionKey c) c m
    | Some e \<Rightarrow> if citationIsBetter c e then AList.update (provisionKey c) c m else m"
  have "provision_map (insert c seen) ?m"
    using provision_map_put [OF Cons.prems] provision_map_keep [OF Cons.prems]
    by (auto split: option.split)
  from Cons.IH [OF this] show ?case by simp
qed simp

lemma dedup_spec:
  "set (deduplicateBySameProvision cs) \<subseteq> set cs \<and>
   distinct (map provisionKey (deduplicateBySameProvision cs)) \<and>
   sorted_wrt (\<lambda>c d. ci_score d \<le> ci_score c) (deduplicateBySameProvision cs) \<and>
   (\<forall>c \<in> set cs. \<exists>u \<in> set (deduplicateBySameProvision cs).
      provisionKey u = provisionKey c \<and> \<not> citationIsBetter c u)"
proof -
  define m where "m = by_provision cs []"
  have "provision_map ({} \<union> set cs) m"
    unfolding m_def by (rule by_provision_spec) (simp add: provision_map_def)
  then have m: "provision_map (set cs) m" by simp
  have val: "provisionKey c = k \<and> c \<in> set cs" if "(k, c) \<in> set m" for k c
    using that m by (auto simp: provision_map_def)
  have keys: "map provisionKey (map snd m) = map fst m"
    using val by (auto simp: split_beta)
  have ded: "deduplicateBySameProvision cs = sort_by_score (map snd m)"
    by (simp add: deduplicateBySameProvision_def m_def)
  have "distinct (map provisionKey (sort_by_score (map snd m)))"
  proof -
    have "mset (map provisionKey (sort_by_score (map snd m))) = mset (map fst m)"
      by (simp add: sort_by_score_def del: map_map flip: keys)
    moreover have "distinct (map fst m)" using m by (simp add: provision_map_def)
    ultimately show ?thesis by (metis mset_eq_imp_distinct_iff)
  qed
  moreover have "sorted_wrt (\<lambda>c d. ci_score d \<le> ci_score c) (sort_by_score (map snd m))"
  proof -
    have "sorted (map (\<lambda>c. - ci_score c) (sort_by_score (map snd m)))"
      by (simp add: sort_by_score_def)
    then show ?thesis by (simp add: sorted_map)
  qed
  moreover have "\<exists>u \<in> snd ` set m. provisionKey u = provisionKey c \<and> \<not> citationIsBetter c u"
    if "c \<in> set cs" for c
  proof -
    from m that obtain e where e: "map_of m (provisionKey c) = Some e" "\<not> citationIsBetter c e"
      by (auto simp: provision_map_def)
    from map_of_SomeD [OF e(1)] have "e \<in> snd ` set m" by force
    with e val [OF map_of_SomeD [OF e(1)]] show ?thesis by blast
  qed
  ultimately show ?thesis
    using val by (auto simp: ded sort_by_score_def)
qed

lemma set_distinct_first [simp]: "set (distinct_first xs) = set xs"
  by (induction xs) auto

lemma distinct_distinct_first: "distinct (distinct_first xs)"
  by (induction xs) auto

lemma used_spec:
  "set (filterCitationsToAnswerUsed text cs) \<subseteq> set cs \<and>
   distinct (map provisionKey (filterCitationsToAnswerUsed text cs)) \<and>
   (\<forall>n \<in> set (findCitationMarkers text). valid_marker cs n \<longrightarrow>
      (\<exists>u \<in> set (filterCitationsToAnswerUsed text cs).
         provisionKey u = provisionKey (cs ! (n - 1)) \<and> \<not> citationIsBetter (cs ! (n - 1)) u)) \<and>
   (\<forall>u \<in> set (filterCitationsToAnswerUsed text cs).
      \<exists>n \<in> set (findCitationMarkers text). valid_marker cs n \<and> u = cs ! (n - 1))"
proof -
  let ?ns = "distinct_first (filter (valid_marker cs) (findCitationMarkers text))"
  let ?used = "map (\<lambda>i. cs ! (i - 1)) ?ns"
  have "filterCitationsToAnswerUsed text cs = deduplicateBySameProvision ?used"
    by (simp add: filterCitationsToAnswerUsed_def)
  moreover have "set ?used \<subseteq> set cs"
    by (auto simp: valid_marker_def)
  ultimately show ?thesis
    using dedup_spec [of ?used] by fastforce
qed

section \<open>Laws of the grounding check\<close>

definition block_grounded :: "citation list \<Rightarrow> answer_block \<Rightarrow> bool" where
  "block_grounded citations block \<longleftrightarrow>
     (\<forall>n \<in> set (findCitationMarkers (ab_text block)). valid_marker citations n) \<and>
     (ab_type block = Evidence \<longrightarrow> findCitationMarkers (ab_text block) \<noteq> [])"

lemma block_check_exact:
  "assertAnswerBlockGrounded block citations = None \<longleftrightarrow> block_grounded citations block"
proof -
  have "\<not> length (filter P xs) < length xs \<longleftrightarrow> (\<forall>x \<in> set xs. P x)" for P :: "nat \<Rightarrow> bool" and xs
    by (metis filter_True length_filter_less order_less_irrefl)
  then show ?thesis
    by (auto simp: assertAnswerBlockGrounded_def block_grounded_def Let_def filter_id_conv)
qed

lemma ground_paragraphs_cases:
  "if list_all (block_grounded cs) (map parseAnswerBlock ps)
   then ground_paragraphs ps cs = Inr (map (ab_text \<circ> parseAnswerBlock) ps)
   else \<exists>e. ground_paragraphs ps cs = Inl e"
proof (induction ps)
  case (Cons p ps)
  show ?case
  proof (cases "assertAnswerBlockGrounded (parseAnswerBlock p) cs")
    case None
    then have "block_grounded cs (parseAnswerBlock p)" by (simp add: block_check_exact)
    with None Cons.IH show ?thesis by (auto simp: Let_def split: if_splits)
  next
    case (Some e)
    then have "\<not> block_grounded cs (parseAnswerBlock p)" by (simp flip: block_check_exact)
    with Some show ?thesis by (simp add: Let_def)
  qed
qed simp

lemma grounded_exact:
  "assertAnswerGrounded a cs = Inr t \<longleftrightarrow>
   cs \<noteq> [] \<and> paragraphs_of a \<noteq> [] \<and>
   list_all (block_grounded cs) (map parseAnswerBlock (paragraphs_of a)) \<and>
   t = join_blank (map (ab_text \<circ> parseAnswerBlock) (paragraphs_of a))"
  using ground_paragraphs_cases [of cs "paragraphs_of a"]
  by (auto simp: assertAnswerGrounded_def Let_def split: if_splits)

text \<open>C26: An answer that passes the check is, block by block, the completion without its tags; every
  marker in every block names one of the citations supplied and every evidence block carries one.
  The citations reported with the answer are supplied citations that the text names, no two of the
  same provision, and every valid marker of the text has its provision among them, by a citation
  at least as good as the one it names.\<close>

theorem answer_backed_by_citations:
  assumes "assertAnswerGrounded a cs = Inr t"
  shows "t = join_blank (map (ab_text \<circ> parseAnswerBlock) (paragraphs_of a)) \<and>
    (\<forall>p \<in> set (paragraphs_of a).
       (\<forall>n \<in> set (findCitationMarkers (ab_text (parseAnswerBlock p))). 1 \<le> n \<and> n \<le> length cs) \<and>
       (ab_type (parseAnswerBlock p) = Evidence \<longrightarrow>
          findCitationMarkers (ab_text (parseAnswerBlock p)) \<noteq> [])) \<and>
    distinct (map provisionKey (filterCitationsToAnswerUsed t cs)) \<and>
    (\<forall>u \<in> set (filterCitationsToAnswerUsed t cs).
       \<exists>n \<in> set (findCitationMarkers t). 1 \<le> n \<and> n \<le> length cs \<and> u = cs ! (n - 1)) \<and>
    (\<forall>n \<in> set (findCitationMarkers t). 1 \<le> n \<and> n \<le> length cs \<longrightarrow>
       (\<exists>u \<in> set (filterCitationsToAnswerUsed t cs).
          provisionKey u = provisionKey (cs ! (n - 1)) \<and> \<not> citationIsBetter (cs ! (n - 1)) u))"
proof -
  from assms have t: "t = join_blank (map (ab_text \<circ> parseAnswerBlock) (paragraphs_of a))"
    and blocks: "\<forall>p \<in> set (paragraphs_of a). block_grounded cs (parseAnswerBlock p)"
    by (auto simp: grounded_exact list_all_iff)
  show ?thesis
  proof (intro conjI)
    show "\<forall>p \<in> set (paragraphs_of a).
       (\<forall>n \<in> set (findCitationMarkers (ab_text (parseAnswerBlock p))). 1 \<le> n \<and> n \<le> length cs) \<and>
       (ab_type (parseAnswerBlock p) = Evidence \<longrightarrow>
          findCitationMarkers (ab_text (parseAnswerBlock p)) \<noteq> [])"
      using blocks by (simp add: block_grounded_def valid_marker_def)
  qed (use t used_spec [of t cs] in \<open>simp_all add: valid_marker_def\<close>)
qed

definition demo_citation :: "evidence \<Rightarrow> jstring \<Rightarrow> real \<Rightarrow> citation" where
  "demo_citation e r s = \<lparr>ci_evidence = e, ci_contractId = ''k'', ci_contractTitle = asc ''T'',
     ci_clauseReference = r, ci_evidenceText = asc ''t'', ci_score = s\<rparr>"

definition demo_citations :: "citation list" where
  "demo_citations =
     [demo_citation (ChunkEvidence ''h'' None None 0 1) ([51228, 50, 51312] @ asc ''(x)'') (9 / 10),
      demo_citation (ClauseEvidence ''c'') [51228, 32, 50, 51312] (1 / 2),
      demo_citation (ClauseEvidence ''d'') [51228, 51, 51312] (1 / 3)]"

text \<open>An answer of three paragraphs: a conclusion, and two evidence blocks of which the first
  cites the same provision twice.\<close>

definition demo_answer :: jstring where
  "demo_answer = TAG_CONCLUSION @ asc '' ok'' @ [10, 10, 10] @
     TAG_EVIDENCE @ asc '' a '' @ marker_open @ asc '' 1, 2]'' @ [10, 10] @ asc ''b '' @ buildCitationMarker 3"

lemmas citation_eval =
  demo_citation_def demo_citations_def demo_answer_def buildCitationMarker_def marker_open_def asc_def
  TAG_CONCLUSION_def TAG_EVIDENCE_def TAG_ACTION_def nat_str.simps paragraphs_of_def split_blank_last split_blank_next
  non_blank_def js_trim_def js_trim_start_def js_trim_end_def is_js_space_def is_digit_unit_def
  in_group_def MARKER_PATTERN_def Let_def findCitationMarkers_def parseIndexList_def index_of_piece_def
  units_value_def parseAnswerBlock_def assertAnswerBlockGrounded_def valid_marker_def
  map_filter_simps

lemma demo_paragraphs:
  "paragraphs_of demo_answer =
     [TAG_CONCLUSION @ asc '' ok'', TAG_EVIDENCE @ asc '' a '' @ marker_open @ asc '' 1, 2]'',
      asc ''b '' @ buildCitationMarker 3]"
  by (simp add: citation_eval)

lemma demo_blocks:
  "map parseAnswerBlock (paragraphs_of demo_answer) =
     [\<lparr>ab_type = Conclusion, ab_text = asc ''ok''\<rparr>,
      \<lparr>ab_type = Evidence, ab_text = asc ''a '' @ marker_open @ asc '' 1, 2]''\<rparr>,
      \<lparr>ab_type = Evidence, ab_text = asc ''b '' @ buildCitationMarker 3\<rparr>]"
  by (simp add: demo_paragraphs) (simp add: citation_eval)

lemma demo_markers:
  "findCitationMarkers (asc ''ok'') = []"
  "findCitationMarkers (asc ''a '' @ marker_open @ asc '' 1, 2]'') = [1, 2]"
  "findCitationMarkers (asc ''b '' @ buildCitationMarker 3) = [3]"
  by (simp add: citation_eval)+

lemma demo_answer_grounded:
  "assertAnswerGrounded demo_answer demo_citations =
     Inr (asc ''ok'' @ [10, 10] @ asc ''a '' @ marker_open @ asc '' 1, 2]'' @ [10, 10] @
          asc ''b '' @ buildCitationMarker 3)"
proof -
  have "map (ab_text \<circ> parseAnswerBlock) (paragraphs_of demo_answer) =
      map ab_text (map parseAnswerBlock (paragraphs_of demo_answer))" by simp
  then show ?thesis
    unfolding grounded_exact demo_blocks
    by (simp add: demo_markers block_grounded_def valid_marker_def demo_citations_def demo_paragraphs)
qed

theorem answer_backed_by_citations_witness:
  "\<exists>t. assertAnswerGrounded demo_answer demo_citations = Inr t \<and>
     distinct (map provisionKey (filterCitationsToAnswerUsed t demo_citations)) \<and>
     ci_evidence (hd (filterCitationsToAnswerUsed t demo_citations)) = ClauseEvidence ''c''"
proof -
  let ?t = "asc ''ok'' @ [10, 10] @ asc ''a '' @ marker_open @ asc '' 1, 2]'' @ [10, 10] @
          asc ''b '' @ buildCitationMarker 3"
  have "ci_evidence (hd (filterCitationsToAnswerUsed ?t demo_citations)) = ClauseEvidence ''c''"
    by (simp add: filterCitationsToAnswerUsed_def citation_eval)
      (simp add: deduplicateBySameProvision_def sort_by_score_def provisionKey_def article_token_def
        lit_def rep_many_def rep_def citationIsBetter_def citation_eval)
  with answer_backed_by_citations [OF demo_answer_grounded] demo_answer_grounded show ?thesis
    by blast
qed

section \<open>An answer without a source\<close>

lemma js_trim_fixed:
  assumes "js_trim s = s"
  shows "js_trim_start s = s" "js_trim_end s = s"
proof -
  have "length s \<le> length (js_trim_start s)"
    using js_trim_end_length [of "js_trim_start s"] assms by (simp add: js_trim_def)
  then show start: "js_trim_start s = s"
    using js_trim_start_drop [of s] by simp
  show "js_trim_end s = s" using assms by (simp add: js_trim_def start)
qed

lemma js_trim_after_tag:
  assumes "js_trim s = s" "t \<noteq> []" "\<not> is_js_space (hd t)" "\<not> is_js_space (last t)"
  shows "js_trim (t @ s) = t @ s"
proof -
  have start: "js_trim_start (t @ s) = t @ s"
    using assms(2,3) by (cases t) (simp_all add: js_trim_start_def)
  have "dropWhile is_js_space (rev s @ rev t) = rev s @ rev t"
  proof (cases "rev s")
    case Nil
    then show ?thesis using assms(2,4) by (cases t rule: rev_cases) simp_all
  next
    case (Cons c r)
    have "dropWhile is_js_space (rev s) = rev s"
      using js_trim_fixed(2) [OF assms(1)] by (metis js_trim_end_def rev_swap)
    with Cons have "\<not> is_js_space c" by (metis hd_dropWhile list.sel(1) list.distinct(1))
    with Cons show ?thesis by simp
  qed
  then show ?thesis by (simp add: js_trim_def start js_trim_end_def)
qed

lemma cut_blank_no_newline: "10 \<notin> set s \<Longrightarrow> cut_blank s = (s, None)"
  by (induction s rule: cut_blank.induct) auto

text \<open>Nothing obliges an answer to have an evidence block: a completion that is one conclusion
  paragraph without a marker, whatever it claims, is accepted as grounded and reported with no
  source; a bare tag is accepted as an empty answer.\<close>

theorem conclusion_alone_needs_no_source:
  assumes "cs \<noteq> []" "js_trim claim = claim" "10 \<notin> set claim" "findCitationMarkers claim = []"
  shows "assertAnswerGrounded (TAG_CONCLUSION @ claim) cs = Inr claim \<and>
    filterCitationsToAnswerUsed claim cs = [] \<and>
    assertAnswerGrounded TAG_CONCLUSION cs = Inr []"
proof -
  have *: "assertAnswerGrounded (TAG_CONCLUSION @ b) cs = Inr b"
    if b: "js_trim b = b" "10 \<notin> set b" "findCitationMarkers b = []" for b
  proof -
    have "10 \<notin> set (TAG_CONCLUSION @ b)" using b(2) by (simp add: TAG_CONCLUSION_def)
    moreover have "js_trim (TAG_CONCLUSION @ b) = TAG_CONCLUSION @ b"
      by (rule js_trim_after_tag [OF b(1)]) (simp_all add: TAG_CONCLUSION_def is_js_space_def)
    ultimately have "paragraphs_of (TAG_CONCLUSION @ b) = [TAG_CONCLUSION @ b]"
      by (simp add: paragraphs_of_def split_blank_last cut_blank_no_newline non_blank_def TAG_CONCLUSION_def)
    moreover have "parseAnswerBlock (TAG_CONCLUSION @ b) = \<lparr>ab_type = Conclusion, ab_text = b\<rparr>"
      by (simp add: parseAnswerBlock_def js_trim_fixed(1) [OF b(1)])
    ultimately show ?thesis
      using assms(1) b(3) by (simp add: grounded_exact block_grounded_def)
  qed
  have "findCitationMarkers [] = []" "js_trim [] = []"
    by (simp_all add: findCitationMarkers_def js_trim_Nil)
  with * [of claim] * [of "[]"] assms show ?thesis
    by (simp add: filterCitationsToAnswerUsed_def deduplicateBySameProvision_def sort_by_score_def)
qed

theorem conclusion_alone_needs_no_source_witness:
  "assertAnswerGrounded (TAG_CONCLUSION @ asc ''paid'') demo_citations = Inr (asc ''paid'') \<and>
   filterCitationsToAnswerUsed (asc ''paid'') demo_citations = [] \<and>
   assertAnswerGrounded TAG_CONCLUSION demo_citations = Inr []"
  by (rule conclusion_alone_needs_no_source [of demo_citations "asc ''paid''"]) (simp_all add: citation_eval)

end
