(* ===== verification/Prompt.thy ===== *)
theory Prompt
  imports Citations "HOL-Library.Product_Lexorder" "HOL-Library.Sublist"
begin

text \<open>
  From the citations retrieved to the prompt that is sent: the classification of the question
  (\<^verbatim>\<open>domain/ai/question-complexity.ts\<close>), the window of the conversation that goes with it
  (\<^verbatim>\<open>conversation-context.ts\<close>), the citations that fit the token budget (\<^verbatim>\<open>context-token-budget.ts\<close>), the
  issues selected for a broad question (\<^verbatim>\<open>broad-issue-selection.ts\<close>) and the messages built of them
  (\<^verbatim>\<open>prompt-builder.ts\<close>). The tokenizer is a parameter; so is the wording of the
  system prompt, a constant text with one variant per complexity.
\<close>

section \<open>Questions\<close>

definition MAX_QUESTION_LENGTH :: nat where
  "MAX_QUESTION_LENGTH = 2000"

definition assertQuestionWithinBudget :: "jstring \<Rightarrow> bool" where
  "assertQuestionWithinBudget question \<longleftrightarrow> length question \<le> MAX_QUESTION_LENGTH"

definition COMPREHENSIVE_SIGNAL_KEYWORDS :: "jstring list" where
  "COMPREHENSIVE_SIGNAL_KEYWORDS =
    [[47784, 46304], [47784, 46160], [51204, 52404], [51204, 48152], [51204, 49688], [54252,
      44292, 51201], [48736, 51664, 50630, 51060],
     [47532, 48624, 54644], [50836, 50557, 54644], [48520, 47532, 54620], [48520, 47532, 54620,
       51648], [51452, 51032, 54624], [51452, 51032, 54644, 50556],
     [48400, 50556, 32, 54624], [48400, 50556, 54624], [52313, 44200, 50556], [52404, 53356,
       54644, 50556],
     [51060, 49345, 54620, 32, 51312, 44148], [51060, 49345, 54620, 32, 51312, 54637], [51060,
       49345, 54620, 32, 51216], [53945, 51060, 54620, 32, 51312, 44148], [53945, 51060, 54620,
       32, 51312, 54637],
     [47928, 51228, 46112, 32, 47564, 54620], [47928, 51228, 46112, 47564, 54620], [51312, 49900,
       54644, 50556, 32, 54624], [51312, 49900, 54624]]"

definition classifyQuestionComplexity :: "jstring \<Rightarrow> question_complexity" where
  "classifyQuestionComplexity question =
     (if list_ex (includes_text question) COMPREHENSIVE_SIGNAL_KEYWORDS then Comprehensive else Focused)"

section \<open>Conversation\<close>

datatype message_role = USER | ASSISTANT

record conversation_turn =
  ct_role :: message_role
  ct_content :: jstring

definition MAX_CONTEXT_TURNS :: nat where
  "MAX_CONTEXT_TURNS = 3"

definition MAX_RETRIEVAL_HISTORY_TURNS :: nat where
  "MAX_RETRIEVAL_HISTORY_TURNS = 1"

definition MAX_HISTORY_MESSAGE_CHARS :: nat where
  "MAX_HISTORY_MESSAGE_CHARS = 400"

definition truncate_message :: "jstring \<Rightarrow> jstring" where
  "truncate_message content =
     (if length content > MAX_HISTORY_MESSAGE_CHARS
      then js_slice content 0 MAX_HISTORY_MESSAGE_CHARS @ asc ''...'' else content)"

definition last_items :: "nat \<Rightarrow> 'a list \<Rightarrow> 'a list" where
  "last_items n xs = drop (length xs - n) xs"

definition selectRecentConversationHistory ::
  "conversation_turn list \<Rightarrow> nat \<Rightarrow> conversation_turn list" where
  "selectRecentConversationHistory messages maxTurns =
     (if maxTurns = 0 \<or> messages = [] then []
      else map (\<lambda>m. \<lparr>ct_role = ct_role m, ct_content = truncate_message (ct_content m)\<rparr>)
             (last_items (maxTurns * 2) messages))"

definition buildHistoryAugmentedSearchQuery :: "jstring \<Rightarrow> conversation_turn list \<Rightarrow> jstring" where
  "buildHistoryAugmentedSearchQuery question history =
     (if history = [] then question
      else let recentTurns = last_items (MAX_RETRIEVAL_HISTORY_TURNS * 2) history;
               historyText = join_with 32 (map (truncate_message \<circ> ct_content) recentTurns)
           in js_trim (question @ [32] @ historyText))"

datatype llm_role = System_Role | User_Role | Assistant_Role

record llm_message =
  lm_role :: llm_role
  lm_content :: jstring

definition toLlmHistoryMessages :: "conversation_turn list \<Rightarrow> llm_message list" where
  "toLlmHistoryMessages history =
     map (\<lambda>t. \<lparr>lm_role = (if ct_role t = USER then User_Role else Assistant_Role),
               lm_content = ct_content t\<rparr>) history"

section \<open>Issues of a broad question\<close>

datatype issue_tier = Material | Neutral | Boilerplate

datatype issue_category =
  Termination_Penalty | Payment_Delay_Interest | Auto_Renewal | Liability_Cap | Indemnity_Damages
  | Unilateral_Right | Exclusivity_Noncompete | Ip_Ownership | Survival_Duration
  | Governing_Law_Venue
  | Boilerplate_Confidentiality | Boilerplate_Assignment | Boilerplate_Notice | Boilerplate_General
  | Other_Issue

abbreviation spaces :: matcher where
  "spaces \<equiv> m_many is_js_space"

abbreviation anything :: matcher where
  "anything \<equiv> m_many not_line_end"

definition CATEGORY_RULES :: "(issue_category \<times> issue_tier \<times> matcher list) list" where
  "CATEGORY_RULES =
    [(Termination_Penalty, Material,
        map m_lit [[54644, 51648], [50948, 50557, 44552], [51648, 52404, 49345, 44552], [50948,
          50557, 48268]]),
     (Payment_Delay_Interest, Material,
        map m_lit [[51648, 50672, 51060, 51088], [50672, 52404], [51648, 50672, 49552, 54644,
          44552], [51648, 44553, 44592, 54620], [51648, 44553, 54616, 50668, 50556]]),
     (Auto_Renewal, Material,
        [m_seq [m_lit [51088, 46041], spaces, m_alt [m_lit [50672, 51109], m_lit [44081,
          49888]]]]),
     (Liability_Cap, Material,
        [m_seq [m_lit [52293, 51076], anything, m_lit [51228, 54620]],
         m_seq [m_lit [48176, 49345, 50529], anything, m_lit [51228, 54620]], m_lit [54620,
           46020]]),
     (Indemnity_Damages, Material, map m_lit [[49552, 54644, 48176, 49345], [48176, 49345, 52293,
       51076], [47732, 52293]]),
     (Unilateral_Right, Material,
        [m_lit [51068, 48169, 51201, 51004, 47196], m_lit [45800, 46021, 51004, 47196],
         m_seq [m_lit [49324, 51204], spaces, m_lit [53685, 51648], spaces, m_lit [50630, 51060]],
         m_lit [51076, 51032, 47196]]),
     (Exclusivity_Noncompete, Material,
        map m_lit [[46021, 51216], [44221, 50629, 44552, 51648], [46041, 51333, 50629, 44228],
          [44221, 51137, 44552, 51648]]),
     (Ip_Ownership, Material, map m_lit [[51648, 49885, 51116, 49328, 44428], [51200, 51089,
       44428], [53945, 54728]]),
     (Survival_Duration, Material,
        [m_seq [m_lit [51333, 47308], spaces, m_lit [54980], anything, m_some is_digit_unit,
          spaces,
                m_lit [45380]], m_lit [51316, 49549]]),
     (Governing_Law_Venue, Neutral, map m_lit [[51456, 44144, 48277], [44288, 54624]]),
     (Boilerplate_Confidentiality, Boilerplate, map m_lit [[48708, 48128], [44592, 48128]]),
     (Boilerplate_Assignment, Boilerplate, [m_lit [50577, 46020]]),
     (Boilerplate_Notice, Boilerplate, [m_lit [53685, 51648]]),
     (Boilerplate_General, Boilerplate, map m_lit [[47785, 51201], [51221, 51032], [54801, 51312],
       [50756, 51204, 54633, 51032]])]"

fun TIER_RANK :: "issue_tier \<Rightarrow> int" where
  "TIER_RANK Material = 2"
| "TIER_RANK Neutral = 1"
| "TIER_RANK Boilerplate = 0"

definition rule_matches :: "jstring \<Rightarrow> matcher list \<Rightarrow> bool" where
  "rule_matches haystack patterns = list_ex (\<lambda>m. test_match m haystack) patterns"

definition first_rule_of_tier ::
  "issue_tier \<Rightarrow> jstring \<Rightarrow> (issue_category \<times> issue_tier \<times> matcher list) option" where
  "first_rule_of_tier tier haystack =
     List.find (\<lambda>(_, t, patterns). t = tier \<and> rule_matches haystack patterns) CATEGORY_RULES"

definition classifyCitationIssue :: "citation \<Rightarrow> issue_category \<times> issue_tier" where
  "classifyCitationIssue c =
     (let haystack = ci_clauseReference c @ [32] @ ci_evidenceText c
      in case first_rule_of_tier Material haystack of
           Some (category, tier, _) \<Rightarrow> (category, tier)
         | None \<Rightarrow>
             (case first_rule_of_tier Neutral haystack of
                Some (category, tier, _) \<Rightarrow> (category, tier)
              | None \<Rightarrow>
                  (case first_rule_of_tier Boilerplate haystack of
                     Some (category, tier, _) \<Rightarrow> (category, tier)
                   | None \<Rightarrow> (Other_Issue, Neutral))))"

record issue_group =
  ig_category :: issue_category
  ig_tier :: issue_tier
  ig_citations :: "citation list"
  ig_maxScore :: real

fun group_issues :: "citation list \<Rightarrow> (issue_category \<times> issue_group) list \<Rightarrow> (issue_category \<times> issue_group) list" where
  "group_issues [] groups = groups"
| "group_issues (c # cs) groups =
     (let (category, tier) = classifyCitationIssue c
      in group_issues cs
           (AList.update category
              (case map_of groups category of
                 Some g \<Rightarrow> g\<lparr>ig_citations := ig_citations g @ [c],
                            ig_maxScore := max (ig_maxScore g) (ci_score c)\<rparr>
               | None \<Rightarrow> \<lparr>ig_category = category, ig_tier = tier, ig_citations = [c],
                          ig_maxScore = ci_score c\<rparr>) groups))"

definition groupCitationsByIssue :: "citation list \<Rightarrow> issue_group list" where
  "groupCitationsByIssue citations = map snd (group_issues citations [])"

definition DEFAULT_MAX_ISSUE_GROUPS :: nat where
  "DEFAULT_MAX_ISSUE_GROUPS = 4"

definition MAX_SAFE_REQUESTED_ISSUE_GROUPS :: nat where
  "MAX_SAFE_REQUESTED_ISSUE_GROUPS = 8"

definition isExhaustiveReviewRequest :: "jstring \<Rightarrow> bool" where
  "isExhaustiveReviewRequest question =
     test_match (m_alt [m_lit [51204, 52404], m_lit [48736, 51664, 50630, 51060],
        m_seq [m_lit [47784, 46304], spaces, m_lit [51312, 54637]],
        m_seq [m_lit [47784, 46160], spaces, m_alt [m_lit [44160, 53664], m_lit [50508, 47140],
          m_lit [48372, 50668]]],
        m_lit [51204, 49688]]) question"

text \<open>The leftmost match of \<^verbatim>\<open>/(\d+)\s*GAE/\<close>; a run of digits that is not followed by the counter word
  matches from none of its positions.\<close>

fun explicit_count :: "jstring \<Rightarrow> jstring option" where
  "explicit_count [] = None"
| "explicit_count (c # cs) =
     (let digits = takeWhile is_digit_unit (c # cs)
      in if digits \<noteq> [] \<and>
            strip_prefix [44060] (js_trim_start (dropWhile is_digit_unit (c # cs))) \<noteq> None
         then Some digits else explicit_count cs)"

definition parseExplicitRequestedIssueCount :: "jstring \<Rightarrow> nat option" where
  "parseExplicitRequestedIssueCount question =
     (case explicit_count question of
        None \<Rightarrow> None
      | Some digits \<Rightarrow>
          (case index_of_piece digits of
             None \<Rightarrow> None
           | Some requested \<Rightarrow>
               if requested < 1 then None else Some (min requested MAX_SAFE_REQUESTED_ISSUE_GROUPS)))"

record broad_selection =
  bs_selectedCitations :: "citation list"
  bs_allGroups :: "issue_group list"
  bs_selectedGroups :: "issue_group list"
  bs_exhaustive :: bool

definition rank_key :: "issue_group \<Rightarrow> int \<times> real" where
  "rank_key g = (- TIER_RANK (ig_tier g), - ig_maxScore g)"

definition selectBroadIssueCandidates :: "jstring \<Rightarrow> citation list \<Rightarrow> broad_selection" where
  "selectBroadIssueCandidates question citations =
     (let allGroups = groupCitationsByIssue citations;
          ranked = sort_key rank_key allGroups
      in if isExhaustiveReviewRequest question
         then \<lparr>bs_selectedCitations = concat (map ig_citations ranked), bs_allGroups = allGroups,
               bs_selectedGroups = ranked, bs_exhaustive = True\<rparr>
         else let maxGroups = (case parseExplicitRequestedIssueCount question of
                                 Some n \<Rightarrow> n | None \<Rightarrow> DEFAULT_MAX_ISSUE_GROUPS);
                  selectedGroups = take maxGroups ranked
              in \<lparr>bs_selectedCitations = concat (map ig_citations selectedGroups),
                  bs_allGroups = allGroups, bs_selectedGroups = selectedGroups,
                  bs_exhaustive = False\<rparr>)"

section \<open>The prompt\<close>

definition num :: "nat \<Rightarrow> jstring" where
  "num n = asc (nat_str n)"

fun join_text :: "jstring \<Rightarrow> jstring list \<Rightarrow> jstring" where
  "join_text sep [] = []"
| "join_text sep [p] = p"
| "join_text sep (p # q # ps) = p @ sep @ join_text sep (q # ps)"

definition buildCitationBlock :: "citation \<Rightarrow> nat \<Rightarrow> jstring" where
  "buildCitationBlock c index =
     join_with 10
      [[91, 67, 73, 84, 65, 84, 73, 79, 78, 32] @
        num index @
        [93],
       [51312, 54637, 58, 32] @
        ci_clauseReference c,
       [44228, 50557, 58, 32] @
        ci_contractTitle c,
       [44540, 44144, 58, 32] @
        ci_evidenceText c,
       [91, 47, 67, 73, 84, 65, 84, 73, 79, 78, 32] @
        num index @
        [93]]"

text \<open>\<^verbatim>\<open>new Map(citations.map((c, i) => [c, i + 1]))\<close>: the last position of a citation, from 1.\<close>

fun index_of_citation :: "citation list \<Rightarrow> nat \<Rightarrow> citation \<Rightarrow> nat option" where
  "index_of_citation [] i c = None"
| "index_of_citation (d # ds) i c =
     (case index_of_citation ds (i + 1) c of
        Some j \<Rightarrow> Some j
      | None \<Rightarrow> if d = c then Some i else None)"

definition group_markers :: "citation list \<Rightarrow> issue_group \<Rightarrow> jstring" where
  "group_markers citations g =
     join_with 32 (map buildCitationMarker
       (List.map_filter (index_of_citation citations 1) (ig_citations g)))"

definition issue_block :: "citation list \<Rightarrow> nat \<Rightarrow> nat \<Rightarrow> issue_group \<Rightarrow> jstring" where
  "issue_block citations issues i g =
     (let markers = group_markers citations g
      in TAG_EVIDENCE @
        [32, 51060, 49800, 32] @
        num (i + 1) @
        [47] @
        num issues @
        [32, 45, 32, 51060, 32, 47928, 45800, 50640, 49436, 45716, 32, 45796, 51020, 32, 54364,
          49884, 47564, 32, 49324, 50857, 54616, 49901, 49884, 50724, 32, 40, 44536, 51473, 32,
          49892, 51228, 47196, 32, 50420, 32, 44163, 47564, 32, 45224, 44592, 49901, 49884, 50724,
          41, 58, 32] @
        markers)"

definition buildIssueSkeletonSection :: "citation list \<Rightarrow> issue_group list \<Rightarrow> jstring" where
  "buildIssueSkeletonSection citations issueGroups =
     (let issues = length issueGroups;
          issueBlocks = map (\<lambda>(i, g). issue_block citations issues i g) (enumerate 0 issueGroups)
      in join_with 10
       ([[51060, 32, 51656, 47928, 50640, 45716, 32] @
        num issues @
        [44060, 51032, 32, 51060, 49800, 47564, 32, 49440, 48324, 46104, 50632, 49845, 45768,
          45796, 46, 32, 50500, 47000, 32, 53952, 51012, 32, 51221, 54869, 55176, 32, 46384,
          47476, 49901, 49884, 50724, 32, 45, 32, 51060, 32, 53952, 50640, 32, 50630, 45716, 32,
          52628, 44032, 32, 47928, 45800, 40, 53945, 55176, 32, 50836, 50557, 51060, 45208, 32,
          51116, 50836, 50557, 32, 47928, 45800, 41, 51012, 32, 47564, 46308, 51648, 32, 47560,
          49901, 49884, 50724, 58],
         [],
         TAG_CONCLUSION @
        [32, 54620, 32, 47928, 51109, 47564, 32, 51089, 49457, 54616, 49901, 49884, 50724, 46, 32,
          47751, 32, 44060, 51064, 51648, 47564, 32, 47568, 54616, 44256, 32, 51060, 49800, 32,
          51228, 47785, 51060, 45208, 32, 45236, 50857, 51012, 32, 45208, 50676, 54616, 51648, 32,
          47560, 49901, 49884, 50724, 46, 32, 50696, 58, 32, 34, 45576, 50640, 32, 46916, 45716,
          32, 51312, 44148, 51008, 32] @
        num issues @
        [44032, 51648, 51077, 45768, 45796, 46, 34],
         []] @
        issueBlocks @
        [[],
         [44033, 32] @
        TAG_EVIDENCE @
        [32, 47928, 45800, 50640, 45716, 32, 40, 49, 41, 32, 51060, 49800, 32, 51228, 47785,
          44284, 32, 50780, 32, 51473, 50836, 54620, 51648, 32, 54620, 32, 47928, 51109, 44, 32,
          40, 50, 41, 32, 54645, 49900, 32, 44552, 50529, 183, 44592, 54620, 183, 51312, 44148,
          32, 54616, 45208, 44, 32, 40, 51, 41, 32, 50948, 50640, 32, 51648, 51221, 46108, 32,
          54364, 49884, 47564, 32, 45812, 51004, 49901, 49884, 50724, 46, 32, 51221, 54869, 55176,
          32] @
        num issues @
        [44060, 51032, 32] @
        TAG_EVIDENCE @
        [32, 47928, 45800, 47564, 32, 51089, 49457, 54616, 44256, 44, 32, 44536, 32, 50808, 51032,
          32, 47928, 45800, 40] @
        TAG_ACTION @
        [32, 47928, 45800, 32, 54252, 54632, 41, 51008, 32, 51208, 45824, 32, 51089, 49457, 54616,
          51648, 32, 47560, 49901, 49884, 50724, 46, 32, 51060, 48120, 32, 50612, 45712, 32,
          54637, 47785, 50640, 49436, 32, 49444, 47749, 54620, 32, 45236, 50857, 51012, 32, 45796,
          47480, 32, 47928, 45800, 50640, 49436, 32, 45796, 49884, 32, 50836, 50557, 54616, 44144,
          45208, 32, 48152, 48373, 54616, 51648, 32, 47560, 49901, 49884, 50724, 46]]))"

definition trailing_instruction :: "citation list \<Rightarrow> jstring" where
  "trailing_instruction citations =
     [49884, 49828, 53596, 32, 54532, 47212, 54532, 53944, 51032, 32, 34, 45813, 48320, 32, 44396,
       51312, 34, 47484, 32, 46384, 47476, 49901, 49884, 50724, 46, 32, 44033, 32, 44540, 44144,
       40] @
        TAG_EVIDENCE @
        [41, 32, 47928, 45800, 32, 45149, 50640, 45716, 32, 44536, 32, 47928, 45800, 51060, 32,
          49892, 51228, 47196, 32, 49324, 50857, 54620, 32, 91, 67, 73, 84, 65, 84, 73, 79, 78,
          32, 110, 93, 32, 48660, 47197, 51032, 32, 48264, 54840, 47484, 32, 44536, 45824, 47196,
          32, 34, 91, 52636, 52376, 58, 32, 110, 93, 34, 32, 54805, 49885, 51004, 47196, 32,
          48537, 51060, 49901, 49884, 50724, 32, 40, 54620, 32, 47928, 45800, 51060, 32, 50668,
          47084, 32, 51312, 54637, 51012, 32, 54632, 44760, 32, 49444, 47749, 54620, 45796, 47732,
          32, 54644, 45817, 54616, 45716, 32, 54364, 49884, 47484, 32, 44033, 44033, 32, 46384,
          47196, 44, 32, 45208, 46976, 55176, 32, 48537, 51060, 49901, 49884, 50724, 41, 58, 32] @
     join_text (asc '', '') (map (\<lambda>i. buildCitationMarker (i + 1)) [0..<length citations])"

definition citation_blocks :: "citation list \<Rightarrow> jstring" where
  "citation_blocks citations =
     join_blank (map (\<lambda>(i, c). buildCitationBlock c (i + 1)) (enumerate 0 citations))"

definition buildUserPrompt :: "jstring \<Rightarrow> citation list \<Rightarrow> issue_group list option \<Rightarrow> jstring" where
  "buildUserPrompt question citations issueGroups =
     (if citations = []
      then join_with 10
       [[45796, 51020, 51008, 32, 49324, 50857, 51088, 51032, 32, 51656, 47928, 51077, 45768,
         45796, 46, 32, 50500, 47000, 50640, 45716, 32, 44540, 44144, 47196, 32, 49340, 51012, 32,
         91, 67, 73, 84, 65, 84, 73, 79, 78, 93, 32, 48660, 47197, 51060, 32, 51204, 54784, 32,
         50630, 49845, 45768, 45796, 46],
        [51060, 32, 44221, 50864, 32, 51208, 45824, 32, 52628, 52769, 54616, 51648, 32, 47568,
          44256, 44, 32, 44288, 47144, 32, 44540, 44144, 47484, 32, 52286, 51648, 32, 47803,
          54664, 45796, 44256, 47564, 32, 45813, 54616, 49901, 49884, 50724, 46],
        [],
        [51656, 47928, 58, 32] @
        question]
      else join_with 10
       [[45796, 51020, 51008, 32, 44160, 49353, 51004, 47196, 32, 52286, 51008, 32, 44540, 44144,
         32, 51312, 54637, 46308, 51077, 45768, 45796, 46, 32, 45813, 48320, 51008, 32, 50724,
         51649, 32, 51060, 32, 44540, 44144, 47564, 32, 49324, 50857, 54616, 49901, 49884, 50724,
         46],
        [51060, 32, 51473, 32, 51656, 47928, 50640, 32, 49892, 51228, 47196, 32, 45813, 54616,
          45716, 32, 51312, 54637, 47564, 32, 44264, 46972, 32, 50416, 49901, 49884, 50724, 32,
          45, 32, 50500, 47000, 32, 48660, 47197, 51060, 32, 50668, 47084, 32, 44060, 46972,
          44256, 32, 54644, 49436, 32, 51204, 48512, 32, 45813, 48320, 50640, 32, 51064, 50857,
          54644, 50556, 32, 54616, 45716, 32, 44163, 51008, 32, 50500, 45785, 45768, 45796, 46],
        [],
        citation_blocks citations,
        [],
        [51656, 47928, 58, 32] @
        question,
        [],
        (case issueGroups of
           Some groups \<Rightarrow> if groups \<noteq> [] then buildIssueSkeletonSection citations groups
                          else trailing_instruction citations
         | None \<Rightarrow> trailing_instruction citations)])"

record prompt_env =
  buildSystemPrompt :: "question_complexity \<Rightarrow> jstring"
  countTokens :: "jstring \<Rightarrow> nat"
  pe_runtime :: js_runtime

definition buildPromptMessages ::
  "prompt_env \<Rightarrow> jstring \<Rightarrow> citation list \<Rightarrow> conversation_turn list \<Rightarrow> question_complexity \<Rightarrow>
   issue_group list option \<Rightarrow> llm_message list" where
  "buildPromptMessages env question citations history complexity issueGroups =
     \<lparr>lm_role = System_Role, lm_content = buildSystemPrompt env complexity\<rparr> #
     toLlmHistoryMessages history @
     [\<lparr>lm_role = User_Role, lm_content = buildUserPrompt question citations issueGroups\<rparr>]"

section \<open>The token budget\<close>

record window_config =
  AI_LLM_CONTEXT_WINDOW_TOKENS :: nat
  AI_LLM_DEFAULT_MAX_OUTPUT_TOKENS_ESTIMATE :: nat

definition default_window :: window_config where
  "default_window = \<lparr>AI_LLM_CONTEXT_WINDOW_TOKENS = 128000,
                     AI_LLM_DEFAULT_MAX_OUTPUT_TOKENS_ESTIMATE = 2048\<rparr>"

definition CONTEXT_TOKEN_SAFETY_MARGIN :: nat where
  "CONTEXT_TOKEN_SAFETY_MARGIN = 500"

definition MAX_CITATIONS_FOCUSED :: nat where
  "MAX_CITATIONS_FOCUSED = 5"

definition availableContextTokens :: "window_config \<Rightarrow> int" where
  "availableContextTokens w =
     int (AI_LLM_CONTEXT_WINDOW_TOKENS w) - int (AI_LLM_DEFAULT_MAX_OUTPUT_TOKENS_ESTIMATE w) -
     int CONTEXT_TOKEN_SAFETY_MARGIN"

definition message_tokens :: "prompt_env \<Rightarrow> llm_message list \<Rightarrow> nat" where
  "message_tokens env messages = sum_list (map (countTokens env \<circ> lm_content) messages)"

definition totalPromptTokens :: "prompt_env \<Rightarrow> jstring \<Rightarrow> citation list \<Rightarrow> nat" where
  "totalPromptTokens env question citations =
     message_tokens env (buildPromptMessages env question citations [] Focused None)"

fun dedup_by_text :: "js_runtime \<Rightarrow> jstring list \<Rightarrow> citation list \<Rightarrow> citation list" where
  "dedup_by_text rt seen [] = []"
| "dedup_by_text rt seen (c # cs) =
     (let key = normalizeClauseText rt (ci_evidenceText c)
      in if key \<in> set seen then dedup_by_text rt seen cs
         else c # dedup_by_text rt (key # seen) cs)"

definition deduplicateCitationsByEvidenceText :: "js_runtime \<Rightarrow> citation list \<Rightarrow> citation list" where
  "deduplicateCitationsByEvidenceText rt citations = dedup_by_text rt [] citations"

fun pack_loop ::
  "prompt_env \<Rightarrow> jstring \<Rightarrow> int \<Rightarrow> citation list \<Rightarrow> citation list \<Rightarrow> nat \<Rightarrow> citation list \<times> nat" where
  "pack_loop env question budget [] kept currentTokens = (kept, currentTokens)"
| "pack_loop env question budget (c # cs) kept currentTokens =
     (let candidateTokens = totalPromptTokens env question (kept @ [c])
      in if int candidateTokens > budget then pack_loop env question budget cs kept currentTokens
         else pack_loop env question budget cs (kept @ [c]) candidateTokens)"

record context_budget_result =
  cb_kept :: "citation list"
  cb_truncated :: bool
  cb_droppedCount :: nat
  cb_totalContextTokens :: nat

definition packCitationsWithinTokenBudget ::
  "prompt_env \<Rightarrow> jstring \<Rightarrow> citation list \<Rightarrow> int \<Rightarrow> question_complexity \<Rightarrow> context_budget_result" where
  "packCitationsWithinTokenBudget env question citations budget complexity =
     (let deduped = deduplicateCitationsByEvidenceText (pe_runtime env) citations;
          countCapped = (if complexity = Focused then take MAX_CITATIONS_FOCUSED deduped else deduped);
          (kept, currentTokens) = pack_loop env question budget countCapped []
                                    (totalPromptTokens env question [])
      in \<lparr>cb_kept = kept, cb_truncated = length kept < length deduped,
          cb_droppedCount = length deduped - length kept, cb_totalContextTokens = currentTokens\<rparr>)"

section \<open>Laws of the token budget\<close>

definition evidence_key :: "js_runtime \<Rightarrow> citation \<Rightarrow> jstring" where
  "evidence_key rt c = normalizeClauseText rt (ci_evidenceText c)"

lemma dedup_by_text_spec:
  "subseq (dedup_by_text rt seen cs) cs \<and>
   distinct (map (evidence_key rt) (dedup_by_text rt seen cs)) \<and>
   set (map (evidence_key rt) (dedup_by_text rt seen cs)) = evidence_key rt ` set cs - set seen"
proof (induction cs arbitrary: seen)
  case (Cons c cs)
  show ?case
  proof (cases "evidence_key rt c \<in> set seen")
    case True
    then have "dedup_by_text rt seen (c # cs) = dedup_by_text rt seen cs"
      by (simp add: evidence_key_def Let_def)
    with Cons.IH [of seen] True show ?thesis by auto
  next
    case False
    let ?k = "evidence_key rt c"
    have "dedup_by_text rt seen (c # cs) = c # dedup_by_text rt (?k # seen) cs"
      using False by (simp add: evidence_key_def Let_def)
    with Cons.IH [of "?k # seen"] False show ?thesis by auto
  qed
qed simp

lemma pack_loop_spec:
  assumes "pack_loop env q b cs kept cur = (k, t)" "cur = totalPromptTokens env q kept"
  shows "\<exists>xs. k = kept @ xs \<and> subseq xs cs \<and> t = totalPromptTokens env q k \<and>
     (xs \<noteq> [] \<longrightarrow> int t \<le> b) \<and>
     (\<forall>c \<in> set cs. c \<in> set k \<or> (\<exists>p. prefix p k \<and> b < int (totalPromptTokens env q (p @ [c]))))"
  using assms
proof (induction cs arbitrary: kept cur)
  case (Cons c cs)
  show ?case
  proof (cases "b < int (totalPromptTokens env q (kept @ [c]))")
    case True
    with Cons.prems have "pack_loop env q b cs kept cur = (k, t)" by (simp add: Let_def)
    from Cons.IH [OF this Cons.prems(2)] obtain xs where
      xs: "k = kept @ xs" "subseq xs cs" "t = totalPromptTokens env q k" "xs \<noteq> [] \<longrightarrow> int t \<le> b"
        "\<forall>c \<in> set cs. c \<in> set k \<or> (\<exists>p. prefix p k \<and> b < int (totalPromptTokens env q (p @ [c])))"
      by blast
    have "prefix kept k" using xs(1) by simp
    with xs True show ?thesis by (intro exI [of _ xs]) auto
  next
    case False
    with Cons.prems have "pack_loop env q b cs (kept @ [c]) (totalPromptTokens env q (kept @ [c])) = (k, t)"
      by (simp add: Let_def)
    from Cons.IH [OF this refl] obtain xs where
      xs: "k = (kept @ [c]) @ xs" "subseq xs cs" "t = totalPromptTokens env q k" "xs \<noteq> [] \<longrightarrow> int t \<le> b"
        "\<forall>c \<in> set cs. c \<in> set k \<or> (\<exists>p. prefix p k \<and> b < int (totalPromptTokens env q (p @ [c])))"
      by blast
    have "int t \<le> b" using xs(1,3,4) False by (cases xs) auto
    with xs show ?thesis by (intro exI [of _ "c # xs"]) auto
  qed
qed simp

lemma distinct_subseq: "subseq xs ys \<Longrightarrow> distinct ys \<Longrightarrow> distinct xs"
  by (induction rule: list_emb.induct) (auto dest: list_emb_set)

lemma message_tokens_history:
  "message_tokens env (buildPromptMessages env q cs hist complexity groups) =
   message_tokens env (buildPromptMessages env q cs [] complexity groups) +
   sum_list (map (countTokens env \<circ> ct_content) hist)"
  by (simp add: message_tokens_def buildPromptMessages_def toLlmHistoryMessages_def comp_def)

lemma pack_facts:
  fixes env question citations budget complexity
  defines "r \<equiv> packCitationsWithinTokenBudget env question citations budget complexity"
    and "d \<equiv> deduplicateCitationsByEvidenceText (pe_runtime env) citations"
    and "candidates \<equiv> (let d = deduplicateCitationsByEvidenceText (pe_runtime env) citations
                       in if complexity = Focused then take 5 d else d)"
  shows "subseq (cb_kept r) candidates" "subseq candidates d"
    and "cb_totalContextTokens r = totalPromptTokens env question (cb_kept r)"
    and "cb_kept r \<noteq> [] \<longrightarrow> int (cb_totalContextTokens r) \<le> budget"
    and "\<forall>c \<in> set candidates. c \<in> set (cb_kept r) \<or>
       (\<exists>p. prefix p (cb_kept r) \<and> budget < int (totalPromptTokens env question (p @ [c])))"
proof -
  have cand: "candidates = (if complexity = Focused then take 5 d else d)"
    by (simp add: candidates_def d_def)
  obtain k t where kt: "pack_loop env question budget candidates [] (totalPromptTokens env question []) = (k, t)"
    by force
  have "r = (let (k, t) = (k, t) in \<lparr>cb_kept = k, cb_truncated = length k < length d,
      cb_droppedCount = length d - length k, cb_totalContextTokens = t\<rparr>)"
    unfolding kt [symmetric] cand
    by (simp add: r_def packCitationsWithinTokenBudget_def d_def Let_def MAX_CITATIONS_FOCUSED_def)
  then have r: "cb_kept r = k" "cb_totalContextTokens r = t" by simp_all
  show "subseq candidates d" by (simp add: cand subseq_order.eq_iff prefix_imp_subseq take_is_prefix)
  from pack_loop_spec [OF kt refl] r
  show "subseq (cb_kept r) candidates" "cb_totalContextTokens r = totalPromptTokens env question (cb_kept r)"
    "cb_kept r \<noteq> [] \<longrightarrow> int (cb_totalContextTokens r) \<le> budget"
    "\<forall>c \<in> set candidates. c \<in> set (cb_kept r) \<or>
       (\<exists>p. prefix p (cb_kept r) \<and> budget < int (totalPromptTokens env question (p @ [c])))"
    by auto
qed

lemma packed_subseq:
  "subseq (cb_kept (packCitationsWithinTokenBudget env question citations budget complexity))
     (deduplicateCitationsByEvidenceText (pe_runtime env) citations)"
  "subseq (cb_kept (packCitationsWithinTokenBudget env question citations budget complexity)) citations"
proof -
  have "subseq (deduplicateCitationsByEvidenceText (pe_runtime env) citations) citations"
    using dedup_by_text_spec [of "pe_runtime env" "[]" citations]
    by (simp add: deduplicateCitationsByEvidenceText_def)
  with subseq_order.trans [OF pack_facts(1) pack_facts(2)]
  show "subseq (cb_kept (packCitationsWithinTokenBudget env question citations budget complexity))
     (deduplicateCitationsByEvidenceText (pe_runtime env) citations)"
    "subseq (cb_kept (packCitationsWithinTokenBudget env question citations budget complexity)) citations"
    by (blast intro: subseq_order.trans)+
qed

text \<open>C28: What the token budget keeps: a sub-sequence of the citations, no two with the same
  normalized evidence, at most five for a focused question; the total it reports is that of the prompt
  with these citations and is within the budget unless nothing was kept; a citation of the candidates is left out only
  because it did not fit after some prefix of those kept. The focused prompt that is sent with a
  conversation holds more: the tokens of the conversation come on top of the total.\<close>

theorem context_budget_kept:
  fixes env question citations budget complexity
  defines "r \<equiv> packCitationsWithinTokenBudget env question citations budget complexity"
    and "candidates \<equiv> (let d = deduplicateCitationsByEvidenceText (pe_runtime env) citations
                       in if complexity = Focused then take 5 d else d)"
  shows "subseq (cb_kept r) citations \<and>
    distinct (map (evidence_key (pe_runtime env)) (cb_kept r)) \<and>
    (complexity = Focused \<longrightarrow> length (cb_kept r) \<le> 5) \<and>
    cb_totalContextTokens r = totalPromptTokens env question (cb_kept r) \<and>
    (cb_kept r \<noteq> [] \<longrightarrow> int (cb_totalContextTokens r) \<le> budget) \<and>
    (\<forall>c \<in> set candidates. c \<in> set (cb_kept r) \<or>
       (\<exists>p. prefix p (cb_kept r) \<and> budget < int (totalPromptTokens env question (p @ [c])))) \<and>
    message_tokens env (buildPromptMessages env question (cb_kept r) history Focused None) =
      cb_totalContextTokens r + sum_list (map (countTokens env \<circ> ct_content) history)"
proof -
  let ?d = "deduplicateCitationsByEvidenceText (pe_runtime env) citations"
  have facts: "subseq (cb_kept r) candidates"
    "cb_totalContextTokens r = totalPromptTokens env question (cb_kept r)"
    "cb_kept r \<noteq> [] \<longrightarrow> int (cb_totalContextTokens r) \<le> budget"
    "\<forall>c \<in> set candidates. c \<in> set (cb_kept r) \<or>
       (\<exists>p. prefix p (cb_kept r) \<and> budget < int (totalPromptTokens env question (p @ [c])))"
    unfolding r_def candidates_def by (rule pack_facts)+
  have "distinct (map (evidence_key (pe_runtime env)) ?d)"
    using dedup_by_text_spec [of "pe_runtime env" "[]" citations]
    by (simp add: deduplicateCitationsByEvidenceText_def)
  moreover have "subseq (map (evidence_key (pe_runtime env)) (cb_kept r)) (map (evidence_key (pe_runtime env)) ?d)"
    unfolding r_def by (rule subseq_map [OF packed_subseq(1)])
  ultimately have "distinct (map (evidence_key (pe_runtime env)) (cb_kept r))"
    using distinct_subseq by blast
  moreover have "complexity = Focused \<longrightarrow> length (cb_kept r) \<le> 5"
    using list_emb_length [OF facts(1)] by (auto simp: candidates_def Let_def)
  moreover have "message_tokens env (buildPromptMessages env question (cb_kept r) history Focused None) =
      cb_totalContextTokens r + sum_list (map (countTokens env \<circ> ct_content) history)"
    by (simp add: message_tokens_history [of env question "cb_kept r" history] facts(2) totalPromptTokens_def)
  ultimately show ?thesis
    using facts packed_subseq(2) unfolding r_def by blast
qed

definition demo_prompt_env :: prompt_env where
  "demo_prompt_env = \<lparr>buildSystemPrompt = (\<lambda>_. []), countTokens = (\<lambda>_. 1),
     pe_runtime = \<lparr>nfc = id, toLowerCase = id\<rparr>\<rparr>"

lemma demo_tokens [simp]: "countTokens demo_prompt_env s = 1"
  by (simp add: demo_prompt_env_def)

lemma demo_budget_kept:
  "cb_kept (packCitationsWithinTokenBudget demo_prompt_env (asc ''q'') demo_citations 2 Focused) =
     [hd demo_citations]"
proof -
  have "totalPromptTokens demo_prompt_env q cs = 2" for q cs
    by (simp add: totalPromptTokens_def message_tokens_def buildPromptMessages_def
        toLlmHistoryMessages_def demo_prompt_env_def)
  moreover have "deduplicateCitationsByEvidenceText (pe_runtime demo_prompt_env) demo_citations =
      [hd demo_citations]"
    by (simp add: deduplicateCitationsByEvidenceText_def demo_citations_def demo_citation_def Let_def)
  ultimately show ?thesis
    by (simp add: packCitationsWithinTokenBudget_def Let_def MAX_CITATIONS_FOCUSED_def)
qed

theorem context_budget_kept_witness:
  "let r = packCitationsWithinTokenBudget demo_prompt_env (asc ''q'') demo_citations 2 Focused
   in cb_kept r \<noteq> [] \<and> length (cb_kept r) \<le> 5 \<and> int (cb_totalContextTokens r) \<le> 2 \<and>
      message_tokens demo_prompt_env
        (buildPromptMessages demo_prompt_env (asc ''q'') (cb_kept r)
           [\<lparr>ct_role = USER, ct_content = asc ''before''\<rparr>] Focused None) =
      cb_totalContextTokens r + 1"
  using context_budget_kept [where env = demo_prompt_env and question = "asc ''q''" and budget = 2
      and citations = demo_citations and complexity = Focused
      and history = "[\<lparr>ct_role = USER, ct_content = asc ''before''\<rparr>]"]
  by (simp add: Let_def demo_budget_kept)

section \<open>Laws of the issue selection\<close>

lemma rule_categories: "distinct (map fst CATEGORY_RULES)" "Other_Issue \<notin> fst ` set CATEGORY_RULES"
  by (simp_all add: CATEGORY_RULES_def)

lemma first_rule_in: "first_rule_of_tier t h = Some x \<Longrightarrow> x \<in> set CATEGORY_RULES"
  unfolding first_rule_of_tier_def by (metis find_Some_iff nth_mem)

lemma classify_rule:
  "classifyCitationIssue c = (k, t) \<Longrightarrow>
   (\<exists>ms. (k, t, ms) \<in> set CATEGORY_RULES) \<or> k = Other_Issue \<and> t = Neutral"
  by (auto simp: classifyCitationIssue_def Let_def split: option.splits dest: first_rule_in)

lemma classify_tier:
  assumes "classifyCitationIssue c = (category, t)" "classifyCitationIssue d = (category, t')"
  shows "t = t'"
proof (cases "category = Other_Issue")
  case True
  with classify_rule [OF assms(1)] classify_rule [OF assms(2)] rule_categories(2) show ?thesis
    by force
next
  case False
  with classify_rule [OF assms(1)] classify_rule [OF assms(2)] obtain ms ms'
    where "(category, t, ms) \<in> set CATEGORY_RULES" "(category, t', ms') \<in> set CATEGORY_RULES" by blast
  from eq_key_imp_eq_value [OF rule_categories(1) this] show ?thesis by simp
qed

text \<open>What the groups hold once the citations \<open>cs\<close> have gone in.\<close>

definition issues_of :: "citation list \<Rightarrow> (issue_category \<times> issue_group) list \<Rightarrow> bool" where
  "issues_of cs groups \<longleftrightarrow>
     distinct (map fst groups) \<and>
     (\<forall>k. map_of groups k =
        (let own = filter (\<lambda>c. fst (classifyCitationIssue c) = k) cs
         in if own = [] then None
            else Some \<lparr>ig_category = k, ig_tier = snd (classifyCitationIssue (hd own)),
                       ig_citations = own, ig_maxScore = Max (ci_score ` set own)\<rparr>))"

lemma issues_of_put:
  assumes "issues_of cs groups" "classifyCitationIssue c = (category, tier)"
  shows "issues_of (cs @ [c])
     (AList.update category
        (case map_of groups category of
           Some g \<Rightarrow> g\<lparr>ig_citations := ig_citations g @ [c], ig_maxScore := max (ig_maxScore g) (ci_score c)\<rparr>
         | None \<Rightarrow> \<lparr>ig_category = category, ig_tier = tier, ig_citations = [c], ig_maxScore = ci_score c\<rparr>)
        groups)" (is "issues_of _ ?groups")
proof -
  let ?own = "filter (\<lambda>c. fst (classifyCitationIssue c) = category) cs"
  have here: "map_of groups category =
      (if ?own = [] then None
       else Some \<lparr>ig_category = category, ig_tier = snd (classifyCitationIssue (hd ?own)),
                  ig_citations = ?own, ig_maxScore = Max (ci_score ` set ?own)\<rparr>)"
    using assms(1) by (simp add: issues_of_def Let_def)
  have "map_of ?groups k =
      (let own = filter (\<lambda>c. fst (classifyCitationIssue c) = k) (cs @ [c])
       in if own = [] then None
          else Some \<lparr>ig_category = k, ig_tier = snd (classifyCitationIssue (hd own)),
                     ig_citations = own, ig_maxScore = Max (ci_score ` set own)\<rparr>)" for k
  proof (cases "k = category")
    case True
    show ?thesis
    proof (cases "?own = []")
      case True
      then show ?thesis using \<open>k = category\<close> assms(2) here by (simp add: update_conv' Let_def)
    next
      case False
      have fin: "finite (ci_score ` set ?own)" "ci_score ` set ?own \<noteq> {}"
        by (rule finite_imageI, rule finite_set) (metis False image_is_empty set_empty)
      have "Max (insert (ci_score c) (ci_score ` set ?own)) = max (Max (ci_score ` set ?own)) (ci_score c)"
        using Max_insert [OF fin] by (simp add: max.commute)
      with False \<open>k = category\<close> assms(2) here show ?thesis
        by (simp add: update_conv' Let_def)
    qed
  next
    case False
    then show ?thesis
      using assms by (simp add: update_conv' issues_of_def Let_def)
  qed
  with assms(1) show ?thesis by (simp add: issues_of_def distinct_update)
qed

lemma group_issues_spec: "issues_of cs groups \<Longrightarrow> issues_of (cs @ ds) (group_issues ds groups)"
proof (induction ds arbitrary: cs groups)
  case (Cons d ds)
  obtain category tier where d: "classifyCitationIssue d = (category, tier)" by force
  from Cons.IH [OF issues_of_put [OF Cons.prems d]] d show ?case by (simp add: Let_def)
qed simp

lemma groups_issues: "issues_of cs (group_issues cs [])"
  using group_issues_spec [of "[]" "[]" cs] by (simp add: issues_of_def)

lemma groups_complete:
  "g \<in> set (groupCitationsByIssue cs) \<Longrightarrow>
   ig_citations g = filter (\<lambda>c. fst (classifyCitationIssue c) = ig_category g) cs \<and>
   ig_citations g \<noteq> [] \<and> ig_maxScore g = Max (ci_score ` set (ig_citations g)) \<and>
   (\<forall>c \<in> set (ig_citations g). classifyCitationIssue c = (ig_category g, ig_tier g))"
proof -
  assume "g \<in> set (groupCitationsByIssue cs)"
  then obtain k where "(k, g) \<in> set (group_issues cs [])"
    by (auto simp: groupCitationsByIssue_def)
  with groups_issues [of cs] have "map_of (group_issues cs []) k = Some g"
    unfolding issues_of_def by (blast intro: map_of_is_SomeI)
  with groups_issues [of cs] have g: "ig_category g = k"
    "ig_citations g = filter (\<lambda>c. fst (classifyCitationIssue c) = k) cs" "ig_citations g \<noteq> []"
    "ig_maxScore g = Max (ci_score ` set (ig_citations g))"
    "ig_tier g = snd (classifyCitationIssue (hd (ig_citations g)))"
    by (auto simp: issues_of_def Let_def split: if_splits)
  have "classifyCitationIssue c = (k, ig_tier g)" if "c \<in> set (ig_citations g)" for c
  proof -
    have "hd (ig_citations g) \<in> set (ig_citations g)" using g(3) by simp
    with that g(2) have "fst (classifyCitationIssue c) = k" "fst (classifyCitationIssue (hd (ig_citations g))) = k"
      by auto
    then show ?thesis using classify_tier g(5) by (metis prod.collapse)
  qed
  then show ?thesis using g(2-4) unfolding g(1) by blast
qed

lemma filter_by_key:
  "distinct ks \<Longrightarrow>
   mset (concat (map (\<lambda>k. filter (\<lambda>c. f c = k) cs) ks)) = mset (filter (\<lambda>c. f c \<in> set ks) cs)"
proof (induction ks)
  case (Cons k ks)
  then have "k \<notin> set ks" by simp
  then have "mset (filter (\<lambda>c. f c = k) cs) + mset (filter (\<lambda>c. f c \<in> set ks) cs) =
      mset (filter (\<lambda>c. f c \<in> set (k # ks)) cs)"
    by (induction cs) auto
  with Cons show ?case by simp
qed simp

lemma groups_cover: "mset (concat (map ig_citations (groupCitationsByIssue cs))) = mset cs"
proof -
  let ?f = "\<lambda>c. fst (classifyCitationIssue c)" and ?m = "group_issues cs []"
  have m: "distinct (map fst ?m)" and look: "\<And>k. map_of ?m k =
      (let own = filter (\<lambda>c. ?f c = k) cs
       in if own = [] then None
          else Some \<lparr>ig_category = k, ig_tier = snd (classifyCitationIssue (hd own)),
                     ig_citations = own, ig_maxScore = Max (ci_score ` set own)\<rparr>)"
    using groups_issues [of cs] by (simp_all add: issues_of_def)
  have "ig_citations g = filter (\<lambda>c. ?f c = k) cs" if "(k, g) \<in> set ?m" for k g
    using look [of k] map_of_is_SomeI [OF m that] by (auto simp: Let_def split: if_splits)
  then have "map (ig_citations \<circ> snd) ?m = map (\<lambda>k. filter (\<lambda>c. ?f c = k) cs) (map fst ?m)"
    by auto
  moreover have "?f c \<in> set (map fst ?m)" if "c \<in> set cs" for c
  proof -
    have "map_of ?m (?f c) \<noteq> None" using that look [of "?f c"] by (auto simp: Let_def filter_empty_conv)
    then show ?thesis by (simp add: map_of_eq_None_iff)
  qed
  then have "filter (\<lambda>c. ?f c \<in> set (map fst ?m)) cs = cs" by (simp add: filter_id_conv)
  ultimately show ?thesis
    using filter_by_key [OF m, of ?f cs] unfolding groupCitationsByIssue_def map_map by (simp only:)
qed

lemma selected_cover:
  "bs_selectedCitations (selectBroadIssueCandidates question citations) =
     concat (map ig_citations (bs_selectedGroups (selectBroadIssueCandidates question citations)))"
  "set (bs_selectedGroups (selectBroadIssueCandidates question citations)) \<subseteq>
     set (groupCitationsByIssue citations)"
  by (auto simp: selectBroadIssueCandidates_def Let_def dest: in_set_takeD)

lemma selected_subset:
  "set (bs_selectedCitations (selectBroadIssueCandidates question citations)) \<subseteq> set citations"
proof -
  have "set (ig_citations g) \<subseteq> set citations" if "g \<in> set (groupCitationsByIssue citations)" for g
    using groups_complete [OF that] by (metis filter_is_subset)
  with selected_cover [of question citations] show ?thesis by auto
qed

text \<open>The issues a broad question is answered from. Each selected group holds all the citations
  of its category and only these; the citations passed on are citations of the context, each as often as there. Unless the
  question asks for everything at most eight groups are selected, four by default, and none left out
  has a higher tier, or the same tier and a higher best score; when it asks for everything nothing is left out.\<close>

theorem broad_issues_selected:
  fixes question citations
  defines "r \<equiv> selectBroadIssueCandidates question citations"
  shows "(\<forall>g \<in> set (bs_selectedGroups r).
       ig_citations g = filter (\<lambda>c. fst (classifyCitationIssue c) = ig_category g) citations) \<and>
    mset (bs_selectedCitations r) \<subseteq># mset citations \<and>
    (if bs_exhaustive r then mset (bs_selectedCitations r) = mset citations
     else length (bs_selectedGroups r) \<le>
       (case parseExplicitRequestedIssueCount question of Some n \<Rightarrow> n | None \<Rightarrow> 4) \<and>
       length (bs_selectedGroups r) \<le> 8) \<and>
    (\<forall>g \<in> set (bs_selectedGroups r). \<forall>h \<in> set (bs_allGroups r) - set (bs_selectedGroups r).
       TIER_RANK (ig_tier h) < TIER_RANK (ig_tier g) \<or>
       TIER_RANK (ig_tier h) = TIER_RANK (ig_tier g) \<and> ig_maxScore h \<le> ig_maxScore g)"
proof -
  define ranked where "ranked = sort_key rank_key (groupCitationsByIssue citations)"
  define n where "n = (if bs_exhaustive r then length ranked
    else case parseExplicitRequestedIssueCount question of Some n \<Rightarrow> n | None \<Rightarrow> 4)"
  have r: "bs_selectedGroups r = take n ranked" "bs_allGroups r = groupCitationsByIssue citations"
    "bs_selectedCitations r = concat (map ig_citations (take n ranked))"
    by (auto simp: r_def n_def ranked_def selectBroadIssueCandidates_def Let_def
        DEFAULT_MAX_ISSUE_GROUPS_def split: option.splits)
  have all: "mset (concat (map ig_citations ranked)) = mset citations"
  proof -
    have "mset (map ig_citations ranked) = mset (map ig_citations (groupCitationsByIssue citations))"
      by (simp add: ranked_def)
    then have "mset (concat (map ig_citations ranked)) =
        mset (concat (map ig_citations (groupCitationsByIssue citations)))"
      by (metis mset_concat mset_map sum_mset_sum_list)
    then show ?thesis by (simp add: groups_cover)
  qed
  have split: "concat (map ig_citations ranked) =
      concat (map ig_citations (take n ranked)) @ concat (map ig_citations (drop n ranked))"
    by (metis append_take_drop_id concat_append map_append)
  have requested: "(case parseExplicitRequestedIssueCount question of Some n \<Rightarrow> n | None \<Rightarrow> 4) \<le> 8"
    by (auto simp: parseExplicitRequestedIssueCount_def MAX_SAFE_REQUESTED_ISSUE_GROUPS_def
        split: option.splits)
  have "sorted (map rank_key ranked)" by (simp add: ranked_def)
  then have "sorted (map rank_key (take n ranked) @ map rank_key (drop n ranked))"
    by (metis append_take_drop_id map_append)
  then have ordered: "rank_key g \<le> rank_key h" if "g \<in> set (take n ranked)" "h \<in> set (drop n ranked)" for g h
    using that unfolding sorted_append by simp
  show ?thesis
  proof (intro conjI ballI)
    fix g assume "g \<in> set (bs_selectedGroups r)"
    then have "g \<in> set (groupCitationsByIssue citations)"
      using r(1) by (auto simp: ranked_def dest: in_set_takeD)
    then show "ig_citations g = filter (\<lambda>c. fst (classifyCitationIssue c) = ig_category g) citations"
      using groups_complete by blast
  next
    show "mset (bs_selectedCitations r) \<subseteq># mset citations"
      using all split by (simp add: r(3) flip: all)
  next
    show "if bs_exhaustive r then mset (bs_selectedCitations r) = mset citations
     else length (bs_selectedGroups r) \<le>
       (case parseExplicitRequestedIssueCount question of Some n \<Rightarrow> n | None \<Rightarrow> 4) \<and>
       length (bs_selectedGroups r) \<le> 8"
      using requested all by (auto simp: r n_def)
  next
    fix g h
    assume g: "g \<in> set (bs_selectedGroups r)" and h: "h \<in> set (bs_allGroups r) - set (bs_selectedGroups r)"
    then have "h \<in> set ranked" by (simp add: r(2) ranked_def)
    with h have "h \<in> set (drop n ranked)"
      by (metis DiffD2 Un_iff append_take_drop_id r(1) set_append)
    with g have "rank_key g \<le> rank_key h" by (simp add: r(1) ordered)
    then show "TIER_RANK (ig_tier h) < TIER_RANK (ig_tier g) \<or>
       TIER_RANK (ig_tier h) = TIER_RANK (ig_tier g) \<and> ig_maxScore h \<le> ig_maxScore g"
      by (auto simp: rank_key_def less_eq_prod_def)
  qed
qed

definition demo_issues :: "citation list" where
  "demo_issues =
     [(demo_citation (ClauseEvidence ''c'') (asc ''1'') (9 / 10))\<lparr>ci_evidenceText :=
       [48708, 48128]\<rparr>,
      (demo_citation (ClauseEvidence ''d'') (asc ''2'') (1 / 2))\<lparr>ci_evidenceText := [54644,
        51648]\<rparr>]"

definition demo_broad_question :: jstring where
  "demo_broad_question = [49, 44060]"

lemmas match_eval =
  test_match_def m_lit_def m_some_def m_alt_def rule_matches_def first_rule_of_tier_def
  not_line_end_def is_digit_unit_def is_js_space_def

lemma demo_issue_classes:
  "map classifyCitationIssue demo_issues =
     [(Boilerplate_Confidentiality, Boilerplate), (Termination_Penalty, Material)]"
  by (simp add: demo_issues_def classifyCitationIssue_def demo_citation_def asc_def CATEGORY_RULES_def match_eval)

lemma demo_broad_groups:
  "map ig_category (bs_selectedGroups (selectBroadIssueCandidates demo_broad_question demo_issues)) =
     [Termination_Penalty]"
proof -
  have "\<not> isExhaustiveReviewRequest demo_broad_question"
    by (simp add: isExhaustiveReviewRequest_def demo_broad_question_def match_eval)
  moreover have "parseExplicitRequestedIssueCount demo_broad_question = Some 1"
    by (simp add: parseExplicitRequestedIssueCount_def demo_broad_question_def index_of_piece_def
        units_value_def is_digit_unit_def js_trim_start_def is_js_space_def Let_def
        MAX_SAFE_REQUESTED_ISSUE_GROUPS_def)
  moreover have "groupCitationsByIssue demo_issues =
      [\<lparr>ig_category = Boilerplate_Confidentiality, ig_tier = Boilerplate,
        ig_citations = [demo_issues ! 0], ig_maxScore = 9 / 10\<rparr>,
       \<lparr>ig_category = Termination_Penalty, ig_tier = Material,
        ig_citations = [demo_issues ! 1], ig_maxScore = 1 / 2\<rparr>]"
    using demo_issue_classes
    by (simp add: groupCitationsByIssue_def demo_issues_def) (simp add: demo_citation_def)
  ultimately show ?thesis
    by (simp add: selectBroadIssueCandidates_def rank_key_def Let_def less_eq_prod_def)
qed

theorem broad_issues_selected_witness:
  "let r = selectBroadIssueCandidates demo_broad_question demo_issues
   in map ig_category (bs_selectedGroups r) = [Termination_Penalty] \<and>
      mset (bs_selectedCitations r) \<subseteq># mset demo_issues"
  using broad_issues_selected [where question = demo_broad_question and citations = demo_issues]
  by (simp add: Let_def demo_broad_groups)

end
