(* ===== verification/AskQuestion.thy ===== *)
theory AskQuestion
  imports Resilience Budget Prompt
begin

text \<open>
  Answering a question (\<^verbatim>\<open>features/ai/server/ask-question.ts\<close>): the complete answer of
  \<open>askQuestion\<close> and the stream of \<open>askQuestionStreaming\<close>, from the citations retrieved to the answer
  delivered, with the prompt cache, the set of keys being streamed, the budget reservation and the
  usage log. The generator is a function of how many events its consumer takes: a consumer that
  leaves (the route's \<open>break\<close> when the client disconnects) runs the \<open>finally\<close> blocks and no
  \<open>catch\<close>. The provider is the \<open>llm_provider\<close> of \<^verbatim>\<open>Resilience\<close>, possibly the fallback provider; the
  retrieved citations, the routing decision and the hash of the cache keys are arguments. The run
  happens at one instant; metrics and logs are left out.
\<close>

section \<open>State\<close>

datatype ask_error =
  QuestionTooLong
  | AiBudgetExceeded
  | BudgetAmountUnsafe
  | Grounding grounding_error
  | Llm raw_error

datatype ask_error_code =
  AI_GROUNDING_FAILED | AI_INTERNAL_ERROR | Provider_Code provider_error_code

text \<open>\<open>classifyAiStreamError\<close> of \<^verbatim>\<open>domain/ai/ai-stream-error.ts\<close>, and \<open>normalizeProviderError\<close> in the
  complete answer.\<close>

fun classifyAiStreamError :: "ask_error \<Rightarrow> ask_error_code" where
  "classifyAiStreamError (Grounding _) = AI_GROUNDING_FAILED"
| "classifyAiStreamError (Llm (Thrown_ProviderError e)) = Provider_Code (errorCode e)"
| "classifyAiStreamError (Llm (Thrown_Error name msg)) =
     (if name = ''AbortError'' then Provider_Code PROVIDER_ABORTED
      else if mentions_timeout msg then Provider_Code PROVIDER_TIMEOUT
      else AI_INTERNAL_ERROR)"
| "classifyAiStreamError _ = AI_INTERNAL_ERROR"

record ask_usage =
  ua_provider :: string
  ua_model :: string
  ua_success :: bool
  ua_errorCode :: "ask_error_code option"
  ua_tokens :: "(nat \<times> nat) option"
  ua_estimatedCostMinor :: "nat option"
  ua_fallbackUsed :: bool

record 's ai_state =
  st_counters :: 's
  st_cache :: "string \<rightharpoonup> jstring"
  st_streaming :: "string list"
  st_usage :: "ask_usage list"

record ask_env =
  aq_organizationId :: string
  aq_guard :: guard_config
  aq_prompt :: prompt_env
  aq_contextTokens :: int
  aq_limits :: ai_limits
  aq_now :: utc_instant
  aq_pricing :: "string \<rightharpoonup> model_pricing"
  aq_maxOutputTokens :: nat
  aq_hash :: "jstring \<Rightarrow> string"
  aq_llm :: llm_provider
  aq_effectiveProvider :: string
  aq_canaryUsed :: bool

definition message_key :: "llm_message \<Rightarrow> jstring" where
  "message_key m =
     (case lm_role m of System_Role \<Rightarrow> asc ''system'' | User_Role \<Rightarrow> asc ''user''
      | Assistant_Role \<Rightarrow> asc ''assistant'') @ asc '':'' @ lm_content m"

definition PROMPT_TEMPLATE_VERSION :: string where
  "PROMPT_TEMPLATE_VERSION = ''v8''"

definition CITATION_VALIDATOR_VERSION :: string where
  "CITATION_VALIDATOR_VERSION = ''v3''"

definition buildPromptCacheKey :: "ask_env \<Rightarrow> llm_message list \<Rightarrow> string" where
  "buildPromptCacheKey cfg messages =
     ''prompt:'' @ aq_organizationId cfg @ '':'' @ llm_name (aq_llm cfg) @ '':'' @ llm_model (aq_llm cfg) @
     '':p'' @ PROMPT_TEMPLATE_VERSION @ '':c'' @ CITATION_VALIDATOR_VERSION @ '':'' @
     aq_hash cfg (join_text ([10] @ asc ''---'' @ [10]) (map message_key messages))"

text \<open>\<open>Math.ceil(n / 4)\<close>\<close>

definition quarter_up :: "nat \<Rightarrow> nat" where
  "quarter_up n = (n + 3) div 4"

definition prompt_text :: "llm_message list \<Rightarrow> jstring" where
  "prompt_text messages = join_with 10 (map lm_content messages)"

definition ask_cost :: "ask_env \<Rightarrow> string \<Rightarrow> string \<Rightarrow> nat \<Rightarrow> nat \<Rightarrow> nat option" where
  "ask_cost cfg provider model inputTokens outputTokens =
     estimateAiCostMinor (aq_pricing cfg) provider model inputTokens outputTokens 0"

definition cost_or_0 :: "nat option \<Rightarrow> nat" where
  "cost_or_0 c = (case c of Some n \<Rightarrow> n | None \<Rightarrow> 0)"

definition worst_case_cost :: "ask_env \<Rightarrow> llm_message list \<Rightarrow> nat" where
  "worst_case_cost cfg messages =
     cost_or_0 (ask_cost cfg (aq_effectiveProvider cfg) (llm_model (aq_llm cfg))
       (quarter_up (length (prompt_text messages))) (aq_maxOutputTokens cfg))"

definition reserveLlmBudget ::
  "'s counter_ops \<Rightarrow> ask_env \<Rightarrow> llm_message list \<Rightarrow> 's \<Rightarrow> reserve_outcome \<times> 's" where
  "reserveLlmBudget ops cfg messages s =
     reserveAiBudget ops (aq_now cfg) (aq_organizationId cfg) (aq_limits cfg)
       (worst_case_cost cfg messages) s"

section \<open>What is asked\<close>

text \<open>The part the two entry points share: the guard, the citations that fit, the selection for a
  broad question, the messages. \<open>None\<close> when the evidence does not suffice.\<close>

record ask_plan =
  pl_context :: "citation list"
  pl_synthesis :: "citation list"
  pl_messages :: "llm_message list"

definition plan_question ::
  "ask_env \<Rightarrow> jstring \<Rightarrow> conversation_turn list \<Rightarrow> citation list \<Rightarrow> ask_plan option" where
  "plan_question cfg question history citations =
     (let complexity = classifyQuestionComplexity question;
          (sufficient, strong) = checkEvidenceSufficiency (aq_guard cfg) citations complexity
      in if \<not> sufficient then None
         else
           let context = cb_kept (packCitationsWithinTokenBudget (aq_prompt cfg) question strong
                           (aq_contextTokens cfg) complexity);
               broad = (if complexity = Comprehensive
                        then Some (selectBroadIssueCandidates question context) else None);
               synthesis = (case broad of Some b \<Rightarrow> bs_selectedCitations b | None \<Rightarrow> context);
               issueGroups = (case broad of
                                Some b \<Rightarrow> if bs_exhaustive b then None else Some (bs_selectedGroups b)
                              | None \<Rightarrow> None)
           in Some \<lparr>pl_context = context, pl_synthesis = synthesis,
                    pl_messages = buildPromptMessages (aq_prompt cfg) question synthesis history
                                    complexity issueGroups\<rparr>)"

section \<open>The complete answer\<close>

definition UNKNOWN_ANSWER_TEXT :: jstring where
  "UNKNOWN_ANSWER_TEXT =
     [51396, 49569, 54633, 45768, 45796, 46, 32, 51228, 44277, 46108, 32, 44228, 50557, 32, 51088,
       47308, 50640, 49436, 32, 51060, 32, 51656, 47928, 50640, 32, 45824, 54620, 32, 44540,
       44144, 47484, 32, 52649, 48516, 55176, 32, 52286, 51648, 32, 47803, 54664, 49845, 45768,
       45796, 46, 32] @
     [51656, 47928, 51012, 32, 51312, 44552, 32, 45908, 32, 44396, 52404, 51201, 51004, 47196, 32,
       45796, 49884, 32, 54364, 54788, 54644, 32, 48372, 49884, 44144, 45208, 44, 32, 44288,
       47144, 32, 44228, 50557, 51012, 32, 51649, 51217, 32, 54869, 51064, 54644, 32, 51452,
       49464, 50836, 46]"

record ask_result =
  ar_answerText :: jstring
  ar_citations :: "citation list"
  ar_sufficient :: bool

definition log_usage :: "ask_usage \<Rightarrow> 's ai_state \<Rightarrow> 's ai_state" where
  "log_usage u s = s\<lparr>st_usage := st_usage s @ [u]\<rparr>"

definition failed_call :: "llm_provider \<Rightarrow> ask_error_code \<Rightarrow> ask_usage" where
  "failed_call llm code = \<lparr>ua_provider = llm_name llm, ua_model = llm_model llm, ua_success = False,
     ua_errorCode = Some code, ua_tokens = None, ua_estimatedCostMinor = None, ua_fallbackUsed = False\<rparr>"

definition served_call ::
  "ask_env \<Rightarrow> (string \<times> string) option \<Rightarrow> nat \<times> nat \<Rightarrow> ask_usage" where
  "served_call cfg served tokens =
     (let (provider, model) = (case served of Some s \<Rightarrow> s
                               | None \<Rightarrow> (llm_name (aq_llm cfg), llm_model (aq_llm cfg)))
      in \<lparr>ua_provider = provider, ua_model = model, ua_success = True, ua_errorCode = None,
          ua_tokens = Some tokens,
          ua_estimatedCostMinor = ask_cost cfg provider model (fst tokens) (snd tokens),
          ua_fallbackUsed = served \<noteq> None\<rparr>)"

definition computeAnswer ::
  "ask_env \<Rightarrow> string \<Rightarrow> 's ai_state \<Rightarrow> (ask_error + jstring) \<times> 's ai_state" where
  "computeAnswer cfg cacheKey s =
     (case llm_completion (aq_llm cfg) of
        Inl rawError \<Rightarrow>
          (let e = normalizeProviderError rawError (llm_name (aq_llm cfg))
           in (Inl (Llm (Thrown_ProviderError e)),
               log_usage (failed_call (aq_llm cfg) (Provider_Code (errorCode e))) s))
      | Inr r \<Rightarrow>
          (Inr (completion_text r),
           log_usage (served_call cfg (servedBy r) (promptTokens r, completionTokens r)) s
             \<lparr>st_cache := (st_cache s)(cacheKey \<mapsto> completion_text r)\<rparr>))"

definition askQuestion ::
  "ask_env \<Rightarrow> jstring \<Rightarrow> conversation_turn list \<Rightarrow> citation list \<Rightarrow> 's ai_state \<Rightarrow>
   (ask_error + ask_result) \<times> 's ai_state" where
  "askQuestion cfg question history citations s =
     (if \<not> assertQuestionWithinBudget question then (Inl QuestionTooLong, s)
      else case plan_question cfg question history citations of
        None \<Rightarrow> (Inr \<lparr>ar_answerText = UNKNOWN_ANSWER_TEXT, ar_citations = [], ar_sufficient = False\<rparr>, s)
      | Some plan \<Rightarrow>
          (let cacheKey = buildPromptCacheKey cfg (pl_messages plan);
               (answer, s') = (case st_cache s cacheKey of
                                 Some cached \<Rightarrow> (Inr cached, s)
                               | None \<Rightarrow> computeAnswer cfg cacheKey s)
           in case answer of
                Inl e \<Rightarrow> (Inl e, s')
              | Inr answerText \<Rightarrow>
                  (case assertAnswerGrounded answerText (pl_synthesis plan) of
                     Inl e \<Rightarrow> (Inl (Grounding e), s')
                   | Inr grounded \<Rightarrow>
                       (Inr \<lparr>ar_answerText = grounded,
                             ar_citations = filterCitationsToAnswerUsed grounded (pl_synthesis plan),
                             ar_sufficient = True\<rparr>, s'))))"

section \<open>The stream\<close>

record stream_run =
  sn_buffer :: jstring
  sn_fullText :: jstring
  sn_grounded :: jstring
  sn_chunks :: "jstring list"
  sn_usage :: "(nat \<times> nat) option"
  sn_served :: "(string \<times> string) option"
  sn_patience :: "nat option"

datatype stream_end = Going | Rejected grounding_error | Abandoned | Broken raw_error

text \<open>An event is handed over; \<open>None\<close> when the consumer does not come back for the next.\<close>

fun resume :: "nat option \<Rightarrow> nat option option" where
  "resume None = Some None"
| "resume (Some 0) = None"
| "resume (Some (Suc n)) = Some (Some n)"

definition deliver ::
  "citation list \<Rightarrow> jstring \<Rightarrow> jstring \<Rightarrow> stream_run \<Rightarrow> stream_end \<times> stream_run" where
  "deliver citations rawParagraph separator st =
     (let block = parseAnswerBlock rawParagraph
      in case assertAnswerBlockGrounded block citations of
           Some e \<Rightarrow> (Rejected e, st)
         | None \<Rightarrow>
             let st1 = st\<lparr>sn_grounded := sn_grounded st @
                            (if length (sn_grounded st) > 0 then [10, 10] else []) @ ab_text block,
                          sn_chunks := sn_chunks st @ [ab_text block @ separator]\<rparr>
             in (case resume (sn_patience st1) of
                   None \<Rightarrow> (Abandoned, st1)
                 | Some p \<Rightarrow> (Going, st1\<lparr>sn_patience := p\<rparr>)))"

lemma deliver_buffer: "deliver cs raw sep st = (r, st') \<Longrightarrow> sn_buffer st' = sn_buffer st"
  by (auto simp: deliver_def Let_def split: option.splits)

function drain :: "citation list \<Rightarrow> stream_run \<Rightarrow> stream_end \<times> stream_run" where
  "drain citations st =
     (case cut_blank (sn_buffer st) of
        (_, None) \<Rightarrow> (Going, st)
      | (paragraph, Some rest) \<Rightarrow>
          let st1 = st\<lparr>sn_buffer := rest\<rparr>; rawParagraph = js_trim paragraph
          in if rawParagraph = [] then drain citations st1
             else let (r, st2) = deliver citations rawParagraph [10, 10] st1
                  in if r = Going then drain citations st2 else (r, st2))"
  by pat_completeness auto

termination
  by (relation "measure (length \<circ> sn_buffer \<circ> snd)")
    (auto dest!: cut_blank_shorter [OF sym] deliver_buffer [OF sym])

declare drain.simps [simp del]

fun on_event :: "citation list \<Rightarrow> ai_stream_event \<Rightarrow> stream_run \<Rightarrow> stream_end \<times> stream_run" where
  "on_event citations (TextDelta t) st =
     drain citations (st\<lparr>sn_buffer := sn_buffer st @ t, sn_fullText := sn_fullText st @ t\<rparr>)"
| "on_event citations (Usage i out) st = (Going, st\<lparr>sn_usage := Some (i, out)\<rparr>)"
| "on_event citations (ProviderRequestId _) st = (Going, st)"
| "on_event citations (Done _ served) st = (Going, st\<lparr>sn_served := served\<rparr>)"

fun run_events ::
  "citation list \<Rightarrow> ai_stream_event list \<Rightarrow> stream_run \<Rightarrow> stream_end \<times> stream_run" where
  "run_events citations [] st = (Going, st)"
| "run_events citations (ev # evs) st =
     (let (r, st') = on_event citations ev st
      in if r = Going then run_events citations evs st' else (r, st'))"

definition run_stream ::
  "citation list \<Rightarrow> ai_stream_event list \<times> raw_error option \<Rightarrow> stream_run \<Rightarrow> stream_end \<times> stream_run" where
  "run_stream citations stream st =
     (let (r, st1) = run_events citations (fst stream) st
      in if r \<noteq> Going then (r, st1)
         else case snd stream of
                Some e \<Rightarrow> (Broken e, st1)
              | None \<Rightarrow>
                  let trailingRaw = js_trim (sn_buffer st1)
                  in if trailingRaw \<noteq> [] then deliver citations trailingRaw [] st1 else (Going, st1))"

definition stream_start :: "nat option \<Rightarrow> stream_run" where
  "stream_start p = \<lparr>sn_buffer = [], sn_fullText = [], sn_grounded = [], sn_chunks = [],
     sn_usage = None, sn_served = None, sn_patience = p\<rparr>"

datatype answer_event =
  Citations_Event "citation list"
  | Chunk_Event jstring
  | Done_Event jstring "citation list" "bool option"

datatype answer_end = Completed | Threw ask_error | Left

text \<open>Handing over events whose texts are known: stops where the consumer leaves.\<close>

fun hand_over :: "answer_event list \<Rightarrow> nat option \<Rightarrow> answer_event list \<times> bool" where
  "hand_over [] p = ([], True)"
| "hand_over (ev # evs) p =
     (case resume p of
        None \<Rightarrow> ([ev], False)
      | Some p' \<Rightarrow> let (given, stayed) = hand_over evs p' in (ev # given, stayed))"

definition give_all ::
  "answer_event list \<Rightarrow> nat option \<Rightarrow> 's ai_state \<Rightarrow> (answer_event list \<times> answer_end) \<times> 's ai_state" where
  "give_all evs p s = (let (given, stayed) = hand_over evs p
                       in ((given, if stayed then Completed else Left), s))"

definition serve_cached ::
  "ask_env \<Rightarrow> citation list \<Rightarrow> jstring \<Rightarrow> nat option \<Rightarrow> 's ai_state \<Rightarrow>
   (answer_event list \<times> answer_end) \<times> 's ai_state" where
  "serve_cached cfg citations cached p s =
     (case assertAnswerGrounded cached citations of
        Inl e \<Rightarrow> (([], Threw (Grounding e)), s)
      | Inr grounded \<Rightarrow>
          give_all [Chunk_Event grounded,
                    Done_Event grounded (filterCitationsToAnswerUsed grounded citations)
                      (Some (aq_canaryUsed cfg))] p s)"

text \<open>The end of the stream: \<open>activeStreamingKeys.delete\<close> runs however it ends; the \<open>catch\<close> releases the
  reservation and logs the failure; nothing of either happens when the consumer left.\<close>

definition stream_call :: "ask_env \<Rightarrow> ask_plan \<Rightarrow> stream_run \<Rightarrow> ask_usage" where
  "stream_call cfg plan st = served_call cfg (sn_served st)
     (case sn_usage st of Some u \<Rightarrow> u
      | None \<Rightarrow> (quarter_up (length (prompt_text (pl_messages plan))),
                 quarter_up (length (sn_fullText st))))"

definition finish_stream ::
  "'s counter_ops \<Rightarrow> ask_env \<Rightarrow> ask_plan \<Rightarrow> string \<Rightarrow> ai_reservation \<Rightarrow> stream_end \<times> stream_run \<Rightarrow>
   's ai_state \<Rightarrow> (answer_event list \<times> answer_end) \<times> 's ai_state" where
  "finish_stream ops cfg plan cacheKey reservation outcome s0 =
     (let (r, st) = outcome;
          s = s0\<lparr>st_streaming := filter (\<lambda>k. k \<noteq> cacheKey) (st_streaming s0)\<rparr>;
          now = at_ms (aq_now cfg);
          fail = (\<lambda>e. ((map Chunk_Event (sn_chunks st), Threw e),
                   log_usage (failed_call (aq_llm cfg) (classifyAiStreamError e))
                     (s\<lparr>st_counters := releaseAiBudget ops now reservation (st_counters s)\<rparr>)))
      in case r of
           Abandoned \<Rightarrow> ((map Chunk_Event (sn_chunks st), Left), s)
         | Rejected e \<Rightarrow> fail (Grounding e)
         | Broken e \<Rightarrow> fail (Llm e)
         | Going \<Rightarrow>
             (let call = stream_call cfg plan st
              in case settleAiBudget ops now reservation (ua_estimatedCostMinor call) (st_counters s) of
                   None \<Rightarrow> ((map Chunk_Event (sn_chunks st), Threw BudgetAmountUnsafe), s)
                 | Some counters \<Rightarrow>
                     let s' = log_usage call
                                (s\<lparr>st_counters := counters,
                                   st_cache := (st_cache s)(cacheKey \<mapsto> sn_fullText st)\<rparr>);
                         (given, stayed) = hand_over
                           [Done_Event (sn_grounded st)
                              (filterCitationsToAnswerUsed (sn_grounded st) (pl_synthesis plan))
                              (Some (aq_canaryUsed cfg))] (sn_patience st)
                     in ((map Chunk_Event (sn_chunks st) @ given, if stayed then Completed else Left), s')))"

definition stream_answer ::
  "'s counter_ops \<Rightarrow> ask_env \<Rightarrow> ask_plan \<Rightarrow> (string \<rightharpoonup> jstring) \<Rightarrow> nat option \<Rightarrow> 's ai_state \<Rightarrow>
   (answer_event list \<times> answer_end) \<times> 's ai_state" where
  "stream_answer ops cfg plan laterCache p s =
     (let cacheKey = buildPromptCacheKey cfg (pl_messages plan)
      in case st_cache s cacheKey of
           Some cached \<Rightarrow> serve_cached cfg (pl_synthesis plan) cached p s
         | None \<Rightarrow>
             (case (if cacheKey \<in> set (st_streaming s) then laterCache cacheKey else None) of
                Some joined \<Rightarrow> serve_cached cfg (pl_synthesis plan) joined p s
              | None \<Rightarrow>
                  (case reserveLlmBudget ops cfg (pl_messages plan) (st_counters s) of
                     (BudgetRejected, counters) \<Rightarrow>
                       (([], Threw AiBudgetExceeded), s\<lparr>st_counters := counters\<rparr>)
                   | (UnsafeAmount, counters) \<Rightarrow>
                       (([], Threw BudgetAmountUnsafe), s\<lparr>st_counters := counters\<rparr>)
                   | (Reserved reservation, counters) \<Rightarrow>
                       finish_stream ops cfg plan cacheKey reservation
                         (run_stream (pl_synthesis plan) (llm_stream (aq_llm cfg)) (stream_start p))
                         (s\<lparr>st_counters := counters,
                            st_streaming := List.insert cacheKey (st_streaming s)\<rparr>))))"

text \<open>\<open>laterCache\<close> is what the prompt cache holds when waiting for another stream of the same prompt
  ends.\<close>

definition askQuestionStreaming ::
  "'s counter_ops \<Rightarrow> ask_env \<Rightarrow> jstring \<Rightarrow> conversation_turn list \<Rightarrow> citation list \<Rightarrow>
   (string \<rightharpoonup> jstring) \<Rightarrow> nat option \<Rightarrow> 's ai_state \<Rightarrow>
   (answer_event list \<times> answer_end) \<times> 's ai_state" where
  "askQuestionStreaming ops cfg question history citations laterCache p s =
     (if \<not> assertQuestionWithinBudget question then (([], Threw QuestionTooLong), s)
      else case plan_question cfg question history citations of
        None \<Rightarrow> give_all [Citations_Event [], Chunk_Event UNKNOWN_ANSWER_TEXT,
                          Done_Event UNKNOWN_ANSWER_TEXT [] None] p s
      | Some plan \<Rightarrow>
          (case resume p of
             None \<Rightarrow> (([Citations_Event (pl_context plan)], Left), s)
           | Some p' \<Rightarrow>
               (let ((evs, e), s') = stream_answer ops cfg plan laterCache p' s
                in ((Citations_Event (pl_context plan) # evs, e), s'))))"

section \<open>The stream accepts what the whole answer would\<close>

text \<open>The pieces between blank lines as the stream cuts them, at each \<open>"\n\n"\<close>.\<close>

function cuts :: "jstring \<Rightarrow> jstring list" where
  "cuts s = (case cut_blank s of (p, None) \<Rightarrow> [p] | (p, Some r) \<Rightarrow> p # cuts r)"
  by pat_completeness auto

termination
  by (relation "measure length") (auto dest: cut_blank_shorter [OF sym])

declare cuts.simps [simp del]

lemma cuts_last: "cut_blank s = (p, None) \<Longrightarrow> cuts s = [p]"
  by (simp add: cuts.simps [of s])

lemma cuts_next: "cut_blank s = (p, Some r) \<Longrightarrow> cuts s = p # cuts r"
  by (simp add: cuts.simps [of s])

lemma cuts_not_Nil [simp]: "cuts s \<noteq> []"
  by (cases "cut_blank s"; cases "snd (cut_blank s)") (auto simp: cuts_last cuts_next)

lemma cut_blank_None: "cut_blank s = (p, None) \<Longrightarrow> p = s"
  by (induction s arbitrary: p rule: cut_blank.induct) (auto split: if_splits prod.splits)

lemma cut_blank_append: "cut_blank s = (p, Some r) \<Longrightarrow> cut_blank (s @ d) = (p, Some (r @ d))"
  by (induction s arbitrary: p r rule: cut_blank.induct) (auto split: if_splits prod.splits)

lemma cuts_append: "cuts (s @ d) = butlast (cuts s) @ cuts (last (cuts s) @ d)"
proof (induction s rule: cuts.induct)
  case (1 s)
  obtain p r where c: "cut_blank s = (p, r)" by force
  show ?case
  proof (cases r)
    case None
    with c cut_blank_None [of s p] show ?thesis by (simp add: cuts_last)
  next
    case (Some r')
    with c 1 [OF c [symmetric] Some] show ?thesis
      by (simp add: cuts_next [OF cut_blank_append] cuts_next)
  qed
qed

lemma js_trim_newline: "js_trim (10 # s) = js_trim s"
  by (simp add: js_trim_def js_trim_start_def is_js_space_def)

lemma non_blank_simps [simp]:
  "non_blank [] = []" "non_blank (p # ps) = (if js_trim p = [] then [] else [js_trim p]) @ non_blank ps"
  "non_blank (ps @ qs) = non_blank ps @ non_blank qs"
  by (simp_all add: non_blank_def)

lemma non_blank_newline: "non_blank (cuts (10 # t)) = non_blank (cuts t)"
proof (induction "length t" arbitrary: t rule: less_induct)
  case less
  consider "t = []" | u where "t = 10 # u" | c u where "t = c # u" "c \<noteq> 10"
    by (cases t) auto
  then show ?case
  proof cases
    case 1
    then show ?thesis
      by (simp add: cuts_last js_trim_newline)
  next
    case (2 u)
    then have "cuts (10 # t) = [] # cuts u" by (simp add: cuts_next)
    with 2 less [of u] show ?thesis by (simp add: js_trim_Nil)
  next
    case (3 c u)
    obtain p r where "cut_blank t = (p, r)" by force
    with 3 show ?thesis
      by (cases r) (simp_all add: cuts_last cuts_next js_trim_newline)
  qed
qed

lemma non_blank_newlines: "non_blank (cuts (dropWhile (\<lambda>c. c = 10) r)) = non_blank (cuts r)"
  by (induction r) (auto simp: non_blank_newline)

lemma non_blank_cuts: "non_blank (cuts s) = paragraphs_of s"
proof (induction "length s" arbitrary: s rule: less_induct)
  case less
  obtain p r where c: "cut_blank s = (p, r)" by force
  show ?case
  proof (cases r)
    case None
    with c show ?thesis by (simp add: paragraphs_of_def cuts_last split_blank_last)
  next
    case (Some r')
    let ?d = "dropWhile (\<lambda>c. c = 10) r'"
    have "length ?d < length s"
      using cut_blank_shorter [of s p r'] c Some length_dropWhile_le [of "\<lambda>c. c = 10" r'] by simp
    from less [OF this] c Some show ?thesis
      by (simp add: paragraphs_of_def cuts_next split_blank_next non_blank_newlines)
  qed
qed

lemma cuts_split: "non_blank (cuts s) = non_blank (butlast (cuts s)) @ non_blank [last (cuts s)]"
  by (metis append_butlast_last_id cuts_not_Nil non_blank_simps(3))

lemma ground_append:
  "ground_paragraphs (xs @ ys) cs =
     (case ground_paragraphs xs cs of
        Inl e \<Rightarrow> Inl e
      | Inr ts \<Rightarrow> (case ground_paragraphs ys cs of Inl e \<Rightarrow> Inl e | Inr us \<Rightarrow> Inr (ts @ us)))"
  by (induction xs) (auto simp: Let_def split: option.splits sum.splits)

text \<open>The answer text a stream builds up.\<close>

definition add_text :: "jstring \<Rightarrow> jstring \<Rightarrow> jstring" where
  "add_text g t = g @ (if length g > 0 then [10, 10] else []) @ t"

definition fed :: "citation list \<Rightarrow> jstring \<Rightarrow> stream_run \<Rightarrow> bool" where
  "fed cs T st \<longleftrightarrow> sn_patience st = None \<and> sn_fullText st = T \<and> sn_buffer st = last (cuts T) \<and>
     (\<exists>ts. ground_paragraphs (non_blank (butlast (cuts T))) cs = Inr ts \<and>
           sn_grounded st = foldl add_text [] ts)"

lemma deliver_patient:
  assumes "sn_patience st = None"
  shows "deliver cs raw sep st =
    (case ground_paragraphs [raw] cs of
       Inl e \<Rightarrow> (Rejected e, st)
     | Inr ts \<Rightarrow> (Going, st\<lparr>sn_grounded := foldl add_text (sn_grounded st) ts,
                           sn_chunks := sn_chunks st @ map (\<lambda>t. t @ sep) ts\<rparr>))"
  using assms by (simp add: deliver_def Let_def add_text_def split: option.split)

lemma drain_patient:
  assumes "sn_patience st = None"
  shows "case ground_paragraphs (non_blank (butlast (cuts (sn_buffer st)))) cs of
     Inl e \<Rightarrow> \<exists>st'. drain cs st = (Rejected e, st')
   | Inr ts \<Rightarrow> \<exists>st'. drain cs st = (Going, st') \<and> sn_patience st' = None \<and>
       sn_buffer st' = last (cuts (sn_buffer st)) \<and> sn_fullText st' = sn_fullText st \<and>
       sn_grounded st' = foldl add_text (sn_grounded st) ts"
  using assms
proof (induction "length (sn_buffer st)" arbitrary: st rule: less_induct)
  case less
  obtain p r where c: "cut_blank (sn_buffer st) = (p, r)" by force
  show ?case
  proof (cases r)
    case None
    with c less.prems cut_blank_None [of "sn_buffer st" p] show ?thesis
      by (simp add: drain.simps [of cs st] cuts_last)
  next
    case (Some rest)
    let ?st1 = "st\<lparr>sn_buffer := rest\<rparr>"
    have small: "length rest < length (sn_buffer st)" using c Some cut_blank_shorter by blast
    have pieces: "cuts (sn_buffer st) = p # cuts rest" using c Some by (simp add: cuts_next)
    show ?thesis
    proof (cases "js_trim p = []")
      case True
      then have "drain cs st = drain cs ?st1"
        using c Some by (simp add: drain.simps [of cs st] Let_def)
      with less.hyps [of ?st1] small less.prems pieces True show ?thesis by (simp split: sum.splits)
    next
      case False
      have d: "drain cs st = (let (r, st2) = deliver cs (js_trim p) [10, 10] ?st1
          in if r = Going then drain cs st2 else (r, st2))"
        using c Some False by (simp add: drain.simps [of cs st] Let_def)
      show ?thesis
      proof (cases "ground_paragraphs [js_trim p] cs")
        case (Inl e)
        then have "ground_paragraphs (js_trim p # ps) cs = Inl e" for ps
          using ground_append [of "[js_trim p]" ps cs] by simp
        with d Inl deliver_patient [of ?st1 cs "js_trim p" "[10, 10]"] less.prems pieces False
        show ?thesis by simp
      next
        case (Inr ts)
        let ?st2 = "?st1\<lparr>sn_grounded := foldl add_text (sn_grounded ?st1) ts,
                       sn_chunks := sn_chunks ?st1 @ map (\<lambda>t. t @ [10, 10]) ts\<rparr>"
        have "drain cs st = drain cs ?st2"
          using d Inr deliver_patient [of ?st1 cs "js_trim p" "[10, 10]"] less.prems by simp
        moreover have "ground_paragraphs (js_trim p # ps) cs =
            (case ground_paragraphs ps cs of Inl e \<Rightarrow> Inl e | Inr us \<Rightarrow> Inr (ts @ us))" for ps
          using ground_append [of "[js_trim p]" ps cs] Inr by simp
        ultimately show ?thesis
          using less.hyps [of ?st2] small less.prems pieces False
          by (simp split: sum.splits)
      qed
    qed
  qed
qed

fun text_of :: "ai_stream_event list \<Rightarrow> jstring" where
  "text_of [] = []"
| "text_of (TextDelta t # evs) = t @ text_of evs"
| "text_of (_ # evs) = text_of evs"

lemma fed_delta:
  assumes "fed cs T st"
  shows "case ground_paragraphs (non_blank (butlast (cuts (T @ t)))) cs of
     Inl e \<Rightarrow> \<exists>st'. on_event cs (TextDelta t) st = (Rejected e, st')
   | Inr ts \<Rightarrow> \<exists>st'. on_event cs (TextDelta t) st = (Going, st') \<and> fed cs (T @ t) st'"
proof -
  let ?st = "st\<lparr>sn_buffer := sn_buffer st @ t, sn_fullText := sn_fullText st @ t\<rparr>"
  let ?more = "cuts (last (cuts T) @ t)"
  from assms obtain ts where st: "sn_patience st = None" "sn_fullText st = T" "sn_buffer st = last (cuts T)"
    "ground_paragraphs (non_blank (butlast (cuts T))) cs = Inr ts" "sn_grounded st = foldl add_text [] ts"
    by (auto simp: fed_def)
  have all: "ground_paragraphs (non_blank (butlast (cuts (T @ t)))) cs =
      (case ground_paragraphs (non_blank (butlast ?more)) cs of Inl e \<Rightarrow> Inl e | Inr us \<Rightarrow> Inr (ts @ us))"
    "last (cuts (T @ t)) = last ?more"
    by (simp_all add: cuts_append [of T t] butlast_append ground_append st(4))
  show ?thesis
  proof (cases "ground_paragraphs (non_blank (butlast ?more)) cs")
    case (Inl e)
    with drain_patient [of ?st cs] st all show ?thesis by simp
  next
    case (Inr us)
    with drain_patient [of ?st cs] st obtain st' where
      "drain cs ?st = (Going, st')" "sn_patience st' = None" "sn_buffer st' = last ?more"
      "sn_fullText st' = T @ t" "sn_grounded st' = foldl add_text (foldl add_text [] ts) us"
      by auto
    then have "on_event cs (TextDelta t) st = (Going, st') \<and> fed cs (T @ t) st'"
      using Inr all by (simp add: fed_def)
    with Inr all show ?thesis by auto
  qed
qed

lemma fed_events:
  assumes "fed cs T st"
  shows "case ground_paragraphs (non_blank (butlast (cuts (T @ text_of evs)))) cs of
     Inl e \<Rightarrow> \<exists>st'. run_events cs evs st = (Rejected e, st')
   | Inr ts \<Rightarrow> \<exists>st'. run_events cs evs st = (Going, st') \<and> fed cs (T @ text_of evs) st'"
  using assms
proof (induction evs arbitrary: T st)
  case Nil
  then show ?case by (auto simp: fed_def)
next
  case (Cons ev evs)
  show ?case
  proof (cases "\<exists>t. ev = TextDelta t")
    case True
    then obtain t where ev: "ev = TextDelta t" by blast
    show ?thesis
    proof (cases "ground_paragraphs (non_blank (butlast (cuts (T @ t)))) cs")
      case (Inl e)
      have "cuts (T @ t @ text_of evs) = butlast (cuts (T @ t)) @ cuts (last (cuts (T @ t)) @ text_of evs)"
        using cuts_append [of "T @ t" "text_of evs"] by simp
      with Inl have "ground_paragraphs (non_blank (butlast (cuts (T @ t @ text_of evs)))) cs = Inl e"
        by (simp add: butlast_append ground_append)
      moreover obtain st' where "on_event cs ev st = (Rejected e, st')"
        using fed_delta [OF Cons.prems, of t] Inl ev by auto
      ultimately show ?thesis using ev by simp
    next
      case (Inr ts)
      then obtain st' where "on_event cs ev st = (Going, st')" "fed cs (T @ t) st'"
        using fed_delta [OF Cons.prems, of t] ev by auto
      with Cons.IH [of "T @ t" st'] ev show ?thesis by (simp split: sum.splits)
    qed
  next
    case False
    then obtain st' where "on_event cs ev st = (Going, st')" "fed cs T st'" "text_of (ev # evs) = text_of evs"
      using Cons.prems by (cases ev) (auto simp: fed_def)
    with Cons.IH [of T st'] show ?thesis by (simp split: sum.splits)
  qed
qed

lemma run_stream_patient:
  assumes "snd stream = None"
  shows "case ground_paragraphs (paragraphs_of (text_of (fst stream))) cs of
     Inl e \<Rightarrow> \<exists>st. run_stream cs stream (stream_start None) = (Rejected e, st)
   | Inr ts \<Rightarrow> \<exists>st. run_stream cs stream (stream_start None) = (Going, st) \<and> sn_patience st = None \<and>
       sn_fullText st = text_of (fst stream) \<and> sn_grounded st = foldl add_text [] ts"
proof -
  let ?T = "text_of (fst stream)"
  have start: "fed cs [] (stream_start None)" by (simp add: fed_def stream_start_def cuts_last)
  have all: "ground_paragraphs (paragraphs_of ?T) cs =
      (case ground_paragraphs (non_blank (butlast (cuts ?T))) cs of
         Inl e \<Rightarrow> Inl e
       | Inr ts \<Rightarrow> (case ground_paragraphs (non_blank [last (cuts ?T)]) cs of
                     Inl e \<Rightarrow> Inl e | Inr us \<Rightarrow> Inr (ts @ us)))"
    by (simp only: non_blank_cuts [symmetric] cuts_split [of ?T] ground_append)
  show ?thesis
  proof (cases "ground_paragraphs (non_blank (butlast (cuts ?T))) cs")
    case (Inl e)
    with fed_events [OF start, of "fst stream"] all show ?thesis
      by (auto simp: run_stream_def)
  next
    case (Inr ts)
    with fed_events [OF start, of "fst stream"] obtain st where
      st: "run_events cs (fst stream) (stream_start None) = (Going, st)" "fed cs ?T st" by auto
    then have grounded: "sn_grounded st = foldl add_text [] ts" "sn_buffer st = last (cuts ?T)"
      "sn_patience st = None" "sn_fullText st = ?T" using Inr by (auto simp: fed_def)
    have run: "run_stream cs stream (stream_start None) =
        (if js_trim (sn_buffer st) \<noteq> [] then deliver cs (js_trim (sn_buffer st)) [] st else (Going, st))"
      using st(1) assms by (simp add: run_stream_def Let_def)
    show ?thesis
    proof (cases "ground_paragraphs (non_blank [last (cuts ?T)]) cs")
      case (Inl e)
      with run all Inr grounded show ?thesis
        by (auto simp: deliver_patient split: if_splits)
    next
      case (Inr us)
      with run all \<open>_ = Inr ts\<close> grounded show ?thesis
        by (auto simp: deliver_patient split: if_splits)
    qed
  qed
qed

lemma foldl_add_text: "[] \<notin> set ts \<Longrightarrow> ts \<noteq> [] \<Longrightarrow> foldl add_text [] ts = join_blank ts"
proof (induction ts rule: rev_induct)
  case (snoc t ts)
  have join: "xs \<noteq> [] \<Longrightarrow> join_blank (xs @ [t]) = join_blank xs @ [10, 10] @ t" for xs
    by (induction xs rule: join_blank.induct) auto
  have "join_blank ts \<noteq> []" if "ts \<noteq> []"
    using that snoc.prems by (cases ts rule: join_blank.cases) auto
  with snoc join show ?case by (cases "ts = []") (auto simp: add_text_def)
qed simp

text \<open>C2: However the provider cuts its text into deltas, the stream accepts a completion exactly when
  the check of the whole completion does and rejects it with the same reason, and it delivers the
  same text when no block is a bare tag. The one difference is a completion without text: the whole
  check refuses it, the stream accepts it.\<close>

theorem stream_agrees_with_whole:
  assumes "citations \<noteq> []" "snd stream = None"
  shows "fst (run_stream citations stream (stream_start None)) =
      (case assertAnswerGrounded (text_of (fst stream)) citations of
         Inl e \<Rightarrow> if e = EMPTY_ANSWER then Going else Rejected e
       | Inr _ \<Rightarrow> Going) \<and>
    (\<forall>t. assertAnswerGrounded (text_of (fst stream)) citations = Inr t \<and>
         [] \<notin> set (map (ab_text \<circ> parseAnswerBlock) (paragraphs_of (text_of (fst stream)))) \<longrightarrow>
       sn_grounded (snd (run_stream citations stream (stream_start None))) = t)"
proof -
  let ?T = "text_of (fst stream)" and ?run = "run_stream citations stream (stream_start None)"
  have not_empty: "ground_paragraphs ps citations \<noteq> Inl EMPTY_ANSWER" for ps
    by (induction ps)
      (auto simp: Let_def assertAnswerBlockGrounded_def split: option.splits sum.splits if_splits)
  show ?thesis
  proof (cases "paragraphs_of ?T = []")
    case True
    with run_stream_patient [OF assms(2), of citations] assms(1) show ?thesis
      by (auto simp: assertAnswerGrounded_def)
  next
    case False
    show ?thesis
    proof (cases "ground_paragraphs (paragraphs_of ?T) citations")
      case (Inl e)
      with run_stream_patient [OF assms(2), of citations] assms(1) False not_empty show ?thesis
        by (auto simp: assertAnswerGrounded_def)
    next
      case (Inr ts)
      then have "ts = map (ab_text \<circ> parseAnswerBlock) (paragraphs_of ?T)"
        using ground_paragraphs_cases [of citations "paragraphs_of ?T"] by (auto split: if_splits)
      with Inr run_stream_patient [OF assms(2), of citations] assms(1) False show ?thesis
        by (auto simp: assertAnswerGrounded_def foldl_add_text)
    qed
  qed
qed

text \<open>A completion cut in the middle of a marker and of a blank line.\<close>

definition demo_deltas :: "ai_stream_event list" where
  "demo_deltas = [ProviderRequestId ''r'', TextDelta (take 20 demo_answer), Usage 3 4,
     TextDelta (js_slice demo_answer 20 21), TextDelta (drop 21 demo_answer), Done None None]"

lemma demo_deltas_text: "text_of demo_deltas = demo_answer"
proof -
  have "take 20 demo_answer @ js_slice demo_answer 20 21 @ drop 21 demo_answer = demo_answer"
    using append_take_drop_id [of 20 demo_answer] append_take_drop_id [of 1 "drop 20 demo_answer"]
    by (simp add: js_slice_def)
  then show ?thesis by (simp add: demo_deltas_def)
qed

theorem stream_agrees_with_whole_witness:
  "fst (run_stream demo_citations (demo_deltas, None) (stream_start None)) = Going \<and>
   sn_grounded (snd (run_stream demo_citations (demo_deltas, None) (stream_start None))) =
     asc ''ok'' @ [10, 10] @ asc ''a '' @ marker_open @ asc '' 1, 2]'' @ [10, 10] @
     asc ''b '' @ buildCitationMarker 3"
proof -
  have "[] \<notin> set (map (ab_text \<circ> parseAnswerBlock) (paragraphs_of demo_answer))"
    using arg_cong [OF demo_blocks, of "map ab_text"] by (simp add: asc_def buildCitationMarker_def)
  moreover have "demo_citations \<noteq> []" by (simp add: demo_citations_def)
  ultimately show ?thesis
    using stream_agrees_with_whole [of demo_citations "(demo_deltas, None)"]
    by (simp add: demo_deltas_text demo_answer_grounded)
qed

section \<open>Only grounded text is delivered\<close>

definition block_text :: "jstring \<Rightarrow> jstring" where
  "block_text p = ab_text (parseAnswerBlock p)"

definition chunks_ok :: "citation list \<Rightarrow> stream_run \<Rightarrow> bool" where
  "chunks_ok cs st \<longleftrightarrow>
     (\<exists>ps. (\<forall>p \<in> set ps. block_grounded cs (parseAnswerBlock p)) \<and>
           sn_grounded st = foldl add_text [] (map block_text ps) \<and>
           (\<forall>c \<in> set (sn_chunks st). \<exists>p \<in> set ps. c = block_text p \<or> c = block_text p @ [10, 10]))"

lemma deliver_chunks:
  assumes "chunks_ok cs st" "deliver cs raw sep st = (r, st')" "sep = [] \<or> sep = [10, 10]"
  shows "chunks_ok cs st'"
proof (cases "assertAnswerBlockGrounded (parseAnswerBlock raw) cs")
  case None
  let ?st1 = "st\<lparr>sn_grounded := add_text (sn_grounded st) (block_text raw),
                 sn_chunks := sn_chunks st @ [block_text raw @ sep]\<rparr>"
  from assms(1) obtain ps where
    ps: "\<forall>p \<in> set ps. block_grounded cs (parseAnswerBlock p)"
      "sn_grounded st = foldl add_text [] (map block_text ps)"
      "\<forall>c \<in> set (sn_chunks st). \<exists>p \<in> set ps. c = block_text p \<or> c = block_text p @ [10, 10]"
    by (auto simp: chunks_ok_def)
  have "block_grounded cs (parseAnswerBlock raw)" using None by (simp add: block_check_exact)
  then have "chunks_ok cs ?st1"
    unfolding chunks_ok_def using ps assms(3) by (intro exI [of _ "ps @ [raw]"]) auto
  moreover have "sn_grounded st' = sn_grounded ?st1 \<and> sn_chunks st' = sn_chunks ?st1"
    using None assms(2)
    by (auto simp: deliver_def Let_def block_text_def add_text_def split: option.splits)
  ultimately show ?thesis by (simp add: chunks_ok_def)
next
  case (Some e)
  with assms show ?thesis by (simp add: deliver_def Let_def)
qed

lemma drain_chunks: "chunks_ok cs st \<Longrightarrow> drain cs st = (r, st') \<Longrightarrow> chunks_ok cs st'"
proof (induction cs st arbitrary: r st' rule: drain.induct)
  case (1 cs st)
  obtain p t where c: "cut_blank (sn_buffer st) = (p, t)" by force
  show ?case
  proof (cases t)
    case None
    with 1 c show ?thesis by (simp add: drain.simps [of cs st])
  next
    case (Some rest)
    let ?st1 = "st\<lparr>sn_buffer := rest\<rparr>"
    have ok1: "chunks_ok cs ?st1" using "1.prems"(1) by (simp add: chunks_ok_def)
    show ?thesis
    proof (cases "js_trim p = []")
      case True
      with "1.IH"(1) [OF c [symmetric] Some refl refl True ok1] "1.prems"(2) c Some
      show ?thesis by (simp add: drain.simps [of cs st] Let_def)
    next
      case False
      obtain e st2 where d: "deliver cs (js_trim p) [10, 10] ?st1 = (e, st2)" by force
      with ok1 have ok2: "chunks_ok cs st2" by (rule deliver_chunks) simp
      show ?thesis
      proof (cases "e = Going")
        case True
        with "1.IH"(2) [OF c [symmetric] Some refl refl False d [symmetric] refl True ok2]
          "1.prems"(2) c Some d False
        show ?thesis by (simp add: drain.simps [of cs st] Let_def)
      next
        case e: False
        with ok2 "1.prems"(2) c Some d False show ?thesis
          by (simp add: drain.simps [of cs st] Let_def)
      qed
    qed
  qed
qed

lemma on_event_chunks: "chunks_ok cs st \<Longrightarrow> on_event cs ev st = (r, st') \<Longrightarrow> chunks_ok cs st'"
proof (cases ev)
  case (TextDelta t)
  assume "chunks_ok cs st" "on_event cs ev st = (r, st')"
  moreover have "chunks_ok cs (st\<lparr>sn_buffer := sn_buffer st @ t, sn_fullText := sn_fullText st @ t\<rparr>)"
    using \<open>chunks_ok cs st\<close> by (simp add: chunks_ok_def)
  ultimately show ?thesis using TextDelta drain_chunks by simp
qed (auto simp: chunks_ok_def)

lemma run_events_chunks: "chunks_ok cs st \<Longrightarrow> run_events cs evs st = (r, st') \<Longrightarrow> chunks_ok cs st'"
proof (induction evs arbitrary: st)
  case (Cons ev evs)
  obtain e st1 where ev: "on_event cs ev st = (e, st1)" by force
  with Cons.prems(1) have "chunks_ok cs st1" by (rule on_event_chunks)
  with Cons ev show ?case by (cases "e = Going") auto
qed simp

lemma run_stream_chunks: "run_stream cs stream (stream_start p) = (r, st) \<Longrightarrow> chunks_ok cs st"
proof -
  assume run: "run_stream cs stream (stream_start p) = (r, st)"
  obtain e st1 where evs: "run_events cs (fst stream) (stream_start p) = (e, st1)" by force
  have "chunks_ok cs (stream_start p)"
    unfolding chunks_ok_def by (rule exI [of _ "[]"]) (simp add: stream_start_def)
  with evs have ok: "chunks_ok cs st1" using run_events_chunks by blast
  with run evs show ?thesis
    by (auto simp: run_stream_def Let_def split: if_splits option.splits dest: deliver_chunks [OF ok])
qed

lemma plan_citations:
  assumes "plan_question cfg question history citations = Some plan"
  shows "set (pl_synthesis plan) \<subseteq> set (pl_context plan)" "set (pl_context plan) \<subseteq>
    set (strong_citations (aq_guard cfg) citations (classifyQuestionComplexity question))"
proof -
  let ?complexity = "classifyQuestionComplexity question"
  let ?strong = "strong_citations (aq_guard cfg) citations ?complexity"
  let ?r = "packCitationsWithinTokenBudget (aq_prompt cfg) question ?strong (aq_contextTokens cfg) ?complexity"
  have ctx: "pl_context plan = cb_kept ?r"
    using assms by (auto simp: plan_question_def checkEvidenceSufficiency_def Let_def split: if_splits)
  have "subseq (cb_kept ?r) ?strong" by (rule packed_subseq(2))
  then show "set (pl_context plan) \<subseteq> set ?strong"
    unfolding ctx by (auto dest: list_emb_set)
  show "set (pl_synthesis plan) \<subseteq> set (pl_context plan)"
    using assms selected_subset [of question "cb_kept ?r"] ctx
    by (auto simp: plan_question_def checkEvidenceSufficiency_def Let_def split: if_splits)
qed

text \<open>A chunk is a grounded block, or a whole grounded answer from the cache.\<close>

definition grounded_text :: "citation list \<Rightarrow> jstring \<Rightarrow> bool" where
  "grounded_text cs t \<longleftrightarrow>
     (\<exists>ps. (\<forall>q \<in> set ps. block_grounded cs (parseAnswerBlock q)) \<and>
           (t = join_blank (map block_text ps) \<or>
            (\<exists>q \<in> set ps. t = block_text q \<or> t = block_text q @ [10, 10])))"

fun event_ok :: "citation list \<Rightarrow> answer_event \<Rightarrow> bool" where
  "event_ok cs (Chunk_Event t) = grounded_text cs t"
| "event_ok cs (Done_Event t used _) = (set used \<subseteq> set cs)"
| "event_ok cs (Citations_Event _) = True"

lemma hand_over_subset: "hand_over evs p = (given, b) \<Longrightarrow> set given \<subseteq> set evs"
proof (induction evs arbitrary: p given)
  case (Cons ev evs)
  show ?case
  proof (cases "resume p")
    case None
    with Cons.prems show ?thesis by auto
  next
    case (Some p')
    obtain rest b' where "hand_over evs p' = (rest, b')" by force
    with Cons.prems Cons.IH [of p' rest] Some show ?thesis by auto
  qed
qed simp

lemma give_all_ok:
  "list_all (event_ok cs) evs \<Longrightarrow> give_all evs p s = ((given, e), s') \<Longrightarrow> list_all (event_ok cs) given"
  by (auto simp: give_all_def list_all_iff dest: hand_over_subset split: prod.splits)

lemma grounded_whole: "assertAnswerGrounded a cs = Inr t \<Longrightarrow> grounded_text cs t"
proof -
  have block: "block_text = ab_text \<circ> parseAnswerBlock"
    by (simp add: block_text_def fun_eq_iff)
  show "assertAnswerGrounded a cs = Inr t \<Longrightarrow> grounded_text cs t"
    unfolding grounded_text_def grounded_exact block
    by (intro exI [of _ "paragraphs_of a"]) (simp add: list_all_iff)
qed

lemma hand_over_ok:
  "list_all (event_ok cs) evs \<Longrightarrow> hand_over evs p = (given, b) \<Longrightarrow> list_all (event_ok cs) given"
  using hand_over_subset [of evs p given b] by (auto simp: list_all_iff)

lemma used_subset: "set (filterCitationsToAnswerUsed t cs) \<subseteq> set cs"
  using used_spec by blast

lemma serve_cached_ok:
  "serve_cached cfg cs cached p s = ((evs, e), s') \<Longrightarrow> list_all (event_ok cs) evs"
  by (auto simp: serve_cached_def split: sum.splits
      elim!: give_all_ok [rotated] dest: grounded_whole subsetD [OF used_subset])

lemma chunks_grounded: "chunks_ok cs st \<Longrightarrow> list_all (event_ok cs) (map Chunk_Event (sn_chunks st))"
proof -
  assume "chunks_ok cs st"
  then have "grounded_text cs c" if "c \<in> set (sn_chunks st)" for c
    using that unfolding chunks_ok_def grounded_text_def by blast
  then show ?thesis by (simp add: list_all_iff)
qed

lemma finish_stream_ok:
  assumes "chunks_ok (pl_synthesis plan) st"
    and "finish_stream ops cfg plan key res (r, st) s = ((evs, e), s')"
  shows "list_all (event_ok (pl_synthesis plan)) evs"
proof -
  have "list_all (event_ok (pl_synthesis plan)) given"
    if "hand_over [Done_Event t (filterCitationsToAnswerUsed t (pl_synthesis plan)) b] p = (given, stayed)"
    for t b p given stayed
    using that by (rule hand_over_ok [rotated]) (simp add: used_subset)
  with chunks_grounded [OF assms(1)] assms(2) show ?thesis
    by (cases r)
      (auto simp: finish_stream_def Let_def simp del: hand_over.simps split: option.splits prod.splits)
qed

lemma stream_answer_ok:
  assumes "stream_answer ops cfg plan laterCache p s = ((evs, e), s')"
  shows "list_all (event_ok (pl_synthesis plan)) evs"
proof -
  obtain r st where run: "run_stream (pl_synthesis plan) (llm_stream (aq_llm cfg)) (stream_start p) = (r, st)"
    by force
  from assms show ?thesis
    by (auto simp: stream_answer_def Let_def run
        intro: serve_cached_ok finish_stream_ok [OF run_stream_chunks [OF run]]
        split: option.splits if_splits prod.splits reserve_outcome.splits)
qed


definition demo_env :: "ai_stream_event list \<Rightarrow> ask_env" where
  "demo_env events = \<lparr>aq_organizationId = ''o'',
     aq_guard = \<lparr>MIN_CITATION_SCORE = 3 / 10, MIN_CITATION_SCORE_COMPREHENSIVE = 1 / 10, MIN_CITATION_COUNT = 1\<rparr>,
     aq_prompt = demo_prompt_env, aq_contextTokens = 2,
     aq_limits = demo_limits\<lparr>dailyAiRequestLimit := None\<rparr>, aq_now = demo_instant,
     aq_pricing = [pricingKey ''a'' ''m'' \<mapsto> \<lparr>inputCostPerMillionMinor = 0,
       outputCostPerMillionMinor = Some 1000000, embeddingCostPerMillionMinor = None\<rparr>],
     aq_maxOutputTokens = 200, aq_hash = (\<lambda>_. ''h''), aq_llm = demo_llm ''a'' events None,
     aq_effectiveProvider = ''a'', aq_canaryUsed = False\<rparr>"

lemma demo_env_fields [simp]:
  "aq_organizationId (demo_env evs) = ''o''" "aq_prompt (demo_env evs) = demo_prompt_env"
  "aq_contextTokens (demo_env evs) = 2" "MIN_CITATION_COUNT (aq_guard (demo_env evs)) = 1"
  "aq_limits (demo_env evs) = demo_limits\<lparr>dailyAiRequestLimit := None\<rparr>"
  "aq_now (demo_env evs) = demo_instant" "llm_stream (aq_llm (demo_env evs)) = (evs, None)"
  by (simp_all add: demo_env_def demo_llm_def)

definition demo_plan :: ask_plan where
  "demo_plan = \<lparr>pl_context = [hd demo_citations], pl_synthesis = [hd demo_citations],
     pl_messages = buildPromptMessages demo_prompt_env (asc ''q'') [hd demo_citations] [] Focused None\<rparr>"

definition demo_state :: "mem_counters ai_state" where
  "demo_state = \<lparr>st_counters = Map.empty, st_cache = Map.empty, st_streaming = [], st_usage = []\<rparr>"

lemma demo_question: "classifyQuestionComplexity (asc ''q'') = Focused"
  by (simp add: classifyQuestionComplexity_def COMPREHENSIVE_SIGNAL_KEYWORDS_def includes_text_def asc_def match_eval)

lemma demo_plan_question:
  "plan_question (demo_env evs) (asc ''q'') [] demo_citations = Some demo_plan"
proof -
  have "strong_citations (aq_guard (demo_env evs)) demo_citations Focused = demo_citations"
    by (simp add: strong_citations_def demo_env_def demo_citations_def demo_citation_def)
  moreover have "1 \<le> length demo_citations" by (simp add: demo_citations_def)
  ultimately show ?thesis
    by (simp add: plan_question_def demo_question checkEvidenceSufficiency_def demo_budget_kept
        demo_plan_def Let_def)
qed

lemma demo_worst_case: "worst_case_cost (demo_env evs) messages = 200"
  by (simp add: worst_case_cost_def cost_or_0_def ask_cost_def estimateAiCostMinor_def token_cost_def
      demo_env_def demo_llm_def)

lemma demo_reserve:
  "\<exists>counters. reserveLlmBudget mem_counter_ops (demo_env evs) messages Map.empty =
     (Reserved (full_reservation demo_instant ''o'' (demo_limits\<lparr>dailyAiRequestLimit := None\<rparr>) 200), counters)"
  by (simp add: reserveLlmBudget_def demo_worst_case reserveAiBudget_def demo_limits_def toSafeAmount_def
      mem_counter_ops_def mem_reserve_def mem_getValue_def Let_def reserve_month_def reserve_day_def
      full_reservation_def)

text \<open>One grounded paragraph, then one without a source.\<close>

definition demo_half :: "ai_stream_event list" where
  "demo_half = [TextDelta (asc ''a '' @ buildCitationMarker 1 @ [10, 10]), TextDelta (asc ''b'')]"

lemma demo_half_run:
  "run_stream [hd demo_citations] (demo_half, None) (stream_start None) =
     (Rejected MISSING_REQUIRED_CITATION, \<lparr>sn_buffer = asc ''b'',
        sn_fullText = asc ''a '' @ buildCitationMarker 1 @ [10, 10] @ asc ''b'',
        sn_grounded = asc ''a '' @ buildCitationMarker 1,
        sn_chunks = [asc ''a '' @ buildCitationMarker 1 @ [10, 10]], sn_usage = None,
        sn_served = None, sn_patience = None\<rparr>)"
  by (simp add: demo_half_def run_stream_def stream_start_def drain.simps deliver_def citation_eval)

lemma demo_half_left:
  "\<exists>st. run_stream [hd demo_citations] (demo_half, None) (stream_start (Some 0)) = (Abandoned, st) \<and>
     sn_usage st = None \<and> sn_served st = None \<and> length (sn_fullText st) \<le> 20"
  by (simp add: demo_half_def run_stream_def stream_start_def drain.simps deliver_def citation_eval)


section \<open>What a stream costs\<close>

lemma settle_none: "settleAiBudget ops t res c s = settleAiBudget ops t res (Some (cost_or_0 c)) s"
  by (simp add: settleAiBudget_def cost_or_0_def toSafeAmount_def split: option.splits)

context budget_counter
begin

definition charged_since :: "ask_env \<Rightarrow> nat \<Rightarrow> 's \<Rightarrow> 's \<Rightarrow> bool" where
  "charged_since cfg cost s s' \<longleftrightarrow>
     (\<forall>k. value_of (at_ms (aq_now cfg)) k s' = value_of (at_ms (aq_now cfg)) k s +
          booked (full_reservation (aq_now cfg) (aq_organizationId cfg) (aq_limits cfg) cost) k)"

lemma stream_charge:
  assumes v: "valid (st_counters s)"
    and safe: "worst_case_cost cfg (pl_messages plan) \<le> 2 ^ 53 - 1"
      "\<forall>b. monthlyAiBudgetMinor (aq_limits cfg) = Some b \<longrightarrow> b \<le> 2 ^ 53 - 1"
      "cost_or_0 (ua_estimatedCostMinor (stream_call cfg plan st)) \<le> 2 ^ 53 - 1"
    and miss: "st_cache s (buildPromptCacheKey cfg (pl_messages plan)) = None"
      "buildPromptCacheKey cfg (pl_messages plan) \<notin> set (st_streaming s)"
    and res: "reserveLlmBudget ops cfg (pl_messages plan) (st_counters s) = (Reserved res, counters)"
    and run: "run_stream (pl_synthesis plan) (llm_stream (aq_llm cfg)) (stream_start p) = (r, st)"
    and answer: "stream_answer ops cfg plan laterCache p s = (out, s')"
  shows "(case r of
       Going \<Rightarrow> charged_since cfg (cost_or_0 (ua_estimatedCostMinor (stream_call cfg plan st)))
           (st_counters s) (st_counters s') \<and> st_usage s' = st_usage s @ [stream_call cfg plan st]
     | Abandoned \<Rightarrow> charged_since cfg (worst_case_cost cfg (pl_messages plan)) (st_counters s) (st_counters s') \<and>
         st_usage s' = st_usage s
     | _ \<Rightarrow> (\<forall>k. value_of (at_ms (aq_now cfg)) k (st_counters s') =
                 value_of (at_ms (aq_now cfg)) k (st_counters s)) \<and> length (st_usage s') = length (st_usage s) + 1)"
proof -
  let ?cost = "worst_case_cost cfg (pl_messages plan)"
  note r = res [unfolded reserveLlmBudget_def]
  note laws = settle_and_release [OF v safe(1,2) r]
  have booked: "charged_since cfg ?cost (st_counters s) counters"
    using all_or_nothing [OF v safe(1,2), of "aq_now cfg" "aq_organizationId cfg"] r
    by (auto simp: charged_since_def)
  obtain settled where settled:
    "settleAiBudget ops (at_ms (aq_now cfg)) res (ua_estimatedCostMinor (stream_call cfg plan st)) counters = Some settled"
    "charged_since cfg (cost_or_0 (ua_estimatedCostMinor (stream_call cfg plan st))) (st_counters s) settled"
    using laws(2) [OF safe(3)] unfolding charged_since_def settle_none [of ops _ res "ua_estimatedCostMinor _"]
    by blast
  show ?thesis
    using answer miss res settled(1) booked settled(2) laws(1)
    by (cases r)
      (auto simp: stream_answer_def run finish_stream_def Let_def log_usage_def split: prod.splits)
qed

end

text \<open>C3: What a streamed answer costs the organization follows how the stream ends. A stream that
  completes leaves the actual cost of the serving provider charged and one usage record; a stream
  that fails or is rejected leaves every counter as it was and one record of the failure. When the
  client leaves in the middle, neither runs: the worst-case estimate stays charged and nothing is
  recorded of the call.\<close>

theorem stream_charge_follows_end:
  assumes "counters_nonneg (st_counters s)"
    and "worst_case_cost cfg (pl_messages plan) \<le> 2 ^ 53 - 1"
      "\<forall>b. monthlyAiBudgetMinor (aq_limits cfg) = Some b \<longrightarrow> b \<le> 2 ^ 53 - 1"
      "cost_or_0 (ua_estimatedCostMinor (stream_call cfg plan st)) \<le> 2 ^ 53 - 1"
    and "st_cache s (buildPromptCacheKey cfg (pl_messages plan)) = None"
      "buildPromptCacheKey cfg (pl_messages plan) \<notin> set (st_streaming s)"
    and "reserveLlmBudget redis_counter_ops cfg (pl_messages plan) (st_counters s) = (Reserved res, counters)"
    and "run_stream (pl_synthesis plan) (llm_stream (aq_llm cfg)) (stream_start p) = (r, st)"
    and "stream_answer redis_counter_ops cfg plan laterCache p s = (out, s')"
  shows "(\<forall>k. rc_value (at_ms (aq_now cfg)) k (st_counters s') =
       rc_value (at_ms (aq_now cfg)) k (st_counters s) +
       (case r of
          Going \<Rightarrow> booked (full_reservation (aq_now cfg) (aq_organizationId cfg) (aq_limits cfg)
                     (cost_or_0 (ua_estimatedCostMinor (stream_call cfg plan st)))) k
        | Abandoned \<Rightarrow> booked (full_reservation (aq_now cfg) (aq_organizationId cfg) (aq_limits cfg)
                     (worst_case_cost cfg (pl_messages plan))) k
        | _ \<Rightarrow> 0)) \<and>
    length (st_usage s') = length (st_usage s) + (if r = Abandoned then 0 else 1)"
  using redis_budget.stream_charge [OF assms]
  by (cases r) (auto simp: redis_budget.charged_since_def)

theorem stream_charge_follows_end_witness:
  "\<exists>out s'. stream_answer redis_counter_ops (demo_env demo_half) demo_plan Map.empty (Some 0)
       \<lparr>st_counters = Map.empty, st_cache = Map.empty, st_streaming = [], st_usage = []\<rparr> = (out, s') \<and>
     snd out = Left \<and> rc_value 1000 (monthKey ''o'' demo_instant) (st_counters s') = 200 \<and> st_usage s' = []"
proof -
  let ?s = "\<lparr>st_counters = Map.empty, st_cache = Map.empty, st_streaming = [], st_usage = []\<rparr>"
  let ?cfg = "demo_env demo_half"
  obtain st where st: "run_stream (pl_synthesis demo_plan) (llm_stream (aq_llm ?cfg)) (stream_start (Some 0)) = (Abandoned, st)"
    "sn_usage st = None" "sn_served st = None" "length (sn_fullText st) \<le> 20"
    using demo_half_left by (auto simp: demo_plan_def)
  have nn: "counters_nonneg (Map.empty :: string redis_counters)" by (simp add: counters_nonneg_def)
  obtain e where "redis_reserve 1000 (monthKey ''o'' demo_instant) 200 500 MONTH_TTL_SECONDS Map.empty =
      ((True, 200), [monthKey ''o'' demo_instant \<mapsto> (200, e)])"
    using redis_reserve_alt [OF nn, of 1000 "monthKey ''o'' demo_instant" 200 500 MONTH_TTL_SECONDS]
    by (auto simp: rc_value_def rc_entry_def)
  then obtain res counters where res:
    "reserveLlmBudget redis_counter_ops ?cfg (pl_messages demo_plan) (st_counters ?s) = (Reserved res, counters)"
    by (auto simp: reserveLlmBudget_def demo_worst_case reserveAiBudget_def demo_limits_def toSafeAmount_def
        redis_counter_ops_def reserve_month_def reserve_day_def Let_def demo_instant_def)
  have "(length (sn_fullText st) + 3) div 4 \<le> 9007199254740991"
    using div_le_dividend [of "length (sn_fullText st) + 3" 4] st(4) by linarith
  then have cost: "cost_or_0 (ua_estimatedCostMinor (stream_call ?cfg demo_plan st)) \<le> 2 ^ 53 - 1"
    using st(2,3) by (simp add: stream_call_def served_call_def ask_cost_def estimateAiCostMinor_def token_cost_def
        demo_env_def demo_llm_def cost_or_0_def quarter_up_def)
  obtain out s' where answer: "stream_answer redis_counter_ops ?cfg demo_plan Map.empty (Some 0) ?s = (out, s')"
    by (meson surj_pair)
  have "snd out = Left"
    using answer res st(1) by (auto simp: stream_answer_def finish_stream_def Let_def)
  with answer stream_charge_follows_end [OF _ _ _ cost _ _ res st(1) answer] nn show ?thesis
    by (simp add: demo_worst_case demo_limits_def booked_def full_reservation_def rc_value_def rc_entry_def
        demo_instant_def)
qed

section \<open>Rejected answers stay in the cache\<close>

definition with_completion :: "ask_env \<Rightarrow> llm_provider \<Rightarrow> ask_env" where
  "with_completion cfg llm = cfg\<lparr>aq_llm := llm\<lparr>llm_name := llm_name (aq_llm cfg), llm_model := llm_model (aq_llm cfg)\<rparr>\<rparr>"

lemma with_completion_same [simp]:
  "plan_question (with_completion cfg llm) question history cs = plan_question cfg question history cs"
  "buildPromptCacheKey (with_completion cfg llm) messages = buildPromptCacheKey cfg messages"
proof -
  have fields: "aq_prompt (with_completion cfg llm) = aq_prompt cfg" "aq_guard (with_completion cfg llm) = aq_guard cfg"
    "aq_contextTokens (with_completion cfg llm) = aq_contextTokens cfg"
    by (simp_all add: with_completion_def)
  show "plan_question (with_completion cfg llm) question history cs = plan_question cfg question history cs"
    unfolding plan_question_def fields ..
qed (simp add: with_completion_def buildPromptCacheKey_def)

text \<open>C4: The complete answer is cached before it is checked. When the check rejects it, the error is
  reported, and as long as the entry lives the same question fails with the same error, without a
  provider call, whatever the provider would answer by then.\<close>

theorem rejected_answer_sticks:
  assumes "assertQuestionWithinBudget question"
    and "plan_question cfg question history citations = Some plan"
    and "st_cache s (buildPromptCacheKey cfg (pl_messages plan)) = None"
    and "llm_completion (aq_llm cfg) = Inr r"
    and "assertAnswerGrounded (completion_text r) (pl_synthesis plan) = Inl e"
  shows "\<exists>s'. askQuestion cfg question history citations s = (Inl (Grounding e), s') \<and>
    length (st_usage s') = length (st_usage s) + 1 \<and>
    (\<forall>llm. askQuestion (with_completion cfg llm) question history citations s' = (Inl (Grounding e), s'))"
  using assms by (auto simp: askQuestion_def computeAnswer_def log_usage_def Let_def)

text \<open>A stream without any text is accepted and its empty text is cached; the next stream of the
  same question is then refused as an empty answer, whatever the provider would stream.\<close>

theorem empty_stream_spoils_cache:
  assumes "st_cache s (buildPromptCacheKey cfg (pl_messages plan)) = None"
      "buildPromptCacheKey cfg (pl_messages plan) \<notin> set (st_streaming s)"
    and "reserveLlmBudget ops cfg (pl_messages plan) (st_counters s) = (Reserved res, counters)"
    and "text_of (fst (llm_stream (aq_llm cfg))) = []" "snd (llm_stream (aq_llm cfg)) = None"
    and "stream_answer ops cfg plan laterCache None s = ((evs, Completed), s')"
    and "pl_synthesis plan \<noteq> []"
  shows "Done_Event [] (filterCitationsToAnswerUsed [] (pl_synthesis plan)) (Some (aq_canaryUsed cfg)) \<in> set evs \<and>
    st_cache s' (buildPromptCacheKey cfg (pl_messages plan)) = Some [] \<and>
    (\<forall>llm laterCache p. stream_answer ops (with_completion cfg llm) plan laterCache p s' =
       (([], Threw (Grounding EMPTY_ANSWER)), s'))"
proof -
  have none: "paragraphs_of [] = []"
    by (simp add: citation_eval)
  then obtain st where run: "run_stream (pl_synthesis plan) (llm_stream (aq_llm cfg)) (stream_start None) = (Going, st)"
    "sn_patience st = None" "sn_fullText st = []" "sn_grounded st = []"
    using run_stream_patient [OF assms(5), of "pl_synthesis plan"] assms(4) by auto
  show ?thesis
    using assms run none
    by (auto simp: stream_answer_def finish_stream_def Let_def log_usage_def serve_cached_def
        assertAnswerGrounded_def split: option.splits)
qed

theorem rejected_answer_sticks_witness:
  "let cfg = (demo_env [])\<lparr>aq_llm := (demo_llm ''a'' [] None)\<lparr>llm_completion :=
         Inr \<lparr>completion_text = asc ''b'', promptTokens = 1, completionTokens = 1, servedBy = None\<rparr>\<rparr>\<rparr>
   in \<exists>s'. askQuestion cfg (asc ''q'') [] demo_citations demo_state =
        (Inl (Grounding MISSING_REQUIRED_CITATION), s') \<and> length (st_usage s') = 1"
proof -
  let ?llm = "(demo_llm ''a'' [] None)\<lparr>llm_completion :=
         Inr \<lparr>completion_text = asc ''b'', promptTokens = 1, completionTokens = 1, servedBy = None\<rparr>\<rparr>"
  let ?cfg = "(demo_env [])\<lparr>aq_llm := ?llm\<rparr>"
  have "?cfg = with_completion (demo_env []) ?llm"
    by (simp add: with_completion_def demo_env_def demo_llm_def)
  then have plan: "plan_question ?cfg (asc ''q'') [] demo_citations = Some demo_plan"
    by (simp add: demo_plan_question)
  have "assertAnswerGrounded (asc ''b'') [hd demo_citations] = Inl MISSING_REQUIRED_CITATION"
    by (simp add: assertAnswerGrounded_def citation_eval)
  then show ?thesis
    using rejected_answer_sticks [OF _ plan, of demo_state _ MISSING_REQUIRED_CITATION]
    by (auto simp: assertQuestionWithinBudget_def MAX_QUESTION_LENGTH_def demo_state_def demo_plan_def asc_def)
qed

theorem empty_stream_spoils_cache_witness:
  "\<exists>evs s'. stream_answer mem_counter_ops (demo_env [Done None None]) demo_plan Map.empty None demo_state =
      ((evs, Completed), s') \<and>
    stream_answer mem_counter_ops (demo_env [Done None None]) demo_plan Map.empty None s' =
      (([], Threw (Grounding EMPTY_ANSWER)), s')"
proof -
  let ?cfg = "demo_env [Done None None]"
  obtain res counters where res:
    "reserveLlmBudget mem_counter_ops ?cfg (pl_messages demo_plan) (st_counters demo_state) = (Reserved res, counters)"
    "res = full_reservation demo_instant ''o'' (demo_limits\<lparr>dailyAiRequestLimit := None\<rparr>) 200"
    using demo_reserve [of "[Done None None]" "pl_messages demo_plan"] by (auto simp: demo_state_def)
  have run: "run_stream cs ([Done None None], None) (stream_start None) = (Going, stream_start None)" for cs
    by (simp add: run_stream_def stream_start_def js_trim_def js_trim_start_def js_trim_end_def)
  have patience: "sn_patience (stream_start None) = None" by (simp add: stream_start_def)
  have "ua_estimatedCostMinor (stream_call ?cfg demo_plan (stream_start None)) = Some 0"
    by (simp add: stream_call_def served_call_def ask_cost_def estimateAiCostMinor_def token_cost_def
        stream_start_def demo_env_def demo_llm_def quarter_up_def)
  moreover obtain counters' where "settleAiBudget mem_counter_ops (at_ms demo_instant) res (Some 0) counters =
      Some counters'"
    by (simp add: res(2) full_reservation_def demo_limits_def settleAiBudget_def toSafeAmount_def Let_def)
  ultimately obtain evs s' where answer:
    "stream_answer mem_counter_ops ?cfg demo_plan Map.empty None demo_state = ((evs, Completed), s')"
    using res(1) patience by (auto simp: stream_answer_def demo_state_def run finish_stream_def Let_def)
  have "with_completion ?cfg (aq_llm ?cfg) = ?cfg" by (simp add: with_completion_def)
  with answer empty_stream_spoils_cache [OF _ _ res(1) _ _ answer] show ?thesis
    by (auto simp: demo_state_def demo_plan_def) metis
qed

end
