(* ===== verification/Batch.thy ===== *)
theory Batch
  imports Db
begin

text \<open>
  Batch runs (\<^verbatim>\<open>server/batch\<close>, \<^verbatim>\<open>domain/batch\<close>, \<^verbatim>\<open>batch-execution-repository.ts\<close>): the advisory lock,
  the execution row with its unique key, the heartbeat loop, the guarded terminal writes and the
  recovery of rows whose process died. An invocation of \<open>runBatchJob\<close> is a program of steps, one for
  each statement another process can see; the step relation \<open>batch_step\<close> interleaves any number of
  invocations, crashes, recoveries and the passing of time. \<open>hashtext\<close> of the database, \<open>randomUUID\<close> and
  the calendar fields of a \<open>Date\<close> are arguments; the job body is its result.
\<close>

section \<open>Dates and keys\<close>

text \<open>A \<open>Date\<close> with the UTC fields \<open>toISOString\<close> prints; years from 0 to 9999.\<close>

record js_date =
  dt_ms :: time_ms
  dt_year :: nat
  dt_month :: nat
  dt_day :: nat
  dt_hour :: nat
  dt_minute :: nat
  dt_second :: nat
  dt_milli :: nat

definition pad :: "nat \<Rightarrow> nat \<Rightarrow> string" where
  "pad n k = pad_start n (nat_str k)"

definition toISOString :: "js_date \<Rightarrow> string" where
  "toISOString d = pad 4 (dt_year d) @ ''-'' @ pad 2 (dt_month d) @ ''-'' @ pad 2 (dt_day d) @ ''T'' @
     pad 2 (dt_hour d) @ '':'' @ pad 2 (dt_minute d) @ '':'' @ pad 2 (dt_second d) @ ''.'' @
     pad 3 (dt_milli d) @ ''Z''"

definition isoDate :: "js_date \<Rightarrow> string" where
  "isoDate d = take 10 (toISOString d)"

definition isoHour :: "js_date \<Rightarrow> string" where
  "isoHour d = take 13 (toISOString d)"

datatype batch_cadence = Instant | Hourly | Daily

definition buildLockKey :: "string \<Rightarrow> batch_cadence \<Rightarrow> js_date \<Rightarrow> string" where
  "buildLockKey jobName cadence now =
     (case cadence of
        Instant \<Rightarrow> jobName
      | Hourly \<Rightarrow> jobName @ '':'' @ isoHour now
      | Daily \<Rightarrow> jobName @ '':'' @ isoDate now)"

definition buildExecutionKey :: "string \<Rightarrow> batch_cadence \<Rightarrow> js_date \<Rightarrow> string" where
  "buildExecutionKey jobName cadence now =
     (if cadence = Instant then jobName @ '':'' @ toISOString now else buildLockKey jobName cadence now)"

definition STALE_BATCH_HEARTBEAT_MINUTES :: nat where
  "STALE_BATCH_HEARTBEAT_MINUTES = 30"

definition BATCH_HEARTBEAT_INTERVAL_MINUTES :: nat where
  "BATCH_HEARTBEAT_INTERVAL_MINUTES = 5"

definition STALE_BATCH_HEARTBEAT_MS :: time_ms where
  "STALE_BATCH_HEARTBEAT_MS = int STALE_BATCH_HEARTBEAT_MINUTES * 60 * 1000"

section \<open>Execution rows\<close>

datatype batch_status = Batch_RUNNING | Batch_SUCCEEDED | Batch_FAILED

record batch_counts =
  processedCount :: nat
  successCount :: nat
  failureCount :: nat

record batch_execution =
  be_id :: string
  be_jobName :: string
  be_executionKey :: string
  be_status :: batch_status
  be_startedAt :: time_ms
  be_completedAt :: "time_ms option"
  be_heartbeatAt :: time_ms
  be_lockedBy :: string
  be_counts :: batch_counts
  be_errorCode :: "string option"

text \<open>\<open>None\<close> is the violation of \<open>@@unique(executionKey)\<close>; the primary key is fresh.\<close>

definition createRunningBatchExecution ::
  "string \<Rightarrow> string \<Rightarrow> string \<Rightarrow> time_ms \<Rightarrow> string \<Rightarrow> batch_execution list \<Rightarrow> batch_execution list option" where
  "createRunningBatchExecution newId jobName executionKey startedAt lockedBy rows =
     (if \<exists>r \<in> set rows. be_executionKey r = executionKey then None
      else Some (rows @ [\<lparr>be_id = newId, be_jobName = jobName, be_executionKey = executionKey,
             be_status = Batch_RUNNING, be_startedAt = startedAt, be_completedAt = None,
             be_heartbeatAt = startedAt, be_lockedBy = lockedBy,
             be_counts = \<lparr>processedCount = 0, successCount = 0, failureCount = 0\<rparr>,
             be_errorCode = None\<rparr>]))"

definition running_row :: "string \<Rightarrow> batch_execution \<Rightarrow> bool" where
  "running_row i r \<longleftrightarrow> be_id r = i \<and> be_status r = Batch_RUNNING"

definition touchBatchExecutionHeartbeat ::
  "string \<Rightarrow> time_ms \<Rightarrow> batch_execution list \<Rightarrow> bool \<times> batch_execution list" where
  "touchBatchExecutionHeartbeat i now rows =
     (0 < count_rows (running_row i) rows,
      update_rows (running_row i) (\<lambda>r. r\<lparr>be_heartbeatAt := now\<rparr>) rows)"

definition markBatchExecutionSucceeded ::
  "string \<Rightarrow> time_ms \<Rightarrow> batch_counts \<Rightarrow> batch_execution list \<Rightarrow> bool \<times> batch_execution list" where
  "markBatchExecutionSucceeded i completedAt counts rows =
     (0 < count_rows (running_row i) rows,
      update_rows (running_row i)
        (\<lambda>r. r\<lparr>be_status := Batch_SUCCEEDED, be_completedAt := Some completedAt, be_counts := counts\<rparr>) rows)"

definition markBatchExecutionFailed ::
  "string \<Rightarrow> time_ms \<Rightarrow> string \<Rightarrow> batch_counts \<Rightarrow> batch_execution list \<Rightarrow> bool \<times> batch_execution list" where
  "markBatchExecutionFailed i completedAt errorCode counts rows =
     (0 < count_rows (running_row i) rows,
      update_rows (running_row i)
        (\<lambda>r. r\<lparr>be_status := Batch_FAILED, be_completedAt := Some completedAt,
               be_errorCode := Some errorCode, be_counts := counts\<rparr>) rows)"

definition findRecentBatchExecutions :: "string \<Rightarrow> nat \<Rightarrow> batch_execution list \<Rightarrow> batch_execution list" where
  "findRecentBatchExecutions jobName limit rows =
     take limit (sort_key (\<lambda>r. - be_startedAt r) (filter (\<lambda>r. be_jobName r = jobName) rows))"

definition ORPHANED_ERROR_CODE :: string where
  "ORPHANED_ERROR_CODE = ''ORPHANED_STALE_HEARTBEAT''"

text \<open>One \<open>UPDATE ... RETURNING\<close>; the two clocks, of the process and of the database, are one.\<close>

definition recoverStaleBatchExecutions ::
  "nat \<Rightarrow> time_ms \<Rightarrow> batch_execution list \<Rightarrow> string list \<times> batch_execution list" where
  "recoverStaleBatchExecutions staleMinutes now rows =
     (let staleBefore = now - int staleMinutes * 60 * 1000;
          stale = (\<lambda>r. be_status r = Batch_RUNNING \<and> be_heartbeatAt r < staleBefore)
      in (map be_id (filter stale rows),
          update_rows stale
            (\<lambda>r. r\<lparr>be_status := Batch_FAILED, be_completedAt := Some now,
                   be_errorCode := Some ORPHANED_ERROR_CODE\<rparr>) rows))"

datatype thrown = Thrown_AppError string | Thrown_Native string | Thrown_Value

fun toSafeBatchErrorCode :: "thrown \<Rightarrow> string" where
  "toSafeBatchErrorCode (Thrown_AppError code) = code"
| "toSafeBatchErrorCode (Thrown_Native name) = (if name = '''' then ''ERROR'' else name)"
| "toSafeBatchErrorCode Thrown_Value = ''UNKNOWN_ERROR''"

section \<open>An invocation of runBatchJob\<close>

record batch_params =
  bp_jobName :: string
  bp_cadence :: batch_cadence
  bp_now :: js_date
  bp_force :: bool
  bp_uuid :: string
  bp_lockedBy :: string

definition lockKey :: "batch_params \<Rightarrow> string" where
  "lockKey p = buildLockKey (bp_jobName p) (bp_cadence p) (bp_now p)"

definition executionKey :: "batch_params \<Rightarrow> string" where
  "executionKey p =
     (if bp_force p
      then buildExecutionKey (bp_jobName p) (bp_cadence p) (bp_now p) @ '':forced:'' @ bp_uuid p
      else buildExecutionKey (bp_jobName p) (bp_cadence p) (bp_now p))"

datatype batch_outcome = Skipped | Done_Run string batch_counts | Threw_Run thrown

text \<open>Where an invocation stands. \<open>Working b\<close>: the job body runs, and \<open>b\<close> tells whether the heartbeat loop
  is still going. \<open>Settled\<close>: the body ended and the loop has stopped.\<close>

datatype batch_phase =
  Ready
  | Holding
  | Working bool
  | Settled "thrown + batch_counts"
  | Releasing batch_outcome
  | Ended batch_outcome
  | Dead

record invocation =
  iv_params :: batch_params
  iv_phase :: batch_phase
  iv_execution :: "string option"

record batch_sys =
  bs_rows :: "batch_execution list"
  bs_locks :: "int \<rightharpoonup> nat"
  bs_invocations :: "nat \<rightharpoonup> invocation"
  bs_clock :: time_ms

definition set_invocation :: "nat \<Rightarrow> invocation \<Rightarrow> batch_sys \<Rightarrow> batch_sys" where
  "set_invocation n v s = s\<lparr>bs_invocations := (bs_invocations s)(n \<mapsto> v)\<rparr>"

text \<open>\<open>acquireAdvisoryLock\<close>: a session-level lock on the hash of the key, one session per invocation.\<close>

definition acquire_step :: "(string \<Rightarrow> int) \<Rightarrow> nat \<Rightarrow> invocation \<Rightarrow> batch_sys \<Rightarrow> batch_sys" where
  "acquire_step hashtext n v s =
     (let key = hashtext (lockKey (iv_params v))
      in case bs_locks s key of
           Some _ \<Rightarrow> set_invocation n (v\<lparr>iv_phase := Ended Skipped\<rparr>) s
         | None \<Rightarrow> (set_invocation n (v\<lparr>iv_phase := Holding\<rparr>) s)\<lparr>bs_locks := (bs_locks s)(key \<mapsto> n)\<rparr>)"

definition create_step :: "string \<Rightarrow> nat \<Rightarrow> invocation \<Rightarrow> batch_sys \<Rightarrow> batch_sys" where
  "create_step newId n v s =
     (let p = iv_params v
      in case createRunningBatchExecution newId (bp_jobName p) (executionKey p) (dt_ms (bp_now p))
                (bp_lockedBy p) (bs_rows s) of
           None \<Rightarrow> set_invocation n (v\<lparr>iv_phase := Releasing Skipped\<rparr>) s
         | Some rows \<Rightarrow>
             (set_invocation n (v\<lparr>iv_phase := Working True, iv_execution := Some newId\<rparr>) s)\<lparr>bs_rows := rows\<rparr>)"

text \<open>A tick of the heartbeat loop, which ends the loop when the row is no longer running; a tick whose
  write fails changes nothing. \<open>ctx.heartbeat()\<close> only writes.\<close>

definition tick_step :: "nat \<Rightarrow> invocation \<Rightarrow> string \<Rightarrow> batch_sys \<Rightarrow> batch_sys" where
  "tick_step n v i s =
     (let (applied, rows) = touchBatchExecutionHeartbeat i (bs_clock s) (bs_rows s)
      in (set_invocation n (v\<lparr>iv_phase := Working applied\<rparr>) s)\<lparr>bs_rows := rows\<rparr>)"

definition heartbeat_step :: "string \<Rightarrow> batch_sys \<Rightarrow> batch_sys" where
  "heartbeat_step i s = s\<lparr>bs_rows := snd (touchBatchExecutionHeartbeat i (bs_clock s) (bs_rows s))\<rparr>"

definition settle_step :: "thrown + batch_counts \<Rightarrow> nat \<Rightarrow> invocation \<Rightarrow> batch_sys \<Rightarrow> batch_sys" where
  "settle_step result n v s = set_invocation n (v\<lparr>iv_phase := Settled result\<rparr>) s"

definition conclude_step :: "thrown + batch_counts \<Rightarrow> string \<Rightarrow> nat \<Rightarrow> invocation \<Rightarrow> batch_sys \<Rightarrow> batch_sys" where
  "conclude_step result i n v s =
     (case result of
        Inr counts \<Rightarrow>
          (set_invocation n (v\<lparr>iv_phase := Releasing (Done_Run i counts)\<rparr>) s)
            \<lparr>bs_rows := snd (markBatchExecutionSucceeded i (bs_clock s) counts (bs_rows s))\<rparr>
      | Inl e \<Rightarrow>
          (set_invocation n (v\<lparr>iv_phase := Releasing (Threw_Run e)\<rparr>) s)
            \<lparr>bs_rows := snd (markBatchExecutionFailed i (bs_clock s) (toSafeBatchErrorCode e)
               \<lparr>processedCount = 0, successCount = 0, failureCount = 0\<rparr> (bs_rows s))\<rparr>)"

definition release_step ::
  "(string \<Rightarrow> int) \<Rightarrow> batch_outcome \<Rightarrow> nat \<Rightarrow> invocation \<Rightarrow> batch_sys \<Rightarrow> batch_sys" where
  "release_step hashtext outcome n v s =
     (set_invocation n (v\<lparr>iv_phase := Ended outcome\<rparr>) s)
       \<lparr>bs_locks := (bs_locks s)(hashtext (lockKey (iv_params v)) := None)\<rparr>"

text \<open>The process dies: its session ends and with it every lock it holds; its row stays.\<close>

definition crash_step :: "nat \<Rightarrow> invocation \<Rightarrow> batch_sys \<Rightarrow> batch_sys" where
  "crash_step n v s =
     (set_invocation n (v\<lparr>iv_phase := Dead\<rparr>) s)
       \<lparr>bs_locks := (\<lambda>k. if bs_locks s k = Some n then None else bs_locks s k)\<rparr>"

definition recover_step :: "batch_sys \<Rightarrow> batch_sys" where
  "recover_step s =
     s\<lparr>bs_rows := snd (recoverStaleBatchExecutions STALE_BATCH_HEARTBEAT_MINUTES (bs_clock s) (bs_rows s))\<rparr>"

inductive batch_step :: "(string \<Rightarrow> int) \<Rightarrow> batch_sys \<Rightarrow> batch_sys \<Rightarrow> bool" for hashtext where
  invoke: "bs_invocations s n = None \<Longrightarrow> dt_ms (bp_now p) = bs_clock s \<Longrightarrow>
    batch_step hashtext s (set_invocation n \<lparr>iv_params = p, iv_phase = Ready, iv_execution = None\<rparr> s)"
| acquire: "bs_invocations s n = Some v \<Longrightarrow> iv_phase v = Ready \<Longrightarrow>
    batch_step hashtext s (acquire_step hashtext n v s)"
| create: "bs_invocations s n = Some v \<Longrightarrow> iv_phase v = Holding \<Longrightarrow> i \<notin> be_id ` set (bs_rows s) \<Longrightarrow>
    batch_step hashtext s (create_step i n v s)"
| tick: "bs_invocations s n = Some v \<Longrightarrow> iv_phase v = Working True \<Longrightarrow> iv_execution v = Some i \<Longrightarrow>
    batch_step hashtext s (tick_step n v i s)"
| heartbeat: "bs_invocations s n = Some v \<Longrightarrow> iv_phase v = Working b \<Longrightarrow> iv_execution v = Some i \<Longrightarrow>
    batch_step hashtext s (heartbeat_step i s)"
| settle: "bs_invocations s n = Some v \<Longrightarrow> iv_phase v = Working b \<Longrightarrow>
    batch_step hashtext s (settle_step result n v s)"
| conclude: "bs_invocations s n = Some v \<Longrightarrow> iv_phase v = Settled result \<Longrightarrow> iv_execution v = Some i \<Longrightarrow>
    batch_step hashtext s (conclude_step result i n v s)"
| release: "bs_invocations s n = Some v \<Longrightarrow> iv_phase v = Releasing outcome \<Longrightarrow>
    batch_step hashtext s (release_step hashtext outcome n v s)"
| crash: "bs_invocations s n = Some v \<Longrightarrow> batch_step hashtext s (crash_step n v s)"
| recover: "batch_step hashtext s (recover_step s)"
| later: "bs_clock s \<le> t \<Longrightarrow> batch_step hashtext s (s\<lparr>bs_clock := t\<rparr>)"

definition batch_init :: "time_ms \<Rightarrow> batch_sys" where
  "batch_init t = \<lparr>bs_rows = [], bs_locks = Map.empty, bs_invocations = Map.empty, bs_clock = t\<rparr>"

inductive batch_reachable :: "(string \<Rightarrow> int) \<Rightarrow> batch_sys \<Rightarrow> bool" for hashtext where
  start: "batch_reachable hashtext (batch_init t)"
| more: "batch_reachable hashtext s \<Longrightarrow> batch_step hashtext s s' \<Longrightarrow> batch_reachable hashtext s'"

section \<open>Finished rows stay as they are\<close>

lemmas row_op_defs =
  touchBatchExecutionHeartbeat_def markBatchExecutionSucceeded_def markBatchExecutionFailed_def
  recoverStaleBatchExecutions_def

lemmas step_defs =
  acquire_step_def create_step_def tick_step_def heartbeat_step_def settle_step_def conclude_step_def
  release_step_def crash_step_def recover_step_def set_invocation_def

text \<open>What a step may do to the rows: append a running one, or change rows that are running, keeping
  their identity.\<close>

definition same_run :: "batch_execution \<Rightarrow> batch_execution \<Rightarrow> bool" where
  "same_run r r' \<longleftrightarrow>
     be_id r' = be_id r \<and> be_executionKey r' = be_executionKey r \<and> be_jobName r' = be_jobName r \<and>
     be_startedAt r' = be_startedAt r"

definition rows_evolve :: "batch_execution list \<Rightarrow> batch_execution list \<Rightarrow> bool" where
  "rows_evolve rows rows' \<longleftrightarrow>
     (\<exists>rows1 new. rows' = rows1 @ new \<and>
        list_all2 (\<lambda>r r'. same_run r r' \<and> (be_status r \<noteq> Batch_RUNNING \<longrightarrow> r' = r)) rows rows1)"

lemma evolve_refl [simp]: "rows_evolve rows rows"
  unfolding rows_evolve_def
  by (intro exI [of _ rows] exI [of _ "[]"]) (simp add: same_run_def list_all2_same)

lemma evolve_append: "rows_evolve rows (rows @ new)"
  unfolding rows_evolve_def
  by (intro exI [of _ rows] exI [of _ new]) (simp add: same_run_def list_all2_same)

lemma evolve_update:
  assumes "\<And>r. P r \<Longrightarrow> be_status r = Batch_RUNNING" "\<And>r. same_run r (f r)"
  shows "rows_evolve rows (update_rows P f rows)"
  unfolding rows_evolve_def using assms
  by (intro exI [of _ "update_rows P f rows"] exI [of _ "[]"])
    (auto simp: update_rows_def list_all2_map2 list_all2_same same_run_def)

lemma evolve_trans:
  assumes "rows_evolve a b" "rows_evolve b c"
  shows "rows_evolve a c"
proof -
  let ?P = "\<lambda>r r'. same_run r r' \<and> (be_status r \<noteq> Batch_RUNNING \<longrightarrow> r' = r)"
  from assms obtain a1 n1 b1 n2 where b: "b = a1 @ n1" "list_all2 ?P a a1"
    and c: "c = b1 @ n2" "list_all2 ?P b b1"
    unfolding rows_evolve_def by blast
  from c(2) obtain x y where xy: "b1 = x @ y" "list_all2 ?P a1 x"
    unfolding b(1) by (auto simp: list_all2_append1)
  have "list_all2 ?P a x"
    by (rule list_all2_trans [OF _ b(2) xy(2)]) (auto simp: same_run_def)
  with c(1) xy(1) show ?thesis
    unfolding rows_evolve_def by (intro exI [of _ x] exI [of _ "y @ n2"]) simp
qed

lemma step_evolves: "batch_step hashtext s s' \<Longrightarrow> rows_evolve (bs_rows s) (bs_rows s')"
  by (induction rule: batch_step.induct)
    (auto simp: step_defs row_op_defs createRunningBatchExecution_def Let_def running_row_def same_run_def
      intro: evolve_append evolve_update split: option.splits sum.splits)

lemma evolved_row:
  assumes "rows_evolve rows rows'" "r \<in> set rows"
  shows "\<exists>r' \<in> set rows'. be_id r' = be_id r \<and> be_executionKey r' = be_executionKey r \<and>
     (be_status r \<noteq> Batch_RUNNING \<longrightarrow> r' = r)"
proof -
  from assms(1) obtain rows1 new where e: "rows' = rows1 @ new"
    "list_all2 (\<lambda>r r'. same_run r r' \<and> (be_status r \<noteq> Batch_RUNNING \<longrightarrow> r' = r)) rows rows1"
    unfolding rows_evolve_def by blast
  from assms(2) obtain k where k: "k < length rows" "rows ! k = r" by (auto simp: in_set_conv_nth)
  with e(2) have "same_run r (rows1 ! k) \<and> (be_status r \<noteq> Batch_RUNNING \<longrightarrow> rows1 ! k = r)"
    "rows1 ! k \<in> set rows1"
    by (auto simp: list_all2_conv_all_nth)
  with e(1) show ?thesis by (auto simp: same_run_def)
qed

text \<open>C20: Once an execution is recorded as succeeded or failed, its row never changes again, whatever
  invocations, heartbeats, recoveries and crashes follow, and no row disappears or changes its key.\<close>

theorem finished_rows_final:
  assumes "rtranclp (batch_step hashtext) s s'" "r \<in> set (bs_rows s)"
  shows "\<exists>r' \<in> set (bs_rows s'). be_id r' = be_id r \<and> be_executionKey r' = be_executionKey r \<and>
    (be_status r \<noteq> Batch_RUNNING \<longrightarrow> r' = r)"
proof -
  from assms(1) have "rows_evolve (bs_rows s) (bs_rows s')"
    by (induction rule: rtranclp_induct) (auto intro: evolve_trans step_evolves)
  with assms(2) show ?thesis
    using evolved_row by blast
qed

section \<open>Locks and windows\<close>

definition inside :: "invocation \<Rightarrow> bool" where
  "inside v \<longleftrightarrow> (case iv_phase v of Ready \<Rightarrow> False | Ended _ \<Rightarrow> False | Dead \<Rightarrow> False | _ \<Rightarrow> True)"

definition keys_distinct :: "batch_sys \<Rightarrow> bool" where
  "keys_distinct s \<longleftrightarrow> distinct (map be_id (bs_rows s)) \<and> distinct (map be_executionKey (bs_rows s))"

definition locks_held :: "(string \<Rightarrow> int) \<Rightarrow> batch_sys \<Rightarrow> bool" where
  "locks_held hashtext s \<longleftrightarrow>
     (\<forall>n v. bs_invocations s n = Some v \<longrightarrow> inside v \<longrightarrow>
        bs_locks s (hashtext (lockKey (iv_params v))) = Some n)"

definition runs_recorded :: "batch_sys \<Rightarrow> bool" where
  "runs_recorded s \<longleftrightarrow>
     (\<forall>n v i. bs_invocations s n = Some v \<longrightarrow> iv_execution v = Some i \<longrightarrow>
        (\<exists>r \<in> set (bs_rows s). be_id r = i \<and> be_executionKey r = executionKey (iv_params v)))"

definition runs_apart :: "batch_sys \<Rightarrow> bool" where
  "runs_apart s \<longleftrightarrow>
     (\<forall>n v m w i. bs_invocations s n = Some v \<longrightarrow> bs_invocations s m = Some w \<longrightarrow>
        iv_execution v = Some i \<longrightarrow> iv_execution w = Some i \<longrightarrow> n = m)"

definition not_started :: "batch_sys \<Rightarrow> bool" where
  "not_started s \<longleftrightarrow>
     (\<forall>n v. bs_invocations s n = Some v \<longrightarrow> iv_phase v = Ready \<or> iv_phase v = Holding \<longrightarrow> iv_execution v = None)"

lemmas batch_inv_defs = keys_distinct_def locks_held_def runs_recorded_def runs_apart_def not_started_def

definition batch_inv :: "(string \<Rightarrow> int) \<Rightarrow> batch_sys \<Rightarrow> bool" where
  "batch_inv hashtext s \<longleftrightarrow>
     keys_distinct s \<and> locks_held hashtext s \<and> runs_recorded s \<and> runs_apart s \<and> not_started s"

lemma keys_distinct_step: "batch_step hashtext s s' \<Longrightarrow> keys_distinct s \<Longrightarrow> keys_distinct s'"
  by (induction rule: batch_step.induct)
    (auto simp: keys_distinct_def step_defs Let_def row_op_defs map_update_rows
      createRunningBatchExecution_def split: option.splits sum.splits)

lemma locks_held_step: "batch_step hashtext s s' \<Longrightarrow> locks_held hashtext s \<Longrightarrow> locks_held hashtext s'"
proof (induction rule: batch_step.induct)
  case (acquire s n v)
  then have "\<not> inside w" if "bs_invocations s m = Some w" "bs_locks s (hashtext (lockKey (iv_params v))) = None"
      "hashtext (lockKey (iv_params w)) = hashtext (lockKey (iv_params v))" for m w
    using that unfolding locks_held_def by (metis option.distinct(1))
  with acquire show ?case
    unfolding locks_held_def
    by (auto simp: acquire_step_def set_invocation_def Let_def split: option.splits) (auto simp: inside_def)
next
  case (release s n v outcome)
  then have "inside v" by (simp add: inside_def)
  with release have "m = n" if "bs_invocations s m = Some w" "inside w"
      "hashtext (lockKey (iv_params w)) = hashtext (lockKey (iv_params v))" for m w
    using that unfolding locks_held_def by (metis option.inject)
  with release show ?case
    unfolding locks_held_def by (auto simp: release_step_def set_invocation_def) (auto simp: inside_def)
qed (auto simp: locks_held_def step_defs row_op_defs inside_def Let_def createRunningBatchExecution_def
    split: option.splits sum.splits)

text \<open>What a step does to an invocation: it may end it without an execution, or create its row.\<close>

lemma step_execution:
  assumes "batch_step hashtext s s'" "bs_invocations s' n = Some v'" "iv_execution v' = Some i" "not_started s"
  shows "(\<exists>v. bs_invocations s n = Some v \<and> iv_execution v = Some i \<and> iv_params v = iv_params v') \<or>
    i \<notin> be_id ` set (bs_rows s) \<and> (\<exists>r \<in> set (bs_rows s'). be_id r = i \<and> be_executionKey r = executionKey (iv_params v')) \<and>
    (\<forall>m w. m \<noteq> n \<longrightarrow> bs_invocations s' m = bs_invocations s m)"
  using assms
  by (induction rule: batch_step.induct)
    (auto simp: step_defs row_op_defs Let_def createRunningBatchExecution_def not_started_def
      split: option.splits sum.splits if_splits)

lemma runs_recorded_step:
  assumes "batch_step hashtext s s'" "runs_recorded s" "not_started s"
  shows "runs_recorded s'"
  unfolding runs_recorded_def
proof (intro allI impI)
  fix n v' i
  assume v': "bs_invocations s' n = Some v'" "iv_execution v' = Some i"
  from step_execution [OF assms(1) v' assms(3)]
  show "\<exists>r \<in> set (bs_rows s'). be_id r = i \<and> be_executionKey r = executionKey (iv_params v')"
    using assms(2) evolved_row [OF step_evolves [OF assms(1)]] unfolding runs_recorded_def by metis
qed

lemma runs_apart_step:
  assumes "batch_step hashtext s s'" "runs_apart s" "runs_recorded s" "not_started s"
  shows "runs_apart s'"
  unfolding runs_apart_def
proof (intro allI impI)
  fix n v m w i
  assume v: "bs_invocations s' n = Some v" "bs_invocations s' m = Some w"
    "iv_execution v = Some i" "iv_execution w = Some i"
  have recorded: "i \<in> be_id ` set (bs_rows s)" if "bs_invocations s k = Some u" "iv_execution u = Some i" for k u
    using assms(3) that unfolding runs_recorded_def by blast
  from step_execution [OF assms(1) v(1,3) assms(4)] step_execution [OF assms(1) v(2,4) assms(4)]
  show "n = m"
    using assms(2) recorded v unfolding runs_apart_def by metis
qed

lemma not_started_step: "batch_step hashtext s s' \<Longrightarrow> not_started s \<Longrightarrow> not_started s'"
  by (induction rule: batch_step.induct)
    (auto simp: not_started_def step_defs row_op_defs Let_def createRunningBatchExecution_def
      split: option.splits sum.splits)

lemma reachable_inv: "batch_reachable hashtext s \<Longrightarrow> batch_inv hashtext s"
proof (induction rule: batch_reachable.induct)
  case (start t)
  show ?case by (simp add: batch_inv_def batch_inv_defs batch_init_def)
next
  case (more s s')
  then show ?case
    using keys_distinct_step locks_held_step runs_recorded_step runs_apart_step not_started_step
    unfolding batch_inv_def by blast
qed

text \<open>C19: In every reachable state: two invocations between taking and giving back the lock have different
  lock keys, so a queue job never runs twice at once; and no two invocations that ever started their
  job have the same execution key, so an hourly or daily job starts at most once in its window, even
  when the first run failed or its process died.\<close>

theorem batch_runs_exclusive:
  assumes "batch_reachable hashtext s" "bs_invocations s n = Some v" "bs_invocations s m = Some w" "n \<noteq> m"
  shows "(inside v \<and> inside w \<longrightarrow> lockKey (iv_params v) \<noteq> lockKey (iv_params w)) \<and>
    (iv_execution v \<noteq> None \<and> iv_execution w \<noteq> None \<longrightarrow>
       executionKey (iv_params v) \<noteq> executionKey (iv_params w)) \<and>
    (\<forall>r \<in> set (bs_rows s). iv_phase v = Holding \<and> be_executionKey r = executionKey (iv_params v) \<longrightarrow>
       create_step i n v s = set_invocation n (v\<lparr>iv_phase := Releasing Skipped\<rparr>) s)"
proof -
  note inv = reachable_inv [OF assms(1), unfolded batch_inv_def]
  have "lockKey (iv_params v) \<noteq> lockKey (iv_params w)" if "inside v" "inside w"
    using inv assms(2-4) that unfolding locks_held_def by (metis option.inject)
  moreover have "executionKey (iv_params v) \<noteq> executionKey (iv_params w)"
    if "iv_execution v = Some a" "iv_execution w = Some b" for a b
  proof
    assume same: "executionKey (iv_params v) = executionKey (iv_params w)"
    from inv assms(2,3) that obtain r q where
      r: "r \<in> set (bs_rows s)" "be_id r = a" "be_executionKey r = executionKey (iv_params v)" and
      q: "q \<in> set (bs_rows s)" "be_id q = b" "be_executionKey q = executionKey (iv_params w)"
      unfolding runs_recorded_def by blast
    have "r = q" using inv r q same unfolding keys_distinct_def by (metis distinct_map inj_onD)
    with inv assms(2-4) that r q show False unfolding runs_apart_def by blast
  qed
  ultimately show ?thesis
    by (auto simp: create_step_def createRunningBatchExecution_def Let_def)
qed

section \<open>Heartbeats\<close>

definition alive :: "invocation \<Rightarrow> bool" where
  "alive v \<longleftrightarrow> (case iv_phase v of Working _ \<Rightarrow> True | Settled _ \<Rightarrow> True | _ \<Rightarrow> False)"

text \<open>The row of no run in progress has a heartbeat older than the threshold.\<close>

definition on_time :: "batch_sys \<Rightarrow> bool" where
  "on_time s \<longleftrightarrow>
     (\<forall>n v r. bs_invocations s n = Some v \<longrightarrow> alive v \<longrightarrow> r \<in> set (bs_rows s) \<longrightarrow>
        iv_execution v = Some (be_id r) \<longrightarrow> bs_clock s \<le> be_heartbeatAt r + STALE_BATCH_HEARTBEAT_MS)"

inductive punctual :: "(string \<Rightarrow> int) \<Rightarrow> batch_sys \<Rightarrow> bool" for hashtext where
  start: "punctual hashtext (batch_init t)"
| more: "punctual hashtext s \<Longrightarrow> batch_step hashtext s s' \<Longrightarrow> on_time s' \<Longrightarrow> punctual hashtext s'"

definition running_rows :: "batch_sys \<Rightarrow> bool" where
  "running_rows s \<longleftrightarrow>
     (\<forall>n v r. bs_invocations s n = Some v \<longrightarrow> alive v \<longrightarrow> r \<in> set (bs_rows s) \<longrightarrow>
        iv_execution v = Some (be_id r) \<longrightarrow> be_status r = Batch_RUNNING)"

lemma running_rows_step:
  assumes "batch_step hashtext s s'" "running_rows s" "on_time s" "batch_inv hashtext s"
  shows "running_rows s'"
  using assms
proof (induction rule: batch_step.induct)
  case (create s n v i)
  then have "i \<noteq> j" if "bs_invocations s m = Some w" "iv_execution w = Some j" for m w j
    using that unfolding batch_inv_def runs_recorded_def by blast
  with create show ?case
    unfolding running_rows_def
    by (auto simp: create_step_def set_invocation_def createRunningBatchExecution_def Let_def split: option.splits)
      (auto simp: alive_def)
next
  case (conclude s n v result i)
  then have "iv_execution w \<noteq> Some i" if "bs_invocations s m = Some w" "m \<noteq> n" for m w
    using that unfolding batch_inv_def runs_apart_def by blast
  with conclude show ?case
    unfolding running_rows_def
    by (auto simp: conclude_step_def set_invocation_def row_op_defs set_update_rows running_row_def alive_def
        split: sum.splits if_splits)
next
  case (recover s)
  show ?case
    unfolding running_rows_def
  proof (intro allI impI)
    fix n v r'
    assume a: "bs_invocations (recover_step s) n = Some v" "alive v" "r' \<in> set (bs_rows (recover_step s))"
      "iv_execution v = Some (be_id r')"
    obtain r where r: "r \<in> set (bs_rows s)" "be_id r = be_id r'"
      "r' = r \<or> be_heartbeatAt r < bs_clock s - int STALE_BATCH_HEARTBEAT_MINUTES * 60 * 1000"
      using a(3) by (auto simp: recover_step_def row_op_defs Let_def set_update_rows split: if_splits)
    have inv: "bs_invocations s n = Some v" using a(1) by (simp add: recover_step_def)
    have "bs_clock s \<le> be_heartbeatAt r + STALE_BATCH_HEARTBEAT_MS"
      using recover(2) inv a(2,4) r(1,2) unfolding on_time_def by metis
    with r(3) have "r' = r" by (simp add: STALE_BATCH_HEARTBEAT_MS_def)
    with recover(1) inv a(2,4) r(1) show "be_status r' = Batch_RUNNING"
      unfolding running_rows_def by blast
  qed
next
  case (tick s n v i)
  then have "alive v" by (simp add: alive_def)
  with tick show ?case
    unfolding running_rows_def
    by (auto simp: tick_step_def set_invocation_def row_op_defs set_update_rows split: if_splits)
next
  case (heartbeat s n v b i)
  then show ?case
    unfolding running_rows_def
    by (auto simp: heartbeat_step_def row_op_defs set_update_rows)
next
  case (settle s n v b result)
  then have "alive v" by (simp add: alive_def)
  with settle show ?case
    unfolding running_rows_def by (auto simp: settle_step_def set_invocation_def split: if_splits)
next
  case (acquire s n v)
  then show ?case
    unfolding running_rows_def
    by (auto simp: acquire_step_def set_invocation_def Let_def alive_def split: option.splits if_splits)
qed (auto simp: running_rows_def invocation.defs set_invocation_def release_step_def crash_step_def alive_def split: if_splits)

lemma punctual_facts:
  "punctual hashtext s \<Longrightarrow> batch_reachable hashtext s \<and> on_time s \<and> running_rows s"
proof (induction rule: punctual.induct)
  case (start t)
  have "on_time (batch_init t)" "running_rows (batch_init t)"
    by (simp_all add: on_time_def running_rows_def batch_init_def)
  then show ?case by (simp add: batch_reachable.start)
next
  case (more s s')
  then show ?case
    using batch_reachable.more running_rows_step reachable_inv by blast
qed

text \<open>C21: As long as no run in progress is later with a heartbeat than the thirty minutes of the stale
  threshold, recovery never takes a live run for dead: when its job body ends, the terminal write
  applies and the row tells the outcome and the counts of the run.\<close>

theorem punctual_run_recorded:
  assumes "punctual hashtext s" "bs_invocations s n = Some v" "iv_phase v = Settled result"
    and "iv_execution v = Some i"
  shows "\<exists>r \<in> set (bs_rows (conclude_step result i n v s)). be_id r = i \<and>
    be_executionKey r = executionKey (iv_params v) \<and> be_completedAt r = Some (bs_clock s) \<and>
    (case result of
       Inr counts \<Rightarrow> be_status r = Batch_SUCCEEDED \<and> be_counts r = counts
     | Inl e \<Rightarrow> be_status r = Batch_FAILED \<and> be_errorCode r = Some (toSafeBatchErrorCode e))"
proof -
  from punctual_facts [OF assms(1)] have facts: "batch_inv hashtext s" "running_rows s"
    using reachable_inv by blast+
  with assms(2-4) obtain r where r: "r \<in> set (bs_rows s)" "be_id r = i"
    "be_executionKey r = executionKey (iv_params v)"
    unfolding batch_inv_def runs_recorded_def by blast
  with facts(2) assms(2-4) have "be_status r = Batch_RUNNING"
    by (auto simp: running_rows_def alive_def)
  with r(2) have run: "running_row i r" by (simp add: running_row_def)
  have "f r \<in> set (update_rows (running_row i) f (bs_rows s))" for f
    using r(1) run by (force simp: set_update_rows)
  note member = this
  show ?thesis
  proof (cases result)
    case (Inr c)
    let ?f = "\<lambda>r. r\<lparr>be_status := Batch_SUCCEEDED, be_completedAt := Some (bs_clock s), be_counts := c\<rparr>"
    have "bs_rows (conclude_step result i n v s) = update_rows (running_row i) ?f (bs_rows s)"
      using Inr by (simp add: conclude_step_def row_op_defs)
    with member [of ?f] r Inr show ?thesis by (intro bexI [of _ "?f r"]) simp_all
  next
    case (Inl e)
    let ?f = "\<lambda>r. r\<lparr>be_status := Batch_FAILED, be_completedAt := Some (bs_clock s),
        be_errorCode := Some (toSafeBatchErrorCode e),
        be_counts := \<lparr>processedCount = 0, successCount = 0, failureCount = 0\<rparr>\<rparr>"
    have "bs_rows (conclude_step result i n v s) = update_rows (running_row i) ?f (bs_rows s)"
      using Inl by (simp add: conclude_step_def row_op_defs)
    with member [of ?f] r Inl show ?thesis by (intro bexI [of _ "?f r"]) simp_all
  qed
qed

section \<open>The lock of a window does not reach into the next\<close>

lemma overlap_reachable:
  assumes "dt_ms (bp_now p) \<le> dt_ms (bp_now q)" "hashtext (lockKey p) \<noteq> hashtext (lockKey q)"
    and "executionKey p \<noteq> executionKey q"
  shows "\<exists>s v w. batch_reachable hashtext s \<and> bs_invocations s 0 = Some v \<and> bs_invocations s 1 = Some w \<and>
    iv_params v = p \<and> iv_params w = q \<and> iv_phase v = Working True \<and> iv_phase w = Working True"
proof -
  let ?v = "\<lambda>p. \<lparr>iv_params = p, iv_phase = Ready, iv_execution = None\<rparr>"
  let ?s0 = "batch_init (dt_ms (bp_now p))"
  let ?s1 = "set_invocation 0 (?v p) ?s0"
  let ?s2 = "acquire_step hashtext 0 (?v p) ?s1"
  let ?s3 = "create_step ''a'' 0 ((?v p)\<lparr>iv_phase := Holding\<rparr>) ?s2"
  let ?s4 = "?s3\<lparr>bs_clock := dt_ms (bp_now q)\<rparr>"
  let ?s5 = "set_invocation 1 (?v q) ?s4"
  let ?s6 = "acquire_step hashtext 1 (?v q) ?s5"
  let ?s7 = "create_step ''b'' 1 ((?v q)\<lparr>iv_phase := Holding\<rparr>) ?s6"
  note eval = batch_init_def set_invocation_def acquire_step_def create_step_def
    createRunningBatchExecution_def Let_def
  have 1: "batch_reachable hashtext ?s1"
    by (rule batch_reachable.more [OF batch_reachable.start batch_step.invoke]) (simp_all add: batch_init_def)
  have 2: "batch_reachable hashtext ?s2"
    by (rule batch_reachable.more [OF 1 batch_step.acquire]) (simp_all add: eval)
  have 3: "batch_reachable hashtext ?s3"
    by (rule batch_reachable.more [OF 2 batch_step.create]) (simp_all add: eval)
  have 4: "batch_reachable hashtext ?s4"
    by (rule batch_reachable.more [OF 3 batch_step.later]) (simp add: eval assms(1))
  have 5: "batch_reachable hashtext ?s5"
    by (rule batch_reachable.more [OF 4 batch_step.invoke]) (simp_all add: eval)
  have 6: "batch_reachable hashtext ?s6"
    by (rule batch_reachable.more [OF 5 batch_step.acquire]) (simp_all add: eval)
  have 7: "batch_reachable hashtext ?s7"
    by (rule batch_reachable.more [OF 6 batch_step.create]) (use assms(2) in \<open>simp_all add: eval\<close>)
  show ?thesis
    by (rule exI [of _ ?s7]) (use 7 assms(2,3) in \<open>simp add: eval\<close>)
qed

text \<open>The advisory lock of an hourly or daily job is named after its window. A run that is still going
  when the next window starts does not keep the next run, nor a forced one, from starting: two
  instances of the same job run at once.\<close>

theorem windows_overlap:
  assumes "dt_ms (bp_now p) \<le> dt_ms (bp_now q)" "hashtext (lockKey p) \<noteq> hashtext (lockKey q)"
    and "executionKey p \<noteq> executionKey q"
  shows "\<exists>s v w. batch_reachable hashtext s \<and> bs_invocations s 0 = Some v \<and> bs_invocations s 1 = Some w \<and>
    iv_params v = p \<and> iv_params w = q \<and> iv_phase v = Working True \<and> iv_phase w = Working True"
  using overlap_reachable [OF assms] .

definition demo_midnight :: "nat \<Rightarrow> bool \<Rightarrow> batch_params" where
  "demo_midnight d forced = \<lparr>bp_jobName = ''files'', bp_cadence = Daily,
     bp_now = \<lparr>dt_ms = int d, dt_year = 2026, dt_month = 8, dt_day = d, dt_hour = 0, dt_minute = 0,
       dt_second = 0, dt_milli = 0\<rparr>, bp_force = forced, bp_uuid = ''u'', bp_lockedBy = ''h''\<rparr>"

lemmas key_eval = demo_midnight_def lockKey_def executionKey_def buildLockKey_def buildExecutionKey_def
  isoDate_def isoHour_def toISOString_def pad_def pad_start_def nat_str.simps

theorem windows_overlap_witness:
  "\<exists>s v w. batch_reachable (\<lambda>k. if k = ''files:2026-08-06'' then 0 else 1) s \<and>
     bs_invocations s 0 = Some v \<and> bs_invocations s 1 = Some w \<and>
     bp_jobName (iv_params v) = bp_jobName (iv_params w) \<and> bp_force (iv_params w) \<and>
     iv_phase v = Working True \<and> iv_phase w = Working True"
proof -
  have keys: "lockKey (demo_midnight 6 False) = ''files:2026-08-06''" "lockKey (demo_midnight 7 True) = ''files:2026-08-07''"
    "executionKey (demo_midnight 6 False) = ''files:2026-08-06''"
    "executionKey (demo_midnight 7 True) = ''files:2026-08-07:forced:u''"
    by (simp_all add: key_eval char_of_def bit_0)
  have "dt_ms (bp_now (demo_midnight 6 False)) \<le> dt_ms (bp_now (demo_midnight 7 True))"
    "bp_jobName (demo_midnight 6 False) = bp_jobName (demo_midnight 7 True)" "bp_force (demo_midnight 7 True)"
    by (simp_all add: demo_midnight_def)
  then show ?thesis
    using windows_overlap [of "demo_midnight 6 False" "demo_midnight 7 True"
        "\<lambda>k. if k = ''files:2026-08-06'' then 0 else 1"]
    by (auto simp: keys)
qed

text \<open>A heartbeat and a late success after recovery took the run for dead.\<close>

theorem finished_rows_final_witness:
  "\<exists>r s. be_status r = Batch_FAILED \<and> be_errorCode r = Some ORPHANED_ERROR_CODE \<and>
     bs_invocations s 0 = Some \<lparr>iv_params = demo_midnight 6 False, iv_phase = Working True, iv_execution = Some (be_id r)\<rparr> \<and>
     r \<in> set (bs_rows (heartbeat_step (be_id r) s))"
proof -
  let ?r = "\<lparr>be_id = ''a'', be_jobName = ''files'', be_executionKey = ''k'', be_status = Batch_FAILED,
     be_startedAt = 0, be_completedAt = Some 1, be_heartbeatAt = 0, be_lockedBy = ''h'',
     be_counts = \<lparr>processedCount = 0, successCount = 0, failureCount = 0\<rparr>,
     be_errorCode = Some ORPHANED_ERROR_CODE\<rparr>"
  let ?v = "\<lparr>iv_params = demo_midnight 6 False, iv_phase = Working True, iv_execution = Some ''a''\<rparr>"
  let ?s = "\<lparr>bs_rows = [?r], bs_locks = Map.empty, bs_invocations = [0 \<mapsto> ?v], bs_clock = 5\<rparr>"
  have "batch_step (\<lambda>_. 0) ?s (heartbeat_step ''a'' ?s)"
    by (rule batch_step.heartbeat [of _ 0 ?v]) simp_all
  then have "rtranclp (batch_step (\<lambda>_. 0)) ?s (heartbeat_step ''a'' ?s)" by (rule r_into_rtranclp)
  from finished_rows_final [OF this, of ?r] have "?r \<in> set (bs_rows (heartbeat_step ''a'' ?s))" by simp
  then show ?thesis by (intro exI [of _ ?r] exI [of _ ?s]) simp
qed

theorem batch_runs_exclusive_witness:
  "\<exists>s v w. batch_reachable (\<lambda>k. int (length k)) s \<and> bs_invocations s 0 = Some v \<and> bs_invocations s 1 = Some w \<and>
     iv_phase v = Working True \<and> iv_phase w = Working True \<and> bp_now (iv_params v) = bp_now (iv_params w) \<and>
     lockKey (iv_params v) \<noteq> lockKey (iv_params w)"
proof -
  let ?p = "(demo_midnight 6 False)\<lparr>bp_cadence := Instant\<rparr>"
  let ?q = "?p\<lparr>bp_jobName := ''mail''\<rparr>"
  have keys: "lockKey ?p = ''files''" "lockKey ?q = ''mail''" "executionKey ?p \<noteq> executionKey ?q"
    by (simp_all add: lockKey_def executionKey_def buildLockKey_def buildExecutionKey_def demo_midnight_def)
  then obtain s v w where s: "batch_reachable (\<lambda>k. int (length k)) s" "bs_invocations s 0 = Some v"
    "bs_invocations s 1 = Some w" "iv_params v = ?p" "iv_params w = ?q" "iv_phase v = Working True"
    "iv_phase w = Working True"
    using overlap_reachable [of ?p ?q "\<lambda>k. int (length k)"] by auto
  from batch_runs_exclusive [OF s(1-3)] s(6,7)
  have "lockKey (iv_params v) \<noteq> lockKey (iv_params w)" by (simp add: inside_def)
  moreover have "bp_now (iv_params v) = bp_now (iv_params w)" using s(4,5) by simp
  ultimately show ?thesis using s by blast
qed

theorem punctual_run_recorded_witness:
  "\<exists>s v. punctual (\<lambda>_. 0) s \<and> bs_invocations s 0 = Some v \<and>
     (\<exists>r \<in> set (bs_rows (conclude_step (Inl Thrown_Value) ''a'' 0 v s)). be_id r = ''a'' \<and>
        be_status r = Batch_FAILED \<and> be_errorCode r = Some ''UNKNOWN_ERROR'')"
proof -
  let ?p = "demo_midnight 6 False"
  let ?v = "\<lparr>iv_params = ?p, iv_phase = Ready, iv_execution = None\<rparr>"
  let ?w = "\<lparr>iv_params = ?p, iv_phase = Working True, iv_execution = Some ''a''\<rparr>"
  let ?s0 = "batch_init (dt_ms (bp_now ?p))"
  let ?s1 = "set_invocation 0 ?v ?s0"
  let ?s2 = "acquire_step (\<lambda>_. 0) 0 ?v ?s1"
  let ?s3 = "create_step ''a'' 0 (?v\<lparr>iv_phase := Holding\<rparr>) ?s2"
  let ?s4 = "settle_step (Inl Thrown_Value) 0 ?w ?s3"
  note eval = batch_init_def set_invocation_def acquire_step_def create_step_def settle_step_def
    createRunningBatchExecution_def Let_def
  have 1: "punctual (\<lambda>_. 0) ?s1"
    by (rule punctual.more [OF punctual.start batch_step.invoke]) (simp_all add: eval on_time_def alive_def)
  have 2: "punctual (\<lambda>_. 0) ?s2"
    by (rule punctual.more [OF 1 batch_step.acquire]) (simp_all add: eval on_time_def alive_def)
  have 3: "punctual (\<lambda>_. 0) ?s3"
    by (rule punctual.more [OF 2 batch_step.create]) (simp_all add: eval on_time_def STALE_BATCH_HEARTBEAT_MS_def)
  have 4: "punctual (\<lambda>_. 0) ?s4"
    by (rule punctual.more [OF 3 batch_step.settle])
      (simp_all add: eval on_time_def STALE_BATCH_HEARTBEAT_MS_def)
  have v: "bs_invocations ?s4 0 = Some (?w\<lparr>iv_phase := Settled (Inl Thrown_Value)\<rparr>)" by (simp add: eval)
  from punctual_run_recorded [OF 4 v, of "Inl Thrown_Value" "''a''"] 4 v show ?thesis
    by (intro exI [of _ ?s4] exI [of _ "?w\<lparr>iv_phase := Settled (Inl Thrown_Value)\<rparr>"]) auto
qed

end
