(* ===== verification/ClauseDiff.thy ===== *)
theory ClauseDiff
  imports Complex_Main JsText "HOL-Library.Sublist"
begin

text \<open>
  The comparison of a contract clause with a standard clause (\<^verbatim>\<open>domain/clauses/clause-diff.ts\<close>): lines,
  the table of longest common subsequences with the walk through it, the similarity, and the
  numbers, dates and amounts only one side mentions. The walk is equal to a recursive difference,
  rebuilds both texts and keeps as many common lines as any alignment can.
\<close>

section \<open>Lines\<close>

text \<open>\<^verbatim>\<open>text.split(/\r?\n/)\<close>\<close>

fun drop_returns :: "jstring list \<Rightarrow> jstring list" where
  "drop_returns (p # q # ps) =
     (if p \<noteq> [] \<and> last p = 13 then butlast p else p) # drop_returns (q # ps)"
| "drop_returns ps = ps"

definition splitLines :: "jstring \<Rightarrow> jstring list" where
  "splitLines t = filter (\<lambda>line. line \<noteq> []) (map js_trim (drop_returns (split_on 10 t)))"

section \<open>The table and the walk\<close>

datatype segment_kind = Same | Added | Removed

type_synonym 'a segments = "(segment_kind \<times> 'a) list"

text \<open>Row \<open>i\<close> of the table from row \<open>i + 1\<close>, from the last column to the first; the table from the last
  row to the first.\<close>

fun lcs_row :: "'a \<Rightarrow> 'a list \<Rightarrow> nat list \<Rightarrow> nat list" where
  "lcs_row x [] below = [0]"
| "lcs_row x (y # ys) below =
     (let rest = lcs_row x ys (tl below)
      in (if x = y then hd (tl below) + 1 else max (hd below) (hd rest)) # rest)"

fun lcs_table :: "'a list \<Rightarrow> 'a list \<Rightarrow> nat list list" where
  "lcs_table [] b = [replicate (length b + 1) 0]"
| "lcs_table (x # xs) b = (let t = lcs_table xs b in lcs_row x b (hd t) # t)"

function walk :: "'a list \<Rightarrow> 'a list \<Rightarrow> nat list list \<Rightarrow> nat \<Rightarrow> nat \<Rightarrow> 'a segments \<Rightarrow> 'a segments" where
  "walk a b lcs i j segments =
     (if i < length a \<and> j < length b then
        if a ! i = b ! j then walk a b lcs (i + 1) (j + 1) (segments @ [(Same, a ! i)])
        else if lcs ! (i + 1) ! j \<ge> lcs ! i ! (j + 1)
        then walk a b lcs (i + 1) j (segments @ [(Removed, a ! i)])
        else walk a b lcs i (j + 1) (segments @ [(Added, b ! j)])
      else segments @ map (Pair Removed) (drop i a) @ map (Pair Added) (drop j b))"
  by pat_completeness auto

termination
  by (relation "measure (\<lambda>(a, b, _, i, j, _). (length a - i) + (length b - j))") auto

declare walk.simps [simp del]

definition diff_lists :: "'a list \<Rightarrow> 'a list \<Rightarrow> 'a segments" where
  "diff_lists a b = walk a b (lcs_table a b) 0 0 []"

definition diffLines :: "jstring \<Rightarrow> jstring \<Rightarrow> jstring segments" where
  "diffLines clauseText standardText = diff_lists (splitLines standardText) (splitLines clauseText)"

definition same_part :: "'a segments \<Rightarrow> 'a list" where
  "same_part segments = map snd (filter (\<lambda>s. fst s = Same) segments)"

definition computeLineSimilarity :: "jstring \<Rightarrow> jstring \<Rightarrow> real" where
  "computeLineSimilarity clauseText standardText =
     (let a = splitLines standardText; b = splitLines clauseText
      in if a = [] \<and> b = [] then 1
         else let sameCount = length (same_part (diffLines clauseText standardText));
                  total = length a + length b - sameCount
              in if total = 0 then 1 else real sameCount / real total)"

section \<open>Tokens\<close>

definition comma_or_digit :: "nat \<Rightarrow> bool" where
  "comma_or_digit c \<longleftrightarrow> is_digit_unit c \<or> c = 44"

definition NUMBER_TOKEN_PATTERN :: matcher where
  "NUMBER_TOKEN_PATTERN =
     m_seq [m_class is_digit_unit, m_rep 0 None comma_or_digit,
            m_opt (m_seq [m_lit [46], m_rep 1 None is_digit_unit])]"

definition date_separator :: "nat \<Rightarrow> bool" where
  "date_separator c \<longleftrightarrow> c = 46 \<or> c = 45"

definition DATE_TOKEN_PATTERN :: matcher where
  "DATE_TOKEN_PATTERN =
     m_alt
      [m_seq [m_rep 4 (Some 4) is_digit_unit, m_class date_separator, m_rep 0 (Some 1) is_js_space,
              m_rep 1 (Some 2) is_digit_unit, m_class date_separator, m_rep 0 (Some 1) is_js_space,
              m_rep 1 (Some 2) is_digit_unit, m_opt (m_lit [46])],
       m_seq [m_rep 4 (Some 4) is_digit_unit, m_lit [45380], m_rep 0 None is_js_space,
              m_rep 1 (Some 2) is_digit_unit, m_lit [50900], m_rep 0 None is_js_space,
              m_rep 1 (Some 2) is_digit_unit, m_lit [51068]]]"

definition currency_sign :: "nat \<Rightarrow> bool" where
  "currency_sign c \<longleftrightarrow> c = 8361 \<or> c = 36 \<or> c = 165 \<or> c = 8364"

definition AMOUNT_TOKEN_PATTERN :: matcher where
  "AMOUNT_TOKEN_PATTERN =
     m_alt
      [m_seq [m_rep 0 (Some 1) currency_sign, m_rep 0 (Some 1) is_js_space, m_rep 1 None comma_or_digit,
              m_rep 0 (Some 1) is_js_space, m_lit [50896]],
       m_seq [m_class is_digit_unit, m_rep 0 None comma_or_digit, m_rep 0 (Some 1) is_js_space,
              m_alt [m_lit [47564], m_lit [50613], m_lit [51312]], m_rep 0 (Some 1) is_js_space,
              m_opt (m_lit [50896])]]"

definition extractTokens :: "jstring \<Rightarrow> matcher \<Rightarrow> jstring list" where
  "extractTokens t pattern = map js_trim (match_all pattern t)"

definition symmetricDifference :: "jstring list \<Rightarrow> jstring list \<Rightarrow> jstring list \<times> jstring list" where
  "symmetricDifference a b = (filter (\<lambda>x. x \<notin> set b) a, filter (\<lambda>x. x \<notin> set a) b)"

record token_difference =
  onlyInStandard :: "jstring list"
  onlyInClause :: "jstring list"

record clause_comparison =
  cc_identical :: bool
  cc_similarity :: real
  cc_lineDiff :: "jstring segments"
  cc_numberDifference :: token_difference
  cc_dateDifference :: token_difference
  cc_amountDifference :: token_difference

definition token_differences :: "jstring \<Rightarrow> jstring \<Rightarrow> matcher \<Rightarrow> token_difference" where
  "token_differences clauseText standardText pattern =
     (let (onlyA, onlyB) = symmetricDifference (extractTokens standardText pattern) (extractTokens clauseText pattern)
      in \<lparr>onlyInStandard = onlyA, onlyInClause = onlyB\<rparr>)"

definition compareClauseToStandard :: "jstring \<Rightarrow> jstring \<Rightarrow> clause_comparison" where
  "compareClauseToStandard clauseText standardText =
     \<lparr>cc_identical = (js_trim clauseText = js_trim standardText),
      cc_similarity = computeLineSimilarity clauseText standardText,
      cc_lineDiff = diffLines clauseText standardText,
      cc_numberDifference = token_differences clauseText standardText NUMBER_TOKEN_PATTERN,
      cc_dateDifference = token_differences clauseText standardText DATE_TOKEN_PATTERN,
      cc_amountDifference = token_differences clauseText standardText AMOUNT_TOKEN_PATTERN\<rparr>"

section \<open>The table holds the lengths\<close>

fun lcs_len :: "'a list \<Rightarrow> 'a list \<Rightarrow> nat" where
  "lcs_len [] ys = 0"
| "lcs_len xs [] = 0"
| "lcs_len (x # xs) (y # ys) =
     (if x = y then lcs_len xs ys + 1 else max (lcs_len xs (y # ys)) (lcs_len (x # xs) ys))"

fun tails :: "'a list \<Rightarrow> 'a list list" where
  "tails [] = [[]]"
| "tails (x # xs) = (x # xs) # tails xs"

lemma lcs_len_Nil [simp]: "lcs_len xs [] = 0"
  by (cases xs) simp_all

lemma hd_tails [simp]: "hd (tails xs) = xs" "tails xs \<noteq> []"
  by (cases xs; simp)+

lemma nth_tails: "i \<le> length xs \<Longrightarrow> tails xs ! i = drop i xs"
  by (induction xs arbitrary: i) (auto simp: nth_Cons split: nat.split)

lemma length_tails [simp]: "length (tails xs) = length xs + 1"
  by (induction xs) simp_all

lemma lcs_row_exact: "lcs_row x b (map (lcs_len xs) (tails b)) = map (lcs_len (x # xs)) (tails b)"
  by (induction b) (simp_all add: Let_def hd_map)

lemma lcs_table_exact: "lcs_table a b = map (\<lambda>s. map (lcs_len s) (tails b)) (tails a)"
proof (induction a)
  case Nil
  have "map (lcs_len []) (tails b) = replicate (length b + 1) 0"
    by (induction b) simp_all
  then show ?case by simp
next
  case (Cons x xs)
  then show ?case by (simp add: Let_def hd_map lcs_row_exact)
qed

lemma lcs_table_at:
  "i \<le> length a \<Longrightarrow> j \<le> length b \<Longrightarrow> lcs_table a b ! i ! j = lcs_len (drop i a) (drop j b)"
  by (simp add: lcs_table_exact nth_tails)

section \<open>The walk is the recursive difference\<close>

fun diff_spec :: "'a list \<Rightarrow> 'a list \<Rightarrow> 'a segments" where
  "diff_spec [] ys = map (Pair Added) ys"
| "diff_spec xs [] = map (Pair Removed) xs"
| "diff_spec (x # xs) (y # ys) =
     (if x = y then (Same, x) # diff_spec xs ys
      else if lcs_len xs (y # ys) \<ge> lcs_len (x # xs) ys then (Removed, x) # diff_spec xs (y # ys)
      else (Added, y) # diff_spec (x # xs) ys)"

lemma diff_spec_Nil [simp]: "diff_spec xs [] = map (Pair Removed) xs"
  by (cases xs) simp_all

lemma walk_exact:
  "i \<le> length a \<Longrightarrow> j \<le> length b \<Longrightarrow>
   walk a b (lcs_table a b) i j segments = segments @ diff_spec (drop i a) (drop j b)"
proof (induction "(length a - i) + (length b - j)" arbitrary: i j segments rule: less_induct)
  case less
  show ?case
  proof (cases "i < length a \<and> j < length b")
    case True
    then have cons: "drop i a = a ! i # drop (i + 1) a" "drop j b = b ! j # drop (j + 1) b"
      by (simp_all add: Cons_nth_drop_Suc)
    have at: "lcs_table a b ! (i + 1) ! j = lcs_len (drop (i + 1) a) (b ! j # drop (j + 1) b)"
      "lcs_table a b ! i ! (j + 1) = lcs_len (a ! i # drop (i + 1) a) (drop (j + 1) b)"
      using True lcs_table_at [of "i + 1" a j b] lcs_table_at [of i a "j + 1" b] cons by simp_all
    have next_step: "walk a b (lcs_table a b) (i + 1) (j + 1) segs = segs @ diff_spec (drop (i + 1) a) (drop (j + 1) b)"
      "walk a b (lcs_table a b) (i + 1) j segs = segs @ diff_spec (drop (i + 1) a) (drop j b)"
      "walk a b (lcs_table a b) i (j + 1) segs = segs @ diff_spec (drop i a) (drop (j + 1) b)" for segs
      by (rule less.hyps; use True in linarith)+
    show ?thesis
      unfolding walk.simps [of a b "lcs_table a b" i j segments] at next_step using True by (simp add: cons)
  next
    case False
    then consider "i = length a" | "j = length b" using less.prems by linarith
    then show ?thesis
      unfolding walk.simps [of a b "lcs_table a b" i j segments] by cases simp_all
  qed
qed

lemma diff_lists_exact: "diff_lists a b = diff_spec a b"
  by (simp add: diff_lists_def walk_exact)

section \<open>Laws of the difference\<close>

lemma diff_spec_sides:
  "map snd (filter (\<lambda>s. fst s \<noteq> Added) (diff_spec xs ys)) = xs"
  "map snd (filter (\<lambda>s. fst s \<noteq> Removed) (diff_spec xs ys)) = ys"
proof -
  have sides: "filter (\<lambda>s. fst s \<noteq> k) (map (Pair l) zs) = (if l = k then [] else map (Pair l) zs)"
    for k l and zs :: "'a list"
    by (auto simp: filter_map comp_def)
  show "map snd (filter (\<lambda>s. fst s \<noteq> Added) (diff_spec xs ys)) = xs"
    "map snd (filter (\<lambda>s. fst s \<noteq> Removed) (diff_spec xs ys)) = ys"
    by (induction xs ys rule: diff_spec.induct) (simp_all add: sides comp_def)
qed

lemma same_part_simps [simp]:
  "same_part [] = []" "same_part ((k, x) # segs) = (if k = Same then x # same_part segs else same_part segs)"
  by (simp_all add: same_part_def)

lemma same_part_side: "k \<noteq> Same \<Longrightarrow> same_part (map (Pair k) xs) = []"
  by (induction xs) simp_all

lemma same_part_length: "length (same_part (diff_spec xs ys)) = lcs_len xs ys"
  by (induction xs ys rule: diff_spec.induct) (auto simp: same_part_side max_def)

lemma same_part_common: "subseq (same_part (diff_spec xs ys)) xs" "subseq (same_part (diff_spec xs ys)) ys"
proof -
  have "subseq (same_part segs) (map snd (filter (\<lambda>s. fst s \<noteq> k) segs))" if "k \<noteq> Same" for k and segs :: "'a segments"
    using that by (induction segs) (auto simp: same_part_def)
  from this [of Added "diff_spec xs ys"] this [of Removed "diff_spec xs ys"]
  show "subseq (same_part (diff_spec xs ys)) xs" "subseq (same_part (diff_spec xs ys)) ys"
    by (simp_all add: diff_spec_sides)
qed

lemma subseq_tl: "subseq zs (x # xs) \<Longrightarrow> subseq (tl zs) xs"
  by (cases zs) (auto simp: subseq_Cons' split: if_splits dest: subseq_Cons')

lemma lcs_len_longest: "subseq zs xs \<Longrightarrow> subseq zs ys \<Longrightarrow> length zs \<le> lcs_len xs ys"
proof (induction xs ys arbitrary: zs rule: lcs_len.induct)
  case (3 x xs y ys)
  show ?case
  proof (cases "x = y")
    case True
    have "length (tl zs) \<le> lcs_len xs ys"
      by (rule "3.IH"(1) [OF True subseq_tl subseq_tl]) (rule "3.prems")+
    with True show ?thesis by simp
  next
    case False
    then have "subseq zs xs \<or> subseq zs ys"
      using "3.prems" by (cases zs) (auto split: if_splits)
    then have "length zs \<le> lcs_len xs (y # ys) \<or> length zs \<le> lcs_len (x # xs) ys"
      using "3.IH"(2,3) [OF False] "3.prems" by blast
    with False show ?thesis by auto
  qed
qed simp_all

lemma lcs_len_commute: "lcs_len xs ys = lcs_len ys xs"
  by (induction xs ys rule: lcs_len.induct) (auto simp: max.commute)

text \<open>C22: The difference of two texts rebuilds both: without its added lines it is the standard text, without
  its removed ones the clause. Its common lines are lines of both in order, and no alignment has
  more.\<close>

theorem diff_rebuilds_both:
  "let d = diffLines clauseText standardText; a = splitLines standardText; b = splitLines clauseText
   in map snd (filter (\<lambda>s. fst s \<noteq> Added) d) = a \<and> map snd (filter (\<lambda>s. fst s \<noteq> Removed) d) = b \<and>
      is_arg_max length (\<lambda>zs. subseq zs a \<and> subseq zs b) (same_part d)"
proof -
  have "is_arg_max length (\<lambda>zs. subseq zs a \<and> subseq zs b) (same_part (diff_spec a b))" for a b :: "jstring list"
  proof (unfold is_arg_max_def, intro conjI notI)
    assume "\<exists>zs. (subseq zs a \<and> subseq zs b) \<and> length (same_part (diff_spec a b)) < length zs"
    then obtain zs where zs: "subseq zs a" "subseq zs b" "lcs_len a b < length zs"
      by (auto simp only: same_part_length)
    from lcs_len_longest [OF zs(1,2)] zs(3) show False by simp
  qed (rule same_part_common)+
  then show ?thesis
    unfolding Let_def diffLines_def diff_lists_exact diff_spec_sides by blast
qed

section \<open>Laws of the similarity\<close>

lemma lcs_len_le: "lcs_len xs ys \<le> length xs" "lcs_len xs ys \<le> length ys"
  using list_emb_length [OF same_part_common(1)] list_emb_length [OF same_part_common(2)]
  by (metis same_part_length)+

lemma lcs_len_full: "lcs_len xs ys = length xs \<Longrightarrow> lcs_len xs ys = length ys \<Longrightarrow> xs = ys"
  using same_part_common [of xs ys] by (metis same_part_length subseq_same_length)

lemma lcs_len_zero: "lcs_len xs ys = 0 \<longleftrightarrow> set xs \<inter> set ys = {}"
proof
  assume zero: "lcs_len xs ys = 0"
  have "False" if "x \<in> set xs" "x \<in> set ys" for x
  proof -
    have "subseq [x] xs" "subseq [x] ys" using that by (simp_all add: subseq_singleton_left)
    from lcs_len_longest [OF this] zero show False by simp
  qed
  then show "set xs \<inter> set ys = {}" by blast
next
  assume "set xs \<inter> set ys = {}"
  moreover have "set (same_part (diff_spec xs ys)) \<subseteq> set xs \<inter> set ys"
    using list_emb_set [OF same_part_common(1) [of xs ys]] list_emb_set [OF same_part_common(2) [of xs ys]]
    by blast
  ultimately have "same_part (diff_spec xs ys) = []" by simp
  then show "lcs_len xs ys = 0" using same_part_length [of xs ys] by simp
qed

lemma lcs_len_self: "lcs_len xs xs = length xs"
  by (induction xs) simp_all

lemma similarity_ratio_cases:
  "computeLineSimilarity c t =
     (if splitLines t = [] \<and> splitLines c = [] then 1
      else real (lcs_len (splitLines t) (splitLines c)) /
           real (length (splitLines t) + length (splitLines c) - lcs_len (splitLines t) (splitLines c)))"
proof -
  have "length a + length b - lcs_len a b \<noteq> 0" if "a \<noteq> [] \<or> b \<noteq> []" for a b :: "jstring list"
    using lcs_len_le [of a b] that by (cases a; cases b) auto
  then show ?thesis
    by (auto simp: computeLineSimilarity_def Let_def diffLines_def diff_lists_exact same_part_length)
qed

lemma similarity_symmetric: "computeLineSimilarity c t = computeLineSimilarity t c"
  by (auto simp: similarity_ratio_cases lcs_len_commute [of "splitLines c"] add.commute)

lemma ratio_facts:
  fixes n total :: nat
  assumes "0 < total" "n \<le> total"
  shows "0 \<le> real n / real total" "real n / real total \<le> 1"
    "real n / real total = 1 \<longleftrightarrow> n = total"
    "real n / real total = 0 \<longleftrightarrow> n = 0"
  using assms by (auto simp: field_simps)

text \<open>The similarity of two texts lies between 0 and 1, does not depend on which of them is the standard,
  is 1 exactly when their lines are the same, and 0 exactly when they share no line (and are not both
  empty).\<close>

theorem similarity_is_ratio:
  "0 \<le> computeLineSimilarity c t \<and> computeLineSimilarity c t \<le> 1 \<and>
   computeLineSimilarity c t = computeLineSimilarity t c \<and>
   (computeLineSimilarity c t = 1) = (splitLines c = splitLines t) \<and>
   (computeLineSimilarity c t = 0) =
     (set (splitLines c) \<inter> set (splitLines t) = {} \<and> (splitLines c, splitLines t) \<noteq> ([], []))"
proof -
  let ?a = "splitLines t" and ?b = "splitLines c"
  let ?n = "lcs_len ?a ?b" and ?total = "length ?a + length ?b - lcs_len ?a ?b"
  show ?thesis
  proof (cases "?a = [] \<and> ?b = []")
    case True
    then show ?thesis by (simp add: similarity_ratio_cases)
  next
    case False
    have le: "?n \<le> length ?a" "?n \<le> length ?b" by (rule lcs_len_le)+
    have pos: "0 < ?total" "?n \<le> ?total" using False le by (cases ?a; cases ?b; simp)+
    have full: "?n = ?total \<longleftrightarrow> ?a = ?b"
      using le lcs_len_full [of ?a ?b] by (auto simp: lcs_len_self)
    have sim: "computeLineSimilarity c t = real ?n / real ?total" "computeLineSimilarity t c = real ?n / real ?total"
      using False by (auto simp: similarity_ratio_cases lcs_len_commute [of ?b ?a] add.commute)
    note ratio = ratio_facts [OF pos, unfolded full lcs_len_zero]
    have "?a = ?b \<longleftrightarrow> ?b = ?a" "set ?a \<inter> set ?b = set ?b \<inter> set ?a" "(?b, ?a) \<noteq> ([], [])"
      using False by auto
    with ratio show ?thesis unfolding sim by (simp only: simp_thms)
  qed
qed

text \<open>Exchanging the texts exchanges the two lists of every kind of token and changes nothing else but
  the segments.\<close>

definition swap_tokens :: "token_difference \<Rightarrow> token_difference" where
  "swap_tokens d = \<lparr>onlyInStandard = onlyInClause d, onlyInClause = onlyInStandard d\<rparr>"

lemma comparison_symmetric:
  "compareClauseToStandard t c =
     \<lparr>cc_identical = cc_identical (compareClauseToStandard c t),
      cc_similarity = cc_similarity (compareClauseToStandard c t),
      cc_lineDiff = diffLines t c,
      cc_numberDifference = swap_tokens (cc_numberDifference (compareClauseToStandard c t)),
      cc_dateDifference = swap_tokens (cc_dateDifference (compareClauseToStandard c t)),
      cc_amountDifference = swap_tokens (cc_amountDifference (compareClauseToStandard c t))\<rparr>"
  using similarity_symmetric [of t c]
  by (auto simp: compareClauseToStandard_def token_differences_def symmetricDifference_def swap_tokens_def)

end
