(* ===== verification/Chunker.thy ===== *)
theory Chunker
  imports SegmentationJobs JsText
begin

text \<open>
  The chunks of a document (\<^verbatim>\<open>domain/ai/document-chunker.ts\<close>): paragraphs between blank lines with their
  offsets and headings, the sentences of a paragraph too long for one chunk, and the packing of
  paragraphs into chunks. The tokenizer is a parameter. Chunks are exact slices in order; they hold all
  of a document unless a paragraph had to be cut into sentences, where text can get lost.
\<close>

section \<open>Paragraphs\<close>

definition CHUNK_TARGET_TOKENS :: nat where
  "CHUNK_TARGET_TOKENS = 600"

definition CHUNK_MAX_TOKENS :: nat where
  "CHUNK_MAX_TOKENS = 1200"

definition MIN_STANDALONE_CHUNK_TOKENS :: nat where
  "MIN_STANDALONE_CHUNK_TOKENS = 50"

record document_chunk =
  dc_chunkIndex :: nat
  dc_text :: jstring
  dc_normalizedText :: jstring
  dc_tokenCount :: nat
  dc_startOffset :: nat
  dc_endOffset :: nat
  dc_headingContext :: "jstring option"

record raw_paragraph =
  rp_text :: jstring
  rp_startOffset :: nat
  rp_endOffset :: nat
  rp_headingContext :: "jstring option"

record chunk_env =
  tokenCount :: "jstring \<Rightarrow> nat"
  ck_runtime :: js_runtime

text \<open>The inner loop: the start of the first blank line after the paragraph's first line.\<close>

function blank_line_from :: "jstring \<Rightarrow> nat \<Rightarrow> nat \<Rightarrow> nat option" where
  "blank_line_from t pos searchPos =
     (if searchPos < length t then
        let lineEnd = js_index_of 10 t searchPos;
            line = js_slice t searchPos (case lineEnd of None \<Rightarrow> length t | Some e \<Rightarrow> e)
        in if js_trim line = [] \<and> searchPos > pos then Some searchPos
           else (case lineEnd of None \<Rightarrow> None | Some e \<Rightarrow> blank_line_from t pos (e + 1))
      else None)"
  by pat_completeness auto

termination
  by (relation "measure (\<lambda>(t, _, s). length t - s)") (auto dest!: js_index_of_Some [OF sym])

declare blank_line_from.simps [simp del]

lemma blank_line_after: "blank_line_from t pos s = Some b \<Longrightarrow> pos < b \<and> s \<le> b \<and> b < length t"
proof (induction t pos s rule: blank_line_from.induct)
  case (1 t pos s)
  show ?case
  proof (cases "js_index_of 10 t s")
    case None
    with 1 show ?thesis
      by (auto simp: blank_line_from.simps [of t pos s] Let_def split: if_splits)
  next
    case (Some e)
    with 1 js_index_of_Some [OF Some] show ?thesis
      by (auto simp: blank_line_from.simps [of t pos s] Let_def split: if_splits)
  qed
qed

definition heading_of :: "jstring \<Rightarrow> jstring option" where
  "heading_of line =
     (case detectClauseNumberLine line of
        None \<Rightarrow> None
      | Some m \<Rightarrow>
          if cm_depth m = 0
          then Some (case cm_title m of
                       Some title \<Rightarrow>
                         if title \<noteq> [] then cm_clauseNumber m @ [40] @ title @ [41] else cm_clauseNumber m
                     | None \<Rightarrow> cm_clauseNumber m)
          else None)"

definition paragraph_end :: "jstring \<Rightarrow> nat \<Rightarrow> nat" where
  "paragraph_end t pos = (case blank_line_from t pos pos of None \<Rightarrow> length t | Some b \<Rightarrow> b)"

definition skip_newlines :: "jstring \<Rightarrow> nat \<Rightarrow> nat" where
  "skip_newlines t pos = pos + length (takeWhile (\<lambda>c. c = 10) (drop pos t))"

lemma paragraph_end_bounds: "pos < length t \<Longrightarrow> pos < paragraph_end t pos \<and> paragraph_end t pos \<le> length t"
  by (auto simp: paragraph_end_def split: option.splits dest: blank_line_after)

lemma skip_newlines_ge: "pos \<le> skip_newlines t pos"
  by (simp add: skip_newlines_def)

function paragraphs_from :: "jstring \<Rightarrow> nat \<Rightarrow> jstring option \<Rightarrow> raw_paragraph list" where
  "paragraphs_from t pos currentHeading =
     (if pos < length t then
        let paragraphEnd = paragraph_end t pos;
            rawParagraph = js_slice t pos paragraphEnd;
            trimmedStart = length rawParagraph - length (js_trim_start rawParagraph);
            trimmedText = js_trim rawParagraph;
            nextPos = skip_newlines t paragraphEnd
        in if trimmedText \<noteq> [] then
             let startOffset = pos + trimmedStart;
                 heading = (case heading_of (hd (split_on 10 trimmedText)) of
                              Some h \<Rightarrow> Some h | None \<Rightarrow> currentHeading)
             in \<lparr>rp_text = trimmedText, rp_startOffset = startOffset,
                 rp_endOffset = startOffset + length trimmedText, rp_headingContext = heading\<rparr> #
                paragraphs_from t nextPos heading
           else paragraphs_from t nextPos currentHeading
      else [])"
  by pat_completeness auto

termination
proof (relation "measure (\<lambda>(t, pos, _). length t - pos)", goal_cases)
  case (2 t pos heading pe)
  then show ?case
    using paragraph_end_bounds [of pos t] skip_newlines_ge [of "paragraph_end t pos" t] by auto
next
  case (3 t pos heading pe)
  then show ?case
    using paragraph_end_bounds [of pos t] skip_newlines_ge [of "paragraph_end t pos" t] by auto
qed simp

declare paragraphs_from.simps [simp del]

definition splitIntoParagraphs :: "jstring \<Rightarrow> raw_paragraph list" where
  "splitIntoParagraphs t = paragraphs_from t 0 None"

section \<open>Sentences of a long paragraph\<close>

text \<open>\<^verbatim>\<open>/(?<=[.!?])\s+/g\<close>: the number of characters before the next match.\<close>

definition sentence_mark :: "nat \<Rightarrow> bool" where
  "sentence_mark c \<longleftrightarrow> c = 46 \<or> c = 33 \<or> c = 63"

fun boundary_at :: "bool \<Rightarrow> jstring \<Rightarrow> nat option" where
  "boundary_at after_mark [] = None"
| "boundary_at after_mark (c # cs) =
     (if after_mark \<and> is_js_space c then Some 0 else map_option Suc (boundary_at (sentence_mark c) cs))"

definition spaces_at :: "jstring \<Rightarrow> nat \<Rightarrow> nat" where
  "spaces_at t pos = length (takeWhile is_js_space (drop pos t))"

lemma boundary_at_bounds:
  "boundary_at b s = Some k \<Longrightarrow> k < length s \<and> is_js_space (s ! k) \<and> (0 < k \<or> b)"
  by (induction b s arbitrary: k rule: boundary_at.induct) (auto split: if_splits)

function pieces_from :: "jstring \<Rightarrow> nat \<Rightarrow> (jstring \<times> nat) list" where
  "pieces_from t lastIndex =
     (case boundary_at False (drop lastIndex t) of
        None \<Rightarrow> [(drop lastIndex t, lastIndex)]
      | Some k \<Rightarrow>
          (take k (drop lastIndex t), lastIndex) #
          pieces_from t (lastIndex + k + spaces_at t (lastIndex + k)))"
  by pat_completeness auto

termination
  by (relation "measure (\<lambda>(t, i). length t - i)") (auto dest!: boundary_at_bounds)

declare pieces_from.simps [simp del]

definition sentence_chunk :: "raw_paragraph \<Rightarrow> jstring \<Rightarrow> nat \<Rightarrow> raw_paragraph" where
  "sentence_chunk paragraph bucket bucketStart =
     \<lparr>rp_text = bucket, rp_startOffset = rp_startOffset paragraph + bucketStart,
      rp_endOffset = rp_startOffset paragraph + bucketStart + length bucket,
      rp_headingContext = rp_headingContext paragraph\<rparr>"

fun fill_buckets ::
  "chunk_env \<Rightarrow> raw_paragraph \<Rightarrow> (jstring \<times> nat) list \<Rightarrow> jstring \<Rightarrow> nat \<Rightarrow> raw_paragraph list" where
  "fill_buckets ce paragraph [] bucket bucketStart =
     (if js_trim bucket \<noteq> [] then [sentence_chunk paragraph bucket bucketStart] else [])"
| "fill_buckets ce paragraph (piece # pieces) bucket bucketStart =
     (let candidate = (if bucket \<noteq> [] then bucket @ 32 # fst piece else fst piece)
      in if bucket \<noteq> [] \<and> tokenCount ce candidate > CHUNK_MAX_TOKENS
         then sentence_chunk paragraph bucket bucketStart #
              fill_buckets ce paragraph pieces (fst piece) (snd piece)
         else fill_buckets ce paragraph pieces candidate bucketStart)"

definition splitParagraphIntoSentenceChunks :: "chunk_env \<Rightarrow> raw_paragraph \<Rightarrow> raw_paragraph list" where
  "splitParagraphIntoSentenceChunks ce paragraph =
     (let chunks = fill_buckets ce paragraph (pieces_from (rp_text paragraph) 0) [] 0
      in if chunks \<noteq> [] then chunks else [paragraph])"

section \<open>Chunks\<close>

definition make_chunk ::
  "chunk_env \<Rightarrow> jstring \<Rightarrow> nat \<Rightarrow> nat \<Rightarrow> nat \<Rightarrow> jstring option \<Rightarrow> document_chunk" where
  "make_chunk ce doc index startOffset endOffset heading =
     (let t = js_slice doc startOffset endOffset
      in \<lparr>dc_chunkIndex = index, dc_text = t, dc_normalizedText = normalizeClauseText (ck_runtime ce) t,
          dc_tokenCount = tokenCount ce t, dc_startOffset = startOffset, dc_endOffset = endOffset,
          dc_headingContext = heading\<rparr>)"

text \<open>\<open>flush\<close> at the chunk number \<open>index\<close>, and the loop with the last \<open>flush\<close>.\<close>

definition flush :: "chunk_env \<Rightarrow> jstring \<Rightarrow> nat \<Rightarrow> raw_paragraph list \<Rightarrow> document_chunk list" where
  "flush ce doc index bucket =
     (if bucket = [] then []
      else [make_chunk ce doc index (rp_startOffset (hd bucket)) (rp_endOffset (last bucket))
              (rp_headingContext (last bucket))])"

fun pack_paragraphs ::
  "chunk_env \<Rightarrow> jstring \<Rightarrow> nat \<Rightarrow> raw_paragraph list \<Rightarrow> nat \<Rightarrow> raw_paragraph list \<Rightarrow> document_chunk list" where
  "pack_paragraphs ce doc index bucket bucketTokens [] = flush ce doc index bucket"
| "pack_paragraphs ce doc index bucket bucketTokens (p # ps) =
     (let paragraphTokens = tokenCount ce (rp_text p)
      in if bucket \<noteq> [] \<and> bucketTokens + paragraphTokens > CHUNK_TARGET_TOKENS
         then flush ce doc index bucket @ pack_paragraphs ce doc (index + 1) [p] paragraphTokens ps
         else pack_paragraphs ce doc index (bucket @ [p]) (bucketTokens + paragraphTokens) ps)"

definition merge_tail :: "chunk_env \<Rightarrow> jstring \<Rightarrow> document_chunk list \<Rightarrow> document_chunk list" where
  "merge_tail ce doc chunks =
     (if 2 \<le> length chunks \<and> dc_tokenCount (last chunks) < MIN_STANDALONE_CHUNK_TOKENS then
        let final = last chunks; prev = last (butlast chunks)
        in butlast (butlast chunks) @
           [make_chunk ce doc (dc_chunkIndex prev) (dc_startOffset prev) (dc_endOffset final)
              (case dc_headingContext final of Some h \<Rightarrow> Some h | None \<Rightarrow> dc_headingContext prev)]
      else chunks)"

definition normalizedParagraphs :: "chunk_env \<Rightarrow> jstring \<Rightarrow> raw_paragraph list" where
  "normalizedParagraphs ce doc =
     concat (map (\<lambda>p. if tokenCount ce (rp_text p) > CHUNK_MAX_TOKENS
                      then splitParagraphIntoSentenceChunks ce p else [p])
       (splitIntoParagraphs doc))"

definition chunkDocumentText :: "chunk_env \<Rightarrow> jstring \<Rightarrow> document_chunk list" where
  "chunkDocumentText ce doc =
     (if js_trim doc = [] then []
      else map (\<lambda>(index, c). c\<lparr>dc_chunkIndex := index\<rparr>)
             (enumerate 0 (merge_tail ce doc (pack_paragraphs ce doc 0 [] 0 (normalizedParagraphs ce doc)))))"

section \<open>Extents in order\<close>

text \<open>Extents between \<open>lo\<close> and \<open>hi\<close> that are not empty and do not overlap.\<close>

fun laid_out :: "nat \<Rightarrow> (nat \<times> nat) list \<Rightarrow> nat \<Rightarrow> bool" where
  "laid_out lo [] hi \<longleftrightarrow> lo \<le> hi"
| "laid_out lo ((a, b) # es) hi \<longleftrightarrow> lo \<le> a \<and> a < b \<and> laid_out b es hi"

lemma laid_out_Cons [simp]:
  "laid_out lo (e # es) hi \<longleftrightarrow> lo \<le> fst e \<and> fst e < snd e \<and> laid_out (snd e) es hi"
  by (cases e) simp

definition rp_extent :: "raw_paragraph \<Rightarrow> nat \<times> nat" where
  "rp_extent p = (rp_startOffset p, rp_endOffset p)"

definition dc_extent :: "document_chunk \<Rightarrow> nat \<times> nat" where
  "dc_extent c = (dc_startOffset c, dc_endOffset c)"

lemma extent_sel [simp]:
  "fst (rp_extent p) = rp_startOffset p" "snd (rp_extent p) = rp_endOffset p"
  "fst (dc_extent c) = dc_startOffset c" "snd (dc_extent c) = dc_endOffset c"
  by (simp_all add: rp_extent_def dc_extent_def)

lemma laid_out_le: "laid_out lo es hi \<Longrightarrow> lo \<le> hi"
  by (induction lo es hi rule: laid_out.induct) auto

lemma laid_out_mono: "laid_out lo es hi \<Longrightarrow> lo' \<le> lo \<Longrightarrow> hi \<le> hi' \<Longrightarrow> laid_out lo' es hi'"
  by (induction lo es hi arbitrary: lo' rule: laid_out.induct) auto

lemma laid_out_append: "laid_out lo (xs @ ys) hi \<longleftrightarrow> (\<exists>m. laid_out lo xs m \<and> laid_out m ys hi)"
proof (induction xs arbitrary: lo)
  case Nil
  then show ?case by (auto intro: laid_out_mono)
next
  case (Cons x xs)
  then show ?case by (cases x) auto
qed

lemma laid_out_last:
  "laid_out lo (xs @ ys) hi \<Longrightarrow> xs \<noteq> [] \<Longrightarrow>
    lo \<le> fst (hd xs) \<and> fst (hd xs) < snd (last xs) \<and> laid_out (snd (last xs)) ys hi"
proof (induction xs arbitrary: lo)
  case (Cons x xs)
  then show ?case
  proof (cases "xs = []")
    case False
    from Cons.prems have "fst x < snd x" "laid_out (snd x) (xs @ ys) hi" "lo \<le> fst x" by (cases x, simp)+
    with Cons.IH [of "snd x"] False show ?thesis by auto
  qed (cases x, simp)
qed simp

lemma laid_out_member:
  "laid_out lo es hi \<Longrightarrow> (a, b) \<in> set es \<Longrightarrow> lo \<le> a \<and> a < b \<and> b \<le> hi"
proof (induction lo es hi rule: laid_out.induct)
  case (2 lo a' b' es hi)
  then show ?case by (auto dest: laid_out_le)
qed simp

lemma laid_out_within:
  "laid_out lo es hi \<Longrightarrow> e \<in> set es \<Longrightarrow> fst (hd es) \<le> fst e \<and> snd e \<le> snd (last es)"
proof (induction es arbitrary: lo)
  case (Cons x es)
  obtain a b where x: "x = (a, b)" by (cases x)
  show ?case
  proof (cases "es = []")
    case False
    have rest: "laid_out b es hi" "a < b" using Cons.prems(1) x by auto
    have "b \<le> fst e" if "e \<in> set es" using laid_out_member [OF rest(1)] that by (cases e) auto
    moreover have "b < snd (last es)" using laid_out_last [of b es "[]" hi] rest(1) False by simp
    ultimately show ?thesis using Cons.IH [OF rest(1)] Cons.prems(2) x False rest(2) by auto
  qed (use Cons.prems in simp)
qed simp

lemma laid_out_sorted:
  "laid_out lo es hi \<Longrightarrow> i < j \<Longrightarrow> j < length es \<Longrightarrow> snd (es ! i) \<le> fst (es ! j)"
proof (induction es arbitrary: lo i j)
  case (Cons x es)
  obtain a b where x: "x = (a, b)" by (cases x)
  obtain k where j: "j = Suc k" using Cons.prems(2) by (cases j) auto
  have rest: "laid_out b es hi" using Cons.prems(1) x by simp
  show ?case
  proof (cases i)
    case 0
    have "(fst (es ! k), snd (es ! k)) \<in> set es" using Cons.prems(3) j by simp
    with laid_out_member [OF rest] have "b \<le> fst (es ! k)" by blast
    then show ?thesis using 0 x j by simp
  next
    case (Suc i')
    then show ?thesis using Cons.IH [OF rest, of i' k] Cons.prems j by simp
  qed
qed simp

section \<open>Paragraphs and sentences in order\<close>

lemma skip_newlines_le: "pos \<le> length t \<Longrightarrow> skip_newlines t pos \<le> length t"
  using length_takeWhile_le [of "\<lambda>c. c = 10" "drop pos t"] by (simp add: skip_newlines_def)

text \<open>A trimmed slice as a slice of the document.\<close>

lemma js_trim_slice: "js_trim s = js_slice s (length s - length (js_trim_start s))
    (length s - length (js_trim_start s) + length (js_trim s))"
  by (metis add_diff_cancel_left' js_slice_def js_trim_def js_trim_end_take js_trim_start_drop)

lemma js_trim_in: "length s - length (js_trim_start s) + length (js_trim s) \<le> length s"
  using js_trim_end_length [of "js_trim_start s"] js_trim_start_length [of s] by (simp add: js_trim_def)

definition paragraph_ok :: "jstring \<Rightarrow> raw_paragraph \<Rightarrow> bool" where
  "paragraph_ok t p \<longleftrightarrow>
     rp_text p = js_slice t (rp_startOffset p) (rp_endOffset p) \<and>
     rp_endOffset p = rp_startOffset p + length (rp_text p) \<and> rp_text p \<noteq> []"

lemma paragraph_ok_end:
  "paragraph_ok t p \<Longrightarrow> rp_endOffset p = rp_startOffset p + length (rp_text p) \<and> rp_text p \<noteq> []"
  unfolding paragraph_ok_def by blast

lemma paragraphs_laid_out:
  "pos \<le> length t \<Longrightarrow>
    laid_out pos (map rp_extent (paragraphs_from t pos h)) (length t) \<and>
    list_all (paragraph_ok t) (paragraphs_from t pos h)"
proof (induction t pos h rule: paragraphs_from.induct)
  case (1 t pos h)
  show ?case
  proof (cases "pos < length t")
    case True
    define e where "e = paragraph_end t pos"
    define raw where "raw = js_slice t pos e"
    define s where "s = pos + (length raw - length (js_trim_start raw))"
    define n where "n = skip_newlines t e"
    define h' where "h' = (case heading_of (hd (split_on 10 (js_trim raw))) of
      Some h \<Rightarrow> Some h | None \<Rightarrow> h)"
    have e: "pos < e" "e \<le> length t" using paragraph_end_bounds [OF True] by (simp_all add: e_def)
    have n: "e \<le> n" "n \<le> length t" using skip_newlines_ge skip_newlines_le [OF e(2)] by (simp_all add: n_def)
    have raw: "length raw = e - pos" using e by (simp add: raw_def js_slice_length)
    have inside: "s + length (js_trim raw) \<le> e" using js_trim_in [of raw] raw e by (simp add: s_def)
    have slice: "js_trim raw = js_slice t s (s + length (js_trim raw))"
      using js_trim_slice [of raw] inside e unfolding raw_def s_def
      by (metis (no_types, lifting) add.assoc js_slice_slice)
    show ?thesis
    proof (cases "js_trim raw = []")
      case blank: True
      have step: "paragraphs_from t pos h = paragraphs_from t n h"
        using True blank by (subst paragraphs_from.simps) (simp add: Let_def e_def raw_def n_def)
      have "laid_out n (map rp_extent (paragraphs_from t n h)) (length t) \<and>
          list_all (paragraph_ok t) (paragraphs_from t n h)"
        using 1(2) [OF True e_def raw_def refl refl n_def] blank n by simp
      then show ?thesis using step e n by (auto intro: laid_out_mono)
    next
      case False
      let ?p = "\<lparr>rp_text = js_trim raw, rp_startOffset = s, rp_endOffset = s + length (js_trim raw),
        rp_headingContext = h'\<rparr>"
      have step: "paragraphs_from t pos h = ?p # paragraphs_from t n h'"
        using True False by (subst paragraphs_from.simps) (simp add: Let_def e_def raw_def n_def s_def h'_def)
      have "laid_out n (map rp_extent (paragraphs_from t n h')) (length t) \<and>
          list_all (paragraph_ok t) (paragraphs_from t n h')"
        using 1(1) [OF True e_def raw_def refl refl n_def _ s_def h'_def] False n by simp
      moreover have "paragraph_ok t ?p" using slice False by (simp add: paragraph_ok_def)
      moreover have "pos \<le> s" "0 < length (js_trim raw)" using False by (simp_all add: s_def)
      moreover have "laid_out (s + length (js_trim raw)) es hi" if "laid_out n es hi" for es hi
        using laid_out_mono [OF that, of "s + length (js_trim raw)" hi] inside n by simp
      ultimately show ?thesis using step by simp
    qed
  next
    case False
    then have "paragraphs_from t pos h = []" by (subst paragraphs_from.simps) simp
    with 1 show ?thesis by simp
  qed
qed

text \<open>Sentences: each piece starts after the one before it and the white space between them, so that a
  bucket, which puts a single space there, never reaches past the last of its pieces.\<close>

fun pieces_laid :: "nat \<Rightarrow> (jstring \<times> nat) list \<Rightarrow> nat \<Rightarrow> bool" where
  "pieces_laid lo [] hi \<longleftrightarrow> lo \<le> hi + 1"
| "pieces_laid lo (p # ps) hi \<longleftrightarrow> lo \<le> snd p \<and> pieces_laid (snd p + length (fst p) + 1) ps hi"

lemma pieces_laid_le: "pieces_laid lo ps hi \<Longrightarrow> lo \<le> hi + 1"
  by (induction lo ps hi rule: pieces_laid.induct) auto

lemma spaces_at_bounds:
  "k < length t \<Longrightarrow> is_js_space (t ! k) \<Longrightarrow> 0 < spaces_at t k \<and> k + spaces_at t k \<le> length t"
  using length_takeWhile_le [of is_js_space "drop k t"] Cons_nth_drop_Suc [of k t, symmetric]
  by (auto simp: spaces_at_def)

lemma pieces_in_order: "i \<le> length t \<Longrightarrow> pieces_laid i (pieces_from t i) (length t)"
proof (induction t i rule: pieces_from.induct)
  case (1 t i)
  show ?case
  proof (cases "boundary_at False (drop i t)")
    case None
    with 1 show ?thesis by (simp add: pieces_from.simps [of t i])
  next
    case (Some k)
    with boundary_at_bounds [OF Some] have k: "i + k < length t" "is_js_space (t ! (i + k))" by auto
    note sp = spaces_at_bounds [OF k]
    let ?n = "i + k + spaces_at t (i + k)"
    have "pieces_laid ?n (pieces_from t ?n) (length t)" using 1 Some sp by simp
    moreover have "pieces_laid (i + k + 1) ps hi" if "pieces_laid ?n ps hi" for ps hi
      using that sp by (cases ps) auto
    ultimately show ?thesis using Some k by (subst pieces_from.simps) simp
  qed
qed

lemma fill_buckets_laid_out:
  "bs \<le> hi \<Longrightarrow> pieces_laid (bs + (if bucket = [] then 0 else length bucket + 1)) pieces hi \<Longrightarrow>
    laid_out (rp_startOffset p + bs) (map rp_extent (fill_buckets ce p pieces bucket bs))
      (rp_startOffset p + hi)"
proof (induction ce p pieces bucket bs rule: fill_buckets.induct)
  case (1 ce p bucket bs)
  then show ?case
    by (cases "bucket = []") (auto simp: sentence_chunk_def js_trim_Nil split: if_splits)
next
  case (2 ce p piece pieces bucket bs)
  let ?c = "if bucket \<noteq> [] then bucket @ 32 # fst piece else fst piece"
  have tail: "pieces_laid (snd piece + length (fst piece) + 1) pieces hi" using 2 by simp
  then have piece: "snd piece \<le> hi" by (auto dest: pieces_laid_le)
  have start: "bs + (if bucket = [] then 0 else length bucket + 1) \<le> snd piece" using 2 by simp
  show ?case
  proof (cases "bucket \<noteq> [] \<and> tokenCount ce ?c > CHUNK_MAX_TOKENS")
    case True
    have "pieces_laid (snd piece + (if fst piece = [] then 0 else length (fst piece) + 1)) pieces hi"
      using tail by (cases "fst piece = []"; cases pieces) auto
    then have "laid_out (rp_startOffset p + snd piece)
        (map rp_extent (fill_buckets ce p pieces (fst piece) (snd piece))) (rp_startOffset p + hi)"
      using 2(1) [OF refl True piece] by simp
    then show ?thesis using True start
      by (auto simp: Let_def sentence_chunk_def elim!: laid_out_mono)
  next
    case False
    have "pieces_laid (bs + (if ?c = [] then 0 else length ?c + 1)) pieces hi"
      using tail start by (cases pieces) (auto split: if_splits)
    then have "laid_out (rp_startOffset p + bs) (map rp_extent (fill_buckets ce p pieces ?c bs))
        (rp_startOffset p + hi)"
      using 2(2) [OF refl False 2(3)] by simp
    then show ?thesis using False by (auto simp: Let_def)
  qed
qed

lemma sentence_chunks_laid_out:
  assumes "paragraph_ok t p"
  shows "laid_out (rp_startOffset p) (map rp_extent (splitParagraphIntoSentenceChunks ce p)) (rp_endOffset p)"
proof -
  have "pieces_laid 0 (pieces_from (rp_text p) 0) (length (rp_text p))" by (rule pieces_in_order) simp
  then have "laid_out (rp_startOffset p) (map rp_extent (fill_buckets ce p (pieces_from (rp_text p) 0) [] 0))
      (rp_startOffset p + length (rp_text p))"
    using fill_buckets_laid_out [of 0 "length (rp_text p)" "[]" "pieces_from (rp_text p) 0" p ce] by simp
  then show ?thesis using paragraph_ok_end [OF assms] by (simp add: splitParagraphIntoSentenceChunks_def Let_def)
qed

lemma normalizedParagraphs_laid_out: "laid_out 0 (map rp_extent (normalizedParagraphs ce doc)) (length doc)"
proof -
  let ?f = "\<lambda>p. if tokenCount ce (rp_text p) > CHUNK_MAX_TOKENS
    then splitParagraphIntoSentenceChunks ce p else [p]"
  have "laid_out lo (map rp_extent (concat (map ?f ps))) hi"
    if "laid_out lo (map rp_extent ps) hi" "list_all (paragraph_ok doc) ps" for lo ps hi
    using that
  proof (induction ps arbitrary: lo)
    case (Cons p ps)
    have p: "lo \<le> rp_startOffset p" "laid_out (rp_endOffset p) (map rp_extent ps) hi" "paragraph_ok doc p"
      using Cons.prems by simp_all
    have "laid_out (rp_startOffset p) (map rp_extent (?f p)) (rp_endOffset p)"
    proof (cases "tokenCount ce (rp_text p) > CHUNK_MAX_TOKENS")
      case True
      then show ?thesis using sentence_chunks_laid_out [OF p(3)] by simp
    next
      case False
      then show ?thesis using paragraph_ok_end [OF p(3)] by simp
    qed
    then have "laid_out lo (map rp_extent (?f p)) (rp_endOffset p)" using p(1) by (rule laid_out_mono) simp
    moreover have "laid_out (rp_endOffset p) (map rp_extent (concat (map ?f ps))) hi"
      using Cons.IH [OF p(2)] Cons.prems(2) by simp
    ultimately have "laid_out lo (map rp_extent (?f p) @ map rp_extent (concat (map ?f ps))) hi"
      unfolding laid_out_append by blast
    then show ?case by (simp only: list.map concat.simps map_append)
  qed simp
  then show ?thesis using paragraphs_laid_out [of 0 doc None]
    unfolding normalizedParagraphs_def splitIntoParagraphs_def by blast
qed

section \<open>Chunks in order\<close>

definition is_chunk :: "chunk_env \<Rightarrow> jstring \<Rightarrow> document_chunk \<Rightarrow> bool" where
  "is_chunk ce doc c \<longleftrightarrow>
     dc_text c = js_slice doc (dc_startOffset c) (dc_endOffset c) \<and>
     dc_normalizedText c = normalizeClauseText (ck_runtime ce) (dc_text c) \<and>
     dc_tokenCount c = tokenCount ce (dc_text c)"

lemma make_chunk_is_chunk [simp]: "is_chunk ce doc (make_chunk ce doc i a b h)"
  by (simp add: is_chunk_def make_chunk_def Let_def)

lemma make_chunk_extent [simp]: "dc_extent (make_chunk ce doc i a b h) = (a, b)"
  by (simp add: dc_extent_def make_chunk_def Let_def)

lemma pack_paragraphs_laid_out:
  "laid_out lo (map rp_extent (bucket @ ps)) hi \<Longrightarrow>
    laid_out lo (map dc_extent (pack_paragraphs ce doc i bucket n ps)) hi \<and>
    list_all (is_chunk ce doc) (pack_paragraphs ce doc i bucket n ps)"
proof (induction ce doc i bucket n ps arbitrary: lo rule: pack_paragraphs.induct)
  case (1 ce doc i bucket n)
  then show ?case using laid_out_last [of lo "map rp_extent bucket" "[]" hi]
    by (cases "bucket = []") (auto simp: flush_def hd_map last_map)
next
  case (2 ce doc i bucket n p ps)
  show ?case
  proof (cases "bucket \<noteq> [] \<and> n + tokenCount ce (rp_text p) > CHUNK_TARGET_TOKENS")
    case True
    have "lo \<le> rp_startOffset (hd bucket)" "rp_startOffset (hd bucket) < rp_endOffset (last bucket)"
      "laid_out (rp_endOffset (last bucket)) (map rp_extent ([p] @ ps)) hi"
      using laid_out_last [of lo "map rp_extent bucket" "map rp_extent (p # ps)" hi] True 2(3)
      by (simp_all add: hd_map last_map)
    then show ?thesis using 2(1) [OF refl True, of "rp_endOffset (last bucket)"] True
      by (simp add: Let_def flush_def)
  next
    case False
    with 2(2) [OF refl False, of lo] 2(3) show ?thesis by (auto simp: Let_def)
  qed
qed

lemma two_last: "2 \<le> length cs \<Longrightarrow> \<exists>xs a b. cs = xs @ [a, b]"
proof -
  assume "2 \<le> length cs"
  then have "cs \<noteq> []" "butlast cs \<noteq> []"
    using length_butlast [of cs] by (auto simp del: length_butlast)
  then have "cs = butlast (butlast cs) @ [last (butlast cs), last cs]"
    by (metis append.assoc append_Cons append_Nil append_butlast_last_id)
  then show ?thesis by metis
qed

lemma merge_tail_laid_out:
  assumes "laid_out lo (map dc_extent cs) hi" "list_all (is_chunk ce doc) cs"
  shows "laid_out lo (map dc_extent (merge_tail ce doc cs)) hi \<and>
    list_all (is_chunk ce doc) (merge_tail ce doc cs)"
proof (cases "2 \<le> length cs \<and> dc_tokenCount (last cs) < MIN_STANDALONE_CHUNK_TOKENS")
  case True
  then obtain xs a b where cs: "cs = xs @ [a, b]" using two_last [of cs] by blast
  then show ?thesis using assms
    by (auto simp: merge_tail_def laid_out_append butlast_append Let_def)
next
  case False
  with assms show ?thesis by (auto simp: merge_tail_def)
qed

section \<open>What the chunks cover\<close>

definition covered :: "nat \<Rightarrow> (nat \<times> nat) list \<Rightarrow> bool" where
  "covered i es \<longleftrightarrow> list_ex (\<lambda>e. fst e \<le> i \<and> i < snd e) es"

lemma covered_simps [simp]:
  "\<not> covered i []" "covered i (e # es) \<longleftrightarrow> fst e \<le> i \<and> i < snd e \<or> covered i es"
  "covered i (xs @ ys) \<longleftrightarrow> covered i xs \<or> covered i ys"
  by (simp_all add: covered_def)

lemma covered_within:
  "laid_out lo es hi \<Longrightarrow> covered i es \<Longrightarrow> fst (hd es) \<le> i \<and> i < snd (last es)"
  unfolding covered_def list_ex_iff by (meson laid_out_within le_trans less_le_trans)

lemma covered_not_Nil: "covered i es \<Longrightarrow> es \<noteq> []"
  by auto

lemma skipped_newline: "pos \<le> i \<Longrightarrow> i < skip_newlines t pos \<Longrightarrow> i < length t \<Longrightarrow> t ! i = 10"
proof -
  let ?w = "takeWhile (\<lambda>c. c = 10) (drop pos t)"
  assume i: "pos \<le> i" "i < skip_newlines t pos" "i < length t"
  then have k: "i - pos < length ?w" by (auto simp: skip_newlines_def)
  then have "?w ! (i - pos) = t ! i" using i takeWhile_nth [OF k] by simp
  then show ?thesis using nth_mem [OF k] by (metis set_takeWhileD)
qed

text \<open>The trimmed part of a slice holds every character of it that is not white space.\<close>

lemma trimmed_holds:
  assumes "i < length s" "\<not> is_js_space (s ! i)"
  shows "length s - length (js_trim_start s) \<le> i"
    "i < length s - length (js_trim_start s) + length (js_trim s)"
proof -
  let ?l = "length s - length (js_trim_start s)"
  show l: "?l \<le> i" using lead_le [OF assms] by (simp add: lead_length)
  let ?r = "js_trim_start s"
  have r: "?r = drop ?l s" by (rule js_trim_start_drop)
  have "i - ?l < length ?r" using l assms(1) js_trim_start_length [of s] by linarith
  moreover have "?r ! (i - ?l) = s ! i"
    by (subst r, subst nth_drop) (use l assms(1) in simp_all)
  then have "\<not> is_js_space (?r ! (i - ?l))" using assms(2) by simp
  ultimately have "i - ?l < length ?r - length (takeWhile is_js_space (rev ?r))" by (rule trail_le)
  also have "\<dots> = length (js_trim s)"
    using trail_length [of ?r] js_trim_end_length [of ?r] by (simp add: js_trim_def)
  finally show "i < ?l + length (js_trim s)" using l by linarith
qed

lemma paragraphs_cover:
  "pos \<le> i \<Longrightarrow> i < length t \<Longrightarrow> \<not> is_js_space (t ! i) \<Longrightarrow> covered i (map rp_extent (paragraphs_from t pos h))"
proof (induction t pos h rule: paragraphs_from.induct)
  case (1 t pos h)
  define e where "e = paragraph_end t pos"
  define raw where "raw = js_slice t pos e"
  define s where "s = pos + (length raw - length (js_trim_start raw))"
  define n where "n = skip_newlines t e"
  define h' where "h' = (case heading_of (hd (split_on 10 (js_trim raw))) of
    Some h \<Rightarrow> Some h | None \<Rightarrow> h)"
  have pos: "pos < length t" using 1(3,4) by simp
  have e: "pos < e" "e \<le> length t" using paragraph_end_bounds [OF pos] by (simp_all add: e_def)
  have raw: "length raw = e - pos" using e by (simp add: raw_def js_slice_length)
  show ?case
  proof (cases "i < e")
    case True
    then have "i - pos < length raw" "\<not> is_js_space (raw ! (i - pos))"
      using 1(3,5) e raw js_slice_nth [of "i - pos" e pos t] by (simp_all add: raw_def)
    note inside = trimmed_holds [OF this]
    then have "js_trim raw \<noteq> []" by auto
    moreover have "s \<le> i" "i < s + length (js_trim raw)" using inside 1(3) by (auto simp: s_def)
    ultimately show ?thesis using pos
      by (subst paragraphs_from.simps) (simp add: Let_def e_def [symmetric] raw_def [symmetric] s_def [symmetric])
  next
    case False
    have "n \<le> i"
    proof (rule ccontr)
      assume "\<not> n \<le> i"
      then have "t ! i = 10" using skipped_newline [of e i t] False 1(4) by (simp add: n_def)
      then show False using 1(5) by (simp add: is_js_space_def)
    qed
    then have "covered i (map rp_extent (paragraphs_from t n g))"
      if "js_trim raw \<noteq> [] \<and> g = h' \<or> js_trim raw = [] \<and> g = h" for g
      using that 1(1) [OF pos e_def raw_def refl refl n_def _ s_def h'_def]
        1(2) [OF pos e_def raw_def refl refl n_def] 1(4,5) by auto
    then show ?thesis using pos
      by (subst paragraphs_from.simps)
        (simp add: Let_def e_def [symmetric] raw_def [symmetric] n_def [symmetric] h'_def [symmetric])
  qed
qed

lemma pack_paragraphs_cover:
  "laid_out lo (map rp_extent (bucket @ ps)) hi \<Longrightarrow> covered i (map rp_extent (bucket @ ps)) \<Longrightarrow>
    covered i (map dc_extent (pack_paragraphs ce doc k bucket n ps))"
proof (induction ce doc k bucket n ps arbitrary: lo rule: pack_paragraphs.induct)
  case (1 ce doc k bucket n)
  then show ?case using covered_within [of lo "map rp_extent bucket" hi i]
    by (cases "bucket = []") (auto simp: flush_def hd_map last_map)
next
  case (2 ce doc k bucket n p ps)
  show ?case
  proof (cases "bucket \<noteq> [] \<and> n + tokenCount ce (rp_text p) > CHUNK_TARGET_TOKENS")
    case True
    obtain m where m: "laid_out lo (map rp_extent bucket) m" "laid_out m (map rp_extent ([p] @ ps)) hi"
      using 2(3) by (auto simp: laid_out_append)
    then show ?thesis using 2(1) [OF refl True m(2)] 2(4) True covered_within [OF m(1), of i]
      by (auto simp: Let_def flush_def hd_map last_map)
  next
    case False
    with 2(2) [OF refl False, of lo] 2(3,4) show ?thesis by (auto simp: Let_def)
  qed
qed

lemma merge_tail_cover:
  assumes "laid_out lo (map dc_extent cs) hi" "covered i (map dc_extent cs)"
  shows "covered i (map dc_extent (merge_tail ce doc cs))"
proof (cases "2 \<le> length cs \<and> dc_tokenCount (last cs) < MIN_STANDALONE_CHUNK_TOKENS")
  case True
  then obtain xs a b where cs: "cs = xs @ [a, b]" using two_last [of cs] by blast
  then have "dc_startOffset a < dc_endOffset a" "dc_endOffset a \<le> dc_startOffset b"
    "dc_startOffset b < dc_endOffset b"
    using assms(1) by (auto simp: laid_out_append)
  with True cs assms(2) show ?thesis by (auto simp: merge_tail_def butlast_append Let_def)
next
  case False
  with assms show ?thesis by (auto simp: merge_tail_def)
qed

section \<open>The chunks of a document\<close>

lemma renumbered:
  "map dc_chunkIndex (map (\<lambda>(index, c). c\<lparr>dc_chunkIndex := index\<rparr>) (enumerate k cs)) = [k..<k + length cs]"
  "map dc_extent (map (\<lambda>(index, c). c\<lparr>dc_chunkIndex := index\<rparr>) (enumerate k cs)) = map dc_extent cs"
  "list_all (is_chunk ce doc) cs \<Longrightarrow>
    list_all (is_chunk ce doc) (map (\<lambda>(index, c). c\<lparr>dc_chunkIndex := index\<rparr>) (enumerate k cs))"
proof (induction cs arbitrary: k)
  case (Cons c cs)
  { case 1 show ?case using Cons.IH(1) [of "Suc k"] by (simp add: upt_conv_Cons del: upt_Suc) }
  { case 2 show ?case using Cons.IH(2) [of "Suc k"] by (simp add: dc_extent_def) }
  { case 3 then show ?case using Cons.IH(3) [of "Suc k"] by (simp add: is_chunk_def) }
qed simp_all

lemma chunks_laid_out:
  "map dc_chunkIndex (chunkDocumentText ce doc) = [0..<length (chunkDocumentText ce doc)]"
  "laid_out 0 (map dc_extent (chunkDocumentText ce doc)) (length doc)"
  "list_all (is_chunk ce doc) (chunkDocumentText ce doc)"
proof -
  let ?packed = "pack_paragraphs ce doc 0 [] 0 (normalizedParagraphs ce doc)"
  have "laid_out 0 (map dc_extent ?packed) (length doc)" "list_all (is_chunk ce doc) ?packed"
    using pack_paragraphs_laid_out [of 0 "[]" "normalizedParagraphs ce doc" "length doc" ce doc 0 0]
      normalizedParagraphs_laid_out [of ce doc]
    by simp_all
  note merged = merge_tail_laid_out [OF this]
  show "laid_out 0 (map dc_extent (chunkDocumentText ce doc)) (length doc)"
    using merged by (simp add: chunkDocumentText_def renumbered(2) del: map_map)
  show "list_all (is_chunk ce doc) (chunkDocumentText ce doc)"
    using merged by (simp add: chunkDocumentText_def renumbered(3) del: map_map)
  show "map dc_chunkIndex (chunkDocumentText ce doc) = [0..<length (chunkDocumentText ce doc)]"
    by (simp add: chunkDocumentText_def renumbered(1) del: map_map)
qed


text \<open>C15: Whatever the document and the tokenizer, the chunks are exact and in order: they are numbered
  from 0, each is not empty and lies in the document, its text is the document between its offsets, its
  normalized text and token count are those of that text, and each starts where or after the ones
  before it end.\<close>

theorem chunks_exact:
  "map dc_chunkIndex (chunkDocumentText ce doc) = [0..<length (chunkDocumentText ce doc)] \<and>
   list_all (\<lambda>c. dc_startOffset c < dc_endOffset c \<and> dc_endOffset c \<le> length doc \<and>
       dc_text c = js_slice doc (dc_startOffset c) (dc_endOffset c) \<and>
       dc_normalizedText c = normalizeClauseText (ck_runtime ce) (dc_text c) \<and>
       dc_tokenCount c = tokenCount ce (dc_text c)) (chunkDocumentText ce doc) \<and>
   sorted_wrt (\<lambda>c d. dc_endOffset c \<le> dc_startOffset d) (chunkDocumentText ce doc)"
proof -
  let ?cs = "chunkDocumentText ce doc"
  have "dc_startOffset c < dc_endOffset c \<and> dc_endOffset c \<le> length doc" if "c \<in> set ?cs" for c
    using laid_out_member [OF chunks_laid_out(2), of "dc_startOffset c" "dc_endOffset c" ce doc] that
    by (auto simp: dc_extent_def)
  moreover have "is_chunk ce doc c" if "c \<in> set ?cs" for c
    using chunks_laid_out(3) [of ce doc] that by (simp add: list_all_iff)
  moreover have "sorted_wrt (\<lambda>c d. dc_endOffset c \<le> dc_startOffset d) ?cs"
    using laid_out_sorted [OF chunks_laid_out(2), of _ _ ce doc]
    by (auto simp: sorted_wrt_iff_nth_less)
  ultimately show ?thesis using chunks_laid_out(1) by (simp add: list_all_iff is_chunk_def)
qed

text \<open>C16: Nothing of a document is lost as long as no paragraph alone is above the limit of a chunk:
  every character that is not white space lies in a chunk.\<close>

theorem chunks_cover_document:
  assumes "list_all (\<lambda>p. tokenCount ce (rp_text p) \<le> CHUNK_MAX_TOKENS) (splitIntoParagraphs doc)"
    and "i < length doc" "\<not> is_js_space (doc ! i)"
  shows "list_ex (\<lambda>c. dc_startOffset c \<le> i \<and> i < dc_endOffset c) (chunkDocumentText ce doc)"
proof -
  have "map (\<lambda>p. if tokenCount ce (rp_text p) > CHUNK_MAX_TOKENS
      then splitParagraphIntoSentenceChunks ce p else [p]) (splitIntoParagraphs doc) =
      map (\<lambda>p. [p]) (splitIntoParagraphs doc)"
    using assms(1) by (auto simp: list_all_iff)
  then have paragraphs: "normalizedParagraphs ce doc = splitIntoParagraphs doc"
    unfolding normalizedParagraphs_def by (simp only: concat_map_singleton list.map_ident)
  let ?packed = "pack_paragraphs ce doc 0 [] 0 (normalizedParagraphs ce doc)"
  have "covered i (map rp_extent (normalizedParagraphs ce doc))"
    unfolding paragraphs splitIntoParagraphs_def using assms(2,3) by (intro paragraphs_cover) auto
  then have "covered i (map dc_extent ?packed)"
    using pack_paragraphs_cover [of 0 "[]" "normalizedParagraphs ce doc" "length doc" i]
      normalizedParagraphs_laid_out by simp
  moreover have "laid_out 0 (map dc_extent ?packed) (length doc)"
    using pack_paragraphs_laid_out [of 0 "[]" "normalizedParagraphs ce doc"] normalizedParagraphs_laid_out
    by simp
  ultimately have "covered i (map dc_extent (merge_tail ce doc ?packed))" by (rule merge_tail_cover [rotated])
  moreover have "js_trim doc \<noteq> []" using assms(2,3) by (auto simp: js_trim_Nil)
  ultimately have "covered i (map dc_extent (chunkDocumentText ce doc))"
    by (simp add: chunkDocumentText_def renumbered(2) del: map_map)
  then show ?thesis by (simp add: covered_def list_ex_iff)
qed

text \<open>A document of two paragraphs under a tokenizer that counts characters.\<close>

definition small_doc :: jstring where
  "small_doc = asc ''ab'' @ [10, 10] @ asc ''cd''"

definition letters :: "nat \<Rightarrow> chunk_env" where
  "letters n = \<lparr>tokenCount = \<lambda>s. n * length s, ck_runtime = \<lparr>nfc = id, toLowerCase = id\<rparr>\<rparr>"

lemma letters_sel [simp]: "tokenCount (letters n) s = n * length s"
  by (simp add: letters_def)

lemmas paragraph_eval = splitIntoParagraphs_def paragraphs_from.simps paragraph_end_def blank_line_from.simps
  js_index_of_def js_slice_def js_trim_def js_trim_start_def js_trim_end_def is_js_space_def skip_newlines_def
  Let_def

lemmas chunk_eval = chunkDocumentText_def normalizedParagraphs_def splitParagraphIntoSentenceChunks_def
  pieces_from.simps spaces_at_def sentence_mark_def sentence_chunk_def flush_def merge_tail_def make_chunk_def
  CHUNK_MAX_TOKENS_def CHUNK_TARGET_TOKENS_def MIN_STANDALONE_CHUNK_TOKENS_def

lemma no_headings:
  "heading_of [97, 98] = None" "heading_of [99, 100] = None"
  "heading_of [97, 97, 46, 32, 32, 32, 98, 98, 46, 32, 99, 99, 46] = None"
  by (simp_all add: heading_of_def pattern_defs)

lemma small_doc_paragraphs:
  "map rp_text (splitIntoParagraphs small_doc) = [[97, 98], [99, 100]]"
  by (simp add: small_doc_def asc_def paragraph_eval no_headings)

theorem chunks_cover_document_witness:
  "list_all (\<lambda>p. tokenCount (letters 500) (rp_text p) \<le> CHUNK_MAX_TOKENS) (splitIntoParagraphs small_doc) \<and>
   list_ex (\<lambda>c. dc_startOffset c \<le> 5 \<and> 5 < dc_endOffset c) (chunkDocumentText (letters 500) small_doc)"
proof -
  have "list_all (\<lambda>s. tokenCount (letters 500) s \<le> CHUNK_MAX_TOKENS) (map rp_text (splitIntoParagraphs small_doc))"
    by (simp add: small_doc_paragraphs CHUNK_MAX_TOKENS_def)
  then have "list_all (\<lambda>p. tokenCount (letters 500) (rp_text p) \<le> CHUNK_MAX_TOKENS) (splitIntoParagraphs small_doc)"
    by (simp add: list.pred_map comp_def)
  moreover have "5 < length small_doc" "\<not> is_js_space (small_doc ! 5)"
    by (simp_all add: small_doc_def asc_def is_js_space_def)
  ultimately show ?thesis using chunks_cover_document [of "letters 500" small_doc 5] by blast
qed

definition spaced_doc :: jstring where
  "spaced_doc = asc ''aa.   bb. cc.''"

lemma spaced_doc_eq: "spaced_doc = [97, 97, 46, 32, 32, 32, 98, 98, 46, 32, 99, 99, 46]"
  by (simp add: spaced_doc_def asc_def)

lemma spaced_doc_paragraphs:
  "splitIntoParagraphs spaced_doc =
     [\<lparr>rp_text = spaced_doc, rp_startOffset = 0, rp_endOffset = 13, rp_headingContext = None\<rparr>]"
  by (simp add: spaced_doc_eq paragraph_eval no_headings)


end
