(* ===== verification/Keywords.thy ===== *)
theory Keywords
  imports Citations
begin

text \<open>
  The words a question is searched by: the tokens of \<^verbatim>\<open>domain/ai/keyword-extraction.ts\<close> and the terms that
  \<^verbatim>\<open>domain/ai/legal-concept-expansion.ts\<close> adds for the legal concepts the question touches. Korean words are
  written as their UTF-16 units.
\<close>

section \<open>Keyword extraction\<close>

lemma dropWhile_shorter: "dropWhile q s = c # rest \<Longrightarrow> length (dropWhile p rest) < length s"
  using length_dropWhile_le [of p rest] length_dropWhile_le [of q s] by simp

text \<open>\<open>s.split(/p+/)\<close>.\<close>

function split_runs :: "(nat \<Rightarrow> bool) \<Rightarrow> jstring \<Rightarrow> jstring list" where
  "split_runs p s =
     (case dropWhile (\<lambda>c. \<not> p c) s of
        [] \<Rightarrow> [s]
      | c # rest \<Rightarrow> takeWhile (\<lambda>c. \<not> p c) s # split_runs p (dropWhile p rest))"
  by pat_completeness auto

termination
  by (relation "measure (length \<circ> snd)") (auto simp: dropWhile_shorter)

declare split_runs.simps [simp del]

definition STOPWORDS :: "jstring list" where
  "STOPWORDS = [[51008], [45716], [51060], [44032], [51012], [47484], [51032], [50640], [50640,
    49436], [51004, 47196],
     [47196], [50752], [44284], [46020], [47564], asc ''what'', asc ''is'', asc ''the'', asc
       ''a'', asc ''an'',
     asc ''of'', asc ''to'', asc ''in'']"

definition MIN_TOKEN_LENGTH :: nat where
  "MIN_TOKEN_LENGTH = 2"

definition KEYWORD_STEM_LENGTH :: nat where
  "KEYWORD_STEM_LENGTH = 2"

definition CONTRACT_DOMAIN_STOPWORD_BASES :: "jstring list" where
  "CONTRACT_DOMAIN_STOPWORD_BASES = [[44228, 50557]]"

definition KOREAN_PARTICLE_SUFFIXES :: "jstring list" where
  "KOREAN_PARTICLE_SUFFIXES = [[51008], [45716], [51060], [44032], [51012], [47484], [51032],
    [50640], [50640, 49436],
     [51004, 47196], [47196], [50752], [44284], [46020], [47564]]"

definition isContractDomainStopword :: "jstring \<Rightarrow> bool" where
  "isContractDomainStopword token =
     list_ex (\<lambda>base. case strip_prefix base token of
         None \<Rightarrow> False
       | Some suffix \<Rightarrow> suffix = [] \<or> suffix \<in> set KOREAN_PARTICLE_SUFFIXES)
       CONTRACT_DOMAIN_STOPWORD_BASES"

text \<open>White space, \<open>, . ! ? ; :\<close>, brackets, quotes and the middle dot.\<close>

definition is_separator :: "nat \<Rightarrow> bool" where
  "is_separator c \<longleftrightarrow>
     is_js_space c \<or>
     c \<in> set [44, 46, 33, 63, 59, 58, 40, 41, 91, 93, 123, 125, 34, 39, 8220, 8221, 8216, 8217, 183]"

definition extractKeywords :: "js_runtime \<Rightarrow> jstring \<Rightarrow> jstring list" where
  "extractKeywords rt text =
     distinct_first (filter (\<lambda>token. length token \<ge> MIN_TOKEN_LENGTH \<and> token \<notin> set STOPWORDS \<and>
                       \<not> isContractDomainStopword token)
       (map js_trim (split_runs is_separator (toLowerCase rt (nfc rt text)))))"

definition keyword_stem :: "jstring \<Rightarrow> jstring" where
  "keyword_stem keyword = take KEYWORD_STEM_LENGTH keyword"

section \<open>Legal concepts\<close>

record concept_group =
  legalTerms :: "jstring list"
  colloquialTriggers :: "jstring list"

definition concept :: "jstring list \<Rightarrow> jstring list \<Rightarrow> concept_group" where
  "concept terms triggers = \<lparr>legalTerms = terms, colloquialTriggers = triggers\<rparr>"

definition CONCEPT_GROUPS :: "concept_group list" where
  "CONCEPT_GROUPS =
     [concept [[54644, 51648], [51333, 47308], [44228, 50557, 51333, 47308], [51076, 51032, 54644,
       51648], [44228, 50557, 50948, 48152, 32, 54644, 51648]]
        [[45208, 44032, 47732], [44536, 47564, 46160, 47732], [45149, 45208], [45149, 45244],
          [45149, 45236]],
      concept [[51088, 46041, 50672, 51109], [51088, 46041, 44081, 49888], [44081, 49888]] [],
      concept [[53685, 51648], [49324, 51204, 53685, 51648], [49436, 47732, 53685, 51648], [53685,
        48372, 44592, 44036]] [],
      concept [[50948, 50557, 44552], [50948, 50557, 48268], [49552, 54644, 48176, 49345, 50529,
        32, 50696, 51221]] [[46024, 32, 47932, 50612], [47932, 50612, 51480, 50556], [47932,
        50612, 50556]],
      concept [[49552, 54644, 48176, 49345], [48176, 49345, 52293, 51076]] [],
      concept [[52293, 51076, 51228, 54620], [49552, 54644, 48176, 49345, 32, 54620, 46020]] [],
      concept [[47732, 52293]] [],
      concept [[45225, 44592], [45225, 54408], [51064, 46020], [51060, 54665, 44592, 54620]] [],
      concept [[51648, 52404, 49345, 44552], [51648, 50672, 48176, 49345, 44552]] [[54056, 45328,
        54000]],
      concept [[51648, 50672], [50672, 52404], [51648, 50672, 49552, 54644, 44552]] [[46024, 32,
        46524, 51060, 47732], [46524, 51060, 45796], [46524, 50688]],
      concept [[45824, 44552], [51648, 44553], [44208, 51228], [51221, 49328]] [],
      concept [[54616, 51088], [48372, 51613], [45812, 48372, 52293, 51076]] [],
      concept [[48708, 48128, 50976, 51648], [44592, 48128]] [],
      concept [[51648, 49885, 51116, 49328, 44428], [51200, 51089, 44428], asc ''ip''] [],
      concept [[51456, 44144, 48277]] [[50612, 45712, 32, 45208, 46972, 32, 48277], [51201, 50857,
        46104, 45716, 32, 48277], [47924, 49832, 32, 48277, 32, 51201, 50857]],
      concept [[44288, 54624], [51204, 49549, 44288, 54624], [54633, 51032, 44288, 54624], [48277,
        50896]]
        [[51116, 54032], [49548, 49569], [50612, 46356, 49436, 32, 51116, 54032], [50612, 46356,
          32, 48277, 50896], [48516, 51137, 32, 49373, 44592, 47732, 32, 50612, 46356, 49436]],
      concept [[44228, 50557, 44592, 44036]] [],
      concept [[46021, 51216]] [],
      concept [[51116, 50948, 53441], [54616, 46020, 44553], [54616, 52397]] [],
      concept [[50577, 46020]] [[45336, 44600], [45336, 44592, 47732], [45336, 44200]],
      concept [[48520, 44032, 54637, 47141]] [],
      concept [[49552, 54644, 48176, 49345], [48176, 49345, 52293, 51076]] [[45572, 44032, 32,
        52293, 51076]]]"

definition DELAY_TRIGGER_TERMS :: "jstring list" where
  "DELAY_TRIGGER_TERMS = [[45734, 51004, 47732], [45734, 44172]]"

definition PAYMENT_DELAY_CONTEXT_TERMS :: "jstring list" where
  "PAYMENT_DELAY_CONTEXT_TERMS = [[46024], [45824, 44552], [51648, 44553], [44208, 51228], [51221,
    49328]]"

definition DELIVERY_DELAY_CONTEXT_TERMS :: "jstring list" where
  "DELIVERY_DELAY_CONTEXT_TERMS = [[45225, 54408], [45225, 44592], [51064, 46020], [51060, 54665,
    44592, 54620], [48176, 49569], [44160, 49688]]"

definition LATE_PAYMENT_TERMS :: "jstring list" where
  "LATE_PAYMENT_TERMS = [[51648, 50672], [50672, 52404], [51648, 50672, 49552, 54644, 44552]]"

definition LATE_DELIVERY_TERMS :: "jstring list" where
  "LATE_DELIVERY_TERMS = [[45225, 44592], [45225, 54408], [51064, 46020], [51060, 54665, 44592,
    54620]]"

definition BOUNDED_DELAY_FALLBACK_TERMS :: "jstring list" where
  "BOUNDED_DELAY_FALLBACK_TERMS = [[51648, 50672], [45225, 44592]]"

definition expandDelayContext :: "jstring \<Rightarrow> jstring list" where
  "expandDelayContext normalizedQuestion =
     (let contains = list_ex (includes_text normalizedQuestion);
          hasPaymentContext = contains PAYMENT_DELAY_CONTEXT_TERMS;
          hasDeliveryContext = contains DELIVERY_DELAY_CONTEXT_TERMS
      in if \<not> contains DELAY_TRIGGER_TERMS then []
         else if hasPaymentContext \<and> hasDeliveryContext then LATE_PAYMENT_TERMS @ LATE_DELIVERY_TERMS
         else if hasPaymentContext then LATE_PAYMENT_TERMS
         else if hasDeliveryContext then LATE_DELIVERY_TERMS
         else BOUNDED_DELAY_FALLBACK_TERMS)"

definition MAX_EXPANSION_TERMS :: nat where
  "MAX_EXPANSION_TERMS = 12"

definition normalize_term :: "js_runtime \<Rightarrow> jstring \<Rightarrow> jstring" where
  "normalize_term rt text = toLowerCase rt (nfc rt text)"

text \<open>\<open>addTerm\<close> in a loop over terms: the terms added so far, whose normal forms are \<open>seen\<close>, and whether
  the loop may go on.\<close>

fun add_terms :: "js_runtime \<Rightarrow> jstring \<Rightarrow> jstring list \<Rightarrow> jstring list \<Rightarrow> jstring list \<times> bool" where
  "add_terms rt normalizedQuestion [] expansion = (expansion, True)"
| "add_terms rt normalizedQuestion (term # terms) expansion =
     (let normalizedTerm = normalize_term rt term
      in if includes_text normalizedQuestion normalizedTerm \<or>
            normalizedTerm \<in> set (map (normalize_term rt) expansion)
         then add_terms rt normalizedQuestion terms expansion
         else let expansion' = expansion @ [term]
              in if length expansion' < MAX_EXPANSION_TERMS
                 then add_terms rt normalizedQuestion terms expansion'
                 else (expansion', False))"

definition triggered :: "js_runtime \<Rightarrow> jstring \<Rightarrow> concept_group \<Rightarrow> bool" where
  "triggered rt normalizedQuestion g =
     list_ex (\<lambda>t. includes_text normalizedQuestion (normalize_term rt t)) (legalTerms g @ colloquialTriggers g)"

fun expand_groups ::
  "js_runtime \<Rightarrow> jstring \<Rightarrow> concept_group list \<Rightarrow> jstring list \<Rightarrow> jstring list \<times> bool" where
  "expand_groups rt normalizedQuestion [] expansion = (expansion, True)"
| "expand_groups rt normalizedQuestion (g # gs) expansion =
     (if \<not> triggered rt normalizedQuestion g then expand_groups rt normalizedQuestion gs expansion
      else case add_terms rt normalizedQuestion (legalTerms g) expansion of
             (expansion', False) \<Rightarrow> (expansion', False)
           | (expansion', True) \<Rightarrow> expand_groups rt normalizedQuestion gs expansion')"

definition expandLegalConcepts :: "js_runtime \<Rightarrow> jstring \<Rightarrow> jstring list" where
  "expandLegalConcepts rt question =
     (let normalizedQuestion = normalize_term rt question
      in case expand_groups rt normalizedQuestion CONCEPT_GROUPS [] of
           (expansion, False) \<Rightarrow> expansion
         | (expansion, True) \<Rightarrow>
             fst (add_terms rt normalizedQuestion (expandDelayContext normalizedQuestion) expansion))"

section \<open>The terms added\<close>

definition expansion_ok :: "js_runtime \<Rightarrow> jstring \<Rightarrow> jstring set \<Rightarrow> jstring list \<Rightarrow> bool" where
  "expansion_ok rt q terms expansion \<longleftrightarrow>
     length expansion \<le> MAX_EXPANSION_TERMS \<and> distinct (map (normalize_term rt) expansion) \<and>
     list_all (\<lambda>t. t \<in> terms \<and> \<not> includes_text q (normalize_term rt t)) expansion"

lemma add_terms_ok:
  "expansion_ok rt q T expansion \<Longrightarrow> length expansion < MAX_EXPANSION_TERMS \<Longrightarrow> set terms \<subseteq> T \<Longrightarrow>
    expansion_ok rt q T (fst (add_terms rt q terms expansion)) \<and>
    (snd (add_terms rt q terms expansion) \<longrightarrow> length (fst (add_terms rt q terms expansion)) < MAX_EXPANSION_TERMS)"
proof (induction rt q terms expansion rule: add_terms.induct)
  case (2 rt q t ts expansion)
  let ?n = "normalize_term rt t"
  show ?case
  proof (cases "includes_text q ?n \<or> ?n \<in> set (map (normalize_term rt) expansion)")
    case True
    then show ?thesis using 2(1) [OF refl True] 2(3-5) by (simp add: Let_def)
  next
    case False
    have "expansion_ok rt q T (expansion @ [t])"
      using 2(3-5) False by (auto simp: expansion_ok_def)
    then show ?thesis using 2(2) [OF refl False refl] 2(5) False by (auto simp: Let_def)
  qed
qed simp

lemma expand_groups_ok:
  "expansion_ok rt q T expansion \<Longrightarrow> length expansion < MAX_EXPANSION_TERMS \<Longrightarrow>
    \<Union> (set ` legalTerms ` set gs) \<subseteq> T \<Longrightarrow>
    expansion_ok rt q T (fst (expand_groups rt q gs expansion)) \<and>
    (snd (expand_groups rt q gs expansion) \<longrightarrow> length (fst (expand_groups rt q gs expansion)) < MAX_EXPANSION_TERMS)"
proof (induction gs arbitrary: expansion)
  case (Cons g gs)
  obtain e go where add: "add_terms rt q (legalTerms g) expansion = (e, go)" by force
  with add_terms_ok [OF Cons.prems(1,2), of "legalTerms g"] Cons.prems(3)
  have e: "expansion_ok rt q T e" "go \<longrightarrow> length e < MAX_EXPANSION_TERMS" by auto
  show ?case
  proof (cases "triggered rt q g \<and> \<not> go")
    case True
    then show ?thesis using add e by simp
  next
    case False
    then show ?thesis using Cons.IH [of e] Cons.IH [OF Cons.prems(1,2)] Cons.prems(3) add e
      by (cases go) auto
  qed
qed simp

lemma delay_terms_legal:
  "set (expandDelayContext q) \<subseteq> \<Union> (set ` legalTerms ` set CONCEPT_GROUPS)"
  by (auto simp: expandDelayContext_def Let_def LATE_PAYMENT_TERMS_def LATE_DELIVERY_TERMS_def
      BOUNDED_DELAY_FALLBACK_TERMS_def CONCEPT_GROUPS_def concept_def split: if_splits)

text \<open>Whatever the question, the expansion is bounded and adds no noise: at most 12 terms, each the
  vocabulary of a concept and never a phrase that only triggers one, no two with the same normal form, and
  none that the question already contains.\<close>

theorem legal_expansion_bounded:
  "length (expandLegalConcepts rt question) \<le> MAX_EXPANSION_TERMS \<and>
   distinct (map (normalize_term rt) (expandLegalConcepts rt question)) \<and>
   list_all (\<lambda>t. t \<in> set (concat (map legalTerms CONCEPT_GROUPS)) \<and>
       \<not> includes_text (normalize_term rt question) (normalize_term rt t)) (expandLegalConcepts rt question)"
proof -
  let ?q = "normalize_term rt question"
  let ?T = "\<Union> (set ` legalTerms ` set CONCEPT_GROUPS)"
  obtain e go where groups: "expand_groups rt ?q CONCEPT_GROUPS [] = (e, go)" by force
  have start: "expansion_ok rt ?q ?T []" by (simp add: expansion_ok_def)
  have "expansion_ok rt ?q ?T e" "go \<longrightarrow> length e < MAX_EXPANSION_TERMS"
    using expand_groups_ok [OF start _ order_refl] groups by (auto simp: MAX_EXPANSION_TERMS_def)
  then have "expansion_ok rt ?q ?T (expandLegalConcepts rt question)"
    using add_terms_ok [of rt ?q ?T e, OF _ _ delay_terms_legal] groups
    by (cases go) (simp_all add: expandLegalConcepts_def Let_def)
  then show ?thesis by (simp add: expansion_ok_def)
qed

text \<open>A runtime that leaves text as it is, as NFC and lower-casing do with composed Korean text.\<close>

definition plain_runtime :: js_runtime where
  "plain_runtime = \<lparr>nfc = id, toLowerCase = id\<rparr>"

text \<open>The question \<^verbatim>\<open>haeji ga doena?\<close>, whether one can terminate, and the word \<^verbatim>\<open>gyeyak\<close> for contract.\<close>

definition termination_question :: jstring where
  "termination_question = [54644, 51648, 44032, 32, 46104, 45208, 63]"

definition contract_word :: jstring where
  "contract_word = [44228, 50557]"

lemma termination_question_expansion:
  "expandLegalConcepts plain_runtime termination_question =
     [[51333, 47308], [44228, 50557, 51333, 47308], [51076, 51032, 54644, 51648], [44228, 50557,
       50948, 48152, 32, 54644, 51648]]"
  by (simp add: expandLegalConcepts_def termination_question_def CONCEPT_GROUPS_def concept_def triggered_def
      normalize_term_def plain_runtime_def includes_text_def test_match_def m_lit_def expandDelayContext_def
      DELAY_TRIGGER_TERMS_def MAX_EXPANSION_TERMS_def asc_def Let_def)

lemma termination_question_keywords:
  "extractKeywords plain_runtime termination_question = [[54644, 51648, 44032], [46104, 45208]]"
  by (simp add: extractKeywords_def termination_question_def plain_runtime_def split_runs.simps is_separator_def
      is_js_space_def js_trim_def js_trim_start_def js_trim_end_def MIN_TOKEN_LENGTH_def STOPWORDS_def asc_def
      isContractDomainStopword_def CONTRACT_DOMAIN_STOPWORD_BASES_def)

text \<open>The word for contract is kept out of the keywords since it occurs in almost every clause; but
  keywords are compared by their first two units, and the expansion of a question on termination adds two
  terms that start with that word: it takes part in the search again, and counts for every clause.\<close>

theorem contract_stem_returns:
  "isContractDomainStopword contract_word \<and>
   \<not> list_ex (\<lambda>k. keyword_stem k = contract_word) (extractKeywords plain_runtime termination_question) \<and>
   map keyword_stem (filter (\<lambda>t. keyword_stem t = contract_word)
     (expandLegalConcepts plain_runtime termination_question)) = [contract_word, contract_word]"
  by (simp add: termination_question_expansion termination_question_keywords contract_word_def keyword_stem_def
      KEYWORD_STEM_LENGTH_def isContractDomainStopword_def CONTRACT_DOMAIN_STOPWORD_BASES_def)

end
