(* ===== verification/HashEmbedding.thy ===== *)
theory HashEmbedding
  imports EmbeddingJobs JsText Complex_Main "HOL-Library.Word"
begin

text \<open>
  Embeddings computed in the process: the hash of character trigrams
  (\<^verbatim>\<open>domain/ai/hashing-trick-embedding.ts\<close>), cosine similarity (\<^verbatim>\<open>cosine-similarity.ts\<close>) and the text of a
  vector in its column (\<^verbatim>\<open>vector-validation.ts\<close>, whose guard is part of \<^verbatim>\<open>EmbeddingJobs\<close>). The hash follows JavaScript's 32-bit conversions on
  \<open>int\<close>; the components, which are doubles in the code, are real numbers here.
\<close>

unbundle bit_operations_syntax

section \<open>The hash\<close>

text \<open>\<open>a ^ b\<close>, \<open>a << k\<close>, \<open>a >>> 0\<close> and \<open>a & b\<close> on numbers that are integers.\<close>

definition js_xor :: "int \<Rightarrow> int \<Rightarrow> int" where
  "js_xor a b = sint ((word_of_int a :: 32 word) XOR word_of_int b)"

definition js_and :: "int \<Rightarrow> int \<Rightarrow> int" where
  "js_and a b = sint ((word_of_int a :: 32 word) AND word_of_int b)"

definition js_shl :: "int \<Rightarrow> nat \<Rightarrow> int" where
  "js_shl a k = sint (push_bit k (word_of_int a :: 32 word))"

definition js_ushr0 :: "int \<Rightarrow> int" where
  "js_ushr0 a = uint (word_of_int a :: 32 word)"

definition fnv_sum :: "int \<Rightarrow> int" where
  "fnv_sum hash = hash + js_shl hash 1 + js_shl hash 4 + js_shl hash 7 + js_shl hash 8 + js_shl hash 24"

definition fnv_step :: "int \<Rightarrow> nat \<Rightarrow> int" where
  "fnv_step hash c = js_ushr0 (fnv_sum (js_xor hash (int c)))"

definition fnv1a32 :: "jstring \<Rightarrow> int" where
  "fnv1a32 input = js_ushr0 (foldl fnv_step 0x811c9dc5 input)"

section \<open>The vector\<close>

definition DEFAULT_DIMENSION :: nat where
  "DEFAULT_DIMENSION = 256"

definition NGRAM_SIZE :: nat where
  "NGRAM_SIZE = 3"

definition extractTrigrams :: "jstring \<Rightarrow> jstring list" where
  "extractTrigrams text =
     (if length text = 0 then []
      else if length text < NGRAM_SIZE then [text]
      else map (\<lambda>i. js_slice text i (i + NGRAM_SIZE)) [0..<length text - NGRAM_SIZE + 1])"

definition add_gram :: "nat \<Rightarrow> int list \<Rightarrow> jstring \<Rightarrow> int list" where
  "add_gram dimension vector gram =
     (let hash = fnv1a32 gram;
          index = nat (hash mod int dimension);
          sign = (if js_and hash 1 = 1 then 1 else - 1)
      in vector[index := vector ! index + sign])"

definition gram_counts :: "jstring \<Rightarrow> nat \<Rightarrow> int list" where
  "gram_counts text dimension = foldl (add_gram dimension) (replicate dimension 0) (extractTrigrams text)"

definition l2Normalize :: "real list \<Rightarrow> real list" where
  "l2Normalize vector =
     (let sumOfSquares = sum_list (map (\<lambda>x. x * x) vector)
      in if sumOfSquares = 0 then vector else map (\<lambda>x. x / sqrt sumOfSquares) vector)"

definition computeHashingTrickEmbedding :: "jstring \<Rightarrow> nat \<Rightarrow> real list" where
  "computeHashingTrickEmbedding text dimension = l2Normalize (map real_of_int (gram_counts text dimension))"

section \<open>Similarity\<close>

text \<open>\<open>Inl\<close>: the two lengths of the error message.\<close>

definition dot :: "real list \<Rightarrow> real list \<Rightarrow> real" where
  "dot a b = sum_list (map2 (*) a b)"

definition cosineSimilarity :: "real list \<Rightarrow> real list \<Rightarrow> (nat \<times> nat) + real" where
  "cosineSimilarity a b =
     (if length a \<noteq> length b then Inl (length a, length b)
      else if dot a a = 0 \<or> dot b b = 0 then Inr 0
      else Inr (dot a b / (sqrt (dot a a) * sqrt (dot b b))))"

definition cosineDistanceToSimilarity :: "real \<Rightarrow> real" where
  "cosineDistanceToSimilarity distance = 1 - distance"

definition cosineSimilarityToDistance :: "real \<Rightarrow> real" where
  "cosineSimilarityToDistance similarity = 1 - similarity"

section \<open>The vector column\<close>

text \<open>Writing and reading a number, \<open>String(x)\<close> and \<open>Number(s)\<close>, are parameters. \<open>None\<close> is the error the
  guard throws.\<close>

definition serializeVectorForPg :: "(real option \<Rightarrow> jstring) \<Rightarrow> vector \<Rightarrow> nat \<Rightarrow> jstring option" where
  "serializeVectorForPg show_number vector expectedDimension =
     (if \<not> assertValidNativeVector vector expectedDimension then None
      else Some (91 # join_with 44 (map show_number vector) @ [93]))"

definition parseVectorFromPg :: "(jstring \<Rightarrow> real option) \<Rightarrow> jstring \<Rightarrow> vector" where
  "parseVectorFromPg read_number text =
     (let trimmed = js_trim text;
          inner = (if trimmed \<noteq> [] \<and> hd trimmed = 91 \<and> last trimmed = 93
                   then js_slice trimmed 1 (length trimmed - 1) else trimmed)
      in if inner = [] then [] else map read_number (split_on 44 inner))"

section \<open>The hash is FNV-1a\<close>

lemma js_ops_word:
  "word_of_int (js_xor a b) = (word_of_int a XOR word_of_int b :: 32 word)"
  "word_of_int (js_shl a k) = push_bit k (word_of_int a :: 32 word)"
  "word_of_int (js_ushr0 a) = (word_of_int a :: 32 word)"
  by (simp_all add: js_xor_def js_shl_def js_ushr0_def)

lemma fnv_sum_word: "word_of_int (fnv_sum h) = (word_of_int h * 16777619 :: 32 word)"
  by (simp add: fnv_sum_def js_ops_word push_bit_eq_mult algebra_simps)

lemma fnv_fold_word:
  "word_of_int (foldl fnv_step h s) = foldl (\<lambda>w c. (w XOR of_nat c) * 16777619) (word_of_int h :: 32 word) s"
  by (induction s arbitrary: h) (simp_all add: fnv_step_def js_ops_word fnv_sum_word)

lemma sint_word32_bounds: "- (2 ^ 31) \<le> sint (w :: 32 word) \<and> sint w < 2 ^ 31"
  using sint_greater_eq [of w] sint_less [of w] by simp

lemma fnv1a32_word: "fnv1a32 s = uint (foldl (\<lambda>w c. (w XOR of_nat c) * 16777619) (0x811c9dc5 :: 32 word) s)"
proof -
  have "fnv1a32 s = uint (word_of_int (foldl fnv_step 0x811c9dc5 s) :: 32 word)"
    by (simp add: fnv1a32_def js_ushr0_def)
  then show ?thesis unfolding fnv_fold_word by simp
qed

text \<open>The shifts and additions of the hash are the multiplication by the FNV prime: \<open>fnv1a32\<close> is the
  FNV-1a hash over the 16-bit units in 32-bit arithmetic, and no sum on the way leaves the range in which
  a double holds every integer.\<close>

theorem fnv_is_word_arithmetic:
  "fnv1a32 s = uint (foldl (\<lambda>w c. (w XOR of_nat c) * 16777619) (0x811c9dc5 :: 32 word) s) \<and>
   \<bar>fnv_sum (js_xor h (int c))\<bar> < 2 ^ 53"
proof (rule conjI [OF fnv1a32_word])
  define x where "x = js_xor h (int c)"
  have "- (2 ^ 31) \<le> x \<and> x < 2 ^ 31" unfolding x_def js_xor_def by (rule sint_word32_bounds)
  moreover have "- (2 ^ 31) \<le> js_shl x k \<and> js_shl x k < 2 ^ 31" for k
    unfolding js_shl_def by (rule sint_word32_bounds)
  note this [of 1] this [of 4] this [of 7] this [of 8] this [of 24]
  ultimately show "\<bar>fnv_sum (js_xor h (int c))\<bar> < 2 ^ 53"
    unfolding fnv_sum_def x_def [symmetric] abs_less_iff by simp
qed

section \<open>Bounds of the similarity\<close>

lemma dot_simps [simp]: "dot [] b = 0" "dot (x # a) (y # b) = x * y + dot a b"
  by (simp_all add: dot_def)

lemma dot_commute: "length a = length b \<Longrightarrow> dot a b = dot b a"
  by (induction a b rule: list_induct2) (simp_all add: mult.commute)

lemma dot_self_nonneg: "0 \<le> dot a a"
  by (induction a) auto

lemma dot_map_divide: "length a = length b \<Longrightarrow> dot (map (\<lambda>x. x / r) a) (map (\<lambda>x. x / s) b) = dot a b / (r * s)"
  by (induction a b rule: list_induct2) (simp_all add: add_divide_distrib)

lemma dot_young:
  "length a = length b \<Longrightarrow> 2 * (dot a b * (x * y)) \<le> dot a a * y\<^sup>2 + dot b b * x\<^sup>2"
proof (induction a b rule: list_induct2)
  case (Cons u a v b)
  have "0 \<le> (u * y - v * x)\<^sup>2" by simp
  then show ?case using Cons.IH by (simp add: power2_eq_square algebra_simps)
qed simp

lemma dot_le:
  assumes "length a = length b" "0 < dot a a" "0 < dot b b"
  shows "\<bar>dot a b\<bar> \<le> sqrt (dot a a) * sqrt (dot b b)"
proof -
  define x where "x = sqrt (dot a a)"
  define y where "y = sqrt (dot b b)"
  have xy: "0 < x * y" "dot a a = x * x" "dot b b = y * y" using assms by (simp_all add: x_def y_def)
  have young: "(dot a b * u) * y \<le> (x * y) * (x * y)" if "u * u = x * x" for u
  proof -
    have "x * x * (y * y) + y * y * (u * u) = 2 * ((x * y) * (x * y))" unfolding that by (simp add: algebra_simps)
    then have "2 * (dot a b * (u * y)) \<le> 2 * ((x * y) * (x * y))"
      using dot_young [OF assms(1), of u y] xy(2,3) by (simp only: power2_eq_square)
    then show ?thesis by (simp only: mult.assoc)
  qed
  have "dot a b * (x * y) \<le> (x * y) * (x * y)" using young [OF refl] by (simp only: mult.assoc)
  moreover have "- dot a b * (x * y) \<le> (x * y) * (x * y)"
    using young [of "- x"] by (simp only: mult_minus_left mult_minus_right minus_minus mult.assoc)
  ultimately
  have "dot a b \<le> x * y" "- dot a b \<le> x * y" using xy(1) by (metis mult_le_cancel_right_pos)+
  then show ?thesis unfolding x_def y_def by simp
qed

lemma cosine_range:
  assumes "length a = length b"
  obtains c where "cosineSimilarity a b = Inr c" "- 1 \<le> c" "c \<le> 1" "0 \<le> dot a b \<Longrightarrow> 0 \<le> c"
proof (cases "dot a a = 0 \<or> dot b b = 0")
  case True
  then show ?thesis using assms that [of 0] by (simp add: cosineSimilarity_def)
next
  case False
  then have pos: "0 < dot a a" "0 < dot b b" using dot_self_nonneg [of a] dot_self_nonneg [of b] by auto
  let ?n = "sqrt (dot a a) * sqrt (dot b b)"
  have n: "0 < ?n" using pos by simp
  have "\<bar>dot a b\<bar> / ?n \<le> 1" using dot_le [OF assms pos] n by (simp add: divide_le_eq del: abs_le_iff)
  then have bounded: "\<bar>dot a b / ?n\<bar> \<le> 1" using n by (simp only: abs_divide abs_of_pos)
  have "0 \<le> dot a b / ?n" if "0 \<le> dot a b" using that n by (simp only: divide_nonneg_pos)
  moreover have "cosineSimilarity a b = Inr (dot a b / ?n)" using False assms by (simp add: cosineSimilarity_def)
  ultimately show ?thesis using that bounded by (metis abs_le_D1 abs_le_D2 minus_le_iff)
qed

section \<open>No two trigrams ever cancel\<close>

lemma js_and_1: "js_and h 1 = (if odd h then 1 else 0)"
proof -
  have "(word_of_int h AND 1 :: 32 word) = of_bool (odd h)"
    by (simp add: and_one_eq mod_2_eq_odd) (metis even_word_iff bit_0 bit_word_of_int_iff len_gt_0 even_of_int_iff)
  then show ?thesis by (simp add: js_and_def)
qed

lemma fnv1a32_nonneg: "0 \<le> fnv1a32 s"
  by (simp add: fnv1a32_def js_ushr0_def)

definition parity_signed :: "int list \<Rightarrow> bool" where
  "parity_signed v \<longleftrightarrow> (\<forall>i < length v. if odd i then 0 \<le> v ! i else v ! i \<le> 0)"

lemma abs_list_update:
  "i < length (v :: int list) \<Longrightarrow> sum_list (map abs (v[i := x])) = sum_list (map abs v) + \<bar>x\<bar> - \<bar>v ! i\<bar>"
  by (induction v arbitrary: i) (auto split: nat.split)

lemma add_gram_parity:
  assumes "parity_signed v" "length v = d" "even d" "0 < d"
  shows "parity_signed (add_gram d v g)" "length (add_gram d v g) = d"
    "sum_list (map abs (add_gram d v g)) = sum_list (map abs v) + 1"
proof -
  define h where "h = fnv1a32 g"
  define i where "i = nat (h mod int d)"
  have i: "i < length v" using assms by (simp add: i_def nat_less_iff)
  have par: "odd h \<longleftrightarrow> odd i"
  proof -
    have "even (h mod int d) \<longleftrightarrow> even h" using assms(3) by (simp add: dvd_mod_iff)
    then show ?thesis using assms(4) by (simp add: i_def even_nat_iff)
  qed
  have upd: "add_gram d v g = v[i := v ! i + (if odd i then 1 else - 1)]"
    by (simp add: add_gram_def Let_def js_and_1 par flip: h_def i_def)
  have s: "if odd i then 0 \<le> v ! i else v ! i \<le> 0" using assms(1) i by (simp add: parity_signed_def)
  show "length (add_gram d v g) = d" by (simp add: upd assms(2))
  show "parity_signed (add_gram d v g)"
    using assms(1) s i by (auto simp: upd parity_signed_def nth_list_update)
  show "sum_list (map abs (add_gram d v g)) = sum_list (map abs v) + 1"
    using s i by (simp add: upd abs_list_update split: if_splits)
qed

lemma gram_counts_parity:
  assumes "even d" "0 < d"
  shows "parity_signed (gram_counts t d)" "length (gram_counts t d) = d"
    "sum_list (map abs (gram_counts t d)) = int (length (extractTrigrams t))"
proof -
  have "parity_signed (foldl (add_gram d) v gs) \<and> length (foldl (add_gram d) v gs) = d \<and>
      sum_list (map abs (foldl (add_gram d) v gs)) = sum_list (map abs v) + int (length gs)"
    if "parity_signed v" "length v = d" for v gs
    using that
  proof (induction gs arbitrary: v)
    case (Cons g gs)
    note one = add_gram_parity [OF Cons.prems assms, of g]
    from Cons.IH [OF one(1,2)] one(3) show ?case by simp
  qed simp
  from this [of "replicate d 0" "extractTrigrams t"]
  have all: "parity_signed (gram_counts t d) \<and> length (gram_counts t d) = d \<and>
      sum_list (map abs (gram_counts t d)) = sum_list (map abs (replicate d (0 :: int))) + int (length (extractTrigrams t))"
    by (simp add: gram_counts_def parity_signed_def)
  then show "parity_signed (gram_counts t d)" "length (gram_counts t d) = d" by simp_all
  show "sum_list (map abs (gram_counts t d)) = int (length (extractTrigrams t))"
    using all by (simp add: sum_list_replicate)
qed

lemma extractTrigrams_empty: "extractTrigrams t = [] \<longleftrightarrow> t = []"
  by (auto simp: extractTrigrams_def NGRAM_SIZE_def)

text \<open>Two vectors whose components have the sign of their position.\<close>

lemma parity_dot:
  assumes "parity_signed v" "parity_signed w" "length v = length w"
  shows "0 \<le> dot (map real_of_int v) (map real_of_int w)"
proof -
  have "0 \<le> real_of_int (v ! i) * real_of_int (w ! i)" if "i < length v" for i
    using assms that unfolding parity_signed_def
    by (cases "odd i") (auto intro: mult_nonneg_nonneg mult_nonpos_nonpos)
  then show ?thesis using assms(3)
    by (auto simp: dot_def set_zip intro!: sum_list_nonneg)
qed

lemma dot_self_zero: "dot (map real_of_int v) (map real_of_int v) = 0 \<longleftrightarrow> sum_list (map abs v) = 0"
proof (induction v)
  case (Cons x v)
  have "0 \<le> dot (map real_of_int v) (map real_of_int v)" by (rule dot_self_nonneg)
  moreover have "0 \<le> sum_list (map abs v)" by (intro sum_list_nonneg) auto
  ultimately show ?case using Cons.IH by (simp add: add_nonneg_eq_0_iff)
qed simp

lemma sum_squares_dot: "sum_list (map (\<lambda>x. x * x) v) = dot v v"
  by (induction v) simp_all

lemma embedding_eq:
  assumes "even d" "0 < d" "t \<noteq> []"
  obtains r where "0 < r" "r * r = dot (map real_of_int (gram_counts t d)) (map real_of_int (gram_counts t d))"
    "computeHashingTrickEmbedding t d = map (\<lambda>x. x / r) (map real_of_int (gram_counts t d))"
proof -
  let ?v = "map real_of_int (gram_counts t d)"
  have "sum_list (map abs (gram_counts t d)) \<noteq> 0"
    using gram_counts_parity(3) [OF assms(1,2), of t] assms(3) by (simp add: extractTrigrams_empty)
  then have "0 < dot ?v ?v" using dot_self_zero [of "gram_counts t d"] dot_self_nonneg [of ?v] by simp
  then show thesis using that [of "sqrt (dot ?v ?v)"]
    unfolding computeHashingTrickEmbedding_def l2Normalize_def Let_def sum_squares_dot by simp
qed

text \<open>C18: With an even dimension, such as the 256 and 128 the program uses, the sign of a trigram is that of
  the dimension it falls on, since both are read from the lowest bit of the hash. So trigrams that
  collide never cancel, against what the signed hashing is meant for: the components add up to the number of
  trigrams, every text that is not empty has an embedding of norm 1, and the similarity of two such texts
  is never negative, and 1 for a text and itself.\<close>

theorem hashing_trick_never_cancels:
  assumes "even d" "0 < d" "s \<noteq> []" "t \<noteq> []"
  shows "sum_list (map abs (gram_counts s d)) = int (length (extractTrigrams s)) \<and>
    dot (computeHashingTrickEmbedding s d) (computeHashingTrickEmbedding s d) = 1 \<and>
    (\<exists>c. cosineSimilarity (computeHashingTrickEmbedding s d) (computeHashingTrickEmbedding t d) = Inr c \<and>
      0 \<le> c \<and> c \<le> 1) \<and>
    cosineSimilarity (computeHashingTrickEmbedding s d) (computeHashingTrickEmbedding s d) = Inr 1"
proof -
  obtain r where r: "0 < r"
    "r * r = dot (map real_of_int (gram_counts s d)) (map real_of_int (gram_counts s d))"
    "computeHashingTrickEmbedding s d = map (\<lambda>x. x / r) (map real_of_int (gram_counts s d))"
    using embedding_eq [OF assms(1,2,3)] by blast
  obtain q where q: "0 < q"
    "computeHashingTrickEmbedding t d = map (\<lambda>x. x / q) (map real_of_int (gram_counts t d))"
    using embedding_eq [OF assms(1,2,4)] by blast
  have len: "length (gram_counts s d) = length (gram_counts t d)"
    using gram_counts_parity(2) [OF assms(1,2)] by simp
  have one: "dot (computeHashingTrickEmbedding s d) (computeHashingTrickEmbedding s d) = 1"
    unfolding r(3) using r(1) by (simp add: dot_map_divide flip: r(2) del: map_map)
  have "0 \<le> dot (computeHashingTrickEmbedding s d) (computeHashingTrickEmbedding t d)"
    unfolding r(3) q(2)
    using r(1) q(1) len parity_dot [OF gram_counts_parity(1) gram_counts_parity(1) len, OF assms(1,2) assms(1,2)]
    by (simp add: dot_map_divide del: map_map)
  moreover have "length (computeHashingTrickEmbedding s d) = length (computeHashingTrickEmbedding t d)"
    by (simp add: r(3) q(2) len)
  ultimately have "\<exists>c. cosineSimilarity (computeHashingTrickEmbedding s d) (computeHashingTrickEmbedding t d) =
      Inr c \<and> 0 \<le> c \<and> c \<le> 1"
    by (metis cosine_range)
  then show ?thesis using gram_counts_parity(3) [OF assms(1,2), of s] one
    by (simp add: cosineSimilarity_def)
qed

theorem hashing_trick_never_cancels_witness:
  "dot (computeHashingTrickEmbedding [44228, 50557] DEFAULT_DIMENSION)
     (computeHashingTrickEmbedding [44228, 50557] DEFAULT_DIMENSION) = 1"
  using hashing_trick_never_cancels [of DEFAULT_DIMENSION "[44228, 50557]" "[44228]"]
  by (simp add: DEFAULT_DIMENSION_def)

text \<open>Cosine similarity is total on vectors of one length: symmetric and between -1 and 1, whatever the
  vectors, zero vectors included; on different lengths it is an error that names them. The conversions
  to and from the distance of the database are inverse.\<close>

theorem cosine_similarity_bounded:
  "(case cosineSimilarity a b of
      Inl e \<Rightarrow> e = (length a, length b) \<and> length a \<noteq> length b
    | Inr c \<Rightarrow> length a = length b \<and> - 1 \<le> c \<and> c \<le> 1 \<and> cosineSimilarity b a = Inr c) \<and>
   cosineDistanceToSimilarity (cosineSimilarityToDistance x) = x"
proof (cases "length a = length b")
  case True
  obtain c where "cosineSimilarity a b = Inr c" "- 1 \<le> c" "c \<le> 1" using cosine_range [OF True] by metis
  moreover have "cosineSimilarity b a = cosineSimilarity a b"
    using True dot_commute [OF True] by (simp only: cosineSimilarity_def mult.commute disj_commute)
  ultimately show ?thesis using True
    by (simp add: cosineDistanceToSimilarity_def cosineSimilarityToDistance_def)
next
  case False
  then show ?thesis
    by (simp add: cosineSimilarity_def cosineDistanceToSimilarity_def cosineSimilarityToDistance_def)
qed

section \<open>Texts without a common dimension\<close>

definition gram_indexes :: "jstring \<Rightarrow> nat \<Rightarrow> nat list" where
  "gram_indexes text dimension = map (\<lambda>g. nat (fnv1a32 g mod int dimension)) (extractTrigrams text)"

lemma gram_counts_other:
  "j < d \<Longrightarrow> j \<notin> set (gram_indexes t d) \<Longrightarrow> gram_counts t d ! j = 0"
proof -
  assume j: "j < d" "j \<notin> set (gram_indexes t d)"
  have same: "foldl (add_gram d) v gs ! j = v ! j"
    if "\<forall>g \<in> set gs. nat (fnv1a32 g mod int d) \<noteq> j" for gs v
    using that by (induction gs arbitrary: v) (auto simp: add_gram_def Let_def)
  have "\<forall>g \<in> set (extractTrigrams t). nat (fnv1a32 g mod int d) \<noteq> j" using j(2) by (auto simp: gram_indexes_def)
  from same [OF this, of "replicate d 0"] show ?thesis using j(1) by (simp add: gram_counts_def)
qed

lemma dot_disjoint:
  "length a = length b \<Longrightarrow> (\<And>j. j < length a \<Longrightarrow> a ! j = 0 \<or> b ! j = 0) \<Longrightarrow> dot a b = 0"
proof (induction a b rule: list_induct2)
  case (Cons x a y b)
  have "x * y = 0" using Cons.prems [of 0] by simp
  moreover have "dot a b = 0" using Cons.IH Cons.prems [of "Suc _"] by simp
  ultimately show ?case by simp
qed simp

lemma disjoint_texts_similarity:
  assumes "even d" "0 < d" "s \<noteq> []" "t \<noteq> []" "set (gram_indexes s d) \<inter> set (gram_indexes t d) = {}"
  shows "cosineSimilarity (computeHashingTrickEmbedding s d) (computeHashingTrickEmbedding t d) = Inr 0"
proof -
  obtain r where r: "computeHashingTrickEmbedding s d = map (\<lambda>x. x / r) (map real_of_int (gram_counts s d))"
    using embedding_eq [OF assms(1,2,3)] by blast
  obtain q where q: "computeHashingTrickEmbedding t d = map (\<lambda>x. x / q) (map real_of_int (gram_counts t d))"
    using embedding_eq [OF assms(1,2,4)] by blast
  note len = gram_counts_parity(2) [OF assms(1,2)]
  have "gram_counts s d ! j = 0 \<or> gram_counts t d ! j = 0" if "j < d" for j
    using gram_counts_other [OF that] assms(5) by blast
  then have "dot (map real_of_int (gram_counts s d)) (map real_of_int (gram_counts t d)) = 0"
    using len by (intro dot_disjoint) auto
  then have "dot (computeHashingTrickEmbedding s d) (computeHashingTrickEmbedding t d) = 0"
    unfolding r q using len by (simp add: dot_map_divide del: map_map)
  then show ?thesis using len by (simp add: cosineSimilarity_def r q)
qed

lemma self_similarity:
  assumes "even d" "0 < d" "s \<noteq> []"
  shows "cosineSimilarity (computeHashingTrickEmbedding s d) (computeHashingTrickEmbedding s d) = Inr 1"
proof -
  obtain r where r: "0 < r"
    "r * r = dot (map real_of_int (gram_counts s d)) (map real_of_int (gram_counts s d))"
    "computeHashingTrickEmbedding s d = map (\<lambda>x. x / r) (map real_of_int (gram_counts s d))"
    using embedding_eq [OF assms] by blast
  have "dot (computeHashingTrickEmbedding s d) (computeHashingTrickEmbedding s d) = 1"
    unfolding r(3) using r(1) by (simp add: dot_map_divide flip: r(2) del: map_map)
  then show ?thesis by (simp add: cosineSimilarity_def)
qed

section \<open>Storing a vector\<close>

definition clean_number :: "jstring \<Rightarrow> bool" where
  "clean_number s \<longleftrightarrow> s \<noteq> [] \<and> list_all (\<lambda>c. c \<noteq> 44 \<and> c \<noteq> 91 \<and> c \<noteq> 93 \<and> \<not> is_js_space c) s"

lemma join_with_clean: "list_all clean_number xs \<Longrightarrow> xs \<noteq> [] \<Longrightarrow> join_with 44 xs \<noteq> []"
  by (induction "44 :: nat" xs rule: join_with.induct) (auto simp: clean_number_def)

text \<open>A vector that passes the guard, one of the expected length with only finite components, is read
  back from the column as it was written, provided a number's text is read back as the number and holds
  no bracket, comma or white space. A vector that does not pass is refused.\<close>

lemma native_vector_roundtrip:
  assumes "list_all (\<lambda>x. x \<noteq> None \<longrightarrow> clean_number (show_number x) \<and> read_number (show_number x) = x) v"
  shows "case serializeVectorForPg show_number v n of
      Some text \<Rightarrow> length v = n \<and> None \<notin> set v \<and> parseVectorFromPg read_number text = v
    | None \<Rightarrow> length v \<noteq> n \<or> None \<in> set v"
proof (cases "length v = n \<and> None \<notin> set v")
  case True
  let ?parts = "map show_number v"
  let ?text = "91 # join_with 44 ?parts @ [93]"
  have "x \<noteq> None" if "x \<in> set v" for x using True that by metis
  then have clean: "list_all clean_number ?parts" "map read_number ?parts = v"
    using assms unfolding list_all_iff by (auto simp del: not_None_eq intro!: map_idI)
  have trim: "js_trim ?text = ?text"
    by (simp add: js_trim_def js_trim_start_def js_trim_end_def is_js_space_def)
  have inner: "js_slice ?text 1 (length ?text - 1) = join_with 44 ?parts"
    by (simp add: js_slice_def)
  have "parseVectorFromPg read_number ?text = v"
  proof (cases "v = []")
    case True
    then show ?thesis unfolding parseVectorFromPg_def trim inner Let_def by (simp add: js_slice_def)
  next
    case False
    have "\<forall>p \<in> set ?parts. 44 \<notin> set p" using clean(1) by (auto simp: clean_number_def list_all_iff)
    then have "split_on 44 (join_with 44 ?parts) = ?parts" using False by (intro split_join) simp_all
    then show ?thesis using inner join_with_clean [OF clean(1)] False clean(2)
      unfolding parseVectorFromPg_def trim Let_def by simp
  qed
  then show ?thesis using True
    by (auto simp: serializeVectorForPg_def assertValidNativeVector_def isFiniteVector_def list_all_iff)
next
  case False
  then show ?thesis
    by (auto simp: serializeVectorForPg_def assertValidNativeVector_def isFiniteVector_def list_all_iff)
qed

end
