(* ===== verification/Evidence.thy ===== *)
theory Evidence
  imports Chunker Keywords HashEmbedding
begin

text \<open>
  The sentence of a clause or chunk that a citation quotes (\<^verbatim>\<open>domain/ai/evidence-sentence.ts\<close>), and the citations
  built of search results (\<^verbatim>\<open>context-builder.ts\<close>).
\<close>

section \<open>Choosing a sentence\<close>

definition MAX_EVIDENCE_LENGTH :: nat where
  "MAX_EVIDENCE_LENGTH = 500"

definition SENTENCE_SCORING_DIMENSION :: nat where
  "SENTENCE_SCORING_DIMENSION = 128"

definition SENTENCE_KEYWORD_WEIGHT :: real where
  "SENTENCE_KEYWORD_WEIGHT = 1 / 2"

definition TRIGRAM_WEIGHT :: real where
  "TRIGRAM_WEIGHT = 1 / 2"

text \<open>The separator is white space after \<open>.\<close>, \<open>!\<close> or \<open>?\<close>, the one the chunker splits at: the
  alternative of the pattern, a Korean ending with its full stop, ends in a full stop too.\<close>

definition splitSentences :: "jstring \<Rightarrow> jstring list" where
  "splitSentences text = filter (\<lambda>s. s \<noteq> []) (map (js_trim \<circ> fst) (pieces_from text 0))"

definition keywordStemScore :: "js_runtime \<Rightarrow> jstring \<Rightarrow> jstring list \<Rightarrow> real" where
  "keywordStemScore rt sentence keywords =
     (if keywords = [] then 0
      else real (length (filter (\<lambda>k. includes_text (toLowerCase rt sentence) (keyword_stem k)) keywords)) /
           real (length keywords))"

definition collapseWhitespace :: "jstring \<Rightarrow> jstring" where
  "collapseWhitespace text = js_trim (squeeze is_js_space 32 text)"

text \<open>\<open>text.indexOf(part)\<close>, \<open>None\<close> for \<open>-1\<close>.\<close>

fun index_of_text :: "jstring \<Rightarrow> jstring \<Rightarrow> nat option" where
  "index_of_text [] part = (if part = [] then Some 0 else None)"
| "index_of_text (c # cs) part =
     (if strip_prefix part (c # cs) \<noteq> None then Some 0 else map_option Suc (index_of_text cs part))"

definition sentence_score :: "js_runtime \<Rightarrow> jstring \<Rightarrow> jstring \<Rightarrow> real" where
  "sentence_score rt question sentence =
     (let questionVector = computeHashingTrickEmbedding question SENTENCE_SCORING_DIMENSION;
          sentenceVector = computeHashingTrickEmbedding sentence SENTENCE_SCORING_DIMENSION;
          trigramScore = max 0 (projr (cosineSimilarity questionVector sentenceVector))
      in SENTENCE_KEYWORD_WEIGHT * keywordStemScore rt sentence (extractKeywords rt question) +
         TRIGRAM_WEIGHT * trigramScore)"

text \<open>The loop over the sentences, from the best one so far; the best score starts at minus infinity.\<close>

fun best_sentence :: "(jstring \<Rightarrow> real) \<Rightarrow> jstring \<Rightarrow> real option \<Rightarrow> jstring list \<Rightarrow> jstring" where
  "best_sentence score best bestScore [] = best"
| "best_sentence score best bestScore (s # ss) =
     (if (case bestScore of None \<Rightarrow> True | Some b \<Rightarrow> score s > b)
      then best_sentence score s (Some (score s)) ss
      else best_sentence score best bestScore ss)"

definition selectBestSentence :: "js_runtime \<Rightarrow> jstring \<Rightarrow> jstring \<Rightarrow> jstring \<times> nat option" where
  "selectBestSentence rt text question =
     (case splitSentences text of
        [] \<Rightarrow> (text, Some 0)
      | [s] \<Rightarrow> (s, index_of_text text s)
      | s # ss \<Rightarrow>
          let best = best_sentence (sentence_score rt question) s None (s # ss)
          in (best, index_of_text text best))"

definition extractEvidenceSentence :: "js_runtime \<Rightarrow> jstring \<Rightarrow> jstring \<Rightarrow> jstring" where
  "extractEvidenceSentence rt clauseText question =
     collapseWhitespace (js_slice (fst (selectBestSentence rt clauseText question)) 0 MAX_EVIDENCE_LENGTH)"

definition findLastHeadingBefore :: "jstring \<Rightarrow> nat \<Rightarrow> jstring option" where
  "findLastHeadingBefore text beforeIndex =
     fold (\<lambda>line heading. case heading_of line of None \<Rightarrow> heading | Some h \<Rightarrow> Some h)
       (split_on 10 (js_slice text 0 beforeIndex)) None"

definition extractChunkEvidence ::
  "js_runtime \<Rightarrow> jstring \<Rightarrow> jstring \<Rightarrow> jstring \<Rightarrow> jstring \<times> jstring" where
  "extractChunkEvidence rt chunkText question fallbackHeading =
     (let (sentence, index) = selectBestSentence rt chunkText question;
          evidenceText = collapseWhitespace (js_slice sentence 0 MAX_EVIDENCE_LENGTH)
      in case index of
           None \<Rightarrow> (evidenceText, fallbackHeading)
         | Some i \<Rightarrow>
             (evidenceText,
              case findLastHeadingBefore chunkText (i + length sentence) of
                Some h \<Rightarrow> h | None \<Rightarrow> fallbackHeading))"

section \<open>Citations of search results\<close>

record clause_result =
  hr_contractClauseId :: string
  hr_contractId :: string
  hr_contractTitle :: jstring
  hr_clauseNumber :: "jstring option"
  hr_title :: "jstring option"
  hr_text :: jstring
  hr_score :: real

record chunk_result =
  hc_chunkId :: string
  hc_contractId :: string
  hc_contractTitle :: jstring
  hc_chunkIndex :: nat
  hc_headingContext :: "jstring option"
  hc_text :: jstring
  hc_startOffset :: nat
  hc_endOffset :: nat
  hc_sourcePageStart :: "nat option"
  hc_sourcePageEnd :: "nat option"
  hc_score :: real

definition FALLBACK_CLAUSE_REFERENCE :: jstring where
  "FALLBACK_CLAUSE_REFERENCE = [51312, 54637, 32, 48264, 54840, 32, 48120, 49345]"

definition buildContext :: "js_runtime \<Rightarrow> 'x clause_result_scheme \<Rightarrow> jstring \<Rightarrow> citation" where
  "buildContext rt r question =
     \<lparr>ci_evidence = ClauseEvidence (hr_contractClauseId r), ci_contractId = hr_contractId r,
      ci_contractTitle = hr_contractTitle r,
      ci_clauseReference =
        (case hr_clauseNumber r of Some n \<Rightarrow> n
         | None \<Rightarrow> (case hr_title r of Some t \<Rightarrow> t | None \<Rightarrow> FALLBACK_CLAUSE_REFERENCE)),
      ci_evidenceText = extractEvidenceSentence rt (hr_text r) question, ci_score = hr_score r\<rparr>"

definition chunk_fallback_heading :: "'x chunk_result_scheme \<Rightarrow> jstring" where
  "chunk_fallback_heading r =
     (case hc_headingContext r of Some h \<Rightarrow> h
      | None \<Rightarrow> [48376, 47928, 32, 48156, 52684, 32] @ asc (nat_str (hc_chunkIndex r +
        1)))"

definition buildChunkContext :: "js_runtime \<Rightarrow> 'x chunk_result_scheme \<Rightarrow> jstring \<Rightarrow> citation" where
  "buildChunkContext rt r question =
     (let (evidenceText, heading) =
            extractChunkEvidence rt (hc_text r) question (chunk_fallback_heading r)
      in \<lparr>ci_evidence = ChunkEvidence (hc_chunkId r) (hc_sourcePageStart r) (hc_sourcePageEnd r)
                          (hc_startOffset r) (hc_endOffset r),
          ci_contractId = hc_contractId r, ci_contractTitle = hc_contractTitle r,
          ci_clauseReference = heading, ci_evidenceText = evidenceText, ci_score = hc_score r\<rparr>)"

fun first_by_text :: "js_runtime \<Rightarrow> ('a \<Rightarrow> jstring) \<Rightarrow> jstring list \<Rightarrow> 'a list \<Rightarrow> 'a list" where
  "first_by_text rt text_of seen [] = []"
| "first_by_text rt text_of seen (r # rs) =
     (let key = normalizeClauseText rt (text_of r)
      in if key \<in> set seen then first_by_text rt text_of seen rs
         else r # first_by_text rt text_of (key # seen) rs)"

definition deduplicateByNormalizedText :: "js_runtime \<Rightarrow> ('a \<Rightarrow> jstring) \<Rightarrow> 'a list \<Rightarrow> 'a list" where
  "deduplicateByNormalizedText rt text_of results = first_by_text rt text_of [] results"

section \<open>The sentence is part of the text\<close>

definition part_of :: "jstring \<Rightarrow> jstring \<Rightarrow> bool" where
  "part_of part text \<longleftrightarrow> (\<exists>pre post. text = pre @ part @ post)"

lemma part_of_trans: "part_of a b \<Longrightarrow> part_of b c \<Longrightarrow> part_of a c"
  unfolding part_of_def by (metis append.assoc)

lemma part_of_take_drop: "part_of (take k (drop i t)) t" "part_of (drop i t) t"
  unfolding part_of_def by (metis append.assoc append_Nil2 append_take_drop_id)+

lemma part_of_trim: "part_of (js_trim s) s"
proof -
  have "js_trim s = take (length (js_trim s)) (js_trim_start s)"
    unfolding js_trim_def by (rule js_trim_end_take)
  then have "part_of (js_trim s) (js_trim_start s)"
    unfolding part_of_def by (metis append_Nil append_take_drop_id)
  moreover have "part_of (js_trim_start s) s"
    by (subst js_trim_start_drop) (rule part_of_take_drop)
  ultimately show ?thesis by (rule part_of_trans)
qed

lemma pieces_part_of: "p \<in> fst ` set (pieces_from t i) \<Longrightarrow> part_of p t"
proof (induction t i rule: pieces_from.induct)
  case (1 t i)
  then show ?case
    by (cases "boundary_at False (drop i t)")
      (auto simp: pieces_from.simps [of t i] part_of_take_drop)
qed

lemma pieces_cover: "c \<in> set (drop i t) \<Longrightarrow> \<not> is_js_space c \<Longrightarrow> \<exists>p \<in> fst ` set (pieces_from t i). c \<in> set p"
proof (induction t i rule: pieces_from.induct)
  case (1 t i)
  show ?case
  proof (cases "boundary_at False (drop i t)")
    case None
    with 1(2) show ?thesis by (simp add: pieces_from.simps [of t i])
  next
    case (Some k)
    let ?rest = "drop k (drop i t)"
    have "drop i t = take k (drop i t) @ takeWhile is_js_space ?rest @ dropWhile is_js_space ?rest"
      unfolding takeWhile_dropWhile_id append_take_drop_id ..
    then have "c \<in> set (take k (drop i t)) \<or> c \<in> set (dropWhile is_js_space ?rest)"
      using 1(2,3) by (metis Un_iff set_append set_takeWhileD)
    moreover have "dropWhile is_js_space ?rest = drop (i + k + spaces_at t (i + k)) t"
      by (simp add: dropWhile_eq_drop spaces_at_def add.commute add.left_commute)
    ultimately show ?thesis using 1(1) [OF Some] 1(3) Some by (auto simp: pieces_from.simps [of t i])
  qed
qed

lemma js_trim_idem: "js_trim (js_trim s) = js_trim s"
proof (cases "js_trim s = []")
  case True
  then show ?thesis by (simp only:) (simp add: js_trim_def js_trim_start_def js_trim_end_def)
next
  case False
  let ?r = "js_trim_start s"
  have prefix: "js_trim s = take (length (js_trim s)) ?r" unfolding js_trim_def by (rule js_trim_end_take)
  then have r: "?r \<noteq> []" using False by auto
  have "hd (js_trim s) = hd ?r" using False by (subst prefix) (simp add: hd_take)
  then have "\<not> is_js_space (hd (js_trim s))"
    using r hd_dropWhile [of is_js_space s] by (simp add: js_trim_start_def)
  moreover have "\<not> is_js_space (last (js_trim s))"
    using False hd_dropWhile [of is_js_space "rev ?r"] by (simp add: js_trim_def js_trim_end_def last_rev)
  ultimately show ?thesis using False by (intro js_trim_id) (simp_all add: hd_conv_nth last_conv_nth)
qed

lemma sentence_facts:
  "s \<in> set (splitSentences t) \<Longrightarrow> s \<noteq> [] \<and> js_trim s = s \<and> part_of s t"
proof -
  assume "s \<in> set (splitSentences t)"
  then obtain p where p: "p \<in> fst ` set (pieces_from t 0)" "s = js_trim p" "s \<noteq> []"
    by (auto simp: splitSentences_def)
  then show ?thesis using part_of_trans [OF part_of_trim pieces_part_of [OF p(1)]] by (simp add: js_trim_idem)
qed

lemma sentences_exist: "js_trim t \<noteq> [] \<Longrightarrow> splitSentences t \<noteq> []"
proof -
  assume "js_trim t \<noteq> []"
  then obtain c where "c \<in> set t" "\<not> is_js_space c" by (auto simp: js_trim_Nil)
  then obtain p where "p \<in> fst ` set (pieces_from t 0)" "js_trim p \<noteq> []"
    using pieces_cover [of c 0 t] by (auto simp: js_trim_Nil)
  then show ?thesis unfolding splitSentences_def by (auto simp: filter_empty_conv)
qed

lemma index_of_text_part:
  "part_of part t \<Longrightarrow> \<exists>i. index_of_text t part = Some i \<and> js_slice t i (i + length part) = part"
proof (induction t part rule: index_of_text.induct)
  case (1 part)
  then show ?case by (auto simp: part_of_def js_slice_def)
next
  case (2 c cs part)
  show ?case
  proof (cases "strip_prefix part (c # cs)")
    case None
    obtain pre post where split: "c # cs = pre @ part @ post" using 2(2) by (auto simp: part_of_def)
    have "pre \<noteq> []"
    proof
      assume "pre = []"
      then have "strip_prefix part (c # cs) = Some post" using split by (simp add: strip_prefix_Some)
      then show False using None by simp
    qed
    then have "part_of part cs" using split by (cases pre) (auto simp: part_of_def)
    then show ?thesis using 2(1) None by (auto simp: js_slice_def)
  next
    case (Some r)
    then have "c # cs = part @ r" by (simp add: strip_prefix_Some)
    then have "js_slice (c # cs) 0 (0 + length part) = part" by (simp add: js_slice_def)
    then show ?thesis using Some by simp
  qed
qed

lemma best_sentence_max:
  "best_sentence f b (Some (f b)) ss \<in> insert b (set ss) \<and>
   (\<forall>s \<in> insert b (set ss). f s \<le> f (best_sentence f b (Some (f b)) ss))"
proof (induction ss arbitrary: b)
  case (Cons s ss)
  show ?case
  proof (cases "f b < f s")
    case True
    then show ?thesis using Cons.IH [of s] by auto
  next
    case False
    then show ?thesis using Cons.IH [of b] by (auto intro: order_trans [of "f s" "f b"])
  qed
qed simp

lemma selected_sentence:
  assumes "js_trim t \<noteq> []"
  obtains s i where "selectBestSentence rt t q = (s, Some i)" "s \<in> set (splitSentences t)"
    "js_slice t i (i + length s) = s"
    "is_arg_max (sentence_score rt q) (\<lambda>s. s \<in> set (splitSentences t)) s"
proof -
  obtain x xs where xs: "splitSentences t = x # xs" using sentences_exist [OF assms] by (cases "splitSentences t") auto
  let ?b = "best_sentence (sentence_score rt q) x None (x # xs)"
  have best: "?b \<in> set (splitSentences t)" "\<forall>s \<in> set (splitSentences t). sentence_score rt q s \<le> sentence_score rt q ?b"
    using best_sentence_max [of "sentence_score rt q" x xs] xs by auto
  have sel: "selectBestSentence rt t q = (?b, index_of_text t ?b)"
    using xs by (cases xs) (simp_all add: selectBestSentence_def Let_def)
  obtain i where "index_of_text t ?b = Some i" "js_slice t i (i + length ?b) = ?b"
    using index_of_text_part [of ?b t] sentence_facts [OF best(1)] by auto
  moreover have "is_arg_max (sentence_score rt q) (\<lambda>s. s \<in> set (splitSentences t)) ?b"
    using best by (auto simp: is_arg_max_def not_less)
  ultimately show thesis using that sel best(1) by auto
qed

section \<open>What is quoted\<close>

lemma squeeze_set: "c \<in> set (squeeze p d s) \<Longrightarrow> c = d \<or> (c \<in> set s \<and> \<not> p c)"
proof (induction p d s rule: squeeze.induct)
  case (2 p d x xs)
  then show ?case by (auto split: if_splits dest: set_dropWhileD)
qed simp

lemma squeeze_keeps: "c \<in> set s \<Longrightarrow> \<not> p c \<Longrightarrow> c \<in> set (squeeze p d s)"
proof (induction p d s rule: squeeze.induct)
  case (2 p d x xs)
  have "c \<in> set (dropWhile p xs)" if "c \<in> set xs"
    using that 2(4) by (metis Un_iff set_append set_takeWhileD takeWhile_dropWhile_id)
  then show ?case using 2 by auto
qed simp

lemma squeeze_length: "length (squeeze p d s) \<le> length s"
proof (induction p d s rule: squeeze.induct)
  case (2 p d x xs)
  then show ?case using length_dropWhile_le [of p xs] by (auto intro: le_trans)
qed simp

lemma js_trim_length: "length (js_trim s) \<le> length s"
  using js_trim_end_length [of "js_trim_start s"] js_trim_start_length [of s] by (simp add: js_trim_def)

lemma set_js_trim: "set (js_trim s) \<subseteq> set s"
  using part_of_trim [of s] unfolding part_of_def by (metis Un_iff set_append subsetI)

lemma collapse_quotable:
  assumes "s \<noteq> []" "js_trim s = s"
  defines "e \<equiv> collapseWhitespace (js_slice s 0 MAX_EVIDENCE_LENGTH)"
  shows "e \<noteq> []" "js_trim e = e" "length e \<le> MAX_EVIDENCE_LENGTH" "list_all (\<lambda>c. c = 32 \<or> \<not> is_js_space c) e"
proof -
  let ?u = "js_slice s 0 MAX_EVIDENCE_LENGTH" and ?v = "squeeze is_js_space 32 (js_slice s 0 MAX_EVIDENCE_LENGTH)"
  have "\<not> is_js_space (hd s)"
  proof
    assume "is_js_space (hd s)"
    then have "length (js_trim_start s) < length s"
      using assms(1) length_dropWhile_le [of is_js_space "tl s"]
      by (cases s) (auto simp: js_trim_start_def)
    then show False using js_trim_end_length [of "js_trim_start s"] assms(2) by (simp add: js_trim_def)
  qed
  moreover have "hd s \<in> set ?u"
    using assms(1) by (cases s) (simp_all add: js_slice_def MAX_EVIDENCE_LENGTH_def)
  ultimately have "hd s \<in> set ?v" "\<not> is_js_space (hd s)" by (simp_all add: squeeze_keeps)
  then show "e \<noteq> []" by (auto simp: e_def collapseWhitespace_def js_trim_Nil)
  show "js_trim e = e" by (simp add: e_def collapseWhitespace_def js_trim_idem)
  have "length e \<le> length ?u"
    unfolding e_def collapseWhitespace_def using js_trim_length squeeze_length by (rule le_trans)
  then show "length e \<le> MAX_EVIDENCE_LENGTH" by (simp add: js_slice_length)
  show "list_all (\<lambda>c. c = 32 \<or> \<not> is_js_space c) e"
    using set_js_trim [of ?v] by (auto simp: list_all_iff e_def collapseWhitespace_def dest!: squeeze_set)
qed

lemma headings_fold:
  "fold (\<lambda>line heading. case heading_of line of None \<Rightarrow> heading | Some h \<Rightarrow> Some h) ls h0 = Some h \<Longrightarrow>
    h0 = Some h \<or> Some h \<in> heading_of ` set ls"
proof (induction ls arbitrary: h0)
  case (Cons l ls)
  from Cons.IH Cons.prems show ?case by (cases "heading_of l") (auto simp: image_iff)
qed simp


section \<open>A sentence that also ends an earlier one\<close>

text \<open>\<^verbatim>\<open>Article 1 na-ga. / Article 2 da. ga.\<close> on two lines, asked with the last sentence.\<close>

definition repeated_chunk :: jstring where
  "repeated_chunk = [51228, 49, 51312, 32, 45208, 44032, 46] @ [10] @ [51228, 50, 51312, 32,
    45796, 46, 32, 44032, 46]"

definition repeated_sentence :: jstring where
  "repeated_sentence = [44032, 46]"

lemma repeated_sentences:
  "splitSentences repeated_chunk = [[51228, 49, 51312, 32, 45208, 44032, 46], [51228, 50, 51312,
    32, 45796, 46], repeated_sentence]"
  by (simp add: splitSentences_def repeated_chunk_def repeated_sentence_def pieces_from.simps sentence_mark_def
      spaces_at_def is_js_space_def js_trim_def js_trim_start_def js_trim_end_def)

lemma repeated_grams:
  "set (gram_indexes repeated_sentence 128) \<inter> set (gram_indexes [51228, 49, 51312, 32,
    45208, 44032, 46] 128) = {}"
  "set (gram_indexes repeated_sentence 128) \<inter> set (gram_indexes [51228, 50, 51312, 32,
    45796, 46] 128) = {}"
  by (simp_all add: gram_indexes_def extractTrigrams_def NGRAM_SIZE_def repeated_sentence_def js_slice_def
      fnv1a32_word upt_rec)

lemma repeated_no_keywords: "extractKeywords plain_runtime repeated_sentence = []"
  by (simp add: extractKeywords_def repeated_sentence_def plain_runtime_def split_runs.simps is_separator_def
      is_js_space_def js_trim_def js_trim_start_def js_trim_end_def MIN_TOKEN_LENGTH_def)

lemma repeated_scores:
  "sentence_score plain_runtime repeated_sentence [51228, 49, 51312, 32, 45208, 44032, 46] = 0"
  "sentence_score plain_runtime repeated_sentence [51228, 50, 51312, 32, 45796, 46] = 0"
  "sentence_score plain_runtime repeated_sentence repeated_sentence = 1 / 2"
  using disjoint_texts_similarity [OF _ _ _ _ repeated_grams(1)] disjoint_texts_similarity [OF _ _ _ _ repeated_grams(2)]
    self_similarity [of 128 repeated_sentence]
  by (simp_all add: sentence_score_def SENTENCE_SCORING_DIMENSION_def repeated_no_keywords keywordStemScore_def
      TRIGRAM_WEIGHT_def Let_def) (simp_all add: repeated_sentence_def)

lemma repeated_headings:
  "heading_of [51228, 49, 51312, 32, 45208, 44032, 46] = Some [51228, 49, 51312]"
  "heading_of [51228, 50, 51312, 32, 45796, 46, 32, 44032, 46] = Some [51228, 50, 51312]"
  by (simp_all add: heading_of_def pattern_defs)



end
