(* ===== verification/RetrievalTables.thy ===== *)
theory RetrievalTables
  imports EmbeddingJobs Evidence "HOL-Library.Product_Lexorder"
begin

text \<open>
  What a question may be answered from: the latest revision of each live contract
  (\<^verbatim>\<open>server/repositories/ai-retrieval-freshness.ts\<close>, \<^verbatim>\<open>clause-evidence-eligibility.ts\<close>), the keyword and vector
  queries over it, the samples of clause families, and the checksums the caches compare. \<open>ILIKE\<close> and the
  search in the vector index are the database's and parameters.
\<close>

section \<open>Tables\<close>

text \<open>The tables of the embedding pipelines, with the columns only retrieval reads, by row id.\<close>

record retrieval_db = ai_db +
  embedding_createdAt :: "string \<Rightarrow> time_ms"
  document_createdAt :: "string \<Rightarrow> time_ms"
  chunk_pages :: "string \<Rightarrow> nat option \<times> nat option"

definition contract_title :: "string \<Rightarrow> 'x extraction_db_scheme \<Rightarrow> jstring" where
  "contract_title i db =
     (case find_row (\<lambda>c. ct_id c = i) (contracts db) of
        Some c \<Rightarrow> (case ct_columns c ''title'' of JStr s \<Rightarrow> s | _ \<Rightarrow> [])
      | None \<Rightarrow> [])"

definition contract_live :: "string \<Rightarrow> 'x extraction_db_scheme \<Rightarrow> bool" where
  "contract_live i db = list_ex (\<lambda>c. ct_id c = i \<and> ct_deletedAt c = None) (contracts db)"

text \<open>\<open>contractId ? { contractId } : {}\<close>\<close>

definition contract_filter :: "string option \<Rightarrow> string \<Rightarrow> bool" where
  "contract_filter contractId i = (case contractId of None \<Rightarrow> True | Some k \<Rightarrow> i = k)"

section \<open>The latest revision\<close>

definition liveContractIds :: "string \<Rightarrow> 'x extraction_db_scheme \<Rightarrow> string list" where
  "liveContractIds org db =
     map ct_id (filter (\<lambda>c. ct_organizationId c = org \<and> ct_deletedAt c = None) (contracts db))"

text \<open>The first row of each contract, in the order of the rows.\<close>

fun first_per :: "('r \<Rightarrow> string) \<Rightarrow> string list \<Rightarrow> 'r list \<Rightarrow> 'r list" where
  "first_per key seen [] = []"
| "first_per key seen (r # rs) =
     (if key r \<in> set seen then first_per key seen rs else r # first_per key (key r # seen) rs)"

definition latestAuthoritativeExtractedDocumentIds :: "string \<Rightarrow> 'x retrieval_db_scheme \<Rightarrow> string list" where
  "latestAuthoritativeExtractedDocumentIds org db =
     map xd_id (first_per xd_contractId []
       (sort_key (\<lambda>d. - document_createdAt db (xd_id d))
         (filter (\<lambda>d. xd_organizationId d = org \<and> xd_contractId d \<in> set (liveContractIds org db))
           (extracted_documents db))))"

text \<open>\<open>completedAt DESC, createdAt DESC\<close>: the database puts rows without a date first.\<close>

definition job_order :: "segmentation_job \<Rightarrow> (int \<times> int) \<times> int" where
  "job_order j =
     ((case sj_completedAt j of None \<Rightarrow> (0, 0) | Some t \<Rightarrow> (1, - t)), - sj_createdAt j)"

definition latestAuthoritativeClauseSegmentationJobIds ::
  "string \<Rightarrow> 'x segmentation_db_scheme \<Rightarrow> string list" where
  "latestAuthoritativeClauseSegmentationJobIds org db =
     map sj_id (first_per sj_contractId []
       (sort_key job_order
         (filter (\<lambda>j. sj_organizationId j = org \<and> sj_contractId j \<in> set (liveContractIds org db) \<and>
                      sj_status j \<in> {Seg_REVIEW_REQUIRED, Seg_COMPLETED})
           (segmentation_jobs db))))"

definition not_title_only :: "clause_row \<Rightarrow> bool" where
  "not_title_only c \<longleftrightarrow> cr_clauseNumber c \<noteq> None \<or> cr_title c \<noteq> None"

section \<open>Keyword matches\<close>

record search_env =
  se_runtime :: js_runtime
  se_ilike :: "jstring \<Rightarrow> jstring \<Rightarrow> bool"

definition keyword_stems :: "jstring list \<Rightarrow> jstring list" where
  "keyword_stems keywords = distinct_first (map keyword_stem keywords)"

definition match_count :: "js_runtime \<Rightarrow> jstring list \<Rightarrow> jstring \<Rightarrow> nat" where
  "match_count rt keywords normalizedText =
     length (filter (\<lambda>k. includes_text (toLowerCase rt normalizedText) (keyword_stem k)) keywords)"

definition findClauseKeywordMatchCounts ::
  "search_env \<Rightarrow> string \<Rightarrow> jstring list \<Rightarrow> string option \<Rightarrow> 'x retrieval_db_scheme \<Rightarrow> (string \<times> nat) list" where
  "findClauseKeywordMatchCounts sc org keywords contractId db =
     (let eligibleJobIds = latestAuthoritativeClauseSegmentationJobIds org db
      in if keywords = [] \<or> eligibleJobIds = [] then []
         else map (\<lambda>c. (cr_id c, match_count (se_runtime sc) keywords (cr_normalizedText c)))
           (filter (\<lambda>c. cr_organizationId c = org \<and> contract_live (cr_contractId c) db \<and>
                        cr_segmentationJobId c \<in> set eligibleJobIds \<and> contract_filter contractId (cr_contractId c) \<and>
                        list_ex (se_ilike sc (cr_normalizedText c)) (keyword_stems keywords) \<and>
                        not_title_only c)
             (contract_clauses db)))"

definition findChunkKeywordMatchCounts ::
  "search_env \<Rightarrow> string \<Rightarrow> jstring list \<Rightarrow> string option \<Rightarrow> 'x retrieval_db_scheme \<Rightarrow> (string \<times> nat) list" where
  "findChunkKeywordMatchCounts sc org keywords contractId db =
     (let eligibleDocumentIds = latestAuthoritativeExtractedDocumentIds org db
      in if keywords = [] \<or> eligibleDocumentIds = [] then []
         else map (\<lambda>c. (dk_id c, match_count (se_runtime sc) keywords (dk_normalizedText c)))
           (filter (\<lambda>c. dk_organizationId c = org \<and> contract_live (dk_contractId c) db \<and>
                        dk_extractedDocumentId c \<in> set eligibleDocumentIds \<and>
                        contract_filter contractId (dk_contractId c) \<and>
                        list_ex (se_ilike sc (dk_normalizedText c)) (keyword_stems keywords))
             (document_chunks db)))"

section \<open>Vector search in the process\<close>

record vector_query =
  vq_organizationId :: string
  vq_queryVector :: "real list"
  vq_embeddingProvider :: string
  vq_embeddingModel :: string
  vq_topK :: nat
  vq_contractId :: "string option"

datatype search_error = EmbeddingFailed | VectorSearchFailed

text \<open>The scores of rows, or the error of the first vector of another length. A stored component that is
  not a number has no value here (\<open>the None\<close>): providers answer in JSON, which has none.\<close>

fun score_rows ::
  "real list \<Rightarrow> embedding_row list \<Rightarrow> search_error + (embedding_row \<times> real) list" where
  "score_rows q [] = Inr []"
| "score_rows q (r # rs) =
     (case cosineSimilarity q (map the (em_vector r)) of
        Inl _ \<Rightarrow> Inl VectorSearchFailed
      | Inr s \<Rightarrow> (case score_rows q rs of Inl e \<Rightarrow> Inl e | Inr scored \<Rightarrow> Inr ((r, s) # scored)))"

definition best_rows :: "nat \<Rightarrow> ('a \<times> real) list \<Rightarrow> ('a \<times> real) list" where
  "best_rows topK scored = take topK (sort_key (\<lambda>(_, s). - s) scored)"

definition application_clause_search ::
  "vector_query \<Rightarrow> 'x retrieval_db_scheme \<Rightarrow> search_error + (string \<times> real) list" where
  "application_clause_search q db =
     (let eligibleJobIds = latestAuthoritativeClauseSegmentationJobIds (vq_organizationId q) db;
          embeddings = filter (\<lambda>e. em_organizationId e = vq_organizationId q \<and> em_isLatest e \<and>
              em_provider e = vq_embeddingProvider q \<and> em_model e = vq_embeddingModel q \<and>
              list_ex (\<lambda>c. cr_id c = em_sourceId e \<and> cr_segmentationJobId c \<in> set eligibleJobIds \<and>
                  contract_filter (vq_contractId q) (cr_contractId c) \<and> not_title_only c) (contract_clauses db))
            (clause_embeddings db)
      in if eligibleJobIds = [] then Inr []
         else case score_rows (vq_queryVector q) embeddings of
                Inl e \<Rightarrow> Inl e
              | Inr scored \<Rightarrow> Inr (map (\<lambda>(e, s). (em_sourceId e, s)) (best_rows (vq_topK q) scored)))"

definition chunk_result_of :: "'x retrieval_db_scheme \<Rightarrow> chunk_row \<Rightarrow> real \<Rightarrow> chunk_result" where
  "chunk_result_of db c score =
     \<lparr>hc_chunkId = dk_id c, hc_contractId = dk_contractId c, hc_contractTitle = contract_title (dk_contractId c) db,
      hc_chunkIndex = dk_chunkIndex c, hc_headingContext = dk_headingContext c, hc_text = dk_text c,
      hc_startOffset = dk_startOffset c, hc_endOffset = dk_endOffset c,
      hc_sourcePageStart = fst (chunk_pages db (dk_id c)), hc_sourcePageEnd = snd (chunk_pages db (dk_id c)),
      hc_score = score\<rparr>"

definition application_chunk_search ::
  "vector_query \<Rightarrow> 'x retrieval_db_scheme \<Rightarrow> search_error + chunk_result list" where
  "application_chunk_search q db =
     (let eligibleDocumentIds = latestAuthoritativeExtractedDocumentIds (vq_organizationId q) db;
          chunk_of = (\<lambda>e. find_row (\<lambda>c. dk_id c = em_sourceId e) (document_chunks db));
          embeddings = filter (\<lambda>e. em_organizationId e = vq_organizationId q \<and> em_isLatest e \<and>
              em_provider e = vq_embeddingProvider q \<and> em_model e = vq_embeddingModel q \<and>
              (case chunk_of e of
                 None \<Rightarrow> False
               | Some c \<Rightarrow> contract_live (dk_contractId c) db \<and> dk_extractedDocumentId c \<in> set eligibleDocumentIds \<and>
                   contract_filter (vq_contractId q) (dk_contractId c)))
            (chunk_embeddings db)
      in if eligibleDocumentIds = [] then Inr []
         else case score_rows (vq_queryVector q) embeddings of
                Inl e \<Rightarrow> Inl e
              | Inr scored \<Rightarrow>
                  Inr (map (\<lambda>(e, s). chunk_result_of db (the (chunk_of e)) s) (best_rows (vq_topK q) scored)))"

section \<open>Choosing the provider\<close>

datatype ('q, 'd, 'r) vector_provider = Application | Pgvector "'q \<Rightarrow> 'd \<Rightarrow> search_error + 'r list"

definition searchClauseVectors ::
  "bool \<Rightarrow> (vector_query, 'x retrieval_db_scheme, string \<times> real) vector_provider \<Rightarrow>
   vector_query \<Rightarrow> 'x retrieval_db_scheme \<Rightarrow> search_error + (string \<times> real) list" where
  "searchClauseVectors allowFallback provider q db =
     (case provider of
        Application \<Rightarrow> application_clause_search q db
      | Pgvector search \<Rightarrow>
          (case search q db of
             Inr results \<Rightarrow> Inr results
           | Inl e \<Rightarrow> if \<not> allowFallback then Inl e else application_clause_search q db))"

definition searchDocumentChunkVectors ::
  "bool \<Rightarrow> (vector_query, 'x retrieval_db_scheme, chunk_result) vector_provider \<Rightarrow>
   vector_query \<Rightarrow> 'x retrieval_db_scheme \<Rightarrow> search_error + chunk_result list" where
  "searchDocumentChunkVectors allowFallback provider q db =
     (case provider of
        Application \<Rightarrow> application_chunk_search q db
      | Pgvector search \<Rightarrow>
          (case search q db of
             Inr results \<Rightarrow> Inr results
           | Inl e \<Rightarrow> if \<not> allowFallback then Inl e else application_chunk_search q db))"

section \<open>Samples of clause families\<close>

definition HIGH_VALUE_CLAUSE_TYPES :: "string list" where
  "HIGH_VALUE_CLAUSE_TYPES =
     [''TERMINATION'', ''AUTO_RENEWAL'', ''PAYMENT'', ''LIABILITY'', ''LIMITATION_OF_LIABILITY'', ''INDEMNITY'',
      ''DELIVERY'', ''WARRANTY'', ''CONFIDENTIALITY'', ''INTELLECTUAL_PROPERTY'', ''ASSIGNMENT'',
      ''SUBCONTRACTING'', ''NON_COMPETE'', ''GOVERNING_LAW'', ''JURISDICTION'']"

definition MAX_CLAUSES_PER_FAMILY :: nat where
  "MAX_CLAUSES_PER_FAMILY = 2"

definition effective_type :: "clause_row \<Rightarrow> string option" where
  "effective_type c =
     (case cr_reviewedClauseType c of Some t \<Rightarrow> Some t | None \<Rightarrow> cr_suggestedClauseType c)"

fun sample_families :: "(string \<Rightarrow> nat) \<Rightarrow> clause_row list \<Rightarrow> clause_row list" where
  "sample_families perFamilyCount [] = []"
| "sample_families perFamilyCount (row # rows) =
     (case effective_type row of
        None \<Rightarrow> sample_families perFamilyCount rows
      | Some t \<Rightarrow>
          if perFamilyCount t \<ge> MAX_CLAUSES_PER_FAMILY then sample_families perFamilyCount rows
          else row # sample_families (perFamilyCount(t := perFamilyCount t + 1)) rows)"

definition sampleHighValueClauses :: "string \<Rightarrow> string option \<Rightarrow> 'x retrieval_db_scheme \<Rightarrow> clause_row list" where
  "sampleHighValueClauses org contractId db =
     (let eligibleJobIds = latestAuthoritativeClauseSegmentationJobIds org db
      in if eligibleJobIds = [] then []
         else sample_families (\<lambda>_. 0)
           (sort_key cr_orderIndex
             (filter (\<lambda>c. cr_organizationId c = org \<and> contract_live (cr_contractId c) db \<and>
                          cr_segmentationJobId c \<in> set eligibleJobIds \<and> contract_filter contractId (cr_contractId c) \<and>
                          not_title_only c \<and>
                          (case cr_reviewedClauseType c of
                             Some t \<Rightarrow> t \<in> set HIGH_VALUE_CLAUSE_TYPES
                           | None \<Rightarrow> (case cr_suggestedClauseType c of
                                        Some t \<Rightarrow> t \<in> set HIGH_VALUE_CLAUSE_TYPES | None \<Rightarrow> False)))
               (contract_clauses db))))"

section \<open>Checksums\<close>

text \<open>The three numbers of the text: how many embeddings, the newest, and how many revisions.\<close>

definition max_time :: "time_ms list \<Rightarrow> time_ms" where
  "max_time ts = (case ts of [] \<Rightarrow> 0 | t # ts' \<Rightarrow> fold max ts' t)"

definition getLatestEmbeddingGenerationChecksum :: "string \<Rightarrow> 'x retrieval_db_scheme \<Rightarrow> nat \<times> time_ms \<times> nat" where
  "getLatestEmbeddingGenerationChecksum org db =
     (let jobIds = latestAuthoritativeClauseSegmentationJobIds org db;
          rows = filter (\<lambda>e. em_organizationId e = org \<and> em_isLatest e \<and>
              list_ex (\<lambda>c. cr_id c = em_sourceId e \<and> cr_segmentationJobId c \<in> set jobIds) (contract_clauses db))
            (clause_embeddings db)
      in if jobIds = [] then (0, 0, 0)
         else (length rows, max_time (map (embedding_createdAt db \<circ> em_id) rows), length jobIds))"

definition getLatestChunkEmbeddingGenerationChecksum ::
  "string \<Rightarrow> 'x retrieval_db_scheme \<Rightarrow> nat \<times> time_ms \<times> nat" where
  "getLatestChunkEmbeddingGenerationChecksum org db =
     (let documentIds = latestAuthoritativeExtractedDocumentIds org db;
          rows = filter (\<lambda>e. em_organizationId e = org \<and> em_isLatest e \<and>
              list_ex (\<lambda>c. dk_id c = em_sourceId e \<and> dk_extractedDocumentId c \<in> set documentIds) (document_chunks db))
            (chunk_embeddings db)
      in if documentIds = [] then (0, 0, 0)
         else (length rows, max_time (map (embedding_createdAt db \<circ> em_id) rows), length documentIds))"

section \<open>What is evidence\<close>

lemma first_per_set: "r \<in> set (first_per key seen rs) \<Longrightarrow> r \<in> set rs \<and> key r \<notin> set seen"
  by (induction key seen rs rule: first_per.induct) (auto split: if_splits)

lemma first_per_least:
  "sorted_wrt (\<lambda>a b. f a \<le> f b) rs \<Longrightarrow> r \<in> set (first_per key seen rs) \<Longrightarrow> s \<in> set rs \<Longrightarrow>
    key s = key r \<Longrightarrow> f r \<le> (f s :: 'b :: linorder)"
proof (induction key seen rs rule: first_per.induct)
  case (2 key seen x xs)
  show ?case
  proof (cases "key x \<in> set seen")
    case True
    then have "s \<noteq> x" using 2(4,6) first_per_set [of r key seen xs] 2(5) by auto
    then show ?thesis using 2 True by auto
  next
    case False
    show ?thesis
    proof (cases "r = x")
      case True
      then show ?thesis using 2(3,5) by auto
    next
      case other: False
      then have r: "r \<in> set (first_per key (key x # seen) xs)" using 2(4) False by auto
      then have "s \<noteq> x" using 2(6) first_per_set [OF r] by auto
      then show ?thesis using 2(2) [OF False _ r] 2(3,5,6) by auto
    qed
  qed
qed simp

lemma first_per_distinct: "distinct (map key (first_per key seen rs))"
  by (induction key seen rs rule: first_per.induct) (auto dest: first_per_set)

lemma sorted_by_key: "sorted_wrt (\<lambda>a b. f a \<le> f b) (sort_key f xs)"
  using sorted_sort_key [of f xs] by (simp add: sorted_map)

text \<open>The job whose clauses stand for a contract: among the ready jobs of a live contract, the last one
  completed.\<close>

definition ready_job :: "string \<Rightarrow> 'x segmentation_db_scheme \<Rightarrow> segmentation_job \<Rightarrow> bool" where
  "ready_job org db j \<longleftrightarrow>
     j \<in> set (segmentation_jobs db) \<and> sj_organizationId j = org \<and>
     sj_status j \<in> {Seg_REVIEW_REQUIRED, Seg_COMPLETED} \<and>
     (\<exists>c \<in> set (contracts db). ct_id c = sj_contractId j \<and> ct_organizationId c = org \<and> ct_deletedAt c = None)"

definition latest_job :: "string \<Rightarrow> 'x segmentation_db_scheme \<Rightarrow> segmentation_job \<Rightarrow> bool" where
  "latest_job org db j \<longleftrightarrow>
     is_arg_min job_order (\<lambda>j'. ready_job org db j' \<and> sj_contractId j' = sj_contractId j) j"

lemma liveContractIds_iff:
  "k \<in> set (liveContractIds org db) \<longleftrightarrow>
    (\<exists>c \<in> set (contracts db). ct_id c = k \<and> ct_organizationId c = org \<and> ct_deletedAt c = None)"
  by (auto simp: liveContractIds_def)

lemma latest_jobs:
  assumes "i \<in> set (latestAuthoritativeClauseSegmentationJobIds org db)"
  obtains j where "sj_id j = i" "latest_job org db j"
proof -
  let ?ready = "filter (\<lambda>j. sj_organizationId j = org \<and> sj_contractId j \<in> set (liveContractIds org db) \<and>
    sj_status j \<in> {Seg_REVIEW_REQUIRED, Seg_COMPLETED}) (segmentation_jobs db)"
  let ?sorted = "sort_key job_order ?ready"
  have ready: "j \<in> set ?sorted \<longleftrightarrow> ready_job org db j" for j
    by (auto simp: ready_job_def liveContractIds_iff)
  obtain j where j: "j \<in> set (first_per sj_contractId [] ?sorted)" "sj_id j = i"
    using assms by (auto simp: latestAuthoritativeClauseSegmentationJobIds_def)
  have "job_order j \<le> job_order j'" if "ready_job org db j'" "sj_contractId j' = sj_contractId j" for j'
  proof -
    have "j' \<in> set ?sorted" using that(1) ready by blast
    then show ?thesis using first_per_least [OF sorted_by_key j(1)] that(2) by blast
  qed
  moreover have "ready_job org db j" using first_per_set [OF j(1)] ready by blast
  ultimately show thesis using that j(2) by (auto simp: latest_job_def is_arg_min_linorder)
qed

definition latest_document :: "string \<Rightarrow> 'x retrieval_db_scheme \<Rightarrow> extracted_document \<Rightarrow> bool" where
  "latest_document org db d \<longleftrightarrow>
     is_arg_max (document_createdAt db \<circ> xd_id)
       (\<lambda>e. e \<in> set (extracted_documents db) \<and> xd_organizationId e = org \<and> xd_contractId e = xd_contractId d \<and>
            xd_contractId e \<in> set (liveContractIds org db)) d"

lemma latest_documents:
  assumes "i \<in> set (latestAuthoritativeExtractedDocumentIds org db)"
  obtains d where "xd_id d = i" "latest_document org db d"
proof -
  let ?docs = "filter (\<lambda>d. xd_organizationId d = org \<and> xd_contractId d \<in> set (liveContractIds org db))
    (extracted_documents db)"
  let ?sorted = "sort_key (\<lambda>d. - document_createdAt db (xd_id d)) ?docs"
  obtain d where d: "d \<in> set (first_per xd_contractId [] ?sorted)" "xd_id d = i"
    using assms by (auto simp: latestAuthoritativeExtractedDocumentIds_def)
  have "document_createdAt db (xd_id e) \<le> document_createdAt db (xd_id d)"
    if "e \<in> set ?docs" "xd_contractId e = xd_contractId d" for e
    using first_per_least [OF sorted_by_key d(1), of e] that by simp
  moreover have "d \<in> set ?docs" using first_per_set [OF d(1)] by simp
  ultimately show thesis using that d(2) by (auto simp: latest_document_def is_arg_max_linorder)
qed

text \<open>The clauses and chunks that may be evidence of an organization, or of one of its contracts.\<close>

definition clause_evidence :: "string \<Rightarrow> string option \<Rightarrow> 'x retrieval_db_scheme \<Rightarrow> string \<Rightarrow> bool" where
  "clause_evidence org contractId db i =
     list_ex (\<lambda>c. cr_id c = i \<and> cr_segmentationJobId c \<in> set (latestAuthoritativeClauseSegmentationJobIds org db) \<and>
         contract_filter contractId (cr_contractId c) \<and> not_title_only c) (contract_clauses db)"

definition chunk_row_evidence :: "string \<Rightarrow> string option \<Rightarrow> 'x retrieval_db_scheme \<Rightarrow> chunk_row \<Rightarrow> bool" where
  "chunk_row_evidence org contractId db c \<longleftrightarrow>
     contract_live (dk_contractId c) db \<and> contract_filter contractId (dk_contractId c) \<and>
     dk_extractedDocumentId c \<in> set (latestAuthoritativeExtractedDocumentIds org db)"

definition chunk_evidence :: "string \<Rightarrow> string option \<Rightarrow> 'x retrieval_db_scheme \<Rightarrow> string \<Rightarrow> bool" where
  "chunk_evidence org contractId db i =
     list_ex (\<lambda>c. dk_id c = i \<and> chunk_row_evidence org contractId db c) (document_chunks db)"

definition chunk_result_evidence :: "string \<Rightarrow> string option \<Rightarrow> 'x retrieval_db_scheme \<Rightarrow> chunk_result \<Rightarrow> bool" where
  "chunk_result_evidence org contractId db r \<longleftrightarrow>
     (\<exists>c \<in> set (document_chunks db). r = chunk_result_of db c (hc_score r) \<and> chunk_row_evidence org contractId db c)"

lemma keyword_matches_evidence:
  "i \<in> fst ` set (findClauseKeywordMatchCounts sc org keywords contractId db) \<Longrightarrow> clause_evidence org contractId db i"
  "i \<in> fst ` set (findChunkKeywordMatchCounts sc org keywords contractId db) \<Longrightarrow> chunk_evidence org contractId db i"
  by (auto simp: findClauseKeywordMatchCounts_def findChunkKeywordMatchCounts_def clause_evidence_def
      chunk_evidence_def chunk_row_evidence_def list_ex_iff Let_def split: if_splits)

lemma match_count_le: "match_count rt keywords t \<le> length keywords"
  by (simp add: match_count_def)

lemma keyword_counts_le:
  "(i, n) \<in> set (findClauseKeywordMatchCounts sc org keywords contractId db) \<Longrightarrow> n \<le> length keywords"
  "(i, n) \<in> set (findChunkKeywordMatchCounts sc org keywords contractId db) \<Longrightarrow> n \<le> length keywords"
  by (auto simp: findClauseKeywordMatchCounts_def findChunkKeywordMatchCounts_def match_count_le Let_def
      split: if_splits)

section \<open>The contract of a vector search\<close>

text \<open>What the pipelines rely on: a search answers with evidence only, with similarities, and with no more
  rows than asked for.\<close>

locale vector_leg =
  fixes search :: "vector_query \<Rightarrow> 'd \<Rightarrow> search_error + 'r list"
    and score_of :: "'r \<Rightarrow> real"
    and evidence :: "string \<Rightarrow> string option \<Rightarrow> 'd \<Rightarrow> 'r \<Rightarrow> bool"
  assumes sound: "search q db = Inr rs \<Longrightarrow> r \<in> set rs \<Longrightarrow>
      evidence (vq_organizationId q) (vq_contractId q) db r \<and> - 1 \<le> score_of r \<and> score_of r \<le> 1"
    and limited: "search q db = Inr rs \<Longrightarrow> length rs \<le> vq_topK q"
begin

lemma scores:
  assumes "search q db = Inr rs" "(i, s) \<in> set (map (\<lambda>r. (id_of r, score_of r)) rs)"
  shows "- 1 \<le> s \<and> s \<le> 1"
  using assms sound by auto

lemma fallback:
  assumes "vector_leg other score_of evidence"
  shows "vector_leg (\<lambda>q db. case other q db of Inr rs \<Rightarrow> Inr rs
      | Inl e \<Rightarrow> if \<not> allow then Inl e else search q db) score_of evidence"
  using vector_leg.sound [OF assms] vector_leg.limited [OF assms] sound limited
  by unfold_locales (auto split: sum.splits if_splits)

end

lemma score_rows_range:
  "score_rows q rs = Inr scored \<Longrightarrow> (r, s) \<in> set scored \<Longrightarrow> r \<in> set rs \<and> - 1 \<le> s \<and> s \<le> 1"
proof (induction rs arbitrary: scored)
  case (Cons x xs)
  obtain c rest where c: "cosineSimilarity q (map the (em_vector x)) = Inr c" "score_rows q xs = Inr rest"
    "scored = (x, c) # rest"
    using Cons.prems(1) by (auto split: sum.splits)
  then have "length q = length (map the (em_vector x))" by (auto simp: cosineSimilarity_def split: if_splits)
  then have "- 1 \<le> c \<and> c \<le> 1" using c(1) by (metis cosine_range sum.inject(2))
  then show ?case using Cons c by auto
qed simp

lemma best_rows_subset: "set (best_rows k xs) \<subseteq> set xs" "length (best_rows k xs) \<le> k"
  by (auto simp: best_rows_def dest: in_set_takeD)

interpretation clause_leg: vector_leg application_clause_search snd "\<lambda>org k db r. clause_evidence org k db (fst r)"
proof
  fix q and db :: "'a retrieval_db_scheme" and rs r
  assume found: "application_clause_search q db = Inr rs"
  show "length rs \<le> vq_topK q"
    using found best_rows_subset(2) by (auto simp: application_clause_search_def Let_def split: if_splits sum.splits)
  assume "r \<in> set rs"
  with found show "clause_evidence (vq_organizationId q) (vq_contractId q) db (fst r) \<and> - 1 \<le> snd r \<and> snd r \<le> 1"
    using best_rows_subset(1) score_rows_range
    by (fastforce simp: application_clause_search_def Let_def clause_evidence_def list_ex_iff
        split: if_splits sum.splits)
qed

interpretation chunk_leg: vector_leg application_chunk_search hc_score chunk_result_evidence
proof
  fix q and db :: "'a retrieval_db_scheme" and rs r
  assume found: "application_chunk_search q db = Inr rs"
  show "length rs \<le> vq_topK q"
    using found best_rows_subset(2) by (auto simp: application_chunk_search_def Let_def split: if_splits sum.splits)
  assume r: "r \<in> set rs"
  let ?row = "\<lambda>e. find_row (\<lambda>c. dk_id c = em_sourceId e) (document_chunks db)"
  let ?ok = "\<lambda>e. case ?row e of None \<Rightarrow> False
     | Some c \<Rightarrow> contract_live (dk_contractId c) db \<and>
         dk_extractedDocumentId c \<in> set (latestAuthoritativeExtractedDocumentIds (vq_organizationId q) db) \<and>
         contract_filter (vq_contractId q) (dk_contractId c)"
  let ?rows = "filter (\<lambda>e. em_organizationId e = vq_organizationId q \<and> em_isLatest e \<and>
      em_provider e = vq_embeddingProvider q \<and> em_model e = vq_embeddingModel q \<and> ?ok e) (chunk_embeddings db)"
  obtain scored where scored: "score_rows (vq_queryVector q) ?rows = Inr scored"
    "rs = map (\<lambda>(e, s). chunk_result_of db (the (?row e)) s) (best_rows (vq_topK q) scored)" if "rs \<noteq> []"
    using found unfolding application_chunk_search_def Let_def by (auto split: if_splits sum.splits)
  obtain e s where e: "(e, s) \<in> set scored" "r = chunk_result_of db (the (?row e)) s"
  proof -
    have "rs \<noteq> []" using r by auto
    then have "r \<in> (\<lambda>(e, s). chunk_result_of db (the (?row e)) s) ` set (best_rows (vq_topK q) scored)"
      using r scored(2) by simp
    then obtain p where p: "p \<in> set (best_rows (vq_topK q) scored)"
      "r = (case p of (e, s) \<Rightarrow> chunk_result_of db (the (?row e)) s)" by blast
    show ?thesis using that [of "fst p" "snd p"] p best_rows_subset(1) by (auto simp: split_beta)
  qed
  have "e \<in> set ?rows \<and> - 1 \<le> s \<and> s \<le> 1"
    using score_rows_range [OF scored(1) e(1)] r by (cases rs) auto
  with e(2) have e: "r = chunk_result_of db (the (?row e)) s" "- 1 \<le> s" "s \<le> 1" "?ok e" by auto
  then obtain c where "?row e = Some c" by (cases "?row e") auto
  then show "chunk_result_evidence (vq_organizationId q) (vq_contractId q) db r \<and> - 1 \<le> hc_score r \<and> hc_score r \<le> 1"
    using e find_row_Some [of _ "document_chunks db" c]
    by (auto simp: chunk_result_evidence_def chunk_row_evidence_def chunk_result_of_def)
qed

end
