(* ===== verification/HybridSearch.thy ===== *)
theory HybridSearch
  imports RetrievalTables Prompt
begin

text \<open>
  Hybrid search for the evidence of a question: keyword and vector candidates merged and ranked
  (\<^verbatim>\<open>domain/ai/hybrid-search-scoring.ts\<close> and its twin for chunks), the two pipelines with their caches
  (\<^verbatim>\<open>features/ai/server/hybrid-search-clauses.ts\<close>, \<^verbatim>\<open>hybrid-search-document-chunks.ts\<close>) and their union
  (\<^verbatim>\<open>retrieve-context.ts\<close>). The embedding provider and SHA-256 are parameters. A search runs at one instant:
  a second look into the cache gives what the first gave, and so is left out.
\<close>

section \<open>Scores\<close>

record search_candidate =
  sc_id :: string
  sc_keywordScore :: real
  sc_vectorScore :: real

record ranked_candidate = search_candidate +
  sc_score :: real

definition KEYWORD_WEIGHT :: real where
  "KEYWORD_WEIGHT = 6 / 10"

definition VECTOR_WEIGHT :: real where
  "VECTOR_WEIGHT = 4 / 10"

definition EXACT_PHRASE_BONUS :: real where
  "EXACT_PHRASE_BONUS = 1 / 10"

definition mergeScores :: "search_candidate list \<Rightarrow> ranked_candidate list" where
  "mergeScores candidates =
     map (\<lambda>c. \<lparr>sc_id = sc_id c, sc_keywordScore = sc_keywordScore c, sc_vectorScore = sc_vectorScore c,
               sc_score = KEYWORD_WEIGHT * sc_keywordScore c + VECTOR_WEIGHT * max 0 (sc_vectorScore c)\<rparr>)
       candidates"

definition rerank :: "ranked_candidate list \<Rightarrow> string list \<Rightarrow> ranked_candidate list" where
  "rerank candidates exactPhraseMatchIds =
     sort_key (\<lambda>c. - sc_score c)
       (map (\<lambda>c. c\<lparr>sc_score := sc_score c +
                    (if sc_id c \<in> set exactPhraseMatchIds then EXACT_PHRASE_BONUS else 0)\<rparr>) candidates)"

definition CHUNK_KEYWORD_WEIGHT :: real where
  "CHUNK_KEYWORD_WEIGHT = 6 / 10"

definition CHUNK_VECTOR_WEIGHT :: real where
  "CHUNK_VECTOR_WEIGHT = 4 / 10"

definition CHUNK_EXACT_PHRASE_BONUS :: real where
  "CHUNK_EXACT_PHRASE_BONUS = 1 / 10"

definition mergeChunkScores :: "search_candidate list \<Rightarrow> ranked_candidate list" where
  "mergeChunkScores candidates =
     map (\<lambda>c. \<lparr>sc_id = sc_id c, sc_keywordScore = sc_keywordScore c, sc_vectorScore = sc_vectorScore c,
               sc_score = CHUNK_KEYWORD_WEIGHT * sc_keywordScore c +
                 CHUNK_VECTOR_WEIGHT * max 0 (sc_vectorScore c)\<rparr>)
       candidates"

definition rerankChunks :: "ranked_candidate list \<Rightarrow> string list \<Rightarrow> ranked_candidate list" where
  "rerankChunks candidates exactPhraseMatchIds =
     sort_key (\<lambda>c. - sc_score c)
       (map (\<lambda>c. c\<lparr>sc_score := sc_score c +
                    (if sc_id c \<in> set exactPhraseMatchIds then CHUNK_EXACT_PHRASE_BONUS else 0)\<rparr>) candidates)"

section \<open>Settings and caches\<close>

definition VECTOR_CANDIDATE_POOL_MULTIPLIER :: nat where
  "VECTOR_CANDIDATE_POOL_MULTIPLIER = 5"

definition MIN_VECTOR_CANDIDATE_POOL :: nat where
  "MIN_VECTOR_CANDIDATE_POOL = 50"

definition DEFAULT_TOP_K :: nat where
  "DEFAULT_TOP_K = 10"

definition COMPREHENSIVE_TOP_K :: nat where
  "COMPREHENSIVE_TOP_K = 30"

definition SEARCH_WEIGHT_VERSION :: nat where
  "SEARCH_WEIGHT_VERSION = 2"

definition CHUNK_SEARCH_WEIGHT_VERSION :: nat where
  "CHUNK_SEARCH_WEIGHT_VERSION = 1"

record clause_hit = clause_result +
  hr_keywordScore :: real
  hr_vectorScore :: real

record chunk_hit = chunk_result +
  hc_keywordScore :: real
  hc_vectorScore :: real

text \<open>\<open>hi_hash\<close> is \<open>hashCacheInput\<close>, which joins its parts and hashes them.\<close>

record 'd hybrid_env = search_env +
  hi_now :: time_ms
  hi_hash :: "jstring list \<Rightarrow> string"
  hi_embed :: "jstring \<Rightarrow> real list option"
  hi_providerName :: string
  hi_modelName :: string
  hi_dimension :: nat
  hi_clauseProvider :: "(vector_query, 'd, string \<times> real) vector_provider"
  hi_chunkProvider :: "(vector_query, 'd, chunk_result) vector_provider"
  hi_allowFallback :: bool
  hi_embeddingTtl :: nat
  hi_retrievalTtl :: nat

record search_request =
  sq_organizationId :: string
  sq_question :: jstring
  sq_topK :: nat
  sq_contractId :: "string option"
  sq_history :: "conversation_turn list"

type_synonym checksum = "nat \<times> time_ms \<times> nat"

datatype cache_value =
  CachedEmbedding "real list"
  | CachedClauses checksum "clause_hit list"
  | CachedChunks checksum "chunk_hit list"

type_synonym cache = "string \<rightharpoonup> cache_value \<times> time_ms"

text \<open>\<open>InMemoryCacheProvider\<close>: an entry is gone at its expiry.\<close>

definition cache_get :: "time_ms \<Rightarrow> string \<Rightarrow> cache \<Rightarrow> cache_value option \<times> cache" where
  "cache_get now key store =
     (case store key of
        None \<Rightarrow> (None, store)
      | Some (value, expiry) \<Rightarrow>
          if now \<ge> expiry then (None, store(key := None)) else (Some value, store))"

definition cache_set :: "time_ms \<Rightarrow> string \<Rightarrow> cache_value \<Rightarrow> nat \<Rightarrow> cache \<Rightarrow> cache" where
  "cache_set now key value ttlSeconds store = store(key \<mapsto> (value, now + int ttlSeconds * 1000))"

definition provider_name :: "('q, 'd, 'r) vector_provider \<Rightarrow> string" where
  "provider_name p = (case p of Application \<Rightarrow> ''application'' | Pgvector _ \<Rightarrow> ''pgvector'')"

text \<open>A turn as it enters the fingerprint of the history, and \<open>contractId ?? ""\<close>.\<close>

definition turn_text :: "conversation_turn \<Rightarrow> jstring" where
  "turn_text t = asc (case ct_role t of USER \<Rightarrow> ''USER:'' | ASSISTANT \<Rightarrow> ''ASSISTANT:'') @ ct_content t"

definition buildHistoryFingerprint :: "(jstring list \<Rightarrow> string) \<Rightarrow> conversation_turn list \<Rightarrow> string" where
  "buildHistoryFingerprint hash history =
     (if history = [] then ''''
      else hash [join_with 10 (map turn_text (last_items (MAX_RETRIEVAL_HISTORY_TURNS * 2) history))])"

definition request_hash :: "'d hybrid_env \<Rightarrow> search_request \<Rightarrow> string" where
  "request_hash cfg rq =
     hi_hash cfg [sq_question rq, asc (nat_str (sq_topK rq)),
       asc (case sq_contractId rq of None \<Rightarrow> '''' | Some i \<Rightarrow> i),
       asc (buildHistoryFingerprint (hi_hash cfg) (sq_history rq))]"

definition buildRetrievalCacheKey :: "'d hybrid_env \<Rightarrow> search_request \<Rightarrow> string" where
  "buildRetrievalCacheKey cfg rq =
     ''retrieval:'' @ provider_name (hi_clauseProvider cfg) @ '':'' @ hi_providerName cfg @ '':'' @
     hi_modelName cfg @ '':'' @ nat_str (hi_dimension cfg) @ '':w'' @ nat_str SEARCH_WEIGHT_VERSION @
     '':pv8:cv3:ev6:'' @ sq_organizationId rq @ '':'' @ request_hash cfg rq"

definition chunkCacheKey :: "'d hybrid_env \<Rightarrow> search_request \<Rightarrow> string" where
  "chunkCacheKey cfg rq =
     ''retrieval:chunk:'' @ provider_name (hi_chunkProvider cfg) @ '':'' @ hi_providerName cfg @ '':'' @
     hi_modelName cfg @ '':'' @ nat_str (hi_dimension cfg) @ '':w'' @ nat_str CHUNK_SEARCH_WEIGHT_VERSION @
     '':chboundary-aware-token-budget-v1:cv3:'' @ sq_organizationId rq @ '':'' @ request_hash cfg rq"

text \<open>The embedding of the query, the same code in both pipelines, with the same keys.\<close>

definition getCachedQueryEmbedding :: "'d hybrid_env \<Rightarrow> jstring \<Rightarrow> cache \<Rightarrow> (search_error + real list) \<times> cache" where
  "getCachedQueryEmbedding cfg normalizedQuestion store =
     (let cacheKey = ''embedding:'' @ hi_providerName cfg @ '':'' @ hi_modelName cfg @ '':'' @
            hi_hash cfg [normalizedQuestion]
      in case cache_get (hi_now cfg) cacheKey store of
           (Some (CachedEmbedding v), store1) \<Rightarrow> (Inr v, store1)
         | (_, store1) \<Rightarrow>
             (case hi_embed cfg normalizedQuestion of
                None \<Rightarrow> (Inl EmbeddingFailed, store1)
              | Some v \<Rightarrow>
                  (Inr v, cache_set (hi_now cfg) cacheKey (CachedEmbedding v) (hi_embeddingTtl cfg) store1)))"

section \<open>Searching the clauses\<close>

definition search_keywords :: "js_runtime \<Rightarrow> jstring \<Rightarrow> jstring \<Rightarrow> jstring list" where
  "search_keywords rt searchQuery question =
     distinct_first (extractKeywords rt searchQuery @ expandLegalConcepts rt question)"

text \<open>\<open>map.get(id) ?? 0\<close>, where later entries of an id replace earlier ones.\<close>

definition value_or_0 :: "(string \<times> 'a::zero) list \<Rightarrow> string \<Rightarrow> 'a" where
  "value_or_0 m i = (case map_of (rev m) i of None \<Rightarrow> 0 | Some v \<Rightarrow> v)"

definition search_candidates ::
  "jstring list \<Rightarrow> (string \<times> nat) list \<Rightarrow> (string \<times> real) list \<Rightarrow> search_candidate list" where
  "search_candidates keywords keywordMatches vectorScores =
     map (\<lambda>i. \<lparr>sc_id = i,
               sc_keywordScore = (if length keywords > 0
                 then real (value_or_0 keywordMatches i) / real (length keywords) else 0),
               sc_vectorScore = value_or_0 vectorScores i\<rparr>)
       (distinct_first (map fst keywordMatches @ map fst vectorScores))"

definition vector_pool :: "nat \<Rightarrow> nat" where
  "vector_pool topK = max (topK * VECTOR_CANDIDATE_POOL_MULTIPLIER) MIN_VECTOR_CANDIDATE_POOL"

definition vector_query_of :: "'d hybrid_env \<Rightarrow> search_request \<Rightarrow> real list \<Rightarrow> vector_query" where
  "vector_query_of cfg rq v =
     \<lparr>vq_organizationId = sq_organizationId rq, vq_queryVector = v, vq_embeddingProvider = hi_providerName cfg,
      vq_embeddingModel = hi_modelName cfg, vq_topK = vector_pool (sq_topK rq),
      vq_contractId = sq_contractId rq\<rparr>"

definition find_clause :: "search_request \<Rightarrow> 'x retrieval_db_scheme \<Rightarrow> string \<Rightarrow> clause_row option" where
  "find_clause rq db i =
     find_row (\<lambda>c. cr_id c = i \<and> cr_organizationId c = sq_organizationId rq \<and>
         contract_filter (sq_contractId rq) (cr_contractId c)) (contract_clauses db)"

definition clause_phrase_ids ::
  "search_request \<Rightarrow> 'x retrieval_db_scheme \<Rightarrow> jstring \<Rightarrow> ranked_candidate list \<Rightarrow> string list" where
  "clause_phrase_ids rq db normalizedQuestion merged =
     (if normalizedQuestion = [] then []
      else filter (\<lambda>i. case find_clause rq db i of
             None \<Rightarrow> False | Some c \<Rightarrow> includes_text (cr_normalizedText c) normalizedQuestion) (map sc_id merged))"

definition hydrate_clause ::
  "search_request \<Rightarrow> 'x retrieval_db_scheme \<Rightarrow> ranked_candidate \<Rightarrow> clause_hit list" where
  "hydrate_clause rq db item =
     (case find_clause rq db (sc_id item) of
        None \<Rightarrow> []
      | Some c \<Rightarrow>
          [\<lparr>hr_contractClauseId = cr_id c, hr_contractId = cr_contractId c,
            hr_contractTitle = contract_title (cr_contractId c) db, hr_clauseNumber = cr_clauseNumber c,
            hr_title = cr_title c, hr_text = cr_text c, hr_score = sc_score item,
            hr_keywordScore = sc_keywordScore item, hr_vectorScore = sc_vectorScore item\<rparr>])"

definition hybridSearchClausesUncached ::
  "'x retrieval_db_scheme hybrid_env \<Rightarrow> search_request \<Rightarrow> 'x retrieval_db_scheme \<Rightarrow> cache \<Rightarrow>
   (search_error + clause_hit list) \<times> cache" where
  "hybridSearchClausesUncached cfg rq db store =
     (let rt = se_runtime cfg;
          normalizedQuestion = normalizeClauseText rt (sq_question rq);
          searchQuery = buildHistoryAugmentedSearchQuery (sq_question rq) (sq_history rq);
          keywords = search_keywords rt searchQuery (sq_question rq);
          keywordMatches =
            findClauseKeywordMatchCounts (search_env.truncate cfg) (sq_organizationId rq) keywords (sq_contractId rq) db
      in case getCachedQueryEmbedding cfg (normalizeClauseText rt searchQuery) store of
           (Inl e, store1) \<Rightarrow> (Inl e, store1)
         | (Inr v, store1) \<Rightarrow>
             (case searchClauseVectors (hi_allowFallback cfg) (hi_clauseProvider cfg) (vector_query_of cfg rq v) db of
                Inl e \<Rightarrow> (Inl e, store1)
              | Inr vectorScores \<Rightarrow>
                  let merged = mergeScores (search_candidates keywords keywordMatches vectorScores);
                      reranked = take (sq_topK rq) (rerank merged (clause_phrase_ids rq db normalizedQuestion merged))
                  in (Inr (concat (map (hydrate_clause rq db) reranked)), store1)))"

definition hybridSearchClauses ::
  "'x retrieval_db_scheme hybrid_env \<Rightarrow> search_request \<Rightarrow> 'x retrieval_db_scheme \<Rightarrow> cache \<Rightarrow>
   (search_error + clause_hit list) \<times> cache" where
  "hybridSearchClauses cfg rq db store =
     (let cacheKey = buildRetrievalCacheKey cfg rq;
          currentChecksum = getLatestEmbeddingGenerationChecksum (sq_organizationId rq) db;
          (cached, store1) = cache_get (hi_now cfg) cacheKey store
      in case (case cached of Some (CachedClauses chk rs) \<Rightarrow> if chk = currentChecksum then Some rs else None
                            | _ \<Rightarrow> None) of
           Some results \<Rightarrow> (Inr results, store1)
         | None \<Rightarrow>
             (case hybridSearchClausesUncached cfg rq db store1 of
                (Inl e, store2) \<Rightarrow> (Inl e, store2)
              | (Inr results, store2) \<Rightarrow>
                  (Inr results,
                   cache_set (hi_now cfg) cacheKey (CachedClauses currentChecksum results)
                     (hi_retrievalTtl cfg) store2)))"

section \<open>Searching the chunks\<close>

definition find_chunk :: "search_request \<Rightarrow> 'x retrieval_db_scheme \<Rightarrow> string \<Rightarrow> chunk_row option" where
  "find_chunk rq db i =
     find_row (\<lambda>c. dk_id c = i \<and> dk_organizationId c = sq_organizationId rq \<and>
         contract_filter (sq_contractId rq) (dk_contractId c)) (document_chunks db)"

definition chunk_phrase_ids ::
  "search_request \<Rightarrow> 'x retrieval_db_scheme \<Rightarrow> jstring \<Rightarrow> ranked_candidate list \<Rightarrow> string list" where
  "chunk_phrase_ids rq db normalizedQuestion merged =
     (if normalizedQuestion = [] then []
      else filter (\<lambda>i. case find_chunk rq db i of
             None \<Rightarrow> False | Some c \<Rightarrow> includes_text (dk_normalizedText c) normalizedQuestion) (map sc_id merged))"

text \<open>A candidate of the vector search brings its row along; others are read.\<close>

definition hydrate_chunk ::
  "search_request \<Rightarrow> 'x retrieval_db_scheme \<Rightarrow> chunk_result list \<Rightarrow> ranked_candidate \<Rightarrow> chunk_hit list" where
  "hydrate_chunk rq db vectorCandidates item =
     (case (case find (\<lambda>h. hc_chunkId h = sc_id item) (rev vectorCandidates) of
              Some h \<Rightarrow> Some h
            | None \<Rightarrow> map_option (\<lambda>c. chunk_result_of db c 0) (find_chunk rq db (sc_id item))) of
        None \<Rightarrow> []
      | Some h \<Rightarrow>
          [chunk_result.extend (h\<lparr>hc_score := sc_score item\<rparr>)
             (chunk_hit.fields (sc_keywordScore item) (sc_vectorScore item))])"

definition hybridSearchDocumentChunksUncached ::
  "'x retrieval_db_scheme hybrid_env \<Rightarrow> search_request \<Rightarrow> 'x retrieval_db_scheme \<Rightarrow> cache \<Rightarrow>
   (search_error + chunk_hit list) \<times> cache" where
  "hybridSearchDocumentChunksUncached cfg rq db store =
     (let rt = se_runtime cfg;
          normalizedQuestion = normalizeClauseText rt (sq_question rq);
          searchQuery = buildHistoryAugmentedSearchQuery (sq_question rq) (sq_history rq);
          keywords = search_keywords rt searchQuery (sq_question rq);
          keywordMatches =
            findChunkKeywordMatchCounts (search_env.truncate cfg) (sq_organizationId rq) keywords (sq_contractId rq) db
      in case getCachedQueryEmbedding cfg (normalizeClauseText rt searchQuery) store of
           (Inl e, store1) \<Rightarrow> (Inl e, store1)
         | (Inr v, store1) \<Rightarrow>
             (case searchDocumentChunkVectors (hi_allowFallback cfg) (hi_chunkProvider cfg)
                     (vector_query_of cfg rq v) db of
                Inl e \<Rightarrow> (Inl e, store1)
              | Inr vectorCandidates \<Rightarrow>
                  let vectorScores = map (\<lambda>h. (hc_chunkId h, hc_score h)) vectorCandidates;
                      merged = mergeChunkScores (search_candidates keywords keywordMatches vectorScores);
                      reranked =
                        take (sq_topK rq) (rerankChunks merged (chunk_phrase_ids rq db normalizedQuestion merged))
                  in (Inr (concat (map (hydrate_chunk rq db vectorCandidates) reranked)), store1)))"

definition hybridSearchDocumentChunks ::
  "'x retrieval_db_scheme hybrid_env \<Rightarrow> search_request \<Rightarrow> 'x retrieval_db_scheme \<Rightarrow> cache \<Rightarrow>
   (search_error + chunk_hit list) \<times> cache" where
  "hybridSearchDocumentChunks cfg rq db store =
     (let cacheKey = chunkCacheKey cfg rq;
          currentChecksum = getLatestChunkEmbeddingGenerationChecksum (sq_organizationId rq) db;
          (cached, store1) = cache_get (hi_now cfg) cacheKey store
      in case (case cached of Some (CachedChunks chk rs) \<Rightarrow> if chk = currentChecksum then Some rs else None
                            | _ \<Rightarrow> None) of
           Some results \<Rightarrow> (Inr results, store1)
         | None \<Rightarrow>
             (case hybridSearchDocumentChunksUncached cfg rq db store1 of
                (Inl e, store2) \<Rightarrow> (Inl e, store2)
              | (Inr results, store2) \<Rightarrow>
                  (Inr results,
                   cache_set (hi_now cfg) cacheKey (CachedChunks currentChecksum results)
                     (hi_retrievalTtl cfg) store2)))"

section \<open>The context of an answer\<close>

definition sampled_result :: "guard_config \<Rightarrow> 'x retrieval_db_scheme \<Rightarrow> clause_row \<Rightarrow> clause_result" where
  "sampled_result guard db c =
     \<lparr>hr_contractClauseId = cr_id c, hr_contractId = cr_contractId c,
      hr_contractTitle = contract_title (cr_contractId c) db, hr_clauseNumber = cr_clauseNumber c,
      hr_title = cr_title c, hr_text = cr_text c, hr_score = MIN_CITATION_SCORE_COMPREHENSIVE guard\<rparr>"

definition boost_citation :: "guard_config \<Rightarrow> string list \<Rightarrow> citation \<Rightarrow> citation" where
  "boost_citation guard familyIds c =
     (if (\<exists>i \<in> set familyIds. contractClauseId c = Some i) \<and> ci_score c < MIN_CITATION_SCORE_COMPREHENSIVE guard
      then c\<lparr>ci_score := MIN_CITATION_SCORE_COMPREHENSIVE guard\<rparr> else c)"

text \<open>The citations of what the two searches and the samples found.\<close>

definition merge_context ::
  "js_runtime \<Rightarrow> guard_config \<Rightarrow> 'x retrieval_db_scheme \<Rightarrow> jstring \<Rightarrow> clause_hit list \<Rightarrow> chunk_hit list \<Rightarrow>
   clause_row list \<Rightarrow> citation list" where
  "merge_context rt guard db question clauseResults chunkResults familySamples =
     (let rawClauseCitations =
            map (\<lambda>r. buildContext rt r question) (deduplicateByNormalizedText rt hr_text clauseResults);
          chunkCitations =
            map (\<lambda>r. buildChunkContext rt r question) (deduplicateByNormalizedText rt hc_text chunkResults);
          clauseCitations = map (boost_citation guard (map cr_id familySamples)) rawClauseCitations;
          familyCitations = map (\<lambda>c. buildContext rt (sampled_result guard db c) question)
            (filter (\<lambda>c. Some (cr_id c) \<notin> set (map contractClauseId clauseCitations)) familySamples)
      in deduplicateBySameProvision (clauseCitations @ chunkCitations @ familyCitations))"

definition retrieveContext ::
  "'x retrieval_db_scheme hybrid_env \<Rightarrow> guard_config \<Rightarrow> search_request \<Rightarrow> nat option \<Rightarrow> 'x retrieval_db_scheme \<Rightarrow>
   cache \<Rightarrow> (search_error + citation list) \<times> cache" where
  "retrieveContext cfg guard rq topK db store =
     (let isComprehensive = classifyQuestionComplexity (sq_question rq) = Comprehensive;
          rq' = rq\<lparr>sq_topK := (case topK of Some k \<Rightarrow> k
                               | None \<Rightarrow> if isComprehensive then COMPREHENSIVE_TOP_K else DEFAULT_TOP_K)\<rparr>
      in case hybridSearchClauses cfg rq' db store of
           (Inl e, store1) \<Rightarrow> (Inl e, store1)
         | (Inr clauseResults, store1) \<Rightarrow>
             (case hybridSearchDocumentChunks cfg rq' db store1 of
                (Inl e, store2) \<Rightarrow> (Inl e, store2)
              | (Inr chunkResults, store2) \<Rightarrow>
                  (Inr (merge_context (se_runtime cfg) guard db (sq_question rq) clauseResults chunkResults
                     (if isComprehensive
                      then sampleHighValueClauses (sq_organizationId rq) (sq_contractId rq) db else [])), store2)))"

section \<open>Ranking\<close>

text \<open>The twin for chunks scores and ranks alike.\<close>

lemma chunk_weights: "CHUNK_KEYWORD_WEIGHT = KEYWORD_WEIGHT" "CHUNK_VECTOR_WEIGHT = VECTOR_WEIGHT"
  "CHUNK_EXACT_PHRASE_BONUS = EXACT_PHRASE_BONUS"
  by (simp_all add: KEYWORD_WEIGHT_def VECTOR_WEIGHT_def EXACT_PHRASE_BONUS_def CHUNK_KEYWORD_WEIGHT_def
      CHUNK_VECTOR_WEIGHT_def CHUNK_EXACT_PHRASE_BONUS_def)

lemma chunk_scoring_same: "mergeChunkScores = mergeScores" "rerankChunks = rerank"
  unfolding fun_eq_iff mergeChunkScores_def mergeScores_def rerankChunks_def rerank_def chunk_weights by simp_all

lemma value_or_0_range: "(\<And>i v. (i, v) \<in> set m \<Longrightarrow> P v) \<Longrightarrow> P 0 \<Longrightarrow> P (value_or_0 m i)"
  by (auto simp: value_or_0_def split: option.split dest!: map_of_SomeD)

definition ranked_ok :: "string set \<Rightarrow> ranked_candidate \<Rightarrow> bool" where
  "ranked_ok ids r \<longleftrightarrow>
     sc_id r \<in> ids \<and> 0 \<le> sc_keywordScore r \<and> sc_keywordScore r \<le> 1 \<and> - 1 \<le> sc_vectorScore r \<and> sc_vectorScore r \<le> 1 \<and>
     (\<exists>bonus \<in> {0, EXACT_PHRASE_BONUS}. sc_score r =
       KEYWORD_WEIGHT * sc_keywordScore r + VECTOR_WEIGHT * max 0 (sc_vectorScore r) + bonus)"

lemma ranking:
  fixes kws matches vectors ids k
  defines "rs \<equiv> take k (rerank (mergeScores (search_candidates kws matches vectors)) ids)"
  assumes counts: "\<And>i n. (i, n) \<in> set matches \<Longrightarrow> n \<le> length kws"
    and scores: "\<And>i s. (i, s) \<in> set vectors \<Longrightarrow> - 1 \<le> s \<and> s \<le> 1"
  shows "length rs \<le> k" "distinct (map sc_id rs)" "sorted_wrt (\<lambda>a b. sc_score b \<le> sc_score a) rs"
    "list_all (ranked_ok (fst ` set matches \<union> fst ` set vectors)) rs"
proof -
  let ?cs = "search_candidates kws matches vectors"
  let ?bonus = "\<lambda>c. c\<lparr>sc_score := sc_score c + (if sc_id c \<in> set ids then EXACT_PHRASE_BONUS else 0)\<rparr>"
  have rs: "rs = take k (sort_key (\<lambda>c. - sc_score c) (map ?bonus (mergeScores ?cs)))" by (simp add: rs_def rerank_def)
  show "length rs \<le> k" by (simp add: rs)
  have "distinct (map sc_id ?cs)"
    by (simp add: search_candidates_def comp_def distinct_distinct_first)
  then have "distinct (map sc_id (map ?bonus (mergeScores ?cs)))"
    by (simp add: mergeScores_def comp_def)
  then have "distinct (map sc_id (sort_key (\<lambda>c. - sc_score c) (map ?bonus (mergeScores ?cs))))"
    by (simp add: distinct_map del: map_map)
  then show "distinct (map sc_id rs)" by (simp add: rs take_map [symmetric] distinct_take)
  have "sorted_wrt (\<lambda>a b. - sc_score a \<le> - sc_score b) (sort_key (\<lambda>c. - sc_score c) (map ?bonus (mergeScores ?cs)))"
    by (rule sorted_by_key)
  then show "sorted_wrt (\<lambda>a b. sc_score b \<le> sc_score a) rs" by (simp add: rs sorted_wrt_take)
  have "ranked_ok (fst ` set matches \<union> fst ` set vectors) (?bonus r)" if r: "r \<in> set (mergeScores ?cs)" for r
  proof -
    let ?kw = "\<lambda>i. if length kws > 0 then real (value_or_0 matches i) / real (length kws) else 0"
    have eq: "set (mergeScores ?cs) =
        (\<lambda>i. \<lparr>sc_id = i, sc_keywordScore = ?kw i, sc_vectorScore = value_or_0 vectors i,
              sc_score = KEYWORD_WEIGHT * ?kw i + VECTOR_WEIGHT * max 0 (value_or_0 vectors i)\<rparr>) `
        (fst ` set matches \<union> fst ` set vectors)"
      unfolding mergeScores_def search_candidates_def
      by (simp only: set_map set_distinct_first set_append image_comp comp_def search_candidate.simps)
    obtain i where "i \<in> fst ` set matches \<union> fst ` set vectors"
      "r = \<lparr>sc_id = i, sc_keywordScore = ?kw i, sc_vectorScore = value_or_0 vectors i,
            sc_score = KEYWORD_WEIGHT * ?kw i + VECTOR_WEIGHT * max 0 (value_or_0 vectors i)\<rparr>"
      using r [unfolded eq] by (rule imageE)
    then have i: "i \<in> fst ` set matches \<union> fst ` set vectors"
      "sc_id r = i" "sc_vectorScore r = value_or_0 vectors i" "sc_keywordScore r = ?kw i"
      "sc_score r = KEYWORD_WEIGHT * sc_keywordScore r + VECTOR_WEIGHT * max 0 (sc_vectorScore r)"
      by simp_all
    have "value_or_0 matches i \<le> length kws" using counts by (rule value_or_0_range) auto
    then have "0 \<le> sc_keywordScore r \<and> sc_keywordScore r \<le> 1" using i(4) by (simp add: divide_le_eq)
    moreover have "- 1 \<le> sc_vectorScore r \<and> sc_vectorScore r \<le> 1"
      unfolding i(3) by (rule value_or_0_range) (use scores in auto)
    ultimately show ?thesis using i by (auto simp: ranked_ok_def)
  qed
  then show "list_all (ranked_ok (fst ` set matches \<union> fst ` set vectors)) rs"
    by (auto simp: rs list_all_iff dest!: in_set_takeD)
qed

text \<open>Reading the rows of ranked candidates drops some and keeps the order.\<close>

lemma hydrated:
  assumes "\<And>x. f x = [] \<or> (\<exists>y. f x = [y] \<and> id_of y = sc_id x \<and> score_of y = sc_score x)"
    and "distinct (map sc_id rs)" "sorted_wrt (\<lambda>a b. sc_score b \<le> sc_score a) rs"
  shows "distinct (map id_of (concat (map f rs)))" "length (concat (map f rs)) \<le> length rs"
    "sorted_wrt (\<lambda>a b. score_of b \<le> score_of a) (concat (map f rs))"
proof -
  have member: "\<exists>x \<in> set rs. id_of y = sc_id x \<and> score_of y = sc_score x" if y: "y \<in> set (concat (map f rs))" for y rs
  proof -
    obtain x where x: "x \<in> set rs" "y \<in> set (f x)" using y by auto
    then show ?thesis using assms(1) [of x] by auto
  qed
  have "distinct (map id_of (concat (map f rs))) \<and> length (concat (map f rs)) \<le> length rs \<and>
      sorted_wrt (\<lambda>a b. score_of b \<le> score_of a) (concat (map f rs))"
    using assms(2,3)
  proof (induction rs)
    case (Cons x rs)
    have rest: "distinct (map id_of (concat (map f rs)))" "length (concat (map f rs)) \<le> length rs"
      "sorted_wrt (\<lambda>a b. score_of b \<le> score_of a) (concat (map f rs))" using Cons by auto
    show ?case
    proof (cases "f x")
      case Nil
      then show ?thesis using rest by simp
    next
      case (Cons y ys)
      then have y: "f x = [y]" "id_of y = sc_id x" "score_of y = sc_score x" using assms(1) [of x] by auto
      have "id_of z \<noteq> id_of y \<and> score_of z \<le> score_of y" if "z \<in> set (concat (map f rs))" for z
        using member [OF that] Cons.prems y by auto
      then have "id_of y \<notin> id_of ` set (concat (map f rs))"
        "\<forall>z \<in> set (concat (map f rs)). score_of z \<le> score_of y" by force+
      then show ?thesis using rest y(1) by simp
    qed
  qed simp
  then show "distinct (map id_of (concat (map f rs)))" "length (concat (map f rs)) \<le> length rs"
    "sorted_wrt (\<lambda>a b. score_of b \<le> score_of a) (concat (map f rs))" by simp_all
qed

section \<open>What the searches answer with\<close>

text \<open>The database's index keeps the contract of a vector search.\<close>

definition clause_index_ok :: "(vector_query, 'x retrieval_db_scheme, string \<times> real) vector_provider \<Rightarrow> bool" where
  "clause_index_ok p \<longleftrightarrow>
     (case p of Application \<Rightarrow> True
      | Pgvector s \<Rightarrow> vector_leg s snd (\<lambda>org k db r. clause_evidence org k db (fst r)))"

definition chunk_index_ok :: "(vector_query, 'x retrieval_db_scheme, chunk_result) vector_provider \<Rightarrow> bool" where
  "chunk_index_ok p \<longleftrightarrow>
     (case p of Application \<Rightarrow> True | Pgvector s \<Rightarrow> vector_leg s hc_score chunk_result_evidence)"

lemma searchClauseVectors_leg:
  "clause_index_ok p \<Longrightarrow>
    vector_leg (searchClauseVectors allow p) snd (\<lambda>org k db r. clause_evidence org k db (fst r))"
  using clause_leg.fallback clause_leg.vector_leg_axioms
  by (cases p) (simp_all add: clause_index_ok_def searchClauseVectors_def [abs_def])

lemma searchDocumentChunkVectors_leg:
  "chunk_index_ok p \<Longrightarrow> vector_leg (searchDocumentChunkVectors allow p) hc_score chunk_result_evidence"
  using chunk_leg.fallback chunk_leg.vector_leg_axioms
  by (cases p) (simp_all add: chunk_index_ok_def searchDocumentChunkVectors_def [abs_def])

definition score_ok :: "real \<Rightarrow> real \<Rightarrow> real \<Rightarrow> bool" where
  "score_ok kw v s \<longleftrightarrow>
     (s = KEYWORD_WEIGHT * kw + VECTOR_WEIGHT * max 0 v \<or>
      s = KEYWORD_WEIGHT * kw + VECTOR_WEIGHT * max 0 v + EXACT_PHRASE_BONUS) \<and>
     0 \<le> kw \<and> kw \<le> 1 \<and> - 1 \<le> v \<and> v \<le> 1 \<and> 0 \<le> s \<and> s \<le> 11 / 10"

lemma ranked_score_ok:
  "ranked_ok ids r \<Longrightarrow> score_ok (sc_keywordScore r) (sc_vectorScore r) (sc_score r)"
  by (auto simp: ranked_ok_def score_ok_def KEYWORD_WEIGHT_def VECTOR_WEIGHT_def EXACT_PHRASE_BONUS_def)

text \<open>The clause a result stands for: of the organization and the contract asked for, in the latest ready
  revision of a live contract, and not only a title.\<close>

definition clause_hit_ok :: "search_request \<Rightarrow> 'x retrieval_db_scheme \<Rightarrow> clause_row \<Rightarrow> clause_hit \<Rightarrow> bool" where
  "clause_hit_ok rq db c r \<longleftrightarrow>
     c \<in> set (contract_clauses db) \<and> cr_id c = hr_contractClauseId r \<and> cr_organizationId c = sq_organizationId rq \<and>
     contract_filter (sq_contractId rq) (cr_contractId c) \<and> hr_contractId r = cr_contractId c \<and>
     hr_text r = cr_text c \<and> hr_clauseNumber r = cr_clauseNumber c \<and> hr_title r = cr_title c \<and> not_title_only c \<and>
     (\<exists>j. sj_id j = cr_segmentationJobId c \<and> latest_job (sq_organizationId rq) db j) \<and>
     score_ok (hr_keywordScore r) (hr_vectorScore r) (hr_score r)"

definition chunk_hit_ok :: "search_request \<Rightarrow> 'x retrieval_db_scheme \<Rightarrow> chunk_row \<Rightarrow> chunk_hit \<Rightarrow> bool" where
  "chunk_hit_ok rq db c r \<longleftrightarrow>
     c \<in> set (document_chunks db) \<and> dk_id c = hc_chunkId r \<and> contract_filter (sq_contractId rq) (dk_contractId c) \<and>
     hc_contractId r = dk_contractId c \<and> hc_text r = dk_text c \<and> hc_startOffset r = dk_startOffset c \<and>
     hc_endOffset r = dk_endOffset c \<and> contract_live (dk_contractId c) db \<and>
     (\<exists>d. xd_id d = dk_extractedDocumentId c \<and> latest_document (sq_organizationId rq) db d) \<and>
     score_ok (hc_keywordScore r) (hc_vectorScore r) (hc_score r)"

lemma find_clause_Some:
  "find_clause rq db i = Some c \<Longrightarrow>
    c \<in> set (contract_clauses db) \<and> cr_id c = i \<and> cr_organizationId c = sq_organizationId rq \<and>
    contract_filter (sq_contractId rq) (cr_contractId c)"
  unfolding find_clause_def by (drule find_row_Some) simp

lemma hydrate_clause_ok:
  assumes "distinct (map cr_id (contract_clauses db))" "r \<in> set (hydrate_clause rq db item)" "ranked_ok ids item"
    "\<And>i. i \<in> ids \<Longrightarrow> clause_evidence (sq_organizationId rq) (sq_contractId rq) db i"
  shows "\<exists>c. clause_hit_ok rq db c r"
proof -
  obtain c where c: "find_clause rq db (sc_id item) = Some c"
    using assms(2) by (cases "find_clause rq db (sc_id item)") (auto simp: hydrate_clause_def)
  note row = find_clause_Some [OF c]
  have "sc_id item \<in> ids" using assms(3) by (simp add: ranked_ok_def)
  then obtain e where e: "e \<in> set (contract_clauses db)" "cr_id e = sc_id item" "not_title_only e"
    "cr_segmentationJobId e \<in> set (latestAuthoritativeClauseSegmentationJobIds (sq_organizationId rq) db)"
    using assms(4) by (auto simp: clause_evidence_def list_ex_iff)
  have "e = c" using assms(1) e(1,2) row by (auto simp: distinct_map inj_on_def)
  obtain j where "sj_id j = cr_segmentationJobId c" "latest_job (sq_organizationId rq) db j"
    using latest_jobs [OF e(4)] \<open>e = c\<close> by blast
  then show ?thesis using assms(2) c row e(3) \<open>e = c\<close> ranked_score_ok [OF assms(3)]
    by (intro exI [of _ c]) (auto simp: hydrate_clause_def clause_hit_ok_def)
qed

lemma clause_pipeline:
  assumes run: "hybridSearchClausesUncached cfg rq db store = (Inr rs, store')"
    and keys: "distinct (map cr_id (contract_clauses db))" and idx: "clause_index_ok (hi_clauseProvider cfg)"
  shows "length rs \<le> sq_topK rq" "distinct (map hr_contractClauseId rs)"
    "sorted_wrt (\<lambda>a b. hr_score b \<le> hr_score a) rs" "list_all (\<lambda>r. \<exists>c. clause_hit_ok rq db c r) rs"
proof -
  define kws where "kws = search_keywords (se_runtime cfg)
    (buildHistoryAugmentedSearchQuery (sq_question rq) (sq_history rq)) (sq_question rq)"
  define matches where "matches =
    findClauseKeywordMatchCounts (search_env.truncate cfg) (sq_organizationId rq) kws (sq_contractId rq) db"
  obtain v vectors ids where vectors:
    "searchClauseVectors (hi_allowFallback cfg) (hi_clauseProvider cfg) (vector_query_of cfg rq v) db = Inr vectors"
    "rs = concat (map (hydrate_clause rq db)
       (take (sq_topK rq) (rerank (mergeScores (search_candidates kws matches vectors)) ids)))"
    using run unfolding hybridSearchClausesUncached_def Let_def kws_def [symmetric] matches_def [symmetric]
    by (auto split: prod.splits sum.splits)
  note leg = searchClauseVectors_leg [OF idx, of "hi_allowFallback cfg"]
  have counts: "\<And>i n. (i, n) \<in> set matches \<Longrightarrow> n \<le> length kws" unfolding matches_def by (rule keyword_counts_le)
  have scores: "\<And>i s. (i, s) \<in> set vectors \<Longrightarrow> - 1 \<le> s \<and> s \<le> 1"
    using vector_leg.scores [OF leg vectors(1), where id_of = fst] by simp
  note rank = ranking [of matches kws vectors "sq_topK rq" ids, OF counts scores]
  have one: "hydrate_clause rq db x = [] \<or> (\<exists>y. hydrate_clause rq db x = [y] \<and> hr_contractClauseId y = sc_id x \<and>
      hr_score y = sc_score x)" for x
    by (cases "find_clause rq db (sc_id x)") (auto simp: hydrate_clause_def dest: find_clause_Some)
  note hyd = hydrated [of "hydrate_clause rq db" hr_contractClauseId hr_score, OF one rank(2,3)]
  show "distinct (map hr_contractClauseId rs)" unfolding vectors(2) by (rule hyd(1))
  show "sorted_wrt (\<lambda>a b. hr_score b \<le> hr_score a) rs" unfolding vectors(2) by (rule hyd(3))
  show "length rs \<le> sq_topK rq" unfolding vectors(2) using hyd(2) rank(1) by (rule le_trans)
  have evidence: "clause_evidence (sq_organizationId rq) (sq_contractId rq) db i"
    if mem: "i \<in> fst ` set matches \<union> fst ` set vectors" for i
  proof (cases "i \<in> fst ` set matches")
    case True
    then show ?thesis unfolding matches_def by (rule keyword_matches_evidence(1))
  next
    case False
    then obtain r where "r \<in> set vectors" "i = fst r" using mem by auto
    then show ?thesis using vector_leg.sound [OF leg vectors(1)] by (simp add: vector_query_of_def)
  qed
  have "\<exists>c. clause_hit_ok rq db c r" if "r \<in> set rs" for r
  proof -
    obtain item where "item \<in> set (take (sq_topK rq) (rerank (mergeScores (search_candidates kws matches vectors)) ids))"
      "r \<in> set (hydrate_clause rq db item)"
      using \<open>r \<in> set rs\<close> unfolding vectors(2) by auto
    moreover have "list_all (ranked_ok (fst ` set matches \<union> fst ` set vectors))
        (take (sq_topK rq) (rerank (mergeScores (search_candidates kws matches vectors)) ids))" by (rule rank(4))
    ultimately have item: "ranked_ok (fst ` set matches \<union> fst ` set vectors) item"
      "r \<in> set (hydrate_clause rq db item)" by (simp_all add: list_all_iff)
    show ?thesis by (rule hydrate_clause_ok [OF keys item(2,1) evidence])
  qed
  then show "list_all (\<lambda>r. \<exists>c. clause_hit_ok rq db c r) rs" by (simp add: list_all_iff)
qed

lemma find_chunk_Some:
  "find_chunk rq db i = Some c \<Longrightarrow>
    c \<in> set (document_chunks db) \<and> dk_id c = i \<and> dk_organizationId c = sq_organizationId rq \<and>
    contract_filter (sq_contractId rq) (dk_contractId c)"
  unfolding find_chunk_def by (drule find_row_Some) simp

lemma hydrate_chunk_one:
  "hydrate_chunk rq db vectors x = [] \<or>
   (\<exists>y. hydrate_chunk rq db vectors x = [y] \<and> hc_chunkId y = sc_id x \<and> hc_score y = sc_score x)"
proof (cases "find (\<lambda>h. hc_chunkId h = sc_id x) (rev vectors)")
  case None
  then show ?thesis
    by (cases "find_chunk rq db (sc_id x)")
      (auto simp: hydrate_chunk_def chunk_result_of_def chunk_result.defs chunk_hit.defs dest: find_chunk_Some)
next
  case (Some h)
  then have "hc_chunkId h = sc_id x" by (auto simp: find_Some_iff)
  then show ?thesis using Some by (cases h) (auto simp: hydrate_chunk_def chunk_result.defs chunk_hit.defs)
qed

lemma hydrate_chunk_ok:
  assumes "distinct (map dk_id (document_chunks db))" "r \<in> set (hydrate_chunk rq db vectors item)" "ranked_ok ids item"
    "\<And>h. h \<in> set vectors \<Longrightarrow> chunk_result_evidence (sq_organizationId rq) (sq_contractId rq) db h"
    "\<And>i. i \<in> ids \<Longrightarrow> chunk_evidence (sq_organizationId rq) (sq_contractId rq) db i"
  shows "\<exists>c. chunk_hit_ok rq db c r"
proof -
  have item: "chunk_evidence (sq_organizationId rq) (sq_contractId rq) db (sc_id item)"
    using assms(3,5) by (simp add: ranked_ok_def)
  obtain c s where c: "c \<in> set (document_chunks db)"
    "chunk_row_evidence (sq_organizationId rq) (sq_contractId rq) db c"
    "r = chunk_result.extend ((chunk_result_of db c s)\<lparr>hc_score := sc_score item\<rparr>)
       (chunk_hit.fields (sc_keywordScore item) (sc_vectorScore item))"
  proof (cases "find (\<lambda>h. hc_chunkId h = sc_id item) (rev vectors)")
    case None
    then obtain c where c: "find_chunk rq db (sc_id item) = Some c"
      "r = chunk_result.extend ((chunk_result_of db c 0)\<lparr>hc_score := sc_score item\<rparr>)
         (chunk_hit.fields (sc_keywordScore item) (sc_vectorScore item))"
      using assms(2) by (cases "find_chunk rq db (sc_id item)") (auto simp: hydrate_chunk_def)
    obtain e where e: "e \<in> set (document_chunks db)" "dk_id e = sc_id item"
      "chunk_row_evidence (sq_organizationId rq) (sq_contractId rq) db e"
      using item by (auto simp: chunk_evidence_def list_ex_iff)
    have "e = c" using assms(1) e(1,2) find_chunk_Some [OF c(1)] by (auto simp: distinct_map inj_on_def)
    then show thesis using that c(2) e by blast
  next
    case (Some h)
    then have "h \<in> set (rev vectors)" by (metis find_Some_iff nth_mem)
    then have "h \<in> set vectors" by simp
    from assms(4) [OF this] obtain c where "c \<in> set (document_chunks db)" "h = chunk_result_of db c (hc_score h)"
      "chunk_row_evidence (sq_organizationId rq) (sq_contractId rq) db c"
      by (auto simp: chunk_result_evidence_def)
    moreover have "r = chunk_result.extend (h\<lparr>hc_score := sc_score item\<rparr>)
       (chunk_hit.fields (sc_keywordScore item) (sc_vectorScore item))"
      using assms(2) Some by (simp add: hydrate_chunk_def)
    ultimately show thesis using that [of c "hc_score h"] by simp
  qed
  obtain d where "xd_id d = dk_extractedDocumentId c" "latest_document (sq_organizationId rq) db d"
    using c(2) latest_documents by (metis chunk_row_evidence_def)
  then show ?thesis using c ranked_score_ok [OF assms(3)]
    by (intro exI [of _ c])
      (auto simp: chunk_hit_ok_def chunk_result_of_def chunk_row_evidence_def chunk_result.defs chunk_hit.defs)
qed

lemma chunk_pipeline:
  assumes run: "hybridSearchDocumentChunksUncached cfg rq db store = (Inr rs, store')"
    and keys: "distinct (map dk_id (document_chunks db))" and idx: "chunk_index_ok (hi_chunkProvider cfg)"
  shows "length rs \<le> sq_topK rq" "distinct (map hc_chunkId rs)"
    "sorted_wrt (\<lambda>a b. hc_score b \<le> hc_score a) rs" "list_all (\<lambda>r. \<exists>c. chunk_hit_ok rq db c r) rs"
proof -
  define kws where "kws = search_keywords (se_runtime cfg)
    (buildHistoryAugmentedSearchQuery (sq_question rq) (sq_history rq)) (sq_question rq)"
  define matches where "matches =
    findChunkKeywordMatchCounts (search_env.truncate cfg) (sq_organizationId rq) kws (sq_contractId rq) db"
  obtain v vectors ids where vectors:
    "searchDocumentChunkVectors (hi_allowFallback cfg) (hi_chunkProvider cfg) (vector_query_of cfg rq v) db = Inr vectors"
    "rs = concat (map (hydrate_chunk rq db vectors) (take (sq_topK rq)
       (rerank (mergeScores (search_candidates kws matches (map (\<lambda>h. (hc_chunkId h, hc_score h)) vectors))) ids)))"
    using run unfolding hybridSearchDocumentChunksUncached_def chunk_scoring_same Let_def
      kws_def [symmetric] matches_def [symmetric]
    by (auto split: prod.splits sum.splits)
  note leg = searchDocumentChunkVectors_leg [OF idx, of "hi_allowFallback cfg"]
  let ?pairs = "map (\<lambda>h. (hc_chunkId h, hc_score h)) vectors"
  have counts: "\<And>i n. (i, n) \<in> set matches \<Longrightarrow> n \<le> length kws" unfolding matches_def by (rule keyword_counts_le)
  have scores: "\<And>i s. (i, s) \<in> set ?pairs \<Longrightarrow> - 1 \<le> s \<and> s \<le> 1"
    by (rule vector_leg.scores [OF leg vectors(1)])
  note rank = ranking [of matches kws ?pairs "sq_topK rq" ids, OF counts scores]
  note hyd = hydrated [of "hydrate_chunk rq db vectors" hc_chunkId hc_score, OF hydrate_chunk_one rank(2,3)]
  show "distinct (map hc_chunkId rs)" unfolding vectors(2) by (rule hyd(1))
  show "sorted_wrt (\<lambda>a b. hc_score b \<le> hc_score a) rs" unfolding vectors(2) by (rule hyd(3))
  show "length rs \<le> sq_topK rq" unfolding vectors(2) using hyd(2) rank(1) by (rule le_trans)
  have found: "chunk_result_evidence (sq_organizationId rq) (sq_contractId rq) db h" if "h \<in> set vectors" for h
    using vector_leg.sound [OF leg vectors(1) that] by (simp add: vector_query_of_def)
  have evidence: "chunk_evidence (sq_organizationId rq) (sq_contractId rq) db i"
    if mem: "i \<in> fst ` set matches \<union> fst ` set ?pairs" for i
  proof (cases "i \<in> fst ` set matches")
    case True
    then show ?thesis unfolding matches_def by (rule keyword_matches_evidence(2))
  next
    case False
    then obtain h where h: "h \<in> set vectors" "i = hc_chunkId h" using mem by auto
    from found [OF h(1)] obtain c where "c \<in> set (document_chunks db)" "h = chunk_result_of db c (hc_score h)"
      "chunk_row_evidence (sq_organizationId rq) (sq_contractId rq) db c" by (auto simp: chunk_result_evidence_def)
    moreover from this(2) have "hc_chunkId h = dk_id c" by (metis chunk_result.select_convs(1) chunk_result_of_def)
    ultimately show ?thesis using h(2) by (auto simp: chunk_evidence_def list_ex_iff)
  qed
  have "\<exists>c. chunk_hit_ok rq db c r" if "r \<in> set rs" for r
  proof -
    obtain item where "item \<in> set (take (sq_topK rq) (rerank (mergeScores (search_candidates kws matches ?pairs)) ids))"
      "r \<in> set (hydrate_chunk rq db vectors item)"
      using \<open>r \<in> set rs\<close> unfolding vectors(2) by auto
    moreover have "list_all (ranked_ok (fst ` set matches \<union> fst ` set ?pairs))
        (take (sq_topK rq) (rerank (mergeScores (search_candidates kws matches ?pairs)) ids))" by (rule rank(4))
    ultimately have item: "ranked_ok (fst ` set matches \<union> fst ` set ?pairs) item"
      "r \<in> set (hydrate_chunk rq db vectors item)" unfolding list_all_iff by blast+
    show ?thesis by (rule hydrate_chunk_ok [OF keys item(2,1) found evidence])
  qed
  then show "list_all (\<lambda>r. \<exists>c. chunk_hit_ok rq db c r) rs" by (simp add: list_all_iff)
qed

end
