(* ===== verification/RetrievalLaws.thy ===== *)
theory RetrievalLaws
  imports HybridSearch
begin

text \<open>
  What the context of an answer consists of (\<^verbatim>\<open>features/ai/server/retrieve-context.ts\<close>): live evidence, with the
  sampled clauses of a comprehensive question among it; and the cases where it is not what the comments promise.
\<close>

section \<open>The context\<close>

fun cached_clauses :: "cache_value \<Rightarrow> bool" where
  "cached_clauses (CachedClauses _ _) = True"
| "cached_clauses _ = False"

fun cached_chunks :: "cache_value \<Rightarrow> bool" where
  "cached_chunks (CachedChunks _ _) = True"
| "cached_chunks _ = False"

definition all_cached :: "(cache_value \<Rightarrow> bool) \<Rightarrow> cache \<Rightarrow> bool" where
  "all_cached P store \<longleftrightarrow> (\<forall>(v, t) \<in> ran store. P v)"

lemma all_cached_get:
  assumes "all_cached P store" "cache_get now key store = (v, store')"
  shows "all_cached P store'" "v = Some c \<Longrightarrow> P c"
proof -
  have "ran store' \<subseteq> ran store"
    using assms(2) by (auto simp: cache_get_def ran_def split: option.splits prod.splits if_splits)
  then show "all_cached P store'" using assms(1) by (auto simp: all_cached_def)
  show "P c" if "v = Some c"
    using assms that by (auto simp: cache_get_def all_cached_def ran_def split: option.splits prod.splits if_splits)
qed

lemma all_cached_set: "all_cached P store \<Longrightarrow> P v \<Longrightarrow> all_cached P (cache_set now key v ttl store)"
  by (auto simp: all_cached_def cache_set_def ran_def)

lemma query_embedding_keeps:
  assumes "all_cached P store" "\<And>v. P (CachedEmbedding v)" "getCachedQueryEmbedding cfg t store = (r, store')"
  shows "all_cached P store'"
proof -
  obtain hit store1 where get: "cache_get (hi_now cfg) (''embedding:'' @ hi_providerName cfg @ '':'' @ hi_modelName cfg @
      '':'' @ hi_hash cfg [t]) store = (hit, store1)" by force
  have store1: "all_cached P store1" using all_cached_get(1) [OF assms(1) get] .
  show ?thesis using assms(3) get store1 all_cached_set [OF store1 assms(2)]
    by (auto simp: getCachedQueryEmbedding_def Let_def split: option.splits cache_value.splits)
qed

lemma clause_search_keeps:
  assumes "all_cached P store" "\<And>v. P (CachedEmbedding v)" "hybridSearchClausesUncached cfg rq db store = (r, store')"
  shows "all_cached P store'"
  using assms(3) query_embedding_keeps [OF assms(1,2)]
  by (auto simp: hybridSearchClausesUncached_def Let_def split: prod.splits sum.splits)

text \<open>A search that finds no results of its kind in the cache is a search of the tables.\<close>

lemma clause_search_cases:
  assumes "all_cached (Not \<circ> cached_clauses) store" "hybridSearchClauses cfg rq db store = (Inr rs, store')"
  obtains store1 store2 where "hybridSearchClausesUncached cfg rq db store1 = (Inr rs, store2)"
    "all_cached (Not \<circ> cached_chunks) store \<Longrightarrow> all_cached (Not \<circ> cached_chunks) store'"
proof -
  let ?key = "buildRetrievalCacheKey cfg rq"
  obtain hit store1 where get: "cache_get (hi_now cfg) ?key store = (hit, store1)" by force
  have "\<not> cached_clauses c" if "hit = Some c" for c using all_cached_get(2) [OF assms(1) get that] by simp
  then have "(case hit of Some (CachedClauses chk rs) \<Rightarrow>
      if chk = getLatestEmbeddingGenerationChecksum (sq_organizationId rq) db then Some rs else None | _ \<Rightarrow> None) = None"
    by (auto split: option.split cache_value.split)
  then obtain store2 where run: "hybridSearchClausesUncached cfg rq db store1 = (Inr rs, store2)"
    "store' = cache_set (hi_now cfg) ?key
       (CachedClauses (getLatestEmbeddingGenerationChecksum (sq_organizationId rq) db) rs) (hi_retrievalTtl cfg) store2"
    using assms(2) get by (auto simp: hybridSearchClauses_def Let_def split: prod.splits sum.splits)
  have "all_cached (Not \<circ> cached_chunks) store'" if "all_cached (Not \<circ> cached_chunks) store"
    unfolding run(2)
    by (rule all_cached_set, rule clause_search_keeps [OF all_cached_get(1) [OF that get] _ run(1)]) simp_all
  then show thesis using that run(1) by blast
qed

lemma chunk_search_cases:
  assumes "all_cached (Not \<circ> cached_chunks) store" "hybridSearchDocumentChunks cfg rq db store = (Inr rs, store')"
  obtains store1 store2 where "hybridSearchDocumentChunksUncached cfg rq db store1 = (Inr rs, store2)"
proof -
  let ?key = "chunkCacheKey cfg rq"
  obtain hit store1 where get: "cache_get (hi_now cfg) ?key store = (hit, store1)" by force
  have "\<not> cached_chunks c" if "hit = Some c" for c using all_cached_get(2) [OF assms(1) get that] by simp
  then have "(case hit of Some (CachedChunks chk rs) \<Rightarrow>
      if chk = getLatestChunkEmbeddingGenerationChecksum (sq_organizationId rq) db then Some rs else None
    | _ \<Rightarrow> None) = None"
    by (auto split: option.split cache_value.split)
  then show thesis using assms(2) get that
    by (auto simp: hybridSearchDocumentChunks_def Let_def split: prod.splits sum.splits)
qed

text \<open>The row a citation quotes.\<close>

definition clause_row_ok :: "search_request \<Rightarrow> 'x retrieval_db_scheme \<Rightarrow> clause_row \<Rightarrow> bool" where
  "clause_row_ok rq db k \<longleftrightarrow>
     k \<in> set (contract_clauses db) \<and> cr_organizationId k = sq_organizationId rq \<and>
     contract_filter (sq_contractId rq) (cr_contractId k) \<and> not_title_only k \<and>
     (\<exists>j. sj_id j = cr_segmentationJobId k \<and> latest_job (sq_organizationId rq) db j)"

definition chunk_row_ok :: "search_request \<Rightarrow> 'x retrieval_db_scheme \<Rightarrow> chunk_row \<Rightarrow> bool" where
  "chunk_row_ok rq db k \<longleftrightarrow>
     k \<in> set (document_chunks db) \<and> contract_filter (sq_contractId rq) (dk_contractId k) \<and>
     contract_live (dk_contractId k) db \<and>
     (\<exists>d. xd_id d = dk_extractedDocumentId k \<and> latest_document (sq_organizationId rq) db d)"

definition clause_reference :: "clause_row \<Rightarrow> jstring" where
  "clause_reference k =
     (case cr_clauseNumber k of Some n \<Rightarrow> n
      | None \<Rightarrow> (case cr_title k of Some t \<Rightarrow> t | None \<Rightarrow> FALLBACK_CLAUSE_REFERENCE))"

definition citation_source :: "js_runtime \<Rightarrow> search_request \<Rightarrow> 'x retrieval_db_scheme \<Rightarrow> citation \<Rightarrow> bool" where
  "citation_source rt rq db c \<longleftrightarrow>
     (case ci_evidence c of
        ClauseEvidence i \<Rightarrow>
          (\<exists>k. clause_row_ok rq db k \<and> cr_id k = i \<and> ci_contractId c = cr_contractId k \<and>
               ci_clauseReference c = clause_reference k \<and>
               ci_evidenceText c = extractEvidenceSentence rt (cr_text k) (sq_question rq))
      | ChunkEvidence i ps pe s e \<Rightarrow>
          (\<exists>k. chunk_row_ok rq db k \<and> dk_id k = i \<and> ci_contractId c = dk_contractId k \<and>
               s = dk_startOffset k \<and> e = dk_endOffset k \<and>
               ci_evidenceText c = extractEvidenceSentence rt (dk_text k) (sq_question rq)))"

lemma buildChunkContext_fields:
  "ci_evidence (buildChunkContext rt r q) =
     ChunkEvidence (hc_chunkId r) (hc_sourcePageStart r) (hc_sourcePageEnd r) (hc_startOffset r) (hc_endOffset r)"
  "ci_contractId (buildChunkContext rt r q) = hc_contractId r"
  "ci_evidenceText (buildChunkContext rt r q) = extractEvidenceSentence rt (hc_text r) q"
  by (simp_all add: buildChunkContext_def extractChunkEvidence_def extractEvidenceSentence_def split_beta Let_def
      split: option.split)

lemma boost_fields:
  "ci_evidence (boost_citation g ids c) = ci_evidence c" "ci_contractId (boost_citation g ids c) = ci_contractId c"
  "ci_evidenceText (boost_citation g ids c) = ci_evidenceText c"
  "ci_clauseReference (boost_citation g ids c) = ci_clauseReference c" "ci_score c \<le> ci_score (boost_citation g ids c)"
  by (simp_all add: boost_citation_def)

lemma first_by_text_subset: "set (first_by_text rt f seen xs) \<subseteq> set xs"
  by (induction rt f seen xs rule: first_by_text.induct) (auto simp: Let_def)

lemma sample_families_subset: "set (sample_families n rows) \<subseteq> set rows"
  by (induction n rows rule: sample_families.induct) (auto simp: fun_upd_def split: option.splits)

lemma sampled_row_ok:
  "c \<in> set (sampleHighValueClauses (sq_organizationId rq) (sq_contractId rq) db) \<Longrightarrow> clause_row_ok rq db c"
proof -
  assume "c \<in> set (sampleHighValueClauses (sq_organizationId rq) (sq_contractId rq) db)"
  then have c: "c \<in> set (contract_clauses db)" "cr_organizationId c = sq_organizationId rq"
    "cr_segmentationJobId c \<in> set (latestAuthoritativeClauseSegmentationJobIds (sq_organizationId rq) db)"
    "contract_filter (sq_contractId rq) (cr_contractId c)" "not_title_only c"
    using sample_families_subset unfolding sampleHighValueClauses_def Let_def
    by (fastforce split: if_splits)+
  then show ?thesis using latest_jobs [OF c(3)] by (metis clause_row_ok_def)
qed

lemma clause_citation_source:
  "clause_hit_ok rq db k r \<Longrightarrow> citation_source rt rq db (boost_citation g ids (buildContext rt r (sq_question rq)))"
  by (auto simp: citation_source_def boost_fields clause_hit_ok_def clause_row_ok_def buildContext_def clause_reference_def
      split: option.split)

lemma chunk_citation_source:
  "chunk_hit_ok rq db k r \<Longrightarrow> citation_source rt rq db (buildChunkContext rt r (sq_question rq))"
  by (auto simp: citation_source_def buildChunkContext_fields chunk_hit_ok_def chunk_row_ok_def)

lemma sampled_citation_source:
  "clause_row_ok rq db k \<Longrightarrow> citation_source rt rq db (buildContext rt (sampled_result g db k) (sq_question rq))"
  by (auto simp: citation_source_def buildContext_def sampled_result_def clause_reference_def split: option.split)

text \<open>A sampled clause the search also found has the same provision.\<close>

lemma found_sample_provision:
  assumes "distinct (map cr_id (contract_clauses db))" "clause_hit_ok rq db c r" "clause_row_ok rq db k"
    "hr_contractClauseId r = cr_id k"
  shows "provisionKey (boost_citation g ids (buildContext rt r q)) = provisionKey (buildContext rt (sampled_result g db k) q)"
proof -
  have "c = k"
    using assms by (auto simp: clause_hit_ok_def clause_row_ok_def distinct_map inj_on_def)
  then have "hr_clauseNumber r = cr_clauseNumber k" "hr_title r = cr_title k" "hr_contractId r = cr_contractId k"
    using assms(2) by (simp_all add: clause_hit_ok_def)
  then have "ci_clauseReference (boost_citation g ids (buildContext rt r q)) =
      ci_clauseReference (buildContext rt (sampled_result g db k) q)"
    "ci_contractId (boost_citation g ids (buildContext rt r q)) =
      ci_contractId (buildContext rt (sampled_result g db k) q)"
    by (simp_all add: boost_fields buildContext_def sampled_result_def split: option.split)
  then show ?thesis by (simp only: provisionKey_def)
qed

lemma merged_context:
  fixes rt guard
  assumes keys: "distinct (map cr_id (contract_clauses db))"
    and clauses: "list_all (\<lambda>r. \<exists>c. clause_hit_ok rq db c r) crs"
    and chunks: "list_all (\<lambda>r. \<exists>c. chunk_hit_ok rq db c r) krs"
    and samples: "list_all (clause_row_ok rq db) ss"
  defines "cs \<equiv> merge_context rt guard db (sq_question rq) crs krs ss"
  shows "distinct (map provisionKey cs)" "sorted_wrt (\<lambda>c d. ci_score d \<le> ci_score c) cs"
    "list_all (citation_source rt rq db) cs"
    "list_all (\<lambda>k. list_ex (\<lambda>u. is_clause (ci_evidence u) \<and> MIN_CITATION_SCORE_COMPREHENSIVE guard \<le> ci_score u \<and>
        provisionKey u = provisionKey (buildContext rt (sampled_result guard db k) (sq_question rq))) cs) ss"
proof -
  let ?q = "sq_question rq"
  let ?boost = "boost_citation guard (map cr_id ss)"
  define ccs where "ccs = map ?boost (map (\<lambda>r. buildContext rt r ?q) (deduplicateByNormalizedText rt hr_text crs))"
  define kcs where "kcs = map (\<lambda>r. buildChunkContext rt r ?q) (deduplicateByNormalizedText rt hc_text krs)"
  define fcs where "fcs = map (\<lambda>c. buildContext rt (sampled_result guard db c) ?q)
    (filter (\<lambda>c. Some (cr_id c) \<notin> set (map contractClauseId ccs)) ss)"
  have cs: "cs = deduplicateBySameProvision (ccs @ kcs @ fcs)"
    unfolding cs_def merge_context_def ccs_def kcs_def fcs_def Let_def ..
  note spec = dedup_spec [of "ccs @ kcs @ fcs", folded cs]
  have hit: "\<exists>k. clause_hit_ok rq db k r" if "r \<in> set (deduplicateByNormalizedText rt hr_text crs)" for r
    using that clauses first_by_text_subset [of rt hr_text "[]" crs]
    by (auto simp: deduplicateByNormalizedText_def list_all_iff)
  have "citation_source rt rq db c" if "c \<in> set ccs" for c
    using that hit clause_citation_source by (fastforce simp: ccs_def)
  moreover have "citation_source rt rq db c" if "c \<in> set kcs" for c
    using that chunks first_by_text_subset [of rt hc_text "[]" krs] chunk_citation_source
    by (fastforce simp: kcs_def deduplicateByNormalizedText_def list_all_iff)
  moreover have "citation_source rt rq db c" if "c \<in> set fcs" for c
    using that samples sampled_citation_source by (fastforce simp: fcs_def list_all_iff)
  ultimately have all: "citation_source rt rq db c" if "c \<in> set (ccs @ kcs @ fcs)" for c using that by auto
  show "distinct (map provisionKey cs)" using spec by blast
  show "sorted_wrt (\<lambda>c d. ci_score d \<le> ci_score c) cs" using spec by blast
  show "list_all (citation_source rt rq db) cs" using spec all by (auto simp: list_all_iff)
  have "\<exists>u \<in> set cs. is_clause (ci_evidence u) \<and> MIN_CITATION_SCORE_COMPREHENSIVE guard \<le> ci_score u \<and>
      provisionKey u = provisionKey (buildContext rt (sampled_result guard db k) ?q)" if k: "k \<in> set ss" for k
  proof -
    have "\<exists>d \<in> set (ccs @ kcs @ fcs). is_clause (ci_evidence d) \<and> MIN_CITATION_SCORE_COMPREHENSIVE guard \<le> ci_score d \<and>
      provisionKey d = provisionKey (buildContext rt (sampled_result guard db k) ?q)"
    proof (cases "Some (cr_id k) \<in> set (map contractClauseId ccs)")
      case True
      then obtain r where r: "r \<in> set (deduplicateByNormalizedText rt hr_text crs)" "hr_contractClauseId r = cr_id k"
        by (auto simp: ccs_def contractClauseId_def boost_fields buildContext_def)
      obtain c where "clause_hit_ok rq db c r" using hit [OF r(1)] by blast
      note same = found_sample_provision [OF keys this _ r(2)]
      have "?boost (buildContext rt r ?q) \<in> set ccs" using r(1) by (simp add: ccs_def)
      moreover have "is_clause (ci_evidence (?boost (buildContext rt r ?q))) \<and>
          MIN_CITATION_SCORE_COMPREHENSIVE guard \<le> ci_score (?boost (buildContext rt r ?q))"
        using r(2) k by (auto simp: boost_citation_def buildContext_def contractClauseId_def)
      ultimately show ?thesis using same samples k by (fastforce simp: list_all_iff)
    next
      case False
      then have "buildContext rt (sampled_result guard db k) ?q \<in> set fcs" using k by (auto simp: fcs_def)
      then show ?thesis by (auto intro!: bexI [of _ "buildContext rt (sampled_result guard db k) ?q"]
          simp: buildContext_def sampled_result_def)
    qed
    then obtain d where d: "d \<in> set (ccs @ kcs @ fcs)" "is_clause (ci_evidence d)"
      "MIN_CITATION_SCORE_COMPREHENSIVE guard \<le> ci_score d"
      "provisionKey d = provisionKey (buildContext rt (sampled_result guard db k) ?q)" by blast
    obtain u where "u \<in> set cs" "provisionKey u = provisionKey d" "\<not> citationIsBetter d u" using spec d(1) by blast
    then show ?thesis using d by (intro bexI [of _ u]) (auto simp: citationIsBetter_def)
  qed
  then show "list_all (\<lambda>k. list_ex (\<lambda>u. is_clause (ci_evidence u) \<and>
      MIN_CITATION_SCORE_COMPREHENSIVE guard \<le> ci_score u \<and>
      provisionKey u = provisionKey (buildContext rt (sampled_result guard db k) ?q)) cs) ss"
    by (auto simp: list_all_iff list_ex_iff)
qed

lemma request_topK:
  "clause_hit_ok (rq\<lparr>sq_topK := k\<rparr>) = clause_hit_ok rq" "chunk_hit_ok (rq\<lparr>sq_topK := k\<rparr>) = chunk_hit_ok rq"
  by (simp_all add: fun_eq_iff clause_hit_ok_def chunk_hit_ok_def)

lemma retrieved_context:
  assumes "retrieveContext cfg guard rq topK db store = (Inr cs, store')"
    and "distinct (map cr_id (contract_clauses db))" "distinct (map dk_id (document_chunks db))"
    and "clause_index_ok (hi_clauseProvider cfg)" "chunk_index_ok (hi_chunkProvider cfg)"
    and "all_cached (Not \<circ> cached_clauses) store" "all_cached (Not \<circ> cached_chunks) store"
  shows "distinct (map provisionKey cs)" "sorted_wrt (\<lambda>c d. ci_score d \<le> ci_score c) cs"
    "list_all (citation_source (se_runtime cfg) rq db) cs"
    "list_all (\<lambda>k. list_ex (\<lambda>u. is_clause (ci_evidence u) \<and> MIN_CITATION_SCORE_COMPREHENSIVE guard \<le> ci_score u \<and>
        provisionKey u = provisionKey (buildContext (se_runtime cfg) (sampled_result guard db k) (sq_question rq))) cs)
      (if classifyQuestionComplexity (sq_question rq) = Comprehensive
       then sampleHighValueClauses (sq_organizationId rq) (sq_contractId rq) db else [])"
proof -
  let ?ss = "if classifyQuestionComplexity (sq_question rq) = Comprehensive
    then sampleHighValueClauses (sq_organizationId rq) (sq_contractId rq) db else []"
  obtain k crs krs store1 where run: "hybridSearchClauses cfg (rq\<lparr>sq_topK := k\<rparr>) db store = (Inr crs, store1)"
    "hybridSearchDocumentChunks cfg (rq\<lparr>sq_topK := k\<rparr>) db store1 = (Inr krs, store')"
    "cs = merge_context (se_runtime cfg) guard db (sq_question rq) crs krs ?ss"
    using assms(1) unfolding retrieveContext_def Let_def by (auto split: prod.splits sum.splits)
  obtain s1 s2 where clauses: "hybridSearchClausesUncached cfg (rq\<lparr>sq_topK := k\<rparr>) db s1 = (Inr crs, s2)"
    and "all_cached (Not \<circ> cached_chunks) store1"
    using clause_search_cases [OF assms(6) run(1)] assms(7) by metis
  obtain s3 s4 where chunks: "hybridSearchDocumentChunksUncached cfg (rq\<lparr>sq_topK := k\<rparr>) db s3 = (Inr krs, s4)"
    using chunk_search_cases [OF \<open>all_cached _ store1\<close> run(2)] by metis
  have samples: "list_all (clause_row_ok rq db) ?ss" by (auto simp: list_all_iff intro: sampled_row_ok)
  show "distinct (map provisionKey cs)" "sorted_wrt (\<lambda>c d. ci_score d \<le> ci_score c) cs"
    "list_all (citation_source (se_runtime cfg) rq db) cs"
    "list_all (\<lambda>k. list_ex (\<lambda>u. is_clause (ci_evidence u) \<and> MIN_CITATION_SCORE_COMPREHENSIVE guard \<le> ci_score u \<and>
        provisionKey u = provisionKey (buildContext (se_runtime cfg) (sampled_result guard db k) (sq_question rq))) cs) ?ss"
    using merged_context [OF assms(2) clause_pipeline(4) [OF clauses assms(2,4), unfolded request_topK]
      chunk_pipeline(4) [OF chunks assms(3,5), unfolded request_topK] samples,
      where rt = "se_runtime cfg" and guard = guard, folded run(3)] by blast+
qed


section \<open>A question about everything\<close>

definition shelf_clause :: "string \<Rightarrow> string \<Rightarrow> jstring \<Rightarrow> jstring \<Rightarrow> clause_row" where
  "shelf_clause i j n t = \<lparr>cr_id = i, cr_organizationId = ''o'', cr_contractId = ''k'', cr_extractedDocumentId = ''d'',
     cr_segmentationJobId = j, cr_sectionId = None, cr_parentClauseId = None, cr_clauseNumber = Some n,
     cr_title = None, cr_text = t, cr_normalizedText = t, cr_orderIndex = 0, cr_depth = 1,
     cr_startOffset = 0, cr_endOffset = length t, cr_suggestedClauseType = Some ''PAYMENT'',
     cr_classificationConfidence = None, cr_classificationSignals = [], cr_reviewedClauseType = None,
     cr_classificationState = UNREVIEWED, cr_reviewedById = None, cr_reviewedAt = None\<rparr>"

definition shelf_job :: "string \<Rightarrow> time_ms \<Rightarrow> segmentation_job" where
  "shelf_job i t = demo_seg_job\<lparr>sj_id := i, sj_status := Seg_REVIEW_REQUIRED, sj_completedAt := Some t\<rparr>"

definition shelf_db :: "segmentation_job list \<Rightarrow> clause_row list \<Rightarrow> retrieval_db" where
  "shelf_db jobs clauses = \<lparr>memberships = [], auditLog = [],
     contracts = [\<lparr>ct_id = ''k'', ct_organizationId = ''o'', ct_deletedAt = None, ct_updatedAt = 5,
                   ct_columns = demo_columns\<rparr>],
     contract_files = [], counterparties = [], extraction_jobs = [], field_suggestions = [], extracted_documents = [],
     segmentation_jobs = jobs, contract_sections = [], contract_clauses = clauses, embedding_jobs = [],
     organizations = [], clause_embeddings = [], document_chunks = [], chunk_embeddings = [], chunk_jobs = [],
     ai_usage = [], embedding_createdAt = (\<lambda>_. 0), document_createdAt = (\<lambda>_. 0), chunk_pages = (\<lambda>_. (None, None))\<rparr>"

definition shelf_env :: "retrieval_db hybrid_env" where
  "shelf_env = \<lparr>se_runtime = plain_runtime, se_ilike = includes_text, hi_now = 0, hi_hash = (\<lambda>_. ''h''),
     hi_embed = (\<lambda>_. Some [1]), hi_providerName = ''p'', hi_modelName = ''m'', hi_dimension = 1,
     hi_clauseProvider = Application, hi_chunkProvider = Application, hi_allowFallback = False,
     hi_embeddingTtl = 60, hi_retrievalTtl = 60\<rparr>"

definition shelf_request :: "jstring \<Rightarrow> search_request" where
  "shelf_request q = \<lparr>sq_organizationId = ''o'', sq_question = q, sq_topK = 10, sq_contractId = Some ''k'', sq_history = []\<rparr>"

text \<open>The word for all of it, and two items numbered alike, under two articles.\<close>

definition broad_question :: jstring where
  "broad_question = [51204, 52404]"

definition first_item :: clause_row where
  "first_item = shelf_clause ''c1'' ''s'' [9312] [97, 46]"

definition second_item :: clause_row where
  "second_item = shelf_clause ''c2'' ''s'' [9312] [98, 46]"

definition item_db :: retrieval_db where
  "item_db = shelf_db [shelf_job ''s'' 1] [first_item, second_item]"

lemma shelf_revision:
  "latestAuthoritativeClauseSegmentationJobIds ''o'' (shelf_db [shelf_job i t] clauses) = [i]"
  by (simp add: latestAuthoritativeClauseSegmentationJobIds_def liveContractIds_def shelf_db_def shelf_job_def demo_seg_job_def)

lemma item_samples: "sampleHighValueClauses ''o'' (Some ''k'') item_db = [first_item, second_item]"
  unfolding sampleHighValueClauses_def item_db_def shelf_revision
  by (simp add: shelf_db_def contract_live_def first_item_def second_item_def shelf_clause_def contract_filter_def
      not_title_only_def HIGH_VALUE_CLAUSE_TYPES_def effective_type_def MAX_CLAUSES_PER_FAMILY_def)

lemma broad_complexity: "classifyQuestionComplexity broad_question = Comprehensive"
  by (simp add: classifyQuestionComplexity_def broad_question_def COMPREHENSIVE_SIGNAL_KEYWORDS_def includes_text_def
      match_eval)

text \<open>Without embeddings both searches succeed.\<close>

lemma clause_search_returns:
  assumes "\<And>store. \<not> isl (fst (hybridSearchClausesUncached cfg rq db store))"
  shows "\<not> isl (fst (hybridSearchClauses cfg rq db store))"
proof -
  obtain hit store1 where get: "cache_get (hi_now cfg) (buildRetrievalCacheKey cfg rq) store = (hit, store1)" by force
  obtain r store2 where run: "hybridSearchClausesUncached cfg rq db store1 = (r, store2)" by force
  then have "\<not> isl r" using assms [of store1] by simp
  then show ?thesis unfolding hybridSearchClauses_def Let_def get prod.case run
    by (simp split: option.split sum.split add: isl_def)
qed

lemma chunk_search_returns:
  assumes "\<And>store. \<not> isl (fst (hybridSearchDocumentChunksUncached cfg rq db store))"
  shows "\<not> isl (fst (hybridSearchDocumentChunks cfg rq db store))"
proof -
  obtain hit store1 where get: "cache_get (hi_now cfg) (chunkCacheKey cfg rq) store = (hit, store1)" by force
  obtain r store2 where run: "hybridSearchDocumentChunksUncached cfg rq db store1 = (r, store2)" by force
  then have "\<not> isl r" using assms [of store1] by simp
  then show ?thesis unfolding hybridSearchDocumentChunks_def Let_def get prod.case run
    by (simp split: option.split sum.split add: isl_def)
qed

lemma query_embedded: "\<not> isl (fst (getCachedQueryEmbedding shelf_env t store))"
  by (simp add: getCachedQueryEmbedding_def Let_def shelf_env_def split: prod.split option.split cache_value.split)

lemma embedding_found: "\<exists>v store'. getCachedQueryEmbedding shelf_env t store = (Inr v, store')"
  using query_embedded [of t store] by (cases "getCachedQueryEmbedding shelf_env t store"; cases "fst (getCachedQueryEmbedding shelf_env t store)") auto

lemma shelf_searches:
  assumes "clause_embeddings db = []" "chunk_embeddings db = []"
  obtains cs store' where "retrieveContext shelf_env guard rq topK db store = (Inr cs, store')"
proof -
  have clause: "searchClauseVectors False Application q db = Inr []" for q
    using assms by (simp add: searchClauseVectors_def application_clause_search_def best_rows_def Let_def)
  have chunk: "searchDocumentChunkVectors False Application q db = Inr []" for q
    using assms by (simp add: searchDocumentChunkVectors_def application_chunk_search_def best_rows_def Let_def)
  note embed = query_embedded
  have env: "hi_clauseProvider shelf_env = Application" "hi_chunkProvider shelf_env = Application"
    "hi_allowFallback shelf_env = False" by (simp_all add: shelf_env_def)
  have ran: "\<not> isl (fst (case getCachedQueryEmbedding shelf_env t store of
      (Inl e, store1) \<Rightarrow> (Inl e, store1) | (Inr v, store1) \<Rightarrow> (Inr (f v store1), store1)))" for t store f
    using embed [of t store] by (auto split: prod.split sum.split)
  have clauses: "\<not> isl (fst (hybridSearchClauses shelf_env rq db store))" for rq store
    by (rule clause_search_returns, unfold hybridSearchClausesUncached_def Let_def env clause sum.case, rule ran)
  have chunks: "\<not> isl (fst (hybridSearchDocumentChunks shelf_env rq db store))" for rq store
    by (rule chunk_search_returns, unfold hybridSearchDocumentChunksUncached_def Let_def env chunk sum.case, rule ran)
  let ?rq = "rq\<lparr>sq_topK := (case topK of Some k \<Rightarrow> k
    | None \<Rightarrow> if classifyQuestionComplexity (sq_question rq) = Comprehensive then COMPREHENSIVE_TOP_K
              else DEFAULT_TOP_K)\<rparr>"
  obtain crs store1 where "hybridSearchClauses shelf_env ?rq db store = (Inr crs, store1)"
    using clauses [of ?rq store] by (metis isl_def prod.collapse sum.exhaust_sel sum.collapse(2))
  moreover obtain krs store2 where "hybridSearchDocumentChunks shelf_env ?rq db store1 = (Inr krs, store2)"
    using chunks [of ?rq store1] by (metis isl_def prod.collapse sum.exhaust_sel sum.collapse(2))
  ultimately show thesis using that by (simp add: retrieveContext_def Let_def)
qed

lemma no_cached: "all_cached P Map.empty"
  by (simp add: all_cached_def)

lemma item_embeddings: "clause_embeddings item_db = []" "chunk_embeddings item_db = []"
  by (simp_all add: item_db_def shelf_db_def)

lemma item_keys: "distinct (map cr_id (contract_clauses item_db))" "distinct (map dk_id (document_chunks item_db))"
  "clause_index_ok (hi_clauseProvider shelf_env)" "chunk_index_ok (hi_chunkProvider shelf_env)"
  by (simp_all add: item_db_def shelf_db_def first_item_def second_item_def shelf_clause_def shelf_env_def
      clause_index_ok_def chunk_index_ok_def)

lemma shelf_request_sels: "sq_organizationId (shelf_request q) = ''o''" "sq_question (shelf_request q) = q"
  "sq_contractId (shelf_request q) = Some ''k''"
  by (simp_all add: shelf_request_def)

lemma item_provisions:
  "provisionKey (buildContext rt (sampled_result g db first_item) q) = asc ''k::'' @ [9312]"
  "provisionKey (buildContext rt (sampled_result g db second_item) q) = asc ''k::'' @ [9312]"
  by (simp_all add: provisionKey_def buildContext_def sampled_result_def first_item_def second_item_def shelf_clause_def
      article_token_def lit_def asc_def)


section \<open>Items of the same number\<close>

text \<open>C6: Two clauses of one contract that carry the same number are taken for one provision, although the
  identity of a provision is meant to keep different provisions of a contract apart: only an article's number
  is unique in a contract, the numbers of the items below it start again in each article. Whatever the two say
  and however high they score, no answer cites both.\<close>

theorem same_number_merges:
  assumes "retrieveContext cfg guard rq topK db store = (Inr cs, store')"
    and "distinct (map cr_id (contract_clauses db))" "distinct (map dk_id (document_chunks db))"
    and "clause_index_ok (hi_clauseProvider cfg)" "chunk_index_ok (hi_chunkProvider cfg)"
    and "all_cached (Not \<circ> cached_clauses) store" "all_cached (Not \<circ> cached_chunks) store"
    and "a \<in> set (contract_clauses db)" "b \<in> set (contract_clauses db)" "a \<noteq> b"
    and "cr_contractId a = cr_contractId b" "cr_clauseNumber a = Some n" "cr_clauseNumber b = Some n"
  shows "\<not> (list_ex (\<lambda>c. contractClauseId c = Some (cr_id a)) cs \<and>
             list_ex (\<lambda>c. contractClauseId c = Some (cr_id b)) cs)"
proof
  assume "list_ex (\<lambda>c. contractClauseId c = Some (cr_id a)) cs \<and> list_ex (\<lambda>c. contractClauseId c = Some (cr_id b)) cs"
  then obtain x y where xy: "x \<in> set cs" "contractClauseId x = Some (cr_id a)" "y \<in> set cs"
    "contractClauseId y = Some (cr_id b)" by (auto simp: list_ex_iff)
  note ok = retrieved_context [OF assms(1-7)]
  have row: "provisionKey c = asc (cr_contractId k) @ asc ''::'' @ (case article_token n of Some t \<Rightarrow> t | None \<Rightarrow> n)"
    if c: "c \<in> set cs" "contractClauseId c = Some (cr_id k)" "k \<in> set (contract_clauses db)" "cr_clauseNumber k = Some n" for c k
  proof -
    obtain k' where k': "clause_row_ok rq db k'" "cr_id k' = cr_id k" "ci_contractId c = cr_contractId k'"
      "ci_clauseReference c = clause_reference k'"
      using c(1,2) ok(3) by (fastforce simp: list_all_iff citation_source_def contractClauseId_def split: evidence.splits)
    have "k' = k" using k'(1,2) c(3) assms(2) by (auto simp: clause_row_ok_def distinct_map inj_on_def)
    then show ?thesis using k'(3,4) c(4) by (simp add: provisionKey_def clause_reference_def split: option.split)
  qed
  have "provisionKey x = provisionKey y"
    using row [OF xy(1,2) assms(8,12)] row [OF xy(3,4) assms(9,13)] assms(11) by simp
  then have "x = y" using ok(1) xy(1,3) by (auto simp: distinct_map inj_on_def)
  then have "cr_id a = cr_id b" using xy(2,4) by simp
  then show False using assms(2,8-10) by (auto simp: distinct_map inj_on_def)
qed

theorem same_number_merges_witness:
  "\<exists>cs store'. retrieveContext shelf_env default_guard (shelf_request broad_question) None item_db Map.empty =
       (Inr cs, store') \<and>
     cr_text first_item \<noteq> cr_text second_item \<and>
     sampleHighValueClauses ''o'' (Some ''k'') item_db = [first_item, second_item] \<and>
     \<not> (list_ex (\<lambda>c. contractClauseId c = Some ''c1'') cs \<and> list_ex (\<lambda>c. contractClauseId c = Some ''c2'') cs)"
proof -
  obtain cs store' where run: "retrieveContext shelf_env default_guard (shelf_request broad_question) None item_db Map.empty =
      (Inr cs, store')" using shelf_searches [OF item_embeddings] by metis
  have "first_item \<in> set (contract_clauses item_db)" "second_item \<in> set (contract_clauses item_db)"
    "first_item \<noteq> second_item" "cr_contractId first_item = cr_contractId second_item"
    "cr_clauseNumber first_item = Some [9312]" "cr_clauseNumber second_item = Some [9312]"
    "cr_id first_item = ''c1''" "cr_id second_item = ''c2''" "cr_text first_item \<noteq> cr_text second_item"
    by (simp_all add: item_db_def shelf_db_def first_item_def second_item_def shelf_clause_def)
  note items = this
  show ?thesis
    using run item_samples items(9) same_number_merges [OF run item_keys no_cached no_cached items(1-6), unfolded items(7,8)]
    by blast
qed

section \<open>The cache and a new revision\<close>

text \<open>The question \<^verbatim>\<open>aa\<close>; a contract whose second revision says the same elsewhere.\<close>

definition plain_question :: jstring where
  "plain_question = [97, 97]"

definition old_clause :: clause_row where
  "old_clause = shelf_clause ''c1'' ''s1'' [9312] [97, 97, 46]"

definition new_clause :: clause_row where
  "new_clause = shelf_clause ''c2'' ''s2'' [9313] [97, 97, 33]"

definition before_db :: retrieval_db where
  "before_db = shelf_db [shelf_job ''s1'' 1] [old_clause]"

definition after_db :: retrieval_db where
  "after_db = shelf_db [shelf_job ''s1'' 1, shelf_job ''s2'' 2] [old_clause, new_clause]"

lemma revisions: "latestAuthoritativeClauseSegmentationJobIds ''o'' before_db = [''s1'']"
  "latestAuthoritativeClauseSegmentationJobIds ''o'' after_db = [''s2'']"
  by (simp_all add: before_db_def after_db_def latestAuthoritativeClauseSegmentationJobIds_def liveContractIds_def shelf_db_def shelf_job_def
      demo_seg_job_def job_order_def)

lemma plain_keywords: "search_keywords plain_runtime plain_question plain_question = [plain_question]"
proof -
  have "extractKeywords plain_runtime plain_question = [plain_question]"
    by (simp add: extractKeywords_def plain_question_def plain_runtime_def split_runs.simps is_separator_def
      is_js_space_def js_trim_def js_trim_start_def js_trim_end_def MIN_TOKEN_LENGTH_def STOPWORDS_def asc_def
      isContractDomainStopword_def CONTRACT_DOMAIN_STOPWORD_BASES_def)
  moreover have "expandLegalConcepts plain_runtime plain_question = []"
    by (simp add: expandLegalConcepts_def plain_question_def CONCEPT_GROUPS_def concept_def triggered_def
      normalize_term_def plain_runtime_def includes_text_def test_match_def m_lit_def expandDelayContext_def
      DELAY_TRIGGER_TERMS_def MAX_EXPANSION_TERMS_def asc_def Let_def)
  ultimately show ?thesis by (simp add: search_keywords_def)
qed

lemma plain_history: "buildHistoryAugmentedSearchQuery q [] = q"
  by (simp add: buildHistoryAugmentedSearchQuery_def)

lemma plain_matches:
  "findClauseKeywordMatchCounts (search_env.truncate shelf_env) ''o'' [plain_question] (Some ''k'') before_db = [(''c1'', 1)]"
  "findClauseKeywordMatchCounts (search_env.truncate shelf_env) ''o'' [plain_question] (Some ''k'') after_db = [(''c2'', 1)]"
  unfolding findClauseKeywordMatchCounts_def revisions
  by (simp_all add: before_db_def after_db_def shelf_db_def old_clause_def new_clause_def shelf_clause_def
      search_env.defs shelf_env_def contract_live_def contract_filter_def not_title_only_def keyword_stems_def
      keyword_stem_def KEYWORD_STEM_LENGTH_def plain_question_def includes_text_def test_match_def m_lit_def
      match_count_def plain_runtime_def)

lemma plain_find:
  "find_clause (shelf_request q) before_db ''c1'' = Some old_clause"
  "find_clause (shelf_request q) after_db ''c2'' = Some new_clause"
  by (simp_all add: find_clause_def find_row_def before_db_def after_db_def shelf_db_def old_clause_def new_clause_def
      shelf_clause_def shelf_request_def contract_filter_def)

definition hit_ids :: "search_error + clause_hit list \<Rightarrow> string list" where
  "hit_ids r = (case r of Inl _ \<Rightarrow> [] | Inr rs \<Rightarrow> map hr_contractClauseId rs)"

lemma plain_search:
  assumes "(db, i) \<in> {(before_db, ''c1''), (after_db, ''c2'')}"
  obtains rs store' where "hybridSearchClausesUncached shelf_env (shelf_request plain_question) db store = (Inr rs, store')"
    "map hr_contractClauseId rs = [i]"
proof -
  let ?rq = "shelf_request plain_question"
  have vectors: "searchClauseVectors False Application q db = Inr []" for q
    using assms by (auto simp: searchClauseVectors_def application_clause_search_def best_rows_def Let_def before_db_def
        after_db_def shelf_db_def)
  have matches: "findClauseKeywordMatchCounts (search_env.truncate shelf_env) ''o'' [plain_question] (Some ''k'') db = [(i, 1)]"
    using assms plain_matches by auto
  have hydrate: "map hr_contractClauseId (hydrate_clause ?rq db r) = [i]" if "sc_id r = i" for r
    using assms that plain_find by (auto simp: hydrate_clause_def old_clause_def new_clause_def shelf_clause_def)
  have env: "hi_clauseProvider shelf_env = Application" "hi_allowFallback shelf_env = False" "se_runtime shelf_env = plain_runtime"
    "sq_history ?rq = []" "sq_topK ?rq = 10"
    by (simp_all add: shelf_env_def shelf_request_def)
  obtain v store1 where embed: "getCachedQueryEmbedding shelf_env (normalizeClauseText plain_runtime plain_question) store = (Inr v, store1)"
    using embedding_found by metis
  show thesis
    by (rule that, unfold hybridSearchClausesUncached_def Let_def env shelf_request_sels plain_history plain_keywords
        matches embed prod.case sum.case vectors, rule refl)
      (simp add: search_candidates_def mergeScores_def rerank_def hydrate)
qed


end
