(* ===== verification/Spec2Isabelle.thy ===== *)
theory Spec2Isabelle
  imports Resilience RateLimit Concurrency Budget FieldExtraction Mail Members EmbeddingLaws AskQuestion
    Batch ClauseDiff RetrievalLaws
begin

text \<open>
  Senecial is a contract-management service (a Next.js application over PostgreSQL, Redis and
  external AI providers). Organizations upload contracts; background workers extract their text and
  key fields, cut the text into clauses and chunks, embed these and answer questions about them;
  members join by invitation and are told things by mail. This library models the parts that decide:
  guards, state machines, limits, retries, and the computations on contract text. All source paths
  below are under \<^verbatim>\<open>src/src/\<close>.

  \<^bold>\<open>How the program is modelled.\<close> A database table is a list of rows (\<open>record\<close>s with the columns the
  sources read), the database a record extended by each component's tables, so that an operation on
  few tables also runs on a larger database. An operation is a function from its arguments, the
  clock and the database to its result, \<open>Inl\<close> a thrown error, and the new database; a transaction that
  throws leaves the database unchanged, and unique indexes are part of the insertions. Operations
  run one after the other unless a theory splits them into their reads and writes. JavaScript
  strings that the sources cut up are lists of UTF-16 code units (\<open>jstring\<close>), identifiers and keys
  HOL strings, times milliseconds as \<open>int\<close>. What is not under \<^verbatim>\<open>src/\<close> is a parameter: AI providers, the
  mailer, object storage, SHA-256 and the token hash, the tokenizer, and the database extension for
  vectors.

  \<^bold>\<open>Shared theories.\<close> \<^verbatim>\<open>Prelude\<close>: JavaScript strings and numerals. \<^verbatim>\<open>JsText\<close>: normalization of clause
  text and regular expressions as matchers. \<^verbatim>\<open>Db\<close>: errors
  (\<^verbatim>\<open>lib/errors\<close>), tables, audit entries, the membership check (\<^verbatim>\<open>lib/permissions\<close>), and the locale
  \<open>bounded_retry\<close>, the contract of every job table with an attempt counter. \<^verbatim>\<open>RedisCounters\<close>: the Redis
  commands the Lua scripts use.

  \<^bold>\<open>Limits around AI calls.\<close>
  \<^verbatim>\<open>CircuitBreaker\<close> (\<^verbatim>\<open>domain/ai/circuit-breaker.ts\<close>, \<^verbatim>\<open>server/services/ai/circuit-breaker\<close>): the
  in-process breaker and the Redis scripts, when they agree and when not, the single probe.
  \<^verbatim>\<open>Resilience\<close> (\<^verbatim>\<open>execute-with-resilience.ts\<close>, \<^verbatim>\<open>fallback-llm-provider.ts\<close>, error codes, canary and
  pricing): the retry loop, a \<open>function\<close> ended by the number of retries left, its bounds on attempts and
  time, and the hand-over between providers.
  \<^verbatim>\<open>RateLimit\<close> (\<^verbatim>\<open>server/services/rate-limit\<close>, \<^verbatim>\<open>lib/http/client-ip.ts\<close>), \<^verbatim>\<open>Concurrency\<close>
  (\<^verbatim>\<open>server/services/ai/concurrency\<close>) and \<^verbatim>\<open>Budget\<close> (\<^verbatim>\<open>server/services/ai/budget\<close>): each limiter in memory
  and in Redis, the contract both keep as a locale interpreted on both, and the client's guarantees
  proved once in the locale.

  \<^bold>\<open>Contract pipelines.\<close>
  \<^verbatim>\<open>FieldExtraction\<close> (\<^verbatim>\<open>domain/extraction\<close>, \<^verbatim>\<open>features/extraction/server\<close>): jobs, review and application of
  suggestions; claims are bounded by \<open>bounded_retry\<close>, and only approved values reach a contract.
  \<^verbatim>\<open>Segmentation\<close> (\<^verbatim>\<open>domain/clauses\<close>, \<^verbatim>\<open>server/services/clauses\<close>): clause markers, the rule-based
  segmenter and the hierarchy check; offsets are exact, nothing of the document is lost, the parent
  walk always ends (its fuel is the number of clauses, one more step than an acyclic chain can have).
  \<^verbatim>\<open>Chunker\<close> (\<^verbatim>\<open>domain/ai/document-chunker.ts\<close>): the chunks of a document; they are exact and in order,
  and hold all of it unless a paragraph is cut into sentences.
  \<^verbatim>\<open>SegmentationJobs\<close> (\<^verbatim>\<open>features/clauses/server\<close>): the worker around it; what it stores is the
  document's segmentation.
  \<^verbatim>\<open>EmbeddingJobs\<close> (\<^verbatim>\<open>features/ai/server/process-embedding-job.ts\<close> and its chunk twin): the queues, the
  worker composed with the budget, stale recovery and the scans; \<^verbatim>\<open>EmbeddingLaws\<close> proves its laws: both
  tables stay well formed, the budget is charged exactly for what was embedded, failures are final.

  \<^bold>\<open>Retrieval.\<close>
  \<^verbatim>\<open>HashEmbedding\<close> (\<^verbatim>\<open>domain/ai/hashing-trick-embedding.ts\<close>, \<^verbatim>\<open>cosine-similarity.ts\<close>): the embedding computed in
  the process, its hash as arithmetic on \<open>32 word\<close>, similarity over the reals in place of doubles.
  \<^verbatim>\<open>Keywords\<close> (\<^verbatim>\<open>keyword-extraction.ts\<close>, \<^verbatim>\<open>legal-concept-expansion.ts\<close>) and \<^verbatim>\<open>Evidence\<close> (\<^verbatim>\<open>evidence-sentence.ts\<close>,
  \<^verbatim>\<open>context-builder.ts\<close>): what is searched for, and the sentence and label a citation shows.
  \<^verbatim>\<open>RetrievalTables\<close> (\<^verbatim>\<open>server/repositories\<close>, \<^verbatim>\<open>server/services/ai/vector-search\<close>): the latest revision of a live
  contract and the queries over it; \<open>vector_leg\<close> is the contract of a vector search, interpreted on both
  searches in the process and assumed of the database's index. \<^verbatim>\<open>HybridSearch\<close> (\<^verbatim>\<open>features/ai/server/hybrid-search-*.ts\<close>,
  \<^verbatim>\<open>retrieve-context.ts\<close>) composes them with the caches; \<^verbatim>\<open>RetrievalLaws\<close> shows that what reaches an answer is
  evidence of the latest revision, and three cases where it is not what the comments promise.

  \<^bold>\<open>Questions and answers.\<close>
  \<^verbatim>\<open>Citations\<close> (\<^verbatim>\<open>domain/ai/citation*.ts\<close>, \<^verbatim>\<open>hallucination-guard.ts\<close>): markers, answer blocks, the
  grounding check and the citations an answer used; what an accepted answer guarantees.
  \<^verbatim>\<open>Prompt\<close> (\<^verbatim>\<open>prompt-builder.ts\<close>, \<^verbatim>\<open>broad-issue-selection.ts\<close>, \<^verbatim>\<open>context-token-budget.ts\<close>): what the model
  is shown, and that it fits. \<^verbatim>\<open>AskQuestion\<close> (\<^verbatim>\<open>features/ai/server/ask-question.ts\<close>) composes them with the
  budget and the providers into the two entry points: the stream agrees with the check of the whole
  answer, only grounded text is delivered, and what is charged follows how the stream ends. The
  generator is a function of the number of events its consumer takes; draining the buffer ends because
  the buffer shrinks.

  \<^verbatim>\<open>ClauseDiff\<close> (\<^verbatim>\<open>domain/clauses/clause-diff.ts\<close>): the comparison with a standard clause; the table and the
  walk through it equal a recursive difference that is optimal.

  \<^bold>\<open>Batch jobs.\<close>
  \<^verbatim>\<open>Batch\<close> (\<^verbatim>\<open>server/batch\<close>, \<^verbatim>\<open>domain/batch\<close>): the wrapper of every batch script as a step relation over any
  number of processes; exclusion, once per window, final rows, heartbeats against recovery.

  \<^bold>\<open>People and mail.\<close>
  \<^verbatim>\<open>Members\<close> (\<^verbatim>\<open>features/members/server\<close>, \<^verbatim>\<open>features/invitations/server\<close>): roles, removals, the invitation life
  cycle; role changes are also split into reads and writes for their interleavings.
  \<^verbatim>\<open>Mail\<close> (\<^verbatim>\<open>features/mail/server\<close>, \<^verbatim>\<open>server/services/email\<close>): the outbox, its worker and its keys.

  \<^bold>\<open>Not modelled.\<close> Pages, forms and React components; HTTP clients and servers of external services
  (their answers are parameters); configuration read from environment variables; metrics, logging
  and health probes; SQL that only aggregates for the dashboard; the vector distance, which the
  database computes; backup tools and scripts. The manifest lists each part with its reason.
\<close>

end
